(* ===== verification/Prelude.thy ===== *)
theory Prelude
  imports Main "HOL-Library.Word"
begin

unbundle bit_operations_syntax

text \<open>
  Shared vocabulary of the development: the machine types of \<^verbatim>\<open>types.h\<close>, the flat byte memory
  that pointers index, its little-endian 32-bit accesses, and the generic facts about them that
  the component theories use. The last section states the interface every state component
  implements: a set of operations that keep an invariant.
\<close>

section \<open>Machine types\<close>

type_synonym byte = "8 word"
type_synonym u16 = "16 word"
type_synonym u32 = "32 word"

text \<open>A pointer is a \<open>u32\<close>; the memory is the store behind the pointers.\<close>

type_synonym memory = "u32 \<Rightarrow> byte"

named_theorems mem_simps \<open>reading and writing runs of bytes\<close>
named_theorems mem_eval \<open>evaluating runs of bytes at numeral lengths\<close>
named_theorems word_ofs \<open>offsets between addresses\<close>

section \<open>Offsets between addresses\<close>

text \<open>
  All facts on runs of bytes go through the offset of an address from the start of the run,
  \<open>unat (b - a)\<close>: this is right also for a run that wraps around the end of the address space.
\<close>

lemma unat_minus_Suc [word_ofs]:
  fixes a b :: u32
  assumes "b \<noteq> a"
  shows "unat (b - (a + 1)) = unat (b - a) - 1"
proof -
  have "b - a \<noteq> 0" using assms by simp
  then have "unat (b - a - 1) = unat (b - a) - 1" by (rule unat_minus_one)
  then show ?thesis by (simp add: diff_diff_eq)
qed

lemma unat_minus_eq_Suc:
  fixes a b :: u32
  assumes "b \<noteq> a"
  shows "unat (b - a) = Suc (unat (b - (a + 1)))"
proof -
  have "unat (b - a) \<noteq> 0" using assms by (simp add: unat_eq_0)
  with unat_minus_Suc [OF assms] show ?thesis by simp
qed

lemma of_nat_of_unat: "of_nat (unat x) = (x :: u32)"
  by simp

lemma unat_of_nat_less: "i < 2 ^ 32 \<Longrightarrow> unat (of_nat i :: u32) = i"
  by (simp add: unat_of_nat)

lemma sint_of_nat_small: "n < 2 ^ 31 \<Longrightarrow> sint (of_nat n :: u32) = int n"
  by (simp add: signed_of_nat signed_take_bit_int_eq_self)

lemma unat_lt32: "unat (x :: u32) < 2 ^ 32"
  using unsigned_less [of x, where 'a = nat] by simp

lemma unat_Suc_less: "i < n \<Longrightarrow> unat (i + 1 :: u32) = Suc (unat i)"
  using unat_lt32 [of n] by (simp add: unat_plus_if' word_less_nat_alt)

lemma word_Suc_le: "i < n \<Longrightarrow> i + 1 \<le> (n :: u32)"
  by (simp add: word_le_nat_alt unat_Suc_less) (simp add: word_less_nat_alt)

lemma unat_minus_1 [word_ofs]: "unat (- 1 :: u32) = 2 ^ 32 - 1"
  by (simp only: unsigned_minus_1_eq_mask mask_eq_exp_minus_1) simp

lemma unat_of_nat_ofs [simp]:
  assumes "i < 2 ^ 32"
  shows "unat (a + of_nat i - a :: u32) = i"
  using assms by (simp add: unat_of_nat_less)

lemma unat_ofs_shift:
  fixes a b :: u32
  assumes "unat (b - a) \<ge> k"
  shows "unat (b - (a + of_nat k)) = unat (b - a) - k"
proof -
  have k: "k < 2 ^ 32" using assms unat_lt32 [of "b - a"] by simp
  then have "of_nat k \<le> b - a"
    using assms by (simp add: word_le_nat_alt unat_of_nat_less)
  then have "unat (b - a - of_nat k) = unat (b - a) - k"
    using k by (simp add: unat_sub unat_of_nat_less)
  then show ?thesis by (simp add: diff_diff_eq)
qed

lemma unat_ofs_below:
  fixes a b :: u32
  assumes "unat (b - a) < k" and "k < 2 ^ 32"
  shows "unat (b - (a + of_nat k)) = 2 ^ 32 + unat (b - a) - k"
proof -
  have "unat (b - a - of_nat k) = unat (b - a) + 2 ^ 32 - k"
    using assms by (simp add: unat_sub_if_size unat_of_nat_less word_size)
  then show ?thesis by (simp add: diff_diff_eq)
qed

section \<open>Runs of bytes\<close>

primrec wr_bytes :: "memory \<Rightarrow> u32 \<Rightarrow> byte list \<Rightarrow> memory" where
  "wr_bytes m a [] = m"
| "wr_bytes m a (x # xs) = wr_bytes (m(a := x)) (a + 1) xs"

primrec rd_bytes :: "memory \<Rightarrow> u32 \<Rightarrow> nat \<Rightarrow> byte list" where
  "rd_bytes m a 0 = []"
| "rd_bytes m a (Suc n) = m a # rd_bytes m (a + 1) n"

text \<open>The addresses of a run of \<open>n\<close> bytes.\<close>

definition region :: "u32 \<Rightarrow> nat \<Rightarrow> u32 set" where
  "region a n = {b. unat (b - a) < n}"

definition disjoint_regions :: "u32 \<Rightarrow> nat \<Rightarrow> u32 \<Rightarrow> nat \<Rightarrow> bool" where
  "disjoint_regions a n b k \<longleftrightarrow> region a n \<inter> region b k = {}"

lemma wr_bytes_at [mem_simps]:
  assumes "length xs \<le> 2 ^ 32"
  shows "wr_bytes m a xs b =
    (if unat (b - a) < length xs then xs ! unat (b - a) else m b)"
  using assms
proof (induction xs arbitrary: m a)
  case Nil
  then show ?case by simp
next
  case (Cons x xs)
  show ?case
  proof (cases "b = a")
    case True
    with Cons show ?thesis by (simp add: word_ofs)
  next
    case False
    then have "unat (b - a) \<noteq> 0" by (simp add: unat_eq_0)
    with False Cons show ?thesis
      by (cases "unat (b - a)") (auto simp: word_ofs)
  qed
qed

lemma rd_bytes_numeral [mem_eval]:
  "rd_bytes m a (numeral k) = m a # rd_bytes m (a + 1) (pred_numeral k)"
  by (simp add: numeral_eq_Suc)

lemma replicate_numeral_eval [mem_eval]:
  "replicate (numeral k) x = x # replicate (pred_numeral k) x"
  by (simp add: numeral_eq_Suc)

lemma length_rd_bytes [simp]: "length (rd_bytes m a n) = n"
  by (induction n arbitrary: a) auto

lemma nth_rd_bytes [simp]: "i < n \<Longrightarrow> rd_bytes m a n ! i = m (a + of_nat i)"
proof (induction n arbitrary: a i)
  case 0
  then show ?case by simp
next
  case (Suc n)
  then show ?case by (cases i) (auto simp: algebra_simps)
qed

lemma rd_bytes_conv: "rd_bytes m a n = map (\<lambda>i. m (a + of_nat i)) [0..<n]"
  by (rule nth_equalityI) auto

lemma wr_bytes_append [mem_simps]:
  "wr_bytes m a (xs @ ys) = wr_bytes (wr_bytes m a xs) (a + of_nat (length xs)) ys"
  by (induction xs arbitrary: m a) (auto simp: algebra_simps)

lemma rd_bytes_add [mem_simps]:
  "rd_bytes m a (n + k) = rd_bytes m a n @ rd_bytes m (a + of_nat n) k"
  by (induction n arbitrary: a) (auto simp: algebra_simps)

lemma rd_bytes_cong:
  "(\<And>i. i < n \<Longrightarrow> m (a + of_nat i) = m' (b + of_nat i)) \<Longrightarrow> rd_bytes m a n = rd_bytes m' b n"
  by (rule nth_equalityI) auto

lemma in_region_iff: "b \<in> region a n \<longleftrightarrow> unat (b - a) < n"
  by (simp add: region_def)

lemma region_0 [simp]: "region a 0 = {}"
  by (auto simp: region_def)

lemma add_in_region: "i < n \<Longrightarrow> n \<le> 2 ^ 32 \<Longrightarrow> a + of_nat i \<in> region a n"
  by (simp add: region_def unat_of_nat_less)

lemma region_mono: "k \<le> n \<Longrightarrow> region a k \<subseteq> region a n"
  by (auto simp: region_def)

lemma region_sub:
  assumes "i + k \<le> n" and "n \<le> 2 ^ 32"
  shows "region (a + of_nat i) k \<subseteq> region a n"
proof
  fix b assume b: "b \<in> region (a + of_nat i) k"
  show "b \<in> region a n"
  proof (cases "i \<le> unat (b - a)")
    case True
    then show ?thesis using b assms by (simp add: region_def unat_ofs_shift)
  next
    case False
    show ?thesis
    proof (cases "i < 2 ^ 32")
      case True
      then show ?thesis using b False assms by (simp add: region_def unat_ofs_below)
    next
      case c: False
      then have "k = 0" using assms by simp
      then show ?thesis using b by simp
    qed
  qed
qed

lemma wr_bytes_outside [mem_simps]:
  "b \<notin> region a (length xs) \<Longrightarrow> length xs \<le> 2 ^ 32 \<Longrightarrow> wr_bytes m a xs b = m b"
  by (simp add: wr_bytes_at region_def)

lemma wr_bytes_inside:
  "i < length xs \<Longrightarrow> length xs \<le> 2 ^ 32 \<Longrightarrow> wr_bytes m a xs (a + of_nat i) = xs ! i"
  by (simp add: wr_bytes_at unat_of_nat_less)

lemma wr_bytes_upd_comm:
  assumes "b \<notin> region a (length xs)" and "length xs \<le> 2 ^ 32"
  shows "wr_bytes (m(b := x)) a xs = (wr_bytes m a xs)(b := x)"
  using assms by (auto simp: fun_eq_iff wr_bytes_at region_def)

lemma rd_bytes_upd_outside:
  assumes "b \<notin> region a n" and "n \<le> 2 ^ 32"
  shows "rd_bytes (m(b := x)) a n = rd_bytes m a n"
  using assms by (intro rd_bytes_cong) (auto dest: add_in_region)

lemma wr_bytes_overwrite:
  assumes "length ys = length xs" and "length xs + length zs \<le> 2 ^ 32"
  shows "wr_bytes (wr_bytes m a (xs @ zs)) a ys = wr_bytes m a (ys @ zs)"
  using assms by (auto simp: fun_eq_iff wr_bytes_at nth_append)

lemma rd_wr_bytes_same [mem_simps]:
  "length xs \<le> 2 ^ 32 \<Longrightarrow> rd_bytes (wr_bytes m a xs) a (length xs) = xs"
  by (rule nth_equalityI) (simp_all add: wr_bytes_inside)

lemma rd_wr_bytes_disjoint [mem_simps]:
  assumes "disjoint_regions a (length xs) b n" and "length xs \<le> 2 ^ 32" and "n \<le> 2 ^ 32"
  shows "rd_bytes (wr_bytes m a xs) b n = rd_bytes m b n"
proof (rule nth_equalityI)
  fix i assume i: "i < length (rd_bytes (wr_bytes m a xs) b n)"
  then have "b + of_nat i \<in> region b n" using assms(3) by (intro add_in_region) auto
  then have "b + of_nat i \<notin> region a (length xs)"
    using assms(1) by (auto simp: disjoint_regions_def)
  with i assms(2) show "rd_bytes (wr_bytes m a xs) b n ! i = rd_bytes m b n ! i"
    by (simp add: wr_bytes_outside)
qed simp

lemma disjoint_regions_sym: "disjoint_regions a n b k \<longleftrightarrow> disjoint_regions b k a n"
  by (auto simp: disjoint_regions_def)

lemma disjoint_regions_sub:
  assumes "disjoint_regions a n b k"
    and "i + n' \<le> n" and "j + k' \<le> k" and "n \<le> 2 ^ 32" and "k \<le> 2 ^ 32"
  shows "disjoint_regions (a + of_nat i) n' (b + of_nat j) k'"
  using assms(1) region_sub [OF assms(2,4), of a] region_sub [OF assms(3,5), of b]
  unfolding disjoint_regions_def by blast

lemma disjoint_regions_1D: "disjoint_regions a 1 b n \<Longrightarrow> a \<notin> region b n"
proof -
  have "a \<in> region a 1" by (simp add: region_def)
  then show "disjoint_regions a 1 b n \<Longrightarrow> a \<notin> region b n"
    unfolding disjoint_regions_def by blast
qed

text \<open>Regions that do not wrap are intervals, which is how disjointness is decided.\<close>

lemma region_interval:
  assumes "unat a + n \<le> 2 ^ 32"
  shows "region a n = {b. unat a \<le> unat b \<and> unat b < unat a + n}"
proof -
  have "unat (b - a) < n \<longleftrightarrow> unat a \<le> unat b \<and> unat b < unat a + n" for b
    using assms unat_lt32 [of b] by (auto simp: unat_sub_if_size word_size)
  then show ?thesis by (auto simp: region_def)
qed

lemma disjoint_regions_intervalI:
  assumes "unat a + n \<le> 2 ^ 32" and "unat b + k \<le> 2 ^ 32"
    and "unat a + n \<le> unat b \<or> unat b + k \<le> unat a"
  shows "disjoint_regions a n b k"
  using assms by (auto simp: disjoint_regions_def region_interval)

section \<open>Little-endian 32-bit accesses\<close>

definition le32 :: "byte list \<Rightarrow> u32" where
  "le32 bs = (ucast (bs ! 0) OR push_bit 8 (ucast (bs ! 1)))
     OR (push_bit 16 (ucast (bs ! 2)) OR push_bit 24 (ucast (bs ! 3)))"

definition bytes32 :: "u32 \<Rightarrow> byte list" where
  "bytes32 w = [ucast w, ucast (drop_bit 8 w), ucast (drop_bit 16 w), ucast (drop_bit 24 w)]"

definition rd32 :: "memory \<Rightarrow> u32 \<Rightarrow> u32" where
  "rd32 m a = le32 (rd_bytes m a 4)"

definition wr32 :: "memory \<Rightarrow> u32 \<Rightarrow> u32 \<Rightarrow> memory" where
  "wr32 m a v = wr_bytes m a (bytes32 v)"

lemma length_bytes32 [simp]: "length (bytes32 w) = 4"
  by (simp add: bytes32_def)

lemma bit_byte_less: "bit (a :: byte) n \<Longrightarrow> n < 8"
  using bit_imp_le_length [of a n] by simp

lemma le32_bytes32 [simp]: "le32 (bytes32 w) = w"
proof (rule bit_word_eqI)
  fix n assume "n < LENGTH(32)"
  then consider "n < 8" | "8 \<le> n" "n < 16" | "16 \<le> n" "n < 24" | "24 \<le> n" "n < 32"
    by force
  then show "bit (le32 (bytes32 w)) n = bit w n"
    by cases (auto simp: le32_def bytes32_def bit_simps)
qed

lemma bytes32_le32:
  assumes "length bs = 4"
  shows "bytes32 (le32 bs) = bs"
proof -
  obtain a b c d where bs: "bs = [a, b, c, d]"
    using assms by (auto simp: numeral_eq_Suc length_Suc_conv)
  have "ucast (le32 bs) = a"
    by (rule bit_word_eqI) (auto simp: bs le32_def bit_simps dest: bit_byte_less)
  moreover have "ucast (drop_bit 8 (le32 bs)) = b"
    by (rule bit_word_eqI) (auto simp: bs le32_def bit_simps dest: bit_byte_less)
  moreover have "ucast (drop_bit 16 (le32 bs)) = c"
    by (rule bit_word_eqI) (auto simp: bs le32_def bit_simps dest: bit_byte_less)
  moreover have "ucast (drop_bit 24 (le32 bs)) = d"
    by (rule bit_word_eqI) (auto simp: bs le32_def bit_simps dest: bit_byte_less)
  ultimately show ?thesis by (simp add: bytes32_def bs)
qed

lemma wr32_rd32: "wr32 m d (rd32 m' s) = wr_bytes m d (rd_bytes m' s 4)"
  by (simp add: wr32_def rd32_def bytes32_le32)

lemma rd32_wr32_same [mem_simps]: "rd32 (wr32 m a v) a = v"
  using rd_wr_bytes_same [of "bytes32 v" m a] by (simp add: rd32_def wr32_def)

section \<open>The contract of a state component\<close>

text \<open>
  A component is a set of operations on its state, each of which keeps the component's
  invariant. What holds of one operation then holds of every sequence of operations, in any
  order: this is proved here once and used by the components.
\<close>

locale keeps_invariant =
  fixes step :: "'op \<Rightarrow> 's \<Rightarrow> 's"
    and inv :: "'s \<Rightarrow> bool"
  assumes step_inv: "inv s \<Longrightarrow> inv (step x s)"
begin

lemma run_inv: "inv s \<Longrightarrow> inv (fold step xs s)"
  by (induction xs arbitrary: s) (auto intro: step_inv)

end

text \<open>
  A component that implements a specification: each operation, seen through the abstraction, is
  the operation of the specification. Then so is every sequence of operations.
\<close>

locale refinement = keeps_invariant step inv
  for step :: "'op \<Rightarrow> 's \<Rightarrow> 's" and inv :: "'s \<Rightarrow> bool" +
  fixes abs :: "'s \<Rightarrow> 'a"
    and astep :: "'op \<Rightarrow> 'a \<Rightarrow> 'a"
  assumes step_abs: "inv s \<Longrightarrow> abs (step x s) = astep x (abs s)"
begin

lemma run_abs: "inv s \<Longrightarrow> abs (fold step xs s) = fold astep xs (abs s)"
  by (induction xs arbitrary: s) (simp_all add: step_abs step_inv)

end

text \<open>
  A specification whose operations have a precondition: it is checked on the abstract state, and a
  sequence of operations is allowed when each operation is allowed where it is performed.
\<close>

primrec allowed_run :: "('op \<Rightarrow> 'a \<Rightarrow> bool) \<Rightarrow> ('op \<Rightarrow> 'a \<Rightarrow> 'a) \<Rightarrow> 'op list \<Rightarrow> 'a \<Rightarrow> bool" where
  "allowed_run guard astep [] a \<longleftrightarrow> True"
| "allowed_run guard astep (x # xs) a \<longleftrightarrow> guard x a \<and> allowed_run guard astep xs (astep x a)"

locale guarded_refinement =
  fixes step :: "'op \<Rightarrow> 's \<Rightarrow> 's"
    and inv :: "'s \<Rightarrow> bool"
    and abs :: "'s \<Rightarrow> 'a"
    and guard :: "'op \<Rightarrow> 'a \<Rightarrow> bool"
    and astep :: "'op \<Rightarrow> 'a \<Rightarrow> 'a"
  assumes guarded_inv: "inv s \<Longrightarrow> guard x (abs s) \<Longrightarrow> inv (step x s)"
    and guarded_abs: "inv s \<Longrightarrow> guard x (abs s) \<Longrightarrow> abs (step x s) = astep x (abs s)"
begin

lemma guarded_run:
  "inv s \<Longrightarrow> allowed_run guard astep xs (abs s) \<Longrightarrow>
   inv (fold step xs s) \<and> abs (fold step xs s) = fold astep xs (abs s)"
  by (induction xs arbitrary: s) (simp_all add: guarded_inv guarded_abs)

end

text \<open>Operations that leave an observation alone: a frame condition.\<close>

locale keeps_frame = keeps_invariant step inv
  for step :: "'op \<Rightarrow> 's \<Rightarrow> 's" and inv :: "'s \<Rightarrow> bool" +
  fixes obs :: "'s \<Rightarrow> 'o"
  assumes step_obs: "inv s \<Longrightarrow> obs (step x s) = obs s"
begin

lemma run_obs: "inv s \<Longrightarrow> obs (fold step xs s) = obs s"
  by (induction xs arbitrary: s) (simp_all add: step_obs step_inv)

end

end
