(* ===== verification/Lib_Mem.thy ===== *)
theory Lib_Mem
  imports Prelude
begin

unbundle bit_operations_syntax

text \<open>
  The memory routines of \<^verbatim>\<open>lib.c\<close> (\<open>memset\<close>, \<open>memset_word\<close>, \<open>memset_dword\<close>, \<open>memcpy\<close>,
  \<open>memmove\<close>). They are inline assembly: the model follows the labels of the assembly, with
  \<open>EDI\<close>, \<open>ESI\<close> and the counter in \<open>ECX\<close> as arguments. The lemmas show that the routines that
  work on aligned double words do what a loop over single bytes does.
\<close>

section \<open>The string instructions\<close>

text \<open>\<open>rep stosw\<close> and \<open>rep stosl\<close>, direction flag clear: \<open>ECX\<close> stores of 2 or 4 bytes.\<close>

definition bytes16 :: "u16 \<Rightarrow> byte list" where
  "bytes16 w = [ucast w, ucast (drop_bit 8 w)]"

primrec rep_stosw :: "memory \<Rightarrow> u32 \<Rightarrow> u16 \<Rightarrow> nat \<Rightarrow> memory" where
  "rep_stosw m edi ax 0 = m"
| "rep_stosw m edi ax (Suc ecx) = rep_stosw (wr_bytes m edi (bytes16 ax)) (edi + 2) ax ecx"

primrec rep_stosl :: "memory \<Rightarrow> u32 \<Rightarrow> u32 \<Rightarrow> nat \<Rightarrow> memory" where
  "rep_stosl m edi eax 0 = m"
| "rep_stosl m edi eax (Suc ecx) = rep_stosl (wr32 m edi eax) (edi + 4) eax ecx"

text \<open>\<open>rep movsl\<close> with the direction flag clear, \<open>rep movsb\<close> in both directions.\<close>

primrec rep_movsl :: "memory \<Rightarrow> u32 \<Rightarrow> u32 \<Rightarrow> nat \<Rightarrow> memory" where
  "rep_movsl m edi esi 0 = m"
| "rep_movsl m edi esi (Suc ecx) = rep_movsl (wr32 m edi (rd32 m esi)) (edi + 4) (esi + 4) ecx"

primrec rep_movsb :: "bool \<Rightarrow> memory \<Rightarrow> u32 \<Rightarrow> u32 \<Rightarrow> nat \<Rightarrow> memory" where
  "rep_movsb df m edi esi 0 = m"
| "rep_movsb df m edi esi (Suc ecx) =
     rep_movsb df (m(edi := m esi)) (if df then edi - 1 else edi + 1)
       (if df then esi - 1 else esi + 1) ecx"

section \<open>The routines\<close>

subsection \<open>memset\<close>

primrec memset_bottom :: "memory \<Rightarrow> u32 \<Rightarrow> byte \<Rightarrow> nat \<Rightarrow> memory" where
  "memset_bottom m edi al 0 = m"
| "memset_bottom m edi al (Suc edx) = memset_bottom (m(edi := al)) (edi + 1) al edx"

definition memset_aligned :: "memory \<Rightarrow> u32 \<Rightarrow> u32 \<Rightarrow> nat \<Rightarrow> memory" where
  "memset_aligned m edi eax ecx =
     memset_bottom (rep_stosl m edi eax (ecx div 4)) (edi + of_nat (4 * (ecx div 4)))
       (ucast eax) (ecx mod 4)"

fun memset_top :: "memory \<Rightarrow> u32 \<Rightarrow> u32 \<Rightarrow> nat \<Rightarrow> memory" where
  "memset_top m edi eax 0 = m"
| "memset_top m edi eax (Suc ecx) =
     (if edi AND 3 = 0 then memset_aligned m edi eax (Suc ecx)
      else memset_top (m(edi := ucast eax)) (edi + 1) eax ecx)"

definition memset :: "memory \<Rightarrow> u32 \<Rightarrow> u32 \<Rightarrow> u32 \<Rightarrow> memory" where
  "memset m s c n =
     (let c = c AND 0xFF
      in memset_top m s (push_bit 24 c OR push_bit 16 c OR push_bit 8 c OR c) (unat n))"

definition memset_word :: "memory \<Rightarrow> u32 \<Rightarrow> u32 \<Rightarrow> u32 \<Rightarrow> memory" where
  "memset_word m s c n = rep_stosw m s (ucast c) (unat n)"

definition memset_dword :: "memory \<Rightarrow> u32 \<Rightarrow> u32 \<Rightarrow> u32 \<Rightarrow> memory" where
  "memset_dword m s c n = rep_stosl m s c (unat n)"

subsection \<open>memcpy and memmove\<close>

primrec memcpy_bottom :: "memory \<Rightarrow> u32 \<Rightarrow> u32 \<Rightarrow> nat \<Rightarrow> memory" where
  "memcpy_bottom m edi esi 0 = m"
| "memcpy_bottom m edi esi (Suc edx) =
     memcpy_bottom (m(edi := m esi)) (edi + 1) (esi + 1) edx"

definition memcpy_aligned :: "memory \<Rightarrow> u32 \<Rightarrow> u32 \<Rightarrow> nat \<Rightarrow> memory" where
  "memcpy_aligned m edi esi ecx =
     memcpy_bottom (rep_movsl m edi esi (ecx div 4)) (edi + of_nat (4 * (ecx div 4)))
       (esi + of_nat (4 * (ecx div 4))) (ecx mod 4)"

fun memcpy_top :: "memory \<Rightarrow> u32 \<Rightarrow> u32 \<Rightarrow> nat \<Rightarrow> memory" where
  "memcpy_top m edi esi 0 = m"
| "memcpy_top m edi esi (Suc ecx) =
     (if edi AND 3 = 0 then memcpy_aligned m edi esi (Suc ecx)
      else memcpy_top (m(edi := m esi)) (edi + 1) (esi + 1) ecx)"

definition memcpy :: "memory \<Rightarrow> u32 \<Rightarrow> u32 \<Rightarrow> u32 \<Rightarrow> memory" where
  "memcpy m dest src n = memcpy_top m dest src (unat n)"

text \<open>
  \<open>memmove\<close> returns the memory and the direction flag it leaves behind: the assembly sets it
  with \<open>std\<close> for a backward copy and nothing clears it again.
\<close>

definition memmove :: "memory \<Rightarrow> u32 \<Rightarrow> u32 \<Rightarrow> u32 \<Rightarrow> memory \<times> bool" where
  "memmove m dest src n =
     (if src \<ge> dest then (rep_movsb False m dest src (unat n), False)
      else (rep_movsb True m (dest + n - 1) (src + n - 1) (unat n), True))"

section \<open>Facts on the string instructions\<close>

lemma of_nat_4_mult: "a + of_nat (4 * Suc k) = (a + 4) + of_nat (4 * k :: nat)" for a :: u32
  by simp

lemma rep_stosl_eq:
  assumes "bytes32 eax = replicate 4 c"
  shows "rep_stosl m edi eax k = wr_bytes m edi (replicate (4 * k) c)"
proof (induction k arbitrary: m edi)
  case 0
  show ?case by simp
next
  case (Suc k)
  have "replicate (4 * Suc k) c = replicate 4 c @ replicate (4 * k) c"
    by (simp add: replicate_add [symmetric])
  then show ?case
    using Suc assms by (simp add: wr32_def wr_bytes_append)
qed

lemma memset_bottom_eq: "memset_bottom m edi c k = wr_bytes m edi (replicate k c)"
  by (induction k arbitrary: m edi) auto

lemma memset_aligned_eq:
  assumes "bytes32 eax = replicate 4 c"
  shows "memset_aligned m edi eax k = wr_bytes m edi (replicate k c)"
proof -
  have "ucast eax = c" using assms by (simp add: bytes32_def numeral_eq_Suc)
  moreover have "replicate k c = replicate (4 * (k div 4)) c @ replicate (k mod 4) c"
    by (simp add: replicate_add [symmetric])
  ultimately show ?thesis
    using assms
    by (simp add: memset_aligned_def rep_stosl_eq memset_bottom_eq wr_bytes_append del: replicate_add)
qed

lemma memset_top_eq:
  assumes "bytes32 eax = replicate 4 c"
  shows "memset_top m edi eax k = wr_bytes m edi (replicate k c)"
proof (induction k arbitrary: m edi)
  case 0
  show ?case by simp
next
  case (Suc k)
  have "ucast eax = c" using assms by (simp add: bytes32_def numeral_eq_Suc)
  with Suc memset_aligned_eq [OF assms, of m edi "Suc k"] show ?case
    by (simp add: fun_upd_def)
qed

lemma splat_bytes:
  fixes c :: u32
  defines "d \<equiv> c AND 0xFF"
  shows "bytes32 (push_bit 24 d OR push_bit 16 d OR push_bit 8 d OR d) = replicate 4 (ucast c)"
proof -
  have ff: "(0xFF :: u32) = mask 8" by (simp add: mask_eq_exp_minus_1)
  have d: "bit d n \<longleftrightarrow> bit c n \<and> n < 8" for n
    by (auto simp: d_def ff bit_and_iff bit_mask_iff)
  let ?w = "push_bit 24 d OR push_bit 16 d OR push_bit 8 d OR d"
  have "ucast ?w = (ucast c :: byte)"
    by (rule bit_word_eqI) (auto simp: d bit_simps)
  moreover have "ucast (drop_bit 8 ?w) = (ucast c :: byte)"
    by (rule bit_word_eqI) (auto simp: d bit_simps)
  moreover have "ucast (drop_bit 16 ?w) = (ucast c :: byte)"
    by (rule bit_word_eqI) (auto simp: d bit_simps)
  moreover have "ucast (drop_bit 24 ?w) = (ucast c :: byte)"
    by (rule bit_word_eqI) (auto simp: d bit_simps)
  moreover have "replicate 4 x = [x, x, x, x]" for x :: byte
    by (simp add: numeral_eq_Suc)
  ultimately show ?thesis by (simp add: bytes32_def)
qed

lemma rep_movsl_eq:
  assumes "disjoint_regions edi (4 * k) esi (4 * k)" and "4 * k \<le> 2 ^ 32"
  shows "rep_movsl m edi esi k = wr_bytes m edi (rd_bytes m esi (4 * k))"
  using assms
proof (induction k arbitrary: m edi esi)
  case 0
  show ?case by simp
next
  case (Suc k)
  let ?m = "wr_bytes m edi (rd_bytes m esi 4)"
  have d: "disjoint_regions (edi + of_nat 4) (4 * k) (esi + of_nat 4) (4 * k)"
    using Suc.prems by (intro disjoint_regions_sub [where n = "4 * Suc k" and k = "4 * Suc k"]) auto
  have e: "disjoint_regions edi (length (rd_bytes m esi 4)) (esi + of_nat 4) (4 * k)"
    using disjoint_regions_sub [OF Suc.prems(1), of 0 4 4 "4 * k"] Suc.prems(2) by simp
  have "rep_movsl m edi esi (Suc k) = wr_bytes ?m (edi + 4) (rd_bytes ?m (esi + 4) (4 * k))"
    using Suc.IH [of "edi + 4" "esi + 4" ?m] d Suc.prems(2) by (simp add: wr32_rd32)
  also have "rd_bytes ?m (esi + 4) (4 * k) = rd_bytes m (esi + 4) (4 * k)"
    using rd_wr_bytes_disjoint [OF e, of m] Suc.prems(2) by simp
  also have "wr_bytes ?m (edi + 4) (rd_bytes m (esi + 4) (4 * k)) =
      wr_bytes m edi (rd_bytes m esi (4 + 4 * k))"
    by (simp add: rd_bytes_add wr_bytes_append)
  finally show ?case by simp
qed

lemma memcpy_bottom_eq:
  assumes "disjoint_regions edi k esi k" and "k \<le> 2 ^ 32"
  shows "memcpy_bottom m edi esi k = wr_bytes m edi (rd_bytes m esi k)"
  using assms
proof (induction k arbitrary: m edi esi)
  case 0
  show ?case by simp
next
  case (Suc k)
  let ?m = "m(edi := m esi)"
  have d: "disjoint_regions (edi + 1) k (esi + 1) k"
    using disjoint_regions_sub [OF Suc.prems(1), of 1 k 1 k] Suc.prems(2) by simp
  have e: "disjoint_regions edi (length [m esi]) (esi + of_nat 1) k"
    using disjoint_regions_sub [OF Suc.prems(1), of 0 1 1 k] Suc.prems(2) by simp
  have "rd_bytes ?m (esi + 1) k = rd_bytes m (esi + 1) k"
    using rd_wr_bytes_disjoint [OF e, of m] Suc.prems(2) by simp
  with Suc.IH [OF d, of ?m] Suc.prems(2) show ?case by (simp add: fun_upd_def)
qed

lemma memcpy_aligned_eq:
  assumes "disjoint_regions edi k esi k" and "k \<le> 2 ^ 32"
  shows "memcpy_aligned m edi esi k = wr_bytes m edi (rd_bytes m esi k)"
proof -
  let ?q = "4 * (k div 4)" and ?r = "k mod 4"
  have k: "?q + ?r = k" by simp
  let ?m = "wr_bytes m edi (rd_bytes m esi ?q)"
  have dq: "disjoint_regions edi ?q esi ?q"
    using disjoint_regions_sub [OF assms(1), of 0 ?q 0 ?q] assms(2) k by simp
  have dr: "disjoint_regions (edi + of_nat ?q) ?r (esi + of_nat ?q) ?r"
    using disjoint_regions_sub [OF assms(1), of ?q ?r ?q ?r] assms(2) k by simp
  have e: "disjoint_regions edi (length (rd_bytes m esi ?q)) (esi + of_nat ?q) ?r"
    using disjoint_regions_sub [OF assms(1), of 0 ?q ?q ?r] assms(2) k by simp
  have "memcpy_aligned m edi esi k =
      wr_bytes ?m (edi + of_nat ?q) (rd_bytes ?m (esi + of_nat ?q) ?r)"
    using assms(2) dr unfolding memcpy_aligned_def
    by (subst rep_movsl_eq [OF dq]) (auto intro: memcpy_bottom_eq)
  also have "rd_bytes ?m (esi + of_nat ?q) ?r = rd_bytes m (esi + of_nat ?q) ?r"
    using rd_wr_bytes_disjoint [OF e, of m] assms(2) by simp
  also have "wr_bytes ?m (edi + of_nat ?q) \<dots> = wr_bytes m edi (rd_bytes m esi (?q + ?r))"
    by (simp only: rd_bytes_add wr_bytes_append length_rd_bytes)
  finally show ?thesis by (simp only: k)
qed

lemma memcpy_top_eq:
  assumes "disjoint_regions edi k esi k" and "k \<le> 2 ^ 32"
  shows "memcpy_top m edi esi k = wr_bytes m edi (rd_bytes m esi k)"
  using assms
proof (induction k arbitrary: m edi esi)
  case 0
  show ?case by simp
next
  case (Suc k)
  show ?case
  proof (cases "edi AND 3 = 0")
    case True
    then show ?thesis using memcpy_aligned_eq [OF Suc.prems] by simp
  next
    case False
    have "memcpy_top m edi esi (Suc k) = memcpy_bottom m edi esi (Suc k)"
      using False Suc.IH [of "edi + 1" "esi + 1" "m(edi := m esi)"]
        disjoint_regions_sub [OF Suc.prems(1), of 1 k 1 k] Suc.prems(2)
      by (simp add: memcpy_bottom_eq fun_upd_def)
    then show ?thesis using memcpy_bottom_eq [OF Suc.prems] by simp
  qed
qed

lemma rep_movsb_forward_eq:
  assumes "edi \<le> esi" and "unat esi + k \<le> 2 ^ 32"
  shows "rep_movsb False m edi esi k = wr_bytes m edi (rd_bytes m esi k)"
  using assms
proof (induction k arbitrary: m edi esi)
  case 0
  show ?case by simp
next
  case (Suc k)
  show ?case
  proof (cases "k = 0")
    case True
    then show ?thesis by simp
  next
    case False
    then have s: "unat (esi + 1) = unat esi + 1"
      using Suc.prems(2) by (simp add: unat_plus_if')
    have d: "unat (edi + 1) = unat edi + 1"
      using Suc.prems False by (simp add: unat_plus_if' word_le_nat_alt)
    have "edi \<notin> region (esi + 1) k"
      using Suc.prems s by (simp add: region_interval word_le_nat_alt)
    then have "rd_bytes (m(edi := m esi)) (esi + 1) k = rd_bytes m (esi + 1) k"
      using Suc.prems(2) by (intro rd_bytes_upd_outside) auto
    moreover have "edi + 1 \<le> esi + 1" using Suc.prems(1) s d by (simp add: word_le_nat_alt)
    ultimately show ?thesis
      using Suc.IH [of "edi + 1" "esi + 1" "m(edi := m esi)"] Suc.prems(2) s
      by (simp add: fun_upd_def)
  qed
qed

lemma rep_movsb_backward_eq:
  assumes "src < dest" and "unat dest + k \<le> 2 ^ 32"
  shows "rep_movsb True m (dest + of_nat k - 1) (src + of_nat k - 1) k =
    wr_bytes m dest (rd_bytes m src k)"
  using assms
proof (induction k arbitrary: m)
  case 0
  show ?case by simp
next
  case (Suc k)
  let ?b = "dest + of_nat k" and ?x = "m (src + of_nat k)"
  have k: "k < 2 ^ 32" using Suc.prems(2) by simp
  have b: "unat ?b = unat dest + k"
    using Suc.prems(2) k by (simp add: unat_plus_if' unat_of_nat_less)
  have out: "?b \<notin> region src k"
    using Suc.prems b by (subst region_interval) (auto simp: word_less_nat_alt)
  have out': "?b \<notin> region dest k"
    using k by (simp add: region_def unat_of_nat_less)
  have "rep_movsb True m (dest + of_nat (Suc k) - 1) (src + of_nat (Suc k) - 1) (Suc k) =
      rep_movsb True (m(?b := ?x)) (?b - 1) (src + of_nat k - 1) k"
    by simp
  also have "\<dots> = wr_bytes (m(?b := ?x)) dest (rd_bytes (m(?b := ?x)) src k)"
    by (rule Suc.IH) (use Suc.prems in auto)
  also have "\<dots> = (wr_bytes m dest (rd_bytes m src k))(?b := ?x)"
    using k by (simp add: rd_bytes_upd_outside [OF out] wr_bytes_upd_comm out')
  also have "\<dots> = wr_bytes m dest (rd_bytes m src (k + 1))"
    by (simp only: rd_bytes_add wr_bytes_append) simp
  finally show ?case by simp
qed

section \<open>What the routines do\<close>

lemma memset_eq: "memset m s c n = wr_bytes m s (replicate (unat n) (ucast c))"
  unfolding memset_def Let_def by (rule memset_top_eq [OF splat_bytes])

lemma memcpy_eq:
  assumes "disjoint_regions dest (unat n) src (unat n)"
  shows "memcpy m dest src n = wr_bytes m dest (rd_bytes m src (unat n))"
  using memcpy_top_eq [OF assms] unat_lt32 [of n] by (simp add: memcpy_def)

text \<open>
  C33. \<open>memcpy\<close> (bytes up to alignment of the destination, then double words, then a tail) puts
  exactly the \<open>n\<close> source bytes at the destination and changes nothing else, when the two runs do
  not overlap.
\<close>

theorem memcpy_copies:
  assumes "disjoint_regions dest (unat n) src (unat n)"
  shows "memcpy m dest src n = wr_bytes m dest (rd_bytes m src (unat n))"
  using assms by (rule memcpy_eq)

theorem memcpy_copies_witness:
  "disjoint_regions 0x1001 (unat (6 :: u32)) 0x2000 (unat (6 :: u32)) \<and>
   memcpy (\<lambda>a. ucast a) 0x1001 0x2000 6 = wr_bytes (\<lambda>a. ucast a) 0x1001 [0, 1, 2, 3, 4, 5]"
proof -
  have d: "disjoint_regions 0x1001 (unat (6 :: u32)) 0x2000 (unat (6 :: u32))"
    by (rule disjoint_regions_intervalI) simp_all
  have "rd_bytes (\<lambda>a. ucast a) 0x2000 (unat (6 :: u32)) = [0, 1, 2, 3, 4, 5]"
    by (simp add: mem_eval)
  with d show ?thesis using memcpy_copies [OF d, of "\<lambda>a. ucast a"] by simp
qed

text \<open>
  C34. \<open>memmove\<close> copies the source bytes as they were before the call, whether the two runs overlap
  or not and in whichever direction, as long as neither run wraps around the address space; a
  backward copy leaves the direction flag set.
\<close>

theorem memmove_copies:
  assumes "unat dest + unat n \<le> 2 ^ 32" and "unat src + unat n \<le> 2 ^ 32"
  shows "memmove m dest src n = (wr_bytes m dest (rd_bytes m src (unat n)), src < dest)"
proof (cases "src \<ge> dest")
  case True
  then show ?thesis
    using rep_movsb_forward_eq [OF True assms(2)] by (simp add: memmove_def)
next
  case False
  then have "src < dest" by simp
  then show ?thesis
    using rep_movsb_backward_eq [OF _ assms(1), of src m] by (simp add: memmove_def)
qed

theorem memmove_copies_witness:
  "unat (0x1002 :: u32) + unat (4 :: u32) \<le> 2 ^ 32 \<and>
   memmove (\<lambda>a. ucast a) 0x1002 0x1000 4 = (wr_bytes (\<lambda>a. ucast a) 0x1002 [0, 1, 2, 3], True)"
proof -
  have "rd_bytes (\<lambda>a. ucast a) 0x1000 (unat (4 :: u32)) = [0, 1, 2, 3 :: byte]"
    by (simp add: mem_eval)
  then show ?thesis
    using memmove_copies [of "0x1002" 4 "0x1000" "\<lambda>a. ucast a"] by simp
qed

end
