(* ===== verification/Lib_String.thy ===== *)
theory Lib_String
  imports Lib_Mem "HOL-Library.Char_ord"
begin

unbundle bit_operations_syntax

text \<open>
  The string routines of \<^verbatim>\<open>lib.c\<close>: \<open>strlen\<close>, \<open>strncmp\<close>, \<open>strcpy\<close>, \<open>strncpy\<close>, \<open>strrev\<close> and
  \<open>itoa\<close>. They read memory until a zero byte; where no bound stops the loop the result is an
  option and \<open>None\<close> is a call that does not return (or, in \<open>itoa\<close>, reads outside its table or
  divides by zero). The lemmas say what each routine does to the memory for a string that ends.
\<close>

section \<open>The routines\<close>

text \<open>The bytes of a character string literal.\<close>

definition str :: "string \<Rightarrow> byte list" where
  "str s = map of_char s"

subsection \<open>strlen, strncmp\<close>

partial_function (option) strlen_loop :: "memory \<Rightarrow> u32 \<Rightarrow> u32 \<Rightarrow> u32 option" where
  "strlen_loop m s len = (if m (s + len) \<noteq> 0 then strlen_loop m s (len + 1) else Some len)"

definition strlen :: "memory \<Rightarrow> u32 \<Rightarrow> u32 option" where
  "strlen m s = strlen_loop m s 0"

function strncmp_loop :: "memory \<Rightarrow> u32 \<Rightarrow> u32 \<Rightarrow> u32 \<Rightarrow> u32 \<Rightarrow> int" where
  "strncmp_loop m s1 s2 n i =
     (if i < n then
        (if m (s1 + i) \<noteq> m (s2 + i) \<or> m (s1 + i) = 0
         then sint (m (s1 + i)) - sint (m (s2 + i))
         else strncmp_loop m s1 s2 n (i + 1))
      else 0)"
  by pat_completeness auto
termination
  by (relation "measure (\<lambda>(m, s1, s2, n, i). unat n - unat i)")
     (auto simp: unat_Suc_less word_less_nat_alt)

definition strncmp :: "memory \<Rightarrow> u32 \<Rightarrow> u32 \<Rightarrow> u32 \<Rightarrow> int" where
  "strncmp m s1 s2 n = strncmp_loop m s1 s2 n 0"

subsection \<open>strcpy, strncpy\<close>

partial_function (option) strcpy_loop :: "memory \<Rightarrow> u32 \<Rightarrow> u32 \<Rightarrow> u32 \<Rightarrow> memory option" where
  "strcpy_loop m dest src i =
     (if m (src + i) \<noteq> 0 then strcpy_loop (m(dest + i := m (src + i))) dest src (i + 1)
      else Some (m(dest + i := 0)))"

definition strcpy :: "memory \<Rightarrow> u32 \<Rightarrow> u32 \<Rightarrow> memory option" where
  "strcpy m dest src = strcpy_loop m dest src 0"

function strncpy_copy :: "memory \<Rightarrow> u32 \<Rightarrow> u32 \<Rightarrow> u32 \<Rightarrow> u32 \<Rightarrow> memory \<times> u32" where
  "strncpy_copy m dest src n i =
     (if m (src + i) \<noteq> 0 \<and> i < n
      then strncpy_copy (m(dest + i := m (src + i))) dest src n (i + 1) else (m, i))"
  by pat_completeness auto
termination
  by (relation "measure (\<lambda>(m, dest, src, n, i). unat n - unat i)")
     (auto simp: unat_Suc_less word_less_nat_alt)

function strncpy_pad :: "memory \<Rightarrow> u32 \<Rightarrow> u32 \<Rightarrow> u32 \<Rightarrow> memory" where
  "strncpy_pad m dest n i =
     (if i < n then strncpy_pad (m(dest + i := 0)) dest n (i + 1) else m)"
  by pat_completeness auto
termination
  by (relation "measure (\<lambda>(m, dest, n, i). unat n - unat i)")
     (auto simp: unat_Suc_less word_less_nat_alt)

definition strncpy :: "memory \<Rightarrow> u32 \<Rightarrow> u32 \<Rightarrow> u32 \<Rightarrow> memory" where
  "strncpy m dest src n =
     (let (m', i) = strncpy_copy m dest src n 0 in strncpy_pad m' dest n i)"

subsection \<open>strrev, itoa\<close>

function strrev_loop :: "memory \<Rightarrow> u32 \<Rightarrow> int \<Rightarrow> int \<Rightarrow> memory" where
  "strrev_loop m s beg end' =
     (if beg < end' then
        (let tmp = m (s + of_int end');
             m1 = m(s + of_int end' := m (s + of_int beg));
             m2 = m1(s + of_int beg := tmp)
         in strrev_loop m2 s (beg + 1) (end' - 1))
      else m)"
  by pat_completeness auto
termination
  by (relation "measure (\<lambda>(m, s, beg, end'). nat (end' - beg))") auto

definition strrev :: "memory \<Rightarrow> u32 \<Rightarrow> memory option" where
  "strrev m s =
     (case strlen m s of None \<Rightarrow> None
      | Some len \<Rightarrow> Some (strrev_loop m s 0 (sint (len - 1))))"

definition lookup :: "byte list" where
  "lookup = str ''0123456789ABCDEFGHIJKLMNOPQRSTUVWXYZ'' @ [0]"

partial_function (option) itoa_loop ::
  "memory \<Rightarrow> u32 \<Rightarrow> u32 \<Rightarrow> u32 \<Rightarrow> (memory \<times> u32) option" where
  "itoa_loop m newbuf newval radix =
     (if 0 < newval then
        (if radix = 0 \<or> length lookup \<le> unat (newval mod radix) then None
         else itoa_loop (m(newbuf := lookup ! unat (newval mod radix))) (newbuf + 1)
                (newval div radix) radix)
      else Some (m, newbuf))"

definition itoa :: "memory \<Rightarrow> u32 \<Rightarrow> u32 \<Rightarrow> u32 \<Rightarrow> memory option" where
  "itoa m value buf radix =
     (if value = 0 then Some ((m(buf := 0x30))(buf + 1 := 0))
      else (case itoa_loop m buf value radix of None \<Rightarrow> None
            | Some (m', newbuf) \<Rightarrow> strrev (m'(newbuf := 0)) buf))"

lemmas string_loop_defs [simp del] =
  strncmp_loop.simps strncpy_copy.simps strncpy_pad.simps strrev_loop.simps

section \<open>Strings in memory\<close>

text \<open>The string at \<open>a\<close>: \<open>xs\<close>, without zero bytes, followed by a zero byte.\<close>

definition cstring :: "memory \<Rightarrow> u32 \<Rightarrow> byte list \<Rightarrow> bool" where
  "cstring m a xs \<longleftrightarrow> rd_bytes m a (Suc (length xs)) = xs @ [0] \<and> 0 \<notin> set xs"

text \<open>The part of a byte run before its first zero byte, and the \<open>n\<close> bytes \<open>strncpy\<close> stores.\<close>

abbreviation upto_nul :: "byte list \<Rightarrow> byte list" where
  "upto_nul \<equiv> takeWhile (\<lambda>x. x \<noteq> 0)"

definition pad_nul :: "nat \<Rightarrow> byte list \<Rightarrow> byte list" where
  "pad_nul n xs = xs @ replicate (n - length xs) 0"

lemma length_pad_nul [simp]: "length xs \<le> n \<Longrightarrow> length (pad_nul n xs) = n"
  by (simp add: pad_nul_def)

lemma length_upto_nul_le: "length (upto_nul xs) \<le> length xs"
  by (rule length_takeWhile_le)

lemma upto_nul_pad_nul [simp]: "0 \<notin> set xs \<Longrightarrow> upto_nul (pad_nul n xs) = xs"
  by (auto simp: pad_nul_def takeWhile_append takeWhile_replicate)

lemma cstring_Nil: "cstring m a [] \<longleftrightarrow> m a = 0"
  by (simp add: cstring_def)

lemma cstring_Cons: "cstring m a (x # xs) \<longleftrightarrow> m a = x \<and> x \<noteq> 0 \<and> cstring m (a + 1) xs"
  by (auto simp: cstring_def)

lemma cstring_unique: "cstring m a xs \<Longrightarrow> cstring m a ys \<Longrightarrow> xs = ys"
proof (induction xs arbitrary: a ys)
  case Nil
  then show ?case by (cases ys) (auto simp: cstring_Nil cstring_Cons)
next
  case (Cons x xs)
  then show ?case by (cases ys) (auto simp: cstring_Nil cstring_Cons)
qed

lemma cstring_wr_bytes:
  "0 \<notin> set xs \<Longrightarrow> length xs < 2 ^ 32 \<Longrightarrow> cstring (wr_bytes m a (xs @ [0])) a xs"
  using rd_wr_bytes_same [of "xs @ [0]" m a] by (simp add: cstring_def)

lemma cstring_terminator: "cstring m a xs \<Longrightarrow> m (a + of_nat (length xs)) = 0"
  by (induction xs arbitrary: a) (auto simp: cstring_Nil cstring_Cons add.assoc [symmetric])

section \<open>strlen\<close>

lemma strlen_loop_cstring:
  "cstring m (s + len) xs \<Longrightarrow> strlen_loop m s len = Some (len + of_nat (length xs))"
proof (induction xs arbitrary: len)
  case Nil
  then show ?case by (simp add: cstring_Nil strlen_loop.simps)
next
  case (Cons x xs)
  then have "cstring m (s + (len + 1)) xs" by (simp add: cstring_Cons add.assoc)
  from Cons.IH [OF this] Cons.prems show ?case
    by (subst strlen_loop.simps) (simp add: cstring_Cons algebra_simps)
qed

lemma strlen_loop_Some:
  assumes "strlen_loop m s len = Some r"
  shows "cstring m (s + len) (rd_bytes m (s + len) (unat (r - len)))"
proof (rule strlen_loop.raw_induct
    [where P = "\<lambda>m s len r. cstring m (s + len) (rd_bytes m (s + len) (unat (r - len)))",
     OF _ assms])
  fix f :: "memory \<Rightarrow> u32 \<Rightarrow> u32 \<Rightarrow> u32 option" and m s len r
  assume IH: "\<And>m s len r. f m s len = Some r \<Longrightarrow>
      cstring m (s + len) (rd_bytes m (s + len) (unat (r - len)))"
    and eq: "(if m (s + len) \<noteq> 0 then f m s (len + 1) else Some len) = Some r"
  show "cstring m (s + len) (rd_bytes m (s + len) (unat (r - len)))"
  proof (cases "m (s + len) = 0")
    case True
    with eq show ?thesis by (simp add: cstring_Nil)
  next
    case False
    with eq have *: "cstring m (s + (len + 1)) (rd_bytes m (s + (len + 1)) (unat (r - (len + 1))))"
      by (intro IH) simp
    show ?thesis
    proof (cases "r = len")
      case True
      have "s + (len + 1) + of_nat (unat (r - (len + 1))) = s + len"
        using True by simp
      with cstring_terminator [OF *] False show ?thesis by simp
    next
      case ne: False
      then show ?thesis
        using * False by (simp add: unat_minus_eq_Suc cstring_Cons add.assoc)
    qed
  qed
qed

text \<open>\<open>strlen\<close> returns for every string that ends, with its length, and for nothing else.\<close>

lemma strlen_iff: "strlen m s = Some n \<longleftrightarrow> cstring m s (rd_bytes m s (unat n))"
  using strlen_loop_cstring [of m s 0 "rd_bytes m s (unat n)"] strlen_loop_Some [of m s 0 n]
  by (auto simp: strlen_def)

lemma strlen_cstring: "cstring m s xs \<Longrightarrow> strlen m s = Some (of_nat (length xs))"
  using strlen_loop_cstring [of m s 0 xs] by (simp add: strlen_def)

section \<open>strncmp\<close>

lemma sint_eq_iff: "sint (a :: byte) = sint b \<longleftrightarrow> a = b"
  by (auto intro: signed_word_eqI)

lemma sint_0_iff: "sint (a :: byte) = 0 \<longleftrightarrow> a = 0"
  using sint_eq_iff [of a 0] by simp

lemma rd_bytes_remaining:
  assumes "i < n"
  shows "rd_bytes m (a + i) (unat (n - i)) = m (a + i) # rd_bytes m (a + (i + 1)) (unat (n - (i + 1)))"
proof -
  have "n \<noteq> i" using assms by simp
  then show ?thesis by (simp add: unat_minus_eq_Suc add.assoc)
qed

lemma strncmp_loop_0_iff:
  assumes "i \<le> n"
  shows "strncmp_loop m s1 s2 n i = 0 \<longleftrightarrow>
    upto_nul (rd_bytes m (s1 + i) (unat (n - i))) = upto_nul (rd_bytes m (s2 + i) (unat (n - i)))"
  using assms
proof (induction m s1 s2 n i rule: strncmp_loop.induct)
  case (1 m s1 s2 n i)
  show ?case
  proof (cases "i < n")
    case True
    then have "i + 1 \<le> n" by (rule word_Suc_le)
    with 1 True show ?thesis
      by (subst strncmp_loop.simps)
         (auto simp: rd_bytes_remaining sint_eq_iff sint_0_iff)
  next
    case False
    with 1 have "i = n" by simp
    then show ?thesis by (subst strncmp_loop.simps) simp
  qed
qed

lemma strncmp_zero:
  "strncmp m s1 s2 n = 0 \<longleftrightarrow>
   upto_nul (rd_bytes m s1 (unat n)) = upto_nul (rd_bytes m s2 (unat n))"
  using strncmp_loop_0_iff [of 0 n m s1 s2] by (simp add: strncmp_def)

section \<open>strncpy and strcpy\<close>

lemma strncpy_pad_eq:
  "i \<le> n \<Longrightarrow> strncpy_pad m dest n i = wr_bytes m (dest + i) (replicate (unat (n - i)) 0)"
proof (induction m dest n i rule: strncpy_pad.induct)
  case (1 m dest n i)
  show ?case
  proof (cases "i < n")
    case True
    then have "i + 1 \<le> n" by (rule word_Suc_le)
    moreover have "n \<noteq> i" using True by simp
    ultimately show ?thesis
      using True 1 unat_minus_eq_Suc [of n i]
      by (subst strncpy_pad.simps) (simp add: add.assoc fun_upd_def)
  next
    case False
    with 1 have "i = n" by simp
    then show ?thesis by (subst strncpy_pad.simps) simp
  qed
qed

lemma strncpy_copy_eq:
  assumes "i \<le> n" and "disjoint_regions (dest + i) (unat (n - i)) (src + i) (unat (n - i))"
  shows "strncpy_copy m dest src n i =
    (let xs = upto_nul (rd_bytes m (src + i) (unat (n - i)))
     in (wr_bytes m (dest + i) xs, i + of_nat (length xs)))"
  using assms
proof (induction m dest src n i rule: strncpy_copy.induct)
  case (1 m dest src n i)
  show ?case
  proof (cases "m (src + i) \<noteq> 0 \<and> i < n")
    case True
    let ?k = "unat (n - (i + 1))" and ?m = "m(dest + i := m (src + i))"
    have le: "i + 1 \<le> n" using True by (simp add: word_Suc_le)
    have "n \<noteq> i" using True by auto
    then have k: "unat (n - i) = Suc ?k" by (rule unat_minus_eq_Suc)
    have d: "disjoint_regions (dest + (i + 1)) ?k (src + (i + 1)) ?k"
      using disjoint_regions_sub [OF "1.prems"(2), of 1 ?k 1 ?k] unat_lt32 [of "n - i"] k
      by (simp add: add.assoc)
    have "disjoint_regions (dest + i) 1 (src + (i + 1)) ?k"
      using disjoint_regions_sub [OF "1.prems"(2), of 0 1 1 ?k] unat_lt32 [of "n - i"] k
      by (simp add: add.assoc)
    then have "dest + i \<notin> region (src + (i + 1)) ?k" by (rule disjoint_regions_1D)
    then have "rd_bytes ?m (src + (i + 1)) ?k = rd_bytes m (src + (i + 1)) ?k"
      using unat_lt32 [of "n - (i + 1)"] by (intro rd_bytes_upd_outside) auto
    with "1.IH" [OF True le d] True show ?thesis
      by (subst strncpy_copy.simps)
         (simp add: Let_def rd_bytes_remaining add.assoc fun_upd_def)
  next
    case False
    show ?thesis
    proof (cases "i < n")
      case True
      with False show ?thesis
        by (subst strncpy_copy.simps) (simp add: rd_bytes_remaining)
    next
      case ge: False
      with "1.prems" have "i = n" by simp
      then show ?thesis by (subst strncpy_copy.simps) simp
    qed
  qed
qed

lemma strncpy_eq:
  assumes "disjoint_regions dest (unat n) src (unat n)"
  shows "strncpy m dest src n =
    wr_bytes m dest (pad_nul (unat n) (upto_nul (rd_bytes m src (unat n))))"
proof -
  let ?xs = "upto_nul (rd_bytes m src (unat n))"
  have le: "length ?xs \<le> unat n" using length_upto_nul_le [of "rd_bytes m src (unat n)"] by simp
  then have len: "unat (of_nat (length ?xs) :: u32) = length ?xs"
    using unat_lt32 [of n] by (intro unat_of_nat_less) simp
  then have "of_nat (length ?xs) \<le> n" using le by (simp add: word_le_nat_alt)
  moreover from this len have "unat (n - of_nat (length ?xs)) = unat n - length ?xs"
    by (simp add: unat_sub)
  ultimately show ?thesis
    using strncpy_copy_eq [of 0 n dest src m] assms
    by (simp add: strncpy_def Let_def strncpy_pad_eq pad_nul_def wr_bytes_append)
qed

lemma strcpy_loop_eq:
  assumes "cstring m (src + i) xs" and "length xs < 2 ^ 32"
    and "disjoint_regions (dest + i) (Suc (length xs)) (src + i) (Suc (length xs))"
  shows "strcpy_loop m dest src i = Some (wr_bytes m (dest + i) (xs @ [0]))"
  using assms
proof (induction xs arbitrary: m i)
  case Nil
  then show ?case by (subst strcpy_loop.simps) (simp add: cstring_Nil)
next
  case (Cons x xs)
  let ?m = "m(dest + i := x)" and ?k = "Suc (length xs)"
  have d: "disjoint_regions (dest + (i + 1)) ?k (src + (i + 1)) ?k"
    using disjoint_regions_sub [OF Cons.prems(3), of 1 ?k 1 ?k] Cons.prems(2)
    by (simp add: add.assoc)
  have "disjoint_regions (dest + i) 1 (src + (i + 1)) ?k"
    using disjoint_regions_sub [OF Cons.prems(3), of 0 1 1 ?k] Cons.prems(2)
    by (simp add: add.assoc)
  then have "dest + i \<notin> region (src + (i + 1)) ?k" by (rule disjoint_regions_1D)
  then have "rd_bytes ?m (src + (i + 1)) ?k = rd_bytes m (src + (i + 1)) ?k"
    using Cons.prems(2) by (intro rd_bytes_upd_outside) auto
  moreover have "cstring m (src + (i + 1)) xs" using Cons.prems(1) by (simp add: cstring_Cons add.assoc)
  ultimately have "cstring ?m (src + (i + 1)) xs" by (auto simp only: cstring_def)
  with Cons.IH [of ?m "i + 1"] d Cons.prems show ?case
    by (subst strcpy_loop.simps) (simp add: cstring_Cons add.assoc fun_upd_def)
qed

lemma strcpy_copies:
  assumes "cstring m src xs" and "length xs < 2 ^ 32"
    and "disjoint_regions dest (Suc (length xs)) src (Suc (length xs))"
  shows "strcpy m dest src = Some (wr_bytes m dest (xs @ [0]))"
  using strcpy_loop_eq [of m src 0 xs dest] assms by (simp add: strcpy_def)

section \<open>strrev\<close>

lemma strrev_loop_eq:
  assumes "k \<le> 2 ^ 32"
  shows "strrev_loop m s b (b + int k - 1) =
    wr_bytes m (s + of_int b) (rev (rd_bytes m (s + of_int b) k))"
  using assms
proof (induction k arbitrary: m b rule: induct_nat_012)
  case (ge2 k)
  let ?a = "s + of_int b" and ?e = "s + of_int b + of_nat (Suc k)"
  let ?x = "m ?a" and ?y = "m ?e" and ?ys = "rd_bytes m (?a + 1) k"
  let ?m = "(m(?e := ?x))(?a := ?y)"
  have e: "?e = ?a + 1 + of_nat k" by (simp add: algebra_simps)
  have out: "?a \<notin> region (?a + 1) k" "?e \<notin> region (?a + 1) k"
    using ge2.prems by (simp_all add: region_def word_ofs unat_of_nat_less)
  have ne: "?a \<noteq> ?e"
    using ge2.prems unat_of_nat_ofs [of "Suc k" ?a] by force
  have rd: "rd_bytes ?m (?a + 1) k = ?ys"
    using ge2.prems out by (simp add: rd_bytes_upd_outside)
  have "s + of_int (b + int (Suc (Suc k)) - 1) = ?e" by (simp add: algebra_simps)
  then have "strrev_loop m s b (b + int (Suc (Suc k)) - 1) =
      strrev_loop ?m s (b + 1) (b + 1 + int k - 1)"
    by (subst strrev_loop.simps) (simp add: Let_def add_ac)
  also have "\<dots> = wr_bytes ?m (?a + 1) (rev ?ys)"
  proof -
    have "strrev_loop m' s (b + 1) (b + 1 + int k - 1) =
        wr_bytes m' (?a + 1) (rev (rd_bytes m' (?a + 1) k))" for m'
      using ge2.IH(1) [of m' "b + 1"] ge2.prems by (simp add: add.assoc)
    then show ?thesis by (simp only: rd)
  qed
  also have "?m = (m(?a := ?y))(?e := ?x)" using ne by (rule fun_upd_twist [symmetric])
  also have "wr_bytes \<dots> (?a + 1) (rev ?ys) = (wr_bytes (m(?a := ?y)) (?a + 1) (rev ?ys))(?e := ?x)"
    using ge2.prems out(2) by (intro wr_bytes_upd_comm) simp_all
  also have "\<dots> = wr_bytes m ?a (?y # rev ?ys @ [?x])"
    unfolding e by (simp add: wr_bytes_append)
  also have "?y # rev ?ys @ [?x] = rev (rd_bytes m ?a (Suc (Suc k)))"
  proof -
    have "rd_bytes m ?a (Suc (k + 1)) = ?x # ?ys @ [?y]"
      unfolding e by (simp only: rd_bytes.simps rd_bytes_add) simp
    then show ?thesis by simp
  qed
  finally show ?case .
qed (subst strrev_loop.simps, simp)+

lemma strrev_reverses:
  assumes "cstring m s xs" and "length xs < 2 ^ 31"
  shows "strrev m s = Some (wr_bytes m s (rev xs))"
proof -
  have "int (length xs) - 1 = sint (of_nat (length xs) - 1 :: u32)"
  proof (cases "length xs")
    case 0
    then show ?thesis by simp
  next
    case (Suc k)
    then have "of_nat (length xs) - 1 = (of_nat k :: u32)" by simp
    moreover have "sint (of_nat k :: u32) = int k"
      using Suc assms(2) by (simp add: signed_of_nat signed_take_bit_int_eq_self)
    ultimately show ?thesis using Suc by simp
  qed
  moreover have "rd_bytes m s (length xs) = xs"
    using assms(1) rd_bytes_add [of m s "length xs" 1] by (simp add: cstring_def)
  ultimately show ?thesis
    using strrev_loop_eq [of "length xs" m s 0] assms strlen_cstring [OF assms(1)]
    by (simp add: strrev_def)
qed

section \<open>itoa\<close>

text \<open>The digits of a number, least significant first, as the loop of \<open>itoa\<close> makes them.\<close>

fun rdigits :: "nat \<Rightarrow> nat \<Rightarrow> nat list" where
  "rdigits r v = (if r < 2 \<or> v = 0 then [] else v mod r # rdigits r (v div r))"

declare rdigits.simps [simp del]

definition digit_val :: "byte \<Rightarrow> nat" where
  "digit_val c = (if c \<le> 57 then unat c - 48 else unat c - 55)"

text \<open>Reading a digit string back, most significant digit first.\<close>

definition parse_num :: "nat \<Rightarrow> byte list \<Rightarrow> nat" where
  "parse_num r xs = foldl (\<lambda>a c. a * r + digit_val c) 0 xs"

definition num_str :: "nat \<Rightarrow> nat \<Rightarrow> byte list" where
  "num_str r v = (if v = 0 then [0x30] else rev (map (\<lambda>d. lookup ! d) (rdigits r v)))"

lemma rdigits_less: "d \<in> set (rdigits r v) \<Longrightarrow> d < r"
proof (induction r v rule: rdigits.induct)
  case (1 r v)
  then show ?case by (subst (asm) rdigits.simps) (auto split: if_splits)
qed

lemma length_rdigits: "v < 2 ^ k \<Longrightarrow> length (rdigits r v) \<le> k"
proof (induction k arbitrary: v)
  case 0
  then show ?case by (simp add: rdigits.simps)
next
  case (Suc k)
  show ?case
  proof (cases "r < 2 \<or> v = 0")
    case True
    then show ?thesis by (simp add: rdigits.simps)
  next
    case False
    then have "v div r \<le> v div 2" by (intro div_le_mono2) auto
    with Suc.prems have "v div r < 2 ^ k" by (simp add: less_mult_imp_div_less)
    with Suc.IH False show ?thesis by (subst rdigits.simps) simp
  qed
qed

lemma lookup_digit: "d < 36 \<Longrightarrow> lookup ! d \<noteq> 0 \<and> digit_val (lookup ! d) = d"
proof -
  have "\<forall>d\<in>{..<36}. lookup ! d \<noteq> 0 \<and> digit_val (lookup ! d) = d"
    by code_simp
  then show "d < 36 \<Longrightarrow> lookup ! d \<noteq> 0 \<and> digit_val (lookup ! d) = d" by blast
qed

lemma foldr_rdigits:
  assumes "2 \<le> r" and "r \<le> 36"
  shows "foldr (\<lambda>c a. a * r + digit_val c) (map (\<lambda>d. lookup ! d) (rdigits r v)) 0 = v"
  using assms
proof (induction r v rule: rdigits.induct)
  case (1 r v)
  show ?case
  proof (cases "v = 0")
    case True
    then show ?thesis by (simp add: rdigits.simps)
  next
    case False
    then have "v mod r < 36" using "1.prems" mod_less_divisor [of r v] by linarith
    with 1 False show ?thesis
      by (subst rdigits.simps) (simp add: lookup_digit)
  qed
qed

lemma itoa_loop_eq:
  assumes "2 \<le> unat radix" and "unat radix \<le> 36"
  shows "itoa_loop m newbuf newval radix =
    (let ds = map (\<lambda>d. lookup ! d) (rdigits (unat radix) (unat newval))
     in Some (wr_bytes m newbuf ds, newbuf + of_nat (length ds)))"
proof (induction "unat newval" arbitrary: m newbuf newval rule: less_induct)
  case less
  show ?case
  proof (cases "newval = 0")
    case True
    then show ?thesis by (subst itoa_loop.simps) (simp add: rdigits.simps)
  next
    case False
    let ?d = "unat newval mod unat radix"
    have pos: "0 < newval" and nz: "unat newval \<noteq> 0"
      using False by (simp_all add: unat_eq_0 word_neq_0_conv)
    have r: "radix \<noteq> 0" using assms(1) by (auto simp: unat_eq_0)
    have "unat (newval div radix) < unat newval"
      using assms(1) nz by (simp add: unat_div)
    note IH = less.hyps [OF this, of "m(newbuf := lookup ! ?d)" "newbuf + 1"]
    have "?d < unat radix" using assms(1) by simp
    then have "\<not> length lookup \<le> ?d" using assms(2) by (simp add: lookup_def str_def)
    then have "itoa_loop m newbuf newval radix =
        itoa_loop (m(newbuf := lookup ! ?d)) (newbuf + 1) (newval div radix) radix"
      using pos r by (subst itoa_loop.simps) (simp add: unat_mod)
    also have "rdigits (unat radix) (unat newval) =
        ?d # rdigits (unat radix) (unat (newval div radix))"
      using assms(1) nz by (subst rdigits.simps) (simp add: unat_div)
    ultimately show ?thesis
      using IH by (simp add: Let_def algebra_simps fun_upd_def)
  qed
qed

lemma num_str_props:
  assumes "2 \<le> r" and "r \<le> 36" and "v < 2 ^ 32"
  shows "0 \<notin> set (num_str r v)" and "length (num_str r v) \<le> 32" and "parse_num r (num_str r v) = v"
proof -
  have "0 \<noteq> lookup ! d" if "d \<in> set (rdigits r v)" for d
    using rdigits_less [OF that] assms(2) lookup_digit [of d] by simp
  then show "0 \<notin> set (num_str r v)" by (auto simp: num_str_def)
  show "length (num_str r v) \<le> 32"
    using length_rdigits [OF assms(3)] by (simp add: num_str_def)
  show "parse_num r (num_str r v) = v"
    using foldr_rdigits [OF assms(1,2), of v]
    by (simp add: num_str_def parse_num_def foldl_conv_foldr digit_val_def)
qed

lemma itoa_eq:
  assumes "2 \<le> unat radix" and "unat radix \<le> 36"
  shows "itoa m value buf radix = Some (wr_bytes m buf (num_str (unat radix) (unat value) @ [0]))"
proof (cases "value = 0")
  case True
  then show ?thesis by (simp add: itoa_def num_str_def)
next
  case False
  let ?ds = "map (\<lambda>d. lookup ! d) (rdigits (unat radix) (unat value))"
  let ?n = "num_str (unat radix) (unat value)"
  have ds: "?n = rev ?ds" using False by (simp add: num_str_def unat_eq_0)
  note n = num_str_props [OF assms unat_lt32 [of "value"]]
  have "cstring (wr_bytes m buf (?ds @ [0])) buf ?ds"
    using n(1,2) unfolding ds by (intro cstring_wr_bytes) auto
  then have "strrev (wr_bytes m buf (?ds @ [0])) buf =
      Some (wr_bytes (wr_bytes m buf (?ds @ [0])) buf ?n)"
    using n(2) unfolding ds by (intro strrev_reverses) simp_all
  also have "\<dots> = Some (wr_bytes m buf (?n @ [0]))"
    using n(2) unfolding ds by (subst wr_bytes_overwrite) simp_all
  finally show ?thesis
    using False by (simp add: itoa_def itoa_loop_eq [OF assms] Let_def wr_bytes_append)
qed

text \<open>
  C35. \<open>itoa\<close> returns for every value and every radix from 2 to 36, and leaves at \<open>buf\<close> a string of at
  most 32 digits, ended by a zero byte, that reads back as the value in that radix; no other byte
  of memory changes.
\<close>

theorem itoa_roundtrip:
  assumes "2 \<le> unat radix" and "unat radix \<le> 36"
  shows "\<exists>xs. itoa m value buf radix = Some (wr_bytes m buf (xs @ [0])) \<and>
    0 \<notin> set xs \<and> length xs \<le> 32 \<and> parse_num (unat radix) xs = unat value"
  using itoa_eq [OF assms, of m "value" buf] num_str_props [OF assms unat_lt32 [of "value"]]
  by blast

theorem itoa_roundtrip_witness:
  "\<exists>xs. itoa (\<lambda>_. 0) 0xBEEF 0x100 16 = Some (wr_bytes (\<lambda>_. 0) 0x100 (xs @ [0])) \<and>
    0 \<notin> set xs \<and> length xs \<le> 32 \<and> parse_num (unat (16 :: u32)) xs = unat (0xBEEF :: u32)"
  by (rule itoa_roundtrip) simp_all

end
