(* ===== verification/User_Lib.thy ===== *)
theory User_Lib
  imports Lib_String
begin

text \<open>
  The library of the user programs, \<^verbatim>\<open>ece391support.c\<close>, over the memory of the program. As in \<open>Lib_String\<close>
  a loop that is only ended by a zero byte returns an option. The lemmas relate the routines to those
  of the kernel and to strings as lists.
\<close>

section \<open>The routines\<close>

partial_function (option) ece391_strlen_loop :: "memory \<Rightarrow> u32 \<Rightarrow> u32 \<Rightarrow> u32 option" where
  "ece391_strlen_loop m s len = (if m s \<noteq> 0 then ece391_strlen_loop m (s + 1) (len + 1) else Some len)"

definition ece391_strlen :: "memory \<Rightarrow> u32 \<Rightarrow> u32 option" where
  "ece391_strlen m s = ece391_strlen_loop m s 0"

partial_function (option) ece391_strcpy :: "memory \<Rightarrow> u32 \<Rightarrow> u32 \<Rightarrow> memory option" where
  "ece391_strcpy m dst src =
     (if m src \<noteq> 0 then ece391_strcpy (m(dst := m src)) (dst + 1) (src + 1) else Some (m(dst := m src)))"

partial_function (option) ece391_strcmp :: "memory \<Rightarrow> u32 \<Rightarrow> u32 \<Rightarrow> int option" where
  "ece391_strcmp m s1 s2 =
     (if m s1 = m s2 then (if m s1 = 0 then Some 0 else ece391_strcmp m (s1 + 1) (s2 + 1))
      else Some (uint (m s1) - uint (m s2)))"

partial_function (option) ece391_strncmp_loop :: "memory \<Rightarrow> u32 \<Rightarrow> u32 \<Rightarrow> u32 \<Rightarrow> int option" where
  "ece391_strncmp_loop m s1 s2 n =
     (if m s1 = m s2 then
        (if m s1 = 0 then Some 0
         else if n - 1 = 0 then Some 0
         else ece391_strncmp_loop m (s1 + 1) (s2 + 1) (n - 1))
      else Some (uint (m s1) - uint (m s2)))"

definition ece391_strncmp :: "memory \<Rightarrow> u32 \<Rightarrow> u32 \<Rightarrow> u32 \<Rightarrow> int option" where
  "ece391_strncmp m s1 s2 n = (if n = 0 then Some 0 else ece391_strncmp_loop m s1 s2 n)"

definition ece391_strrev :: "memory \<Rightarrow> u32 \<Rightarrow> memory option" where
  "ece391_strrev m s =
     (case ece391_strlen m s of
        None \<Rightarrow> None
      | Some len \<Rightarrow>
          (let end' = sint (len - 1) in
           if end' \<le> 0 then Some m else Some (strrev_loop m s 0 end')))"

partial_function (option) ece391_itoa_loop :: "memory \<Rightarrow> u32 \<Rightarrow> u32 \<Rightarrow> u32 \<Rightarrow> (memory \<times> u32) option" where
  "ece391_itoa_loop m newbuf newval radix =
     (if 0 < newval then
        (if radix = 0 \<or> length lookup \<le> unat (newval mod radix) then None
         else ece391_itoa_loop (m(newbuf := lookup ! unat (newval mod radix))) (newbuf + 1) (newval div radix) radix)
      else Some (m, newbuf))"

definition ece391_itoa :: "memory \<Rightarrow> u32 \<Rightarrow> u32 \<Rightarrow> u32 \<Rightarrow> memory option" where
  "ece391_itoa m value buf radix =
     (if value = 0 then Some ((m(buf := 0x30))(buf + 1 := 0))
      else
        (case ece391_itoa_loop m buf value radix of
           None \<Rightarrow> None
         | Some (m', newbuf) \<Rightarrow> ece391_strrev (m'(newbuf := 0)) buf))"

section \<open>Strings\<close>

lemma ece391_strlen_loop_cstring: "cstring m s xs \<Longrightarrow> ece391_strlen_loop m s len = Some (len + of_nat (length xs))"
proof (induction xs arbitrary: s len)
  case Nil
  then show ?case by (subst ece391_strlen_loop.simps) (simp add: cstring_Nil)
next
  case (Cons x xs)
  then show ?case by (subst ece391_strlen_loop.simps) (simp add: cstring_Cons)
qed

lemma ece391_strlen_cstring: "cstring m s xs \<Longrightarrow> ece391_strlen m s = Some (of_nat (length xs))"
  by (simp add: ece391_strlen_def ece391_strlen_loop_cstring)

lemma ece391_strlen_loop_ends:
  assumes "ece391_strlen_loop m s len = Some r"
  shows "\<exists>xs. cstring m s xs"
proof (rule ece391_strlen_loop.raw_induct [where P = "\<lambda>m s len r. \<exists>xs. cstring m s xs", OF _ assms])
  fix loop :: "memory \<Rightarrow> u32 \<Rightarrow> u32 \<Rightarrow> u32 option" and m s len r
  assume IH: "\<And>m s len r. loop m s len = Some r \<Longrightarrow> \<exists>xs. cstring m s xs"
    and eq: "(if m s \<noteq> 0 then loop m (s + 1) (len + 1) else Some len) = Some r"
  show "\<exists>xs. cstring m s xs"
  proof (cases "m s = 0")
    case True
    then show ?thesis by (intro exI [of _ "[]"]) (simp add: cstring_Nil)
  next
    case False
    then obtain xs where "cstring m (s + 1) xs" using IH eq by fastforce
    then show ?thesis using False by (intro exI [of _ "m s # xs"]) (simp add: cstring_Cons)
  qed
qed

text \<open>The two \<open>strlen\<close>, and with them \<open>strrev\<close> and \<open>itoa\<close>, are the same functions.\<close>

lemma ece391_strlen_same: "ece391_strlen m s = strlen m s"
proof (cases "\<exists>xs. cstring m s xs")
  case True
  then show ?thesis using strlen_cstring ece391_strlen_cstring by auto
next
  case False
  then have "ece391_strlen m s = None" using ece391_strlen_loop_ends [of m s 0] by (cases "ece391_strlen m s") (auto simp: ece391_strlen_def)
  moreover have "strlen m s = None" using False strlen_loop_Some [of m s 0] by (cases "strlen m s") (auto simp: strlen_def)
  ultimately show ?thesis by simp
qed

lemma ece391_strrev_same: "ece391_strrev m s = strrev m s"
proof -
  have "strrev_loop m s 0 e = m" if "e \<le> 0" for e using that by (subst strrev_loop.simps) simp
  then show ?thesis by (auto simp: ece391_strrev_def strrev_def ece391_strlen_same Let_def split: option.split)
qed

lemma ece391_itoa_loop_same: "2 \<le> unat r \<Longrightarrow> ece391_itoa_loop m b v r = itoa_loop m b v r"
proof (induction "unat v" arbitrary: m b v rule: less_induct)
  case less
  show ?case
  proof (cases "0 < v")
    case False
    then show ?thesis by (subst ece391_itoa_loop.simps, subst itoa_loop.simps) simp
  next
    case True
    then have "unat (v div r) < unat v" using less.prems by (simp add: unat_div word_less_nat_alt)
    then show ?thesis using less by (subst ece391_itoa_loop.simps, subst itoa_loop.simps) simp
  qed
qed

lemma ece391_itoa_same: "2 \<le> unat radix \<Longrightarrow> ece391_itoa m v buf radix = itoa m v buf radix"
  by (simp add: ece391_itoa_def itoa_def ece391_itoa_loop_same ece391_strrev_same split: option.split)

section \<open>Comparison\<close>

text \<open>
  \<open>ece391_strcmp\<close> returns for any two strings: zero exactly for equal strings and a negative number exactly
  when the first one comes first in the dictionary order of the bytes as unsigned numbers.
\<close>

lemma ece391_strcmp_orders:
  assumes "cstring m s1 xs" and "cstring m s2 ys"
  shows "\<exists>d. ece391_strcmp m s1 s2 = Some d \<and> (d = 0 \<longleftrightarrow> xs = ys) \<and> (d < 0 \<longleftrightarrow> (xs, ys) \<in> lexord {(x, y). x < y})"
  using assms
proof (induction xs arbitrary: s1 s2 ys)
  case Nil
  show ?case
  proof (cases ys)
    case Nil': Nil
    then show ?thesis using Nil by (subst ece391_strcmp.simps) (simp add: cstring_Nil)
  next
    case (Cons y ys')
    then have "m s1 = 0" "m s2 = y" "y \<noteq> 0" using Nil by (simp_all add: cstring_Nil cstring_Cons)
    then show ?thesis using Cons by (subst ece391_strcmp.simps) (simp add: word_neq_0_conv word_less_def)
  qed
next
  case (Cons x xs)
  have x: "m s1 = x" "x \<noteq> 0" "cstring m (s1 + 1) xs" using Cons.prems(1) by (simp_all add: cstring_Cons)
  show ?case
  proof (cases ys)
    case Nil
    then have "m s2 = 0" using Cons.prems(2) by (simp add: cstring_Nil)
    then show ?thesis using x Nil by (subst ece391_strcmp.simps) (simp add: word_less_def word_uint_eq_iff)
  next
    case (Cons y ys')
    then have y: "m s2 = y" "y \<noteq> 0" "cstring m (s2 + 1) ys'" using Cons.prems(2) by (simp_all add: cstring_Cons)
    show ?thesis
    proof (cases "x = y")
      case True
      then show ?thesis using Cons.IH [OF x(3) y(3)] x y Cons by (subst ece391_strcmp.simps) simp
    next
      case False
      then show ?thesis using x y Cons by (subst ece391_strcmp.simps) (simp add: word_less_def word_uint_eq_iff)
    qed
  qed
qed

lemma of_nat_length_nonzero: "length xs < 2 ^ 32 \<Longrightarrow> (of_nat (length xs) :: u32) = 0 \<longleftrightarrow> xs = []"
  using unat_of_nat_less [of "length xs"] unat_eq_0 [of "of_nat (length xs) :: u32"] by simp

lemma ece391_strncmp_loop_prefix:
  assumes "rd_bytes m s2 (length ys) = ys" and "0 \<notin> set ys" and "ys \<noteq> []" and "length ys < 2 ^ 32"
  shows "\<exists>d. ece391_strncmp_loop m s1 s2 (of_nat (length ys)) = Some d \<and> (d = 0 \<longleftrightarrow> rd_bytes m s1 (length ys) = ys)"
  using assms
proof (induction ys arbitrary: s1 s2)
  case (Cons y ys)
  have y: "m s2 = y" "y \<noteq> 0" "rd_bytes m (s2 + 1) (length ys) = ys" using Cons.prems by simp_all
  show ?case
  proof (cases "m s1 = y")
    case False
    then show ?thesis using y by (subst ece391_strncmp_loop.simps) (auto simp: word_uint_eq_iff)
  next
    case True
    show ?thesis
    proof (cases "ys = []")
      case nil: True
      then show ?thesis using True y by (subst ece391_strncmp_loop.simps) simp
    next
      case False
      have "(of_nat (length ys) :: u32) \<noteq> 0" using False Cons.prems(4) by (simp add: of_nat_length_nonzero)
      then show ?thesis
        using True y False Cons.IH [OF y(3) _ False, of "s1 + 1"] Cons.prems by (subst ece391_strncmp_loop.simps) simp
    qed
  qed
qed simp

lemma ece391_strncmp_prefix:
  assumes "cstring m s2 ys" and "length ys < 2 ^ 32"
  shows "\<exists>d. ece391_strncmp m s1 s2 (of_nat (length ys)) = Some d \<and> (d = 0 \<longleftrightarrow> rd_bytes m s1 (length ys) = ys)"
proof (cases "ys = []")
  case True
  then show ?thesis by (simp add: ece391_strncmp_def)
next
  case False
  have "rd_bytes m s2 (length ys + 1) = ys @ [0]" using assms(1) by (simp add: cstring_def)
  then have r: "rd_bytes m s2 (length ys) = ys" unfolding rd_bytes_add by simp
  have "(of_nat (length ys) :: u32) \<noteq> 0" using False assms(2) by (simp add: of_nat_length_nonzero)
  then show ?thesis
    using ece391_strncmp_loop_prefix [OF r _ False assms(2), of s1] assms(1) by (simp add: ece391_strncmp_def cstring_def)
qed

section \<open>Copying\<close>

text \<open>Copying to lower addresses is right even when source and destination overlap.\<close>

lemma ece391_strcpy_down:
  assumes "cstring m src xs" and "unat dst \<le> unat src" and "unat src + length xs < 2 ^ 32"
  shows "ece391_strcpy m dst src = Some (wr_bytes m dst (xs @ [0]))"
  using assms
proof (induction xs arbitrary: m dst src)
  case Nil
  then show ?case by (subst ece391_strcpy.simps) (simp add: cstring_Nil fun_upd_def)
next
  case (Cons x xs)
  have x: "m src = x" "x \<noteq> 0" "cstring m (src + 1) xs" using Cons.prems(1) by (simp_all add: cstring_Cons)
  have u: "unat (src + 1) = unat src + 1" "unat (dst + 1) = unat dst + 1"
    using Cons.prems(2,3) by (simp_all add: unat_plus_if')
  have "dst \<notin> region (src + 1) (Suc (length xs))"
  proof -
    have "region (src + 1) (Suc (length xs)) = {b. unat (src + 1) \<le> unat b \<and> unat b < unat (src + 1) + Suc (length xs)}"
      using u(1) Cons.prems(3) by (intro region_interval) simp
    then show ?thesis using u(1) Cons.prems(2) by simp
  qed
  then have "rd_bytes (m(dst := x)) (src + 1) (Suc (length xs)) = rd_bytes m (src + 1) (Suc (length xs))"
    using Cons.prems(3) by (intro rd_bytes_upd_outside) auto
  then have "cstring (m(dst := x)) (src + 1) xs" using x(3) by (auto simp only: cstring_def)
  from Cons.IH [OF this, of "dst + 1"] show ?case
    using u Cons.prems(2,3) x by (subst ece391_strcpy.simps) (simp add: fun_upd_def)
qed

end
