(* ===== verification/Paging.thy ===== *)
theory Paging
  imports Lib_Mem
begin

unbundle bit_operations_syntax

text \<open>
  The page tables of \<^verbatim>\<open>page.c\<close> and the x86 address translation they are made for. The state is the
  part of the machine paging owns: the page directories, the two page tables, the control
  registers, the physical memory, the displayed terminal (\<open>current_terminal\<close>), and whether an
  access of the kernel has faulted. Later theories extend the record.
\<close>

section \<open>State\<close>

text \<open>
  \<open>low_memory_at\<close> and \<open>video_table_at\<close> are the addresses the linker gave the two tables;
  \<open>cr3\<close> holds the number of the page directory whose address is in the register. The kernel is
  mapped one to one, so a table has the same physical and virtual address.
\<close>

record machine =
  page_directories :: "nat \<Rightarrow> nat \<Rightarrow> u32"
  low_memory_table :: "nat \<Rightarrow> u32"
  video_table :: "nat \<Rightarrow> u32"
  low_memory_at :: u32
  video_table_at :: u32
  cr0 :: u32
  cr3 :: nat
  cr4 :: u32
  phys :: memory
  current_terminal :: nat
  fault :: bool

definition MAX_PID :: nat where "MAX_PID = 10"

definition NUM_PDS :: nat where "NUM_PDS = MAX_PID + 1"

definition OFFSET_4M :: u32 where "OFFSET_4M = 0x400000"

definition OFFSET_4K :: u32 where "OFFSET_4K = 0x1000"

definition OFFSET_VIDEO :: u32 where "OFFSET_VIDEO = 0xB8000"

definition PDE_PRESENT :: u32 where "PDE_PRESENT = 1"

definition PDE_WRITE :: u32 where "PDE_WRITE = 2"

definition PDE_USER :: u32 where "PDE_USER = 4"

definition PDE_SIZE :: u32 where "PDE_SIZE = 0x80"

definition PDE_ADDRESS_MASK :: u32 where "PDE_ADDRESS_MASK = 0xFFFFF000"

definition PAGING_PSE :: u32 where "PAGING_PSE = 0x10"

definition PAGING_ENABLE :: u32 where "PAGING_ENABLE = 0x80000000"

text \<open>The attribute byte of each terminal (\<open>attribs\<close> of \<^verbatim>\<open>lib.c\<close>).\<close>

definition attribs :: "nat \<Rightarrow> byte" where
  "attribs t = (if t = 0 then 0x30 else if t = 1 then 0x40 else if t = 2 then 0x50 else 0)"

text \<open>The page of the video window that backs terminal \<open>t\<close>; page 3 is the real screen.\<close>

definition vid_window :: "nat \<Rightarrow> u32" where
  "vid_window t = of_nat (NUM_PDS + 1) * OFFSET_4M + of_nat t * OFFSET_4K"

lemmas paging_consts = MAX_PID_def NUM_PDS_def OFFSET_4M_def OFFSET_4K_def OFFSET_VIDEO_def
  PDE_PRESENT_def PDE_WRITE_def PDE_USER_def PDE_SIZE_def PDE_ADDRESS_MASK_def PAGING_PSE_def
  PAGING_ENABLE_def

section \<open>Address translation\<close>

text \<open>
  The two-level walk of the processor, with 4 MB pages: an access needs a present entry on each
  level, a user access the user bit, and a write the write bit when it comes from user mode or when
  \<open>CR0.WP\<close> is set.
\<close>

definition allowed :: "u32 \<Rightarrow> bool \<Rightarrow> bool \<Rightarrow> u32 \<Rightarrow> bool" where
  "allowed c0 usr wr e \<longleftrightarrow> e AND 1 \<noteq> 0 \<and> (usr \<longrightarrow> e AND 4 \<noteq> 0) \<and>
     (wr \<and> (usr \<or> c0 AND 0x10000 \<noteq> 0) \<longrightarrow> e AND 2 \<noteq> 0)"

definition page_table :: "'a machine_scheme \<Rightarrow> u32 \<Rightarrow> (nat \<Rightarrow> u32) option" where
  "page_table s a =
     (if a = low_memory_at s then Some (low_memory_table s)
      else if a = video_table_at s then Some (video_table s) else None)"

definition translate :: "'a machine_scheme \<Rightarrow> bool \<Rightarrow> bool \<Rightarrow> u32 \<Rightarrow> u32 option" where
  "translate s usr wr v =
     (if cr0 s AND 0x80000000 = 0 then Some v
      else
        (let pde = page_directories s (cr3 s) (unat (v div 0x400000)) in
         if \<not> allowed (cr0 s) usr wr pde then None
         else if pde AND 0x80 \<noteq> 0 \<and> cr4 s AND 0x10 \<noteq> 0
         then Some ((pde AND 0xFFC00000) + v mod 0x400000)
         else
           (case page_table s (pde AND 0xFFFFF000) of
              None \<Rightarrow> None
            | Some pt \<Rightarrow>
                (let pte = pt (unat (v div 0x1000 mod 0x400)) in
                 if \<not> allowed (cr0 s) usr wr pte then None
                 else Some ((pte AND 0xFFFFF000) + v mod 0x1000)))))"

text \<open>Byte accesses of the kernel. A failed translation raises the page fault, which is recorded.\<close>

definition kread8 :: "'a machine_scheme \<Rightarrow> u32 \<Rightarrow> byte" where
  "kread8 s v = (case translate s False False v of None \<Rightarrow> 0 | Some p \<Rightarrow> phys s p)"

definition kwrite8 :: "u32 \<Rightarrow> byte \<Rightarrow> 'a machine_scheme \<Rightarrow> 'a machine_scheme" where
  "kwrite8 v b s =
     (case translate s False True v of
        None \<Rightarrow> s\<lparr>fault := True\<rparr>
      | Some p \<Rightarrow> s\<lparr>phys := (phys s)(p := b)\<rparr>)"

section \<open>The operations of page.c\<close>

definition set_vmem_table :: "nat \<Rightarrow> 'a machine_scheme \<Rightarrow> 'a machine_scheme" where
  "set_vmem_table term_num s =
     (let e = unat (OFFSET_VIDEO div OFFSET_4K) in
      if current_terminal s = term_num
      then s\<lparr>low_memory_table := (low_memory_table s)
              (e := OFFSET_VIDEO OR PDE_PRESENT OR PDE_WRITE OR PDE_USER)\<rparr>
      else s\<lparr>low_memory_table := (low_memory_table s)
              (e := vid_window term_num OR PDE_PRESENT OR PDE_WRITE OR PDE_USER)\<rparr>)"

definition clear_pd :: "(nat \<Rightarrow> u32) \<Rightarrow> nat \<Rightarrow> u32" where
  "clear_pd pd = (\<lambda>i. if i < 1024 then 0 else pd i)"

definition init_pd :: "nat \<Rightarrow> 'a machine_scheme \<Rightarrow> 'a machine_scheme" where
  "init_pd pd_num s =
     s\<lparr>page_directories := (page_directories s)(pd_num := (clear_pd (page_directories s pd_num))
        (0 := (low_memory_at s AND PDE_ADDRESS_MASK) OR PDE_PRESENT,
         1 := OFFSET_4M OR PDE_SIZE OR PDE_PRESENT,
         32 := of_nat (pd_num + 1) * OFFSET_4M OR PDE_SIZE OR PDE_PRESENT OR PDE_USER OR PDE_WRITE,
         33 := (low_memory_at s AND PDE_ADDRESS_MASK) OR PDE_PRESENT OR PDE_USER OR PDE_WRITE,
         NUM_PDS + 1 := (video_table_at s AND PDE_ADDRESS_MASK) OR PDE_PRESENT))\<rparr>"

definition set_cr3 :: "nat \<Rightarrow> 'a machine_scheme \<Rightarrow> 'a machine_scheme" where
  "set_cr3 pd_num s = s\<lparr>cr3 := pd_num\<rparr>"

text \<open>\<open>init_paging\<close>: the tables, the control registers, then the colour of the three terminals.\<close>

definition init_tables :: "'a machine_scheme \<Rightarrow> 'a machine_scheme" where
  "init_tables s =
     s\<lparr>page_directories := (page_directories s)(0 := (clear_pd (page_directories s 0))
         (0 := (low_memory_at s AND PDE_ADDRESS_MASK) OR PDE_PRESENT,
          1 := OFFSET_4M OR PDE_SIZE OR PDE_PRESENT,
          NUM_PDS + 1 := (video_table_at s AND PDE_ADDRESS_MASK) OR PDE_PRESENT OR PDE_WRITE OR PDE_USER)),
       low_memory_table := (\<lambda>i. if i < 1024 then of_nat i * OFFSET_4K else low_memory_table s i)
         (unat (OFFSET_VIDEO div OFFSET_4K) := OFFSET_VIDEO OR PDE_PRESENT OR PDE_WRITE OR PDE_USER),
       video_table := (video_table s)
         (0 := vid_window 0 OR PDE_PRESENT OR PDE_WRITE OR PDE_USER,
          1 := vid_window 1 OR PDE_PRESENT OR PDE_WRITE OR PDE_USER,
          2 := vid_window 2 OR PDE_PRESENT OR PDE_WRITE OR PDE_USER,
          3 := OFFSET_VIDEO OR PDE_PRESENT OR PDE_WRITE OR PDE_USER)\<rparr>"

definition enable_paging :: "'a machine_scheme \<Rightarrow> 'a machine_scheme" where
  "enable_paging s = s\<lparr>cr3 := 0, cr4 := cr4 s OR PAGING_PSE, cr0 := cr0 s OR PAGING_ENABLE\<rparr>"

definition color_terminal :: "nat \<Rightarrow> 'a machine_scheme \<Rightarrow> 'a machine_scheme" where
  "color_terminal i s =
     fold (\<lambda>k. kwrite8 (vid_window i + of_nat k)
          (if (vid_window i + of_nat k) mod 2 = 0 then 0 else attribs i))
       [0..<4096] (set_vmem_table i s)"

definition init_paging :: "'a machine_scheme \<Rightarrow> 'a machine_scheme" where
  "init_paging s = set_vmem_table 0 (fold color_terminal [0..<3] (enable_paging (init_tables s)))"

section \<open>The invariant of the tables\<close>

definition tables_linked :: "'a machine_scheme \<Rightarrow> bool" where
  "tables_linked s \<longleftrightarrow> low_memory_at s AND 0xFFFFF000 = low_memory_at s \<and>
     video_table_at s AND 0xFFFFF000 = video_table_at s \<and> low_memory_at s \<noteq> video_table_at s"

text \<open>The contents of a directory: the kernel's own (0) and that of process \<open>p\<close>.\<close>

definition pd_entry :: "'a machine_scheme \<Rightarrow> nat \<Rightarrow> nat \<Rightarrow> u32" where
  "pd_entry s p i =
     (if i = 0 then low_memory_at s OR 1
      else if i = 1 then 0x400081
      else if i = 12 then video_table_at s OR (if p = 0 then 7 else 1)
      else if i = 32 \<and> p \<noteq> 0 then of_nat (p + 1) * 0x400000 OR 0x87
      else if i = 33 \<and> p \<noteq> 0 then low_memory_at s OR 7
      else 0)"

definition pd_ready :: "'a machine_scheme \<Rightarrow> nat \<Rightarrow> bool" where
  "pd_ready s p \<longleftrightarrow> p \<le> MAX_PID \<and> (\<forall>i < 1024. page_directories s p i = pd_entry s p i)"

text \<open>Where the video window pages and the remappable page \<open>0xB8000\<close> may lead.\<close>

definition vid_frame :: "nat \<Rightarrow> u32" where
  "vid_frame t = (if t = 3 then 0xB8000 else vid_window t)"

definition paging_ok :: "'a machine_scheme \<Rightarrow> bool" where
  "paging_ok s \<longleftrightarrow> tables_linked s \<and> cr0 s AND 0x80000000 \<noteq> 0 \<and> cr0 s AND 0x10000 = 0 \<and>
     cr4 s AND 0x10 \<noteq> 0 \<and> (\<forall>i < 1024. i \<noteq> 184 \<longrightarrow> low_memory_table s i AND 1 = 0) \<and>
     (\<exists>t < 4. low_memory_table s 184 = vid_frame t OR 7) \<and>
     (\<forall>t < 4. video_table s t = vid_frame t OR 7) \<and>
     (\<forall>i < 1024. 4 \<le> i \<longrightarrow> video_table s i AND 1 = 0) \<and>
     pd_ready s 0 \<and> pd_ready s (cr3 s)"

text \<open>Bit-level facts on entries: a page-aligned address with the low flag bits added.\<close>

lemma entry_flags:
  fixes a :: u32
  assumes "a AND 0xFFFFF000 = a"
  shows "(a OR 1) AND 0xFFFFF000 = a" "(a OR 7) AND 0xFFFFF000 = a"
    "(a OR 1) AND 1 = 1" "(a OR 7) AND 1 = 1" "(a OR 1) AND 2 = 0" "(a OR 7) AND 2 = 2"
    "(a OR 1) AND 4 = 0" "(a OR 7) AND 4 = 4" "(a OR 1) AND 0x80 = 0" "(a OR 7) AND 0x80 = 0"
proof -
  have z: "a AND x = 0" if "0xFFFFF000 AND x = 0" for x
  proof -
    have "a AND x = (a AND 0xFFFFF000) AND x" by (simp only: assms)
    also have "\<dots> = a AND (0xFFFFF000 AND x)" by (simp only: and.assoc)
    finally show ?thesis using that by simp
  qed
  have z1: "a AND 1 = 0" "a AND 2 = 0" "a AND 4 = 0" "a AND 0x80 = 0" by (rule z, simp)+
  show "(a OR 1) AND 0xFFFFF000 = a" "(a OR 7) AND 0xFFFFF000 = a"
    "(a OR 1) AND 1 = 1" "(a OR 7) AND 1 = 1" "(a OR 1) AND 2 = 0" "(a OR 7) AND 2 = 2"
    "(a OR 1) AND 4 = 0" "(a OR 7) AND 4 = 4" "(a OR 1) AND 0x80 = 0" "(a OR 7) AND 0x80 = 0"
    using assms z1 by (simp_all add: bit.conj_disj_distrib2)
qed

lemma less_4_cases: "t < 4 \<longleftrightarrow> t = 0 \<or> t = 1 \<or> t = 2 \<or> t = (3 :: nat)"
  by auto

lemma vid_window_value: "t < 4 \<Longrightarrow> vid_window t = 0x3000000 + 0x1000 * of_nat t"
  by (simp add: vid_window_def paging_consts)

lemma vid_frame_entry:
  assumes "t < 4"
  shows "vid_frame t AND 0xFFFFF000 = vid_frame t"
  using assms by (auto simp: less_4_cases vid_frame_def vid_window_value)

lemma user_page_entry:
  assumes "p \<le> 10"
  shows "(of_nat (p + 1) * 0x400000 OR 0x87 :: u32) AND 0xFFC00000 = of_nat (p + 1) * 0x400000"
    "(of_nat (p + 1) * 0x400000 OR 0x87 :: u32) AND 1 = 1"
    "(of_nat (p + 1) * 0x400000 OR 0x87 :: u32) AND 2 = 2"
    "(of_nat (p + 1) * 0x400000 OR 0x87 :: u32) AND 4 = 4"
    "(of_nat (p + 1) * 0x400000 OR 0x87 :: u32) AND 0x80 = 0x80"
proof -
  have "p = 0 \<or> p = 1 \<or> p = 2 \<or> p = 3 \<or> p = 4 \<or> p = 5 \<or> p = 6 \<or> p = 7 \<or> p = 8 \<or> p = 9 \<or> p = 10"
    using assms by presburger
  then show "(of_nat (p + 1) * 0x400000 OR 0x87 :: u32) AND 0xFFC00000 = of_nat (p + 1) * 0x400000"
    "(of_nat (p + 1) * 0x400000 OR 0x87 :: u32) AND 1 = 1"
    "(of_nat (p + 1) * 0x400000 OR 0x87 :: u32) AND 2 = 2"
    "(of_nat (p + 1) * 0x400000 OR 0x87 :: u32) AND 4 = 4"
    "(of_nat (p + 1) * 0x400000 OR 0x87 :: u32) AND 0x80 = 0x80"
    by auto
qed

lemma page_index:
  assumes "unat (b :: u32) + k < 2 ^ 32" and "unat b mod 4096 = 0" and "k < 4096"
  shows "unat ((b + of_nat k) div 0x400000) = unat b div 4194304"
    and "unat ((b + of_nat k) div 0x1000 mod 0x400) = unat b div 4096 mod 1024"
    and "(b + of_nat k) mod 0x1000 = of_nat k"
proof -
  have k: "unat (of_nat k :: u32) = k" using assms(3) by (intro unat_of_nat_less) simp
  have u: "unat (b + of_nat k) = unat b + k" using assms(1) k by (simp add: unat_plus_if')
  define q where "q = unat b div 4096"
  have q: "unat b = 4096 * q" using assms(2) by (simp add: q_def minus_mod_eq_mult_div [symmetric])
  have d: "(unat b + k) div 4096 = q" using assms(3) by (simp add: q)
  have "(unat b + k) div 4194304 = (unat b + k) div 4096 div 1024" by (simp add: div_mult2_eq [symmetric])
  then have "(unat b + k) div 4194304 = unat b div 4194304"
    unfolding d by (simp add: q div_mult2_eq [of _ 4096 1024, simplified])
  then show "unat ((b + of_nat k) div 0x400000) = unat b div 4194304" by (simp add: unat_div u)
  show "unat ((b + of_nat k) div 0x1000 mod 0x400) = unat b div 4096 mod 1024"
    by (simp add: unat_div unat_mod u d) (simp add: q)
  have "unat ((b + of_nat k) mod 0x1000) = unat (of_nat k :: u32)"
    using assms(3) by (simp add: unat_mod u k) (simp add: q)
  then show "(b + of_nat k) mod 0x1000 = of_nat k" by (simp only: word_unat_eq_iff)
qed

section \<open>What the tables map\<close>

lemma translate_table:
  assumes "paging_ok s" and "unat (v div 0x400000) = i" and "i < 1024"
    and "pd_entry s (cr3 s) i = a OR f" and "f = 1 \<or> f = 7" and "a AND 0xFFFFF000 = a"
    and "a = low_memory_at s \<and> pt = low_memory_table s \<or> a = video_table_at s \<and> pt = video_table s"
  shows "translate s usr wr v =
    (let pte = pt (unat (v div 0x1000 mod 0x400)) in
     if (usr \<longrightarrow> f = 7) \<and> allowed (cr0 s) usr wr pte
     then Some ((pte AND 0xFFFFF000) + v mod 0x1000) else None)"
proof -
  have pd: "page_directories s (cr3 s) i = a OR f"
    using assms(1,3,4) by (simp add: paging_ok_def pd_ready_def)
  have pt: "page_table s a = Some pt"
    using assms(1,7) by (auto simp: page_table_def paging_ok_def tables_linked_def)
  have c: "cr0 s AND 0x80000000 \<noteq> 0" "cr0 s AND 0x10000 = 0" using assms(1) by (simp_all add: paging_ok_def)
  from assms(5) show ?thesis
    by (elim disjE)
       (auto simp: translate_def assms(2) pd pt c allowed_def entry_flags [OF assms(6)] Let_def)
qed

lemma linkedD:
  assumes "paging_ok s"
  shows "low_memory_at s AND 0xFFFFF000 = low_memory_at s"
    "video_table_at s AND 0xFFFFF000 = video_table_at s"
    "cr0 s AND 0x10000 = 0" "cr0 s AND 0x80000000 \<noteq> 0" "cr4 s AND 0x10 \<noteq> 0"
  using assms by (simp_all add: paging_ok_def tables_linked_def)

text \<open>The kernel reaches the screen buffers through the window, in every directory.\<close>

lemma translate_window:
  assumes ok: "paging_ok s" and t: "t < 4" and k: "k < 4096"
  shows "translate s False wr (vid_window t + of_nat k) = Some (vid_frame t + of_nat k)"
proof -
  let ?v = "vid_window t + of_nat k"
  have u: "unat (vid_window t) = 50331648 + 4096 * t"
    using t by (auto simp: less_4_cases vid_window_value)
  have idx: "unat (?v div 0x400000) = 12" "unat (?v div 0x1000 mod 0x400) = t" "?v mod 0x1000 = of_nat k"
    using page_index [of "vid_window t" k] u t k by (auto simp: less_4_cases)
  have vt: "video_table s t = vid_frame t OR 7" using ok t by (simp add: paging_ok_def)
  have pd: "pd_entry s (cr3 s) 12 = video_table_at s OR (if cr3 s = 0 then 7 else 1)"
    by (simp add: pd_entry_def)
  from translate_table [OF ok idx(1) _ pd, of "video_table s" False wr] show ?thesis
    by (simp add: linkedD [OF ok] idx vt Let_def allowed_def entry_flags [OF vid_frame_entry [OF t]])
qed

text \<open>The page \<open>0xB8000\<close> is the buffer or screen page that \<open>set_vmem_table\<close> chose.\<close>

lemma translate_low_video:
  assumes ok: "paging_ok s" and k: "k < 4096"
    and t: "low_memory_table s 184 = vid_frame t OR 7" "t < 4"
  shows "translate s False wr (0xB8000 + of_nat k) = Some (vid_frame t + of_nat k)"
proof -
  let ?v = "0xB8000 + of_nat k :: u32"
  have idx: "unat (?v div 0x400000) = 0" "unat (?v div 0x1000 mod 0x400) = 184" "?v mod 0x1000 = of_nat k"
    using page_index [of "0xB8000" k] k by auto
  have pd: "pd_entry s (cr3 s) 0 = low_memory_at s OR 1" by (simp add: pd_entry_def)
  from translate_table [OF ok idx(1) _ pd, of "low_memory_table s" False wr] show ?thesis
    by (simp add: linkedD [OF ok] idx t Let_def allowed_def entry_flags [OF vid_frame_entry [OF t(2)]])
qed

text \<open>The kernel page is mapped one to one in every directory.\<close>

lemma translate_kernel:
  assumes ok: "paging_ok s" and v: "0x400000 \<le> v" "v < 0x800000"
  shows "translate s False wr v = Some v"
proof -
  have u: "4194304 \<le> unat v" "unat v < 8388608"
    using v by (simp_all add: word_le_nat_alt word_less_nat_alt)
  then have d: "unat v div 4194304 = 1" by auto
  then have i: "unat (v div 0x400000) = 1" by (simp add: unat_div)
  have "page_directories s (cr3 s) 1 = 0x400081"
    using ok by (simp add: paging_ok_def pd_ready_def pd_entry_def)
  moreover have "0x400000 + v mod 0x400000 = v"
  proof -
    have "v div 0x400000 * 0x400000 + v mod 0x400000 = v" by (rule div_mult_mod_eq)
    moreover have "v div 0x400000 = 1" using i by (simp add: word_unat_eq_iff)
    ultimately show ?thesis by simp
  qed
  ultimately show ?thesis
    by (simp add: translate_def i Let_def allowed_def linkedD [OF ok])
qed

section \<open>Isolation of user programs\<close>

definition user_frame :: "nat \<Rightarrow> u32 set" where
  "user_frame p = region (of_nat (p + 1) * 0x400000) 0x400000"

definition kernel_frame :: "u32 set" where
  "kernel_frame = region 0x400000 0x400000"

definition video_frames :: "u32 set" where
  "video_frames = (\<Union>t \<in> {..<4}. region (vid_frame t) 4096)"

lemma user_frame_interval:
  assumes "p \<le> 10"
  shows "user_frame p = {a. 4194304 * (p + 1) \<le> unat a \<and> unat a < 4194304 * (p + 2)}"
proof -
  have "unat (of_nat (p + 1) * 0x400000 :: u32) = 4194304 * (p + 1)"
    using assms unat_of_nat_less [of "(p + 1) * 4194304"] by simp
  then show ?thesis using assms by (simp add: user_frame_def region_interval)
qed

lemma user_frames_disjoint:
  assumes "p \<le> 10" and "q \<le> 10" and "p \<noteq> q"
  shows "user_frame p \<inter> user_frame q = {}"
proof -
  have False if "4194304 * (p + 1) \<le> x" "x < 4194304 * (p + 2)" "4194304 * (q + 1) \<le> x"
    "x < 4194304 * (q + 2)" for x :: nat
    using that assms(3) by simp
  then show ?thesis unfolding user_frame_interval [OF assms(1)] user_frame_interval [OF assms(2)] by blast
qed

lemma kernel_frame_interval: "kernel_frame = {a. 4194304 \<le> unat a \<and> unat a < 8388608}"
  by (simp add: kernel_frame_def region_interval)

lemma region_kernel: "4194304 \<le> unat a \<Longrightarrow> unat a + n \<le> 8388608 \<Longrightarrow> region a n \<subseteq> kernel_frame"
  using region_interval [of a n] by (auto simp: kernel_frame_interval)

lemma kernel_frame_user_frame: "1 \<le> p \<Longrightarrow> p \<le> 10 \<Longrightarrow> kernel_frame \<inter> user_frame p = {}"
  by (auto simp: kernel_frame_interval user_frame_interval)

lemma video_framesD:
  assumes "a \<in> video_frames"
  shows "753664 \<le> unat a \<and> unat a < 757760 \<or> 50331648 \<le> unat a \<and> unat a < 50343936"
proof -
  from assms obtain t where t: "t < 4" and a: "a \<in> region (vid_frame t) 4096"
    by (auto simp: video_frames_def)
  have u: "unat (vid_frame t) = (if t = 3 then 753664 else 50331648 + 4096 * t)"
    using t by (auto simp: less_4_cases vid_frame_def vid_window_value)
  then have "a \<in> {a. unat (vid_frame t) \<le> unat a \<and> unat a < unat (vid_frame t) + 4096}"
    using a t region_interval [of "vid_frame t" 4096] by (simp split: if_splits)
  then show ?thesis using t u by (simp split: if_splits)
qed

lemma kernel_frame_video: "kernel_frame \<inter> video_frames = {}"
  by (auto simp: kernel_frame_interval dest: video_framesD)

lemma user_frame_video: "p \<le> 10 \<Longrightarrow> user_frame p \<inter> video_frames = {}"
  by (auto simp: user_frame_interval dest: video_framesD)

lemma word_mod_of_nat: "(v :: u32) mod w = of_nat (unat v mod unat w)"
  using of_nat_of_unat [of "v mod w"] by (simp only: unat_mod)

lemma translate_user:
  assumes ok: "paging_ok s" and p: "cr3 s \<noteq> 0" and tr: "translate s True wr v = Some a"
  shows "a \<in> user_frame (cr3 s) \<and> unat v div 0x400000 = 32 \<or>
    a \<in> video_frames \<and> unat v div 0x400000 = 33"
proof -
  have p10: "cr3 s \<le> 10" using ok by (simp add: paging_ok_def pd_ready_def paging_consts)
  define i where "i = unat v div 0x400000"
  have i: "unat (v div 0x400000) = i" "i < 1024"
    using unat_lt32 [of v] by (auto simp: i_def unat_div less_mult_imp_div_less)
  have pd: "page_directories s (cr3 s) i = pd_entry s (cr3 s) i"
    using ok i by (simp add: paging_ok_def pd_ready_def)
  have "allowed (cr0 s) True wr (pd_entry s (cr3 s) i)"
    using tr linkedD(4) [OF ok] by (auto simp: translate_def i pd Let_def split: if_splits)
  then have "i = 32 \<or> i = 33"
    using p by (auto simp: pd_entry_def allowed_def entry_flags [OF linkedD(1) [OF ok]]
        entry_flags [OF linkedD(2) [OF ok]] split: if_splits)
  then show ?thesis
  proof
    assume 32: "i = 32"
    define b :: u32 where "b = of_nat (cr3 s + 1) * 0x400000"
    have e: "page_directories s (cr3 s) (unat (v div 0x400000)) = b OR 0x87"
      using p pd i 32 by (simp add: pd_entry_def b_def)
    have "a = b + v mod 0x400000"
      using tr linkedD(4,5) [OF ok] user_page_entry [OF p10, folded b_def]
      by (simp add: translate_def e Let_def split: if_splits)
    moreover have "v mod 0x400000 = of_nat (unat v mod 4194304)"
      using word_mod_of_nat [of v "0x400000"] by (simp del: of_nat_mod)
    ultimately have "a \<in> region b 0x400000"
      using add_in_region [of "unat v mod 4194304" "0x400000" b] by (simp del: of_nat_mod)
    then have "a \<in> user_frame (cr3 s)" by (simp only: user_frame_def b_def)
    with 32 show ?thesis by (simp add: i_def)
  next
    assume 33: "i = 33"
    have e: "pd_entry s (cr3 s) 33 = low_memory_at s OR 7"
      using p by (simp add: pd_entry_def)
    let ?j = "unat (v div 0x1000 mod 0x400)"
    have j: "?j < 1024" by (simp add: unat_mod)
    from tr have "allowed (cr0 s) True wr (low_memory_table s ?j)"
      and a: "a = (low_memory_table s ?j AND 0xFFFFF000) + v mod 0x1000"
      using translate_table [OF ok i(1) i(2) e [folded 33], of "low_memory_table s" True wr]
        linkedD(1) [OF ok] by (auto simp: Let_def split: if_splits)
    then have "?j = 184" using ok j by (auto simp: paging_ok_def allowed_def)
    then obtain t where t: "t < 4" "low_memory_table s ?j = vid_frame t OR 7"
      using ok by (auto simp: paging_ok_def)
    have "v mod 0x1000 = of_nat (unat v mod 4096)"
      using word_mod_of_nat [of v "0x1000"] by (simp del: of_nat_mod)
    then have "a \<in> region (vid_frame t) 4096"
      using a t entry_flags(2) [OF vid_frame_entry [OF t(1)]]
      by (simp add: add_in_region del: of_nat_mod)
    with 33 t(1) show ?thesis by (auto simp: video_frames_def i_def)
  qed
qed

section \<open>The operations keep the invariant\<close>

lemma paging_ok_cong:
  assumes "page_directories s = page_directories s'" "low_memory_table s = low_memory_table s'"
    "video_table s = video_table s'" "low_memory_at s = low_memory_at s'"
    "video_table_at s = video_table_at s'" "cr0 s = cr0 s'" "cr3 s = cr3 s'" "cr4 s = cr4 s'"
  shows "paging_ok s \<longleftrightarrow> paging_ok s'"
  using assms by (simp add: paging_ok_def tables_linked_def pd_ready_def pd_entry_def)

lemma paging_ok_upd [simp]:
  "paging_ok (s\<lparr>phys := m\<rparr>) = paging_ok s" "paging_ok (s\<lparr>fault := b\<rparr>) = paging_ok s"
  "paging_ok (s\<lparr>current_terminal := t\<rparr>) = paging_ok s"
  by (simp_all cong: paging_ok_cong add: paging_ok_def tables_linked_def pd_ready_def pd_entry_def)

lemma kwrite8_ok [simp]: "paging_ok (kwrite8 v b s) = paging_ok s"
  by (simp add: kwrite8_def split: option.splits)

lemma kwrite8_window:
  assumes "paging_ok s" and "t < 4" and "k < 4096"
  shows "kwrite8 (vid_window t + of_nat k) b s = s\<lparr>phys := (phys s)(vid_frame t + of_nat k := b)\<rparr>"
  using translate_window [OF assms] by (simp add: kwrite8_def)

lemma kread8_window:
  assumes "paging_ok s" and "t < 4" and "k < 4096"
  shows "kread8 s (vid_window t + of_nat k) = phys s (vid_frame t + of_nat k)"
  using translate_window [OF assms] by (simp add: kread8_def)

lemma write_window:
  assumes "paging_ok s" and "t < 4" and "n \<le> 4096"
  shows "fold (\<lambda>k. kwrite8 (vid_window t + of_nat k) (f k)) [0..<n] s =
    s\<lparr>phys := wr_bytes (phys s) (vid_frame t) (map f [0..<n])\<rparr>"
  using assms(3)
proof (induction n)
  case 0
  then show ?case by simp
next
  case (Suc n)
  then show ?case
    using assms(1,2) by (simp add: kwrite8_window wr_bytes_append fun_upd_def)
qed

lemma set_vmem_table_entry:
  assumes "t < 3"
  shows "low_memory_table (set_vmem_table t s) =
    (low_memory_table s)(184 := vid_frame (if current_terminal s = t then 3 else t) OR 7)"
proof -
  have "vid_window t OR 1 OR 2 OR 4 = vid_window t OR 7"
    using assms by (simp add: or.assoc)
  then show ?thesis
    using assms by (simp add: set_vmem_table_def vid_frame_def paging_consts Let_def)
qed

lemma set_vmem_table_other [simp]:
  "page_directories (set_vmem_table t s) = page_directories s"
  "video_table (set_vmem_table t s) = video_table s"
  "low_memory_at (set_vmem_table t s) = low_memory_at s"
  "video_table_at (set_vmem_table t s) = video_table_at s"
  "cr0 (set_vmem_table t s) = cr0 s" "cr3 (set_vmem_table t s) = cr3 s"
  "cr4 (set_vmem_table t s) = cr4 s" "phys (set_vmem_table t s) = phys s"
  "current_terminal (set_vmem_table t s) = current_terminal s"
  "fault (set_vmem_table t s) = fault s" "machine.more (set_vmem_table t s) = machine.more s"
  by (simp_all add: set_vmem_table_def Let_def)

lemma set_vmem_table_ok:
  assumes "paging_ok s" and "t < 3"
  shows "paging_ok (set_vmem_table t s)"
proof -
  have "(if current_terminal s = t then 3 else t) < 4" using assms(2) by simp
  then have "\<exists>u < 4. vid_frame (if current_terminal s = t then 3 else t) OR 7 = vid_frame u OR 7"
    by blast
  then show ?thesis
    using assms
    by (simp add: paging_ok_def tables_linked_def pd_ready_def pd_entry_def set_vmem_table_entry)
qed

lemma entry_eq:
  "(0x400000 :: u32) OR 0x80 OR 1 = 0x400081" "x OR 0x80 OR 1 OR 4 OR 2 = (x OR 0x87 :: u32)"
  "x OR 1 OR 4 OR 2 = (x OR 7 :: u32)" "x OR 1 OR 2 OR 4 = (x OR 7 :: u32)"
  by (simp_all add: or.assoc)

lemma init_pd_entries:
  assumes "tables_linked s" and "0 < p" and "i < 1024"
  shows "page_directories (init_pd p s) p i = pd_entry s p i"
  using assms
  by (simp add: init_pd_def pd_entry_def clear_pd_def paging_consts tables_linked_def entry_eq
      del: of_nat_add)

lemma init_pd_other [simp]:
  "low_memory_table (init_pd p s) = low_memory_table s" "video_table (init_pd p s) = video_table s"
  "low_memory_at (init_pd p s) = low_memory_at s" "video_table_at (init_pd p s) = video_table_at s"
  "cr0 (init_pd p s) = cr0 s" "cr3 (init_pd p s) = cr3 s" "cr4 (init_pd p s) = cr4 s"
  "phys (init_pd p s) = phys s" "current_terminal (init_pd p s) = current_terminal s"
  "fault (init_pd p s) = fault s" "machine.more (init_pd p s) = machine.more s"
  "q \<noteq> p \<Longrightarrow> page_directories (init_pd p s) q = page_directories s q"
  by (simp_all add: init_pd_def)

lemma pd_entry_cong:
  "low_memory_at s = low_memory_at s' \<Longrightarrow> video_table_at s = video_table_at s' \<Longrightarrow>
   pd_entry s p i = pd_entry s' p i"
  by (simp add: pd_entry_def)

lemma init_pd_ready:
  assumes "tables_linked s" and "0 < p" and "p \<le> MAX_PID"
  shows "pd_ready (init_pd p s) p" and "pd_ready s q \<Longrightarrow> pd_ready (init_pd p s) q"
proof -
  have e: "pd_entry (init_pd p s) q i = pd_entry s q i" for q i by (rule pd_entry_cong) simp_all
  show 1: "pd_ready (init_pd p s) p" using assms by (simp add: pd_ready_def e init_pd_entries)
  show "pd_ready s q \<Longrightarrow> pd_ready (init_pd p s) q"
    using 1 by (cases "q = p") (simp_all add: pd_ready_def e)
qed

lemma init_pd_ok:
  assumes "paging_ok s" and "0 < p" and "p \<le> MAX_PID"
  shows "paging_ok (init_pd p s)"
proof -
  have "tables_linked s" "pd_ready s 0" "pd_ready s (cr3 s)"
    using assms(1) by (simp_all add: paging_ok_def)
  then have "pd_ready (init_pd p s) 0" "pd_ready (init_pd p s) (cr3 s)"
    using init_pd_ready(2) [OF _ assms(2,3)] by blast+
  with assms(1) show ?thesis by (simp add: paging_ok_def tables_linked_def)
qed

lemma set_cr3_ok:
  assumes "paging_ok s" and "pd_ready s p"
  shows "paging_ok (set_cr3 p s)"
  using assms by (simp add: paging_ok_def tables_linked_def pd_ready_def pd_entry_def set_cr3_def)

subsection \<open>init\_paging establishes it\<close>

lemma word_or_and_same: "(x OR y) AND y = (y :: u32)"
  by (rule bit_word_eqI) (auto simp: bit_simps)

lemma not_present: "(of_nat i * 0x1000 :: u32) AND 1 = 0"
proof -
  have "even (of_nat i * 0x1000 :: u32)" by simp
  then show ?thesis by (simp add: and_one_eq even_iff_mod_2_eq_zero)
qed

lemma init_tables_ok:
  assumes "tables_linked s" and "cr0 s AND 0x10000 = 0"
    and "\<forall>i < 1024. 4 \<le> i \<longrightarrow> video_table s i AND 1 = 0"
  shows "paging_ok (enable_paging (init_tables s))"
proof -
  let ?s = "enable_paging (init_tables s)"
  have vt: "video_table ?s = (video_table s)(0 := vid_frame 0 OR 7, 1 := vid_frame 1 OR 7,
      2 := vid_frame 2 OR 7, 3 := vid_frame 3 OR 7)"
    by (simp add: enable_paging_def init_tables_def vid_frame_def paging_consts entry_eq)
  have v4: "\<forall>t < 4. video_table ?s t = vid_frame t OR 7" by (auto simp: vt less_4_cases)
  have lm: "low_memory_table ?s 184 = vid_frame 3 OR 7"
    "\<forall>i < 1024. i \<noteq> 184 \<longrightarrow> low_memory_table ?s i AND 1 = 0"
    using not_present by (simp_all add: enable_paging_def init_tables_def vid_frame_def paging_consts)
  have pd: "pd_ready ?s 0"
    using assms(1) by (simp add: pd_ready_def pd_entry_def enable_paging_def init_tables_def
        paging_consts clear_pd_def tables_linked_def entry_eq)
  have c: "cr0 ?s AND 0x80000000 \<noteq> 0" "cr0 ?s AND 0x10000 = 0" "cr4 ?s AND 0x10 \<noteq> 0" "cr3 ?s = 0"
    "tables_linked ?s"
    using assms(1,2) by (simp_all add: enable_paging_def init_tables_def paging_consts
        word_or_and_same bit.conj_disj_distrib2 tables_linked_def)
  have "\<exists>t < 4. low_memory_table ?s 184 = vid_frame t OR 7" using lm(1) by (intro exI [of _ 3]) simp
  moreover have "\<forall>i < 1024. 4 \<le> i \<longrightarrow> video_table ?s i AND 1 = 0" using assms(3) by (simp add: vt)
  ultimately show ?thesis using v4 lm(2) pd c by (simp only: paging_ok_def simp_thms)
qed

definition blank_page :: "nat \<Rightarrow> byte list" where
  "blank_page t = map (\<lambda>k. if even k then 0 else attribs t) [0..<4096]"

lemma even_word_unat: "even (x :: u32) \<longleftrightarrow> even (unat x)"
  by transfer (simp add: even_take_bit_eq even_nat_iff)

lemma color_terminal_eq:
  assumes "paging_ok s" and "i < 3"
  shows "color_terminal i s = (set_vmem_table i s)\<lparr>phys := wr_bytes (phys s) (vid_frame i) (blank_page i)\<rparr>"
proof -
  have "(vid_window i + of_nat k) mod 2 = 0 \<longleftrightarrow> even k" if "k < 4096" for k
  proof -
    have "even (vid_window i)" using assms(2) by (simp add: vid_window_value)
    moreover have "even (of_nat k :: u32) \<longleftrightarrow> even k"
      using that by (simp only: even_word_unat) (simp add: unat_of_nat_less)
    ultimately have "even (vid_window i + of_nat k) \<longleftrightarrow> even k" by (simp only: even_add simp_thms)
    then show ?thesis by (simp only: even_iff_mod_2_eq_zero)
  qed
  then have "map (\<lambda>k. if (vid_window i + of_nat k) mod 2 = 0 then 0 else attribs i) [0..<4096] = blank_page i"
    by (simp add: blank_page_def)
  then show ?thesis
    using write_window [OF set_vmem_table_ok [OF assms], of i 4096] assms(2)
    by (simp add: color_terminal_def)
qed

lemma color_terminal_ok: "paging_ok s \<Longrightarrow> i < 3 \<Longrightarrow> paging_ok (color_terminal i s)"
  by (simp add: color_terminal_eq set_vmem_table_ok)

lemma color_terminal_other:
  assumes "paging_ok s" and "i < 3"
  shows "phys (color_terminal i s) = wr_bytes (phys s) (vid_frame i) (blank_page i)"
    "fault (color_terminal i s) = fault s" "current_terminal (color_terminal i s) = current_terminal s"
  using assms by (simp_all add: color_terminal_eq)

lemma length_blank_page [simp]: "length (blank_page t) = 4096"
  by (simp add: blank_page_def)

lemma vid_frames_disjoint:
  assumes "t < 4" and "u < 4" and "t \<noteq> u"
  shows "disjoint_regions (vid_frame t) 4096 (vid_frame u) 4096"
  using assms
  by (intro disjoint_regions_intervalI) (auto simp: less_4_cases vid_frame_def vid_window_value)

lemma vid_frame_video: "t < 4 \<Longrightarrow> a \<notin> video_frames \<Longrightarrow> a \<notin> region (vid_frame t) 4096"
  by (auto simp: video_frames_def)

lemma rd_wr_frame:
  assumes "t < 4" and "u < 4" and "length xs = 4096"
  shows "rd_bytes (wr_bytes m (vid_frame t) xs) (vid_frame u) 4096 =
    (if t = u then xs else rd_bytes m (vid_frame u) 4096)"
  using assms vid_frames_disjoint [of t u] rd_wr_bytes_same [of xs m "vid_frame t"]
  by (auto simp: rd_wr_bytes_disjoint)

lemma init_paging_frame:
  "machine.more (init_paging s) = machine.more s" "current_terminal (init_paging s) = current_terminal s" "cr3 (init_paging s) = 0"
proof -
  have v: "machine.more (set_vmem_table t s) = machine.more s" "current_terminal (set_vmem_table t s) = current_terminal s"
    "cr3 (set_vmem_table t s) = cr3 s" for t and s :: "'b machine_scheme"
    by (simp_all add: set_vmem_table_def Let_def)
  have w: "machine.more (kwrite8 a b s) = machine.more s" "current_terminal (kwrite8 a b s) = current_terminal s"
    "cr3 (kwrite8 a b s) = cr3 s" for a b and s :: "'b machine_scheme"
    by (simp_all add: kwrite8_def split: option.split)
  have f: "machine.more (fold g xs s) = machine.more s \<and> current_terminal (fold g xs s) = current_terminal s \<and> cr3 (fold g xs s) = cr3 s"
    if "\<And>x s. machine.more (g x s) = machine.more s \<and> current_terminal (g x s) = current_terminal s \<and> cr3 (g x s) = cr3 s"
    for g and xs :: "nat list" and s :: "'b machine_scheme"
    by (induction xs arbitrary: s) (simp_all add: that)
  have c: "machine.more (color_terminal i s) = machine.more s \<and> current_terminal (color_terminal i s) = current_terminal s \<and>
      cr3 (color_terminal i s) = cr3 s" for i and s :: "'b machine_scheme"
    unfolding color_terminal_def by (subst f [THEN conjunct1] f [THEN conjunct2, THEN conjunct1] f [THEN conjunct2, THEN conjunct2]; simp only: v w simp_thms)+
  show "machine.more (init_paging s) = machine.more s" "current_terminal (init_paging s) = current_terminal s" "cr3 (init_paging s) = 0"
    using f [of color_terminal "[0..<3]" "enable_paging (init_tables s)", OF c]
    by (simp_all add: init_paging_def v) (simp_all add: enable_paging_def init_tables_def)
qed

lemma init_paging_eq:
  assumes "tables_linked s" and "cr0 s AND 0x10000 = 0"
    and "\<forall>i < 1024. 4 \<le> i \<longrightarrow> video_table s i AND 1 = 0"
  shows "paging_ok (init_paging s) \<and> fault (init_paging s) = fault s \<and>
    (\<forall>t < 3. rd_bytes (phys (init_paging s)) (vid_frame t) 4096 = blank_page t) \<and>
    (\<forall>a. a \<notin> video_frames \<longrightarrow> phys (init_paging s) a = phys s a) \<and>
    (current_terminal s = 0 \<longrightarrow> low_memory_table (init_paging s) 184 = 0xB8000 OR 7)"
proof -
  let ?s0 = "enable_paging (init_tables s)"
  let ?s1 = "color_terminal 0 ?s0" let ?s2 = "color_terminal 1 ?s1" let ?s3 = "color_terminal 2 ?s2"
  have up: "[0..<3] = [0, 1, 2]" by (simp add: upt_rec)
  have i: "init_paging s = set_vmem_table 0 ?s3" unfolding init_paging_def up by simp
  note ok0 = init_tables_ok [OF assms]
  note ok1 = color_terminal_ok [OF ok0, of 0, simplified]
  note ok2 = color_terminal_ok [OF ok1, of 1, simplified]
  note ok3 = color_terminal_ok [OF ok2, of 2, simplified]
  have s0: "phys ?s0 = phys s" "fault ?s0 = fault s" "current_terminal ?s0 = current_terminal s"
    by (simp_all add: enable_paging_def init_tables_def)
  note c = color_terminal_other [OF ok0, of 0, simplified] color_terminal_other [OF ok1, of 1, simplified]
    color_terminal_other [OF ok2, of 2, simplified]
  have ph: "phys ?s3 = wr_bytes (wr_bytes (wr_bytes (phys s) (vid_frame 0) (blank_page 0))
      (vid_frame 1) (blank_page 1)) (vid_frame 2) (blank_page 2)"
    using c s0 by simp
  have "rd_bytes (phys ?s3) (vid_frame t) 4096 = blank_page t" if "t < 3" for t
    using that less_4_cases [of t] unfolding ph by (auto simp: rd_wr_frame)
  moreover have "phys ?s3 a = phys s a" if "a \<notin> video_frames" for a
    using vid_frame_video [OF _ that] unfolding ph by (simp add: wr_bytes_outside)
  ultimately show ?thesis
    using set_vmem_table_ok [OF ok3, of 0] c s0
    by (simp add: i set_vmem_table_entry vid_frame_def)
qed

text \<open>
  C26. \<open>init_paging\<close> switches paging on with tables that satisfy the invariant, without a page fault:
  the kernel stays mapped one to one, the three screen buffers are blank in the colour of their
  terminal, the page \<open>0xB8000\<close> shows the real screen when terminal 0 is displayed, and no memory
  outside the video pages changes. It relies on the tables being page aligned and distinct, on
  \<open>CR0.WP\<close> being clear at boot and on \<open>video_table\<close> starting out zero.
\<close>

theorem init_paging_correct:
  assumes "tables_linked s" and "cr0 s AND 0x10000 = 0"
    and "\<forall>i < 1024. 4 \<le> i \<longrightarrow> video_table s i AND 1 = 0"
  shows "paging_ok (init_paging s) \<and> fault (init_paging s) = fault s \<and>
    (\<forall>t < 3. rd_bytes (phys (init_paging s)) (vid_frame t) 4096 = blank_page t) \<and>
    (\<forall>a. a \<notin> video_frames \<longrightarrow> phys (init_paging s) a = phys s a) \<and>
    (current_terminal s = 0 \<longrightarrow> low_memory_table (init_paging s) 184 = 0xB8000 OR 7)"
  using assms by (rule init_paging_eq)

section \<open>What user mode can reach\<close>

lemma pd_ready_same:
  "page_directories s = page_directories s' \<Longrightarrow> low_memory_at s = low_memory_at s' \<Longrightarrow> video_table_at s = video_table_at s' \<Longrightarrow>
   pd_ready s p = pd_ready s' p"
  by (simp add: pd_ready_def pd_entry_def)

lemma user_isolated:
  assumes ok: "paging_ok s" and "cr3 s \<noteq> 0" and "translate s True wr v = Some a"
  shows "a \<in> user_frame (cr3 s) \<union> video_frames" "a \<notin> kernel_frame" "q \<le> MAX_PID \<Longrightarrow> q \<noteq> cr3 s \<Longrightarrow> a \<notin> user_frame q"
proof -
  have p10: "1 \<le> cr3 s" "cr3 s \<le> 10" using ok assms(2) by (simp_all add: paging_ok_def pd_ready_def paging_consts)
  show 1: "a \<in> user_frame (cr3 s) \<union> video_frames" using translate_user [OF ok assms(2,3)] by blast
  show "a \<notin> kernel_frame" using 1 kernel_frame_user_frame [OF p10] kernel_frame_video by blast
  show "a \<notin> user_frame q" if "q \<le> MAX_PID" "q \<noteq> cr3 s"
    using 1 that user_frames_disjoint [OF p10(2)] user_frame_video by (fastforce simp: paging_consts)
qed

text \<open>A machine as the boot loader leaves it, for the examples.\<close>

definition boot_machine :: machine where
  "boot_machine = \<lparr>page_directories = (\<lambda>_ _. 0), low_memory_table = (\<lambda>_. 0), video_table = (\<lambda>_. 0),
     low_memory_at = 0x410000, video_table_at = 0x411000, cr0 = 0x11, cr3 = 0, cr4 = 0,
     phys = (\<lambda>_. 0), current_terminal = 0, fault = False\<rparr>"

theorem init_paging_correct_witness:
  "paging_ok (init_paging boot_machine) \<and> \<not> fault (init_paging boot_machine) \<and>
   rd_bytes (phys (init_paging boot_machine)) 0x3001000 4096 = blank_page 1"
proof -
  have "rd_bytes (phys (init_paging boot_machine)) (vid_frame 1) 4096 = blank_page 1"
    "paging_ok (init_paging boot_machine)" "fault (init_paging boot_machine) = fault boot_machine"
    using init_paging_correct [of boot_machine] by (simp_all add: boot_machine_def tables_linked_def)
  then show ?thesis by (simp add: vid_frame_def vid_window_value boot_machine_def)
qed

lemma boot_paging_ok: "paging_ok (enable_paging (init_tables boot_machine))"
  by (rule init_tables_ok) (simp_all add: boot_machine_def tables_linked_def)

end
