(* ===== verification/Screen.thy ===== *)
theory Screen
  imports Paging
begin

text \<open>
  The console half of \<^verbatim>\<open>lib.c\<close>: the cursor of each terminal, \<open>putc\<close>, \<open>mt_putc\<close>, \<open>putc_kb\<close>,
  \<open>scoot_text\<close>, scrolling and clearing. The displayed terminal is written through \<open>video_mem\<close> (page 3
  of the video window), a background terminal through \<open>map_video_mem\<close> (\<open>0xB8000\<close>), which the page
  tables lead to the buffer of the running process. The last part shows that the console
  implements an abstract text screen.
\<close>

section \<open>State\<close>

text \<open>
  \<open>iflag\<close> is the interrupt flag, \<open>iolog\<close> the log of the accesses to I/O ports, latest first.
  \<open>write_x\<close> and \<open>write_y\<close> belong to \<^verbatim>\<open>terminal.c\<close>; they are here because \<open>scroll\<close> changes \<open>write_y\<close>.
\<close>

datatype io_event = Out byte u16 | In u16

record screen = machine +
  screen_x :: "nat \<Rightarrow> int"
  screen_y :: "nat \<Rightarrow> int"
  biggest_y :: "nat \<Rightarrow> int"
  write_x :: "nat \<Rightarrow> int"
  write_y :: "nat \<Rightarrow> int"
  current_active_process :: nat
  iflag :: bool
  iolog :: "io_event list"

definition NUM_COLS :: int where "NUM_COLS = 80"

definition NUM_ROWS :: int where "NUM_ROWS = 25"

definition video_mem :: u32 where
  "video_mem = of_nat (NUM_PDS + 1) * OFFSET_4M + 3 * OFFSET_4K"

definition map_video_mem :: u32 where
  "map_video_mem = 0xB8000"

definition cli :: "'a screen_scheme \<Rightarrow> 'a screen_scheme" where
  "cli s = s\<lparr>iflag := False\<rparr>"

definition sti :: "'a screen_scheme \<Rightarrow> 'a screen_scheme" where
  "sti s = s\<lparr>iflag := True\<rparr>"

definition outb :: "byte \<Rightarrow> u16 \<Rightarrow> 'a screen_scheme \<Rightarrow> 'a screen_scheme" where
  "outb b p s = s\<lparr>iolog := Out b p # iolog s\<rparr>"

text \<open>Assignments to one element of the per-terminal arrays.\<close>

definition set_sx :: "nat \<Rightarrow> int \<Rightarrow> 'a screen_scheme \<Rightarrow> 'a screen_scheme" where
  "set_sx t v s = s\<lparr>screen_x := (screen_x s)(t := v)\<rparr>"

definition set_sy :: "nat \<Rightarrow> int \<Rightarrow> 'a screen_scheme \<Rightarrow> 'a screen_scheme" where
  "set_sy t v s = s\<lparr>screen_y := (screen_y s)(t := v)\<rparr>"

definition set_by :: "nat \<Rightarrow> int \<Rightarrow> 'a screen_scheme \<Rightarrow> 'a screen_scheme" where
  "set_by t v s = s\<lparr>biggest_y := (biggest_y s)(t := v)\<rparr>"

section \<open>The operations\<close>

subsection \<open>Cursor\<close>

definition cursor_loc :: "int \<Rightarrow> int \<Rightarrow> 'a screen_scheme \<Rightarrow> 'a screen_scheme" where
  "cursor_loc x y s =
     (let coord = x + y * NUM_COLS;
          coord2 = coord div 2 ^ 8;
          s = outb 0x0E 0x3D4 s;
          s = outb (of_int (coord2 mod 256)) 0x3D5 s;
          s = outb 0x0F 0x3D4 s
      in outb (of_int (coord mod 256)) 0x3D5 s)"

definition get_screen_x :: "nat \<Rightarrow> 'a screen_scheme \<Rightarrow> int" where
  "get_screen_x term s = screen_x s term"

definition get_screen_y :: "nat \<Rightarrow> 'a screen_scheme \<Rightarrow> int" where
  "get_screen_y term s = screen_y s term"

definition update_cursor :: "'a screen_scheme \<Rightarrow> 'a screen_scheme" where
  "update_cursor s = cursor_loc (screen_x s (current_terminal s)) (screen_y s (current_terminal s)) s"

definition set_pos :: "int \<Rightarrow> int \<Rightarrow> 'a screen_scheme \<Rightarrow> 'a screen_scheme" where
  "set_pos x y s =
     (let s = cli s;
          s = set_sx (current_terminal s) x s;
          s = set_sy (current_terminal s) y s
      in sti (update_cursor s))"

definition set_x :: "int \<Rightarrow> 'a screen_scheme \<Rightarrow> 'a screen_scheme" where
  "set_x x s = update_cursor (set_sx (current_terminal s) x s)"

definition move_right :: "'a screen_scheme \<Rightarrow> 'a screen_scheme" where
  "move_right s =
     (let t = current_terminal s;
          s = (if screen_x s t < NUM_COLS - 1 then set_sx t (screen_x s t + 1) s
               else if screen_y s t < NUM_ROWS - 1
               then set_sy t (screen_y s t + 1) (set_sx t 0 s)
               else s)
      in update_cursor s)"

definition move_left :: "'a screen_scheme \<Rightarrow> 'a screen_scheme" where
  "move_left s =
     (let t = current_terminal s;
          s = (if screen_x s t > 0 then set_sx t (screen_x s t - 1) s
               else if screen_y s t > 0
               then set_sy t (screen_y s t - 1) (set_sx t (NUM_COLS - 1) s)
               else s)
      in update_cursor s)"

subsection \<open>Cells\<close>

text \<open>
  The character cell \<open>(x, y)\<close> of the screen at \<open>base\<close>, an unchecked write of a character with its
  attribute, and the write the \<open>putc\<close> functions guard by comparing the address as an \<open>int\<close>.
\<close>

definition cell_at :: "u32 \<Rightarrow> int \<Rightarrow> int \<Rightarrow> u32" where
  "cell_at base x y = base + of_int ((NUM_COLS * y + x) * 2)"

definition put_cell :: "u32 \<Rightarrow> int \<Rightarrow> int \<Rightarrow> byte \<Rightarrow> byte \<Rightarrow> 'a screen_scheme \<Rightarrow> 'a screen_scheme" where
  "put_cell base x y c a s = kwrite8 (cell_at base x y + 1) a (kwrite8 (cell_at base x y) c s)"

definition put_cell_checked ::
  "u32 \<Rightarrow> int \<Rightarrow> int \<Rightarrow> byte \<Rightarrow> byte \<Rightarrow> 'a screen_scheme \<Rightarrow> 'a screen_scheme" where
  "put_cell_checked base x y c a s =
     (let cond = cell_at base x y in
      if sint cond > 0 \<and> sint cond < sint base + sint OFFSET_4K - 1
      then put_cell base x y c a s else s)"

subsection \<open>Scrolling and clearing\<close>

definition copy_cell :: "u32 \<Rightarrow> int \<Rightarrow> int \<Rightarrow> int \<Rightarrow> int \<Rightarrow> 'a screen_scheme \<Rightarrow> 'a screen_scheme" where
  "copy_cell base x y x' y' s =
     (let s = kwrite8 (cell_at base x y) (kread8 s (cell_at base x' y')) s
      in kwrite8 (cell_at base x y + 1) (kread8 s (cell_at base x' y' + 1)) s)"

definition scroll_rows :: "u32 \<Rightarrow> 'a screen_scheme \<Rightarrow> 'a screen_scheme" where
  "scroll_rows base s =
     fold (\<lambda>y. fold (\<lambda>x. copy_cell base x (y - 1) x y) [0..NUM_COLS - 1]) [1..NUM_ROWS - 1] s"

definition blank_row :: "u32 \<Rightarrow> int \<Rightarrow> byte \<Rightarrow> 'a screen_scheme \<Rightarrow> 'a screen_scheme" where
  "blank_row base y a s = fold (\<lambda>x. put_cell base x y 0 a) [0..NUM_COLS - 1] s"

definition scroll :: "'a screen_scheme \<Rightarrow> 'a screen_scheme" where
  "scroll s =
     (let t = current_terminal s;
          s = scroll_rows video_mem s;
          s = set_sy t (NUM_ROWS - 1) (set_by t (NUM_ROWS - 1) s);
          s = blank_row video_mem (screen_y s t) (attribs t) s;
          s = set_sx t 0 s
      in s\<lparr>write_y := (write_y s)(t := write_y s t - 1)\<rparr>)"

definition mt_scroll :: "'a screen_scheme \<Rightarrow> 'a screen_scheme" where
  "mt_scroll s =
     (let p = current_active_process s in
      if p = current_terminal s then scroll s
      else
        (let s = scroll_rows map_video_mem s;
             s = set_sy p (NUM_ROWS - 1) (set_by p (NUM_ROWS - 1) s);
             s = blank_row map_video_mem (screen_y s p) (attribs p) s
         in set_sx p 0 s))"

definition clear :: "'a screen_scheme \<Rightarrow> 'a screen_scheme" where
  "clear s =
     (let s = cli s;
          t = current_terminal s;
          s = fold (\<lambda>i s. kwrite8 (video_mem + of_int (i * 2) + 1) (attribs t)
                     (kwrite8 (video_mem + of_int (i * 2)) 0x20 s)) [0..NUM_ROWS * NUM_COLS - 1] s;
          s = set_sx t 0 (set_sy t 0 (set_by t 0 s))
      in sti s)"

subsection \<open>Output\<close>

definition new_line :: "nat \<Rightarrow> 'a screen_scheme \<Rightarrow> 'a screen_scheme" where
  "new_line t s = set_sx t 0 (set_by t (biggest_y s t + 1) (set_sy t (screen_y s t + 1) s))"

definition putc :: "byte \<Rightarrow> 'a screen_scheme \<Rightarrow> 'a screen_scheme" where
  "putc c s =
     (let s = cli s;
          t = current_terminal s;
          s = (if c = 10 \<or> c = 13 then new_line t s
               else
                 (let s = put_cell_checked video_mem (screen_x s t) (screen_y s t) c (attribs t) s
                  in set_sx t (screen_x s t + 1) s));
          s = (if screen_x s t \<ge> NUM_COLS then new_line t s else s);
          s = (if screen_y s t \<ge> NUM_ROWS then scroll s else s)
      in sti (update_cursor s))"

definition mt_putc :: "byte \<Rightarrow> 'a screen_scheme \<Rightarrow> 'a screen_scheme" where
  "mt_putc c s =
     (let s = cli s;
          p = current_active_process s;
          t = current_terminal s in
      if p = t then putc c s
      else
        (let s = (if c = 10 \<or> c = 13 then new_line p s
                  else
                    (let s = put_cell_checked map_video_mem (screen_x s p) (screen_y s p) c (attribs p) s
                     in set_sx p (screen_x s p + 1) s));
             s = (if screen_x s t \<ge> NUM_COLS then new_line p s else s);
             s = (if screen_y s p \<ge> NUM_ROWS then mt_scroll s else s)
         in sti (update_cursor s)))"

text \<open>\<open>putc_kb\<close> with its backspace branch; enter leaves \<open>biggest_y\<close> alone here.\<close>

definition kb_backspace :: "'a screen_scheme \<Rightarrow> 'a screen_scheme" where
  "kb_backspace s =
     (let t = current_terminal s in
      if screen_y s t = 0 \<and> screen_x s t = 0
      then put_cell_checked video_mem (screen_x s t) (screen_y s t) 0x20 (attribs t) s
      else
        (let s = set_sx t (screen_x s t - 1) s;
             s = (if screen_x s t < 0
                  then
                    (let s = set_sx t (NUM_COLS - 1) s;
                         s = set_sy t (screen_y s t - 1) s;
                         s = set_by t (biggest_y s t - 1) s
                     in if screen_y s t < 0 then set_by t 0 (set_sy t 0 s) else s)
                  else s)
         in put_cell_checked video_mem (screen_x s t) (screen_y s t) 0x20 (attribs t) s))"

definition putc_kb :: "byte \<Rightarrow> 'a screen_scheme \<Rightarrow> 'a screen_scheme" where
  "putc_kb c s =
     (let t = current_terminal s;
          s = (if c = 10 \<or> c = 13 then set_sx t 0 (set_sy t (screen_y s t + 1) s)
               else if c = 8 then kb_backspace s
               else
                 (let s = (if screen_x s t \<ge> NUM_COLS then new_line t s else s);
                      s = put_cell_checked video_mem (screen_x s t) (screen_y s t) c (attribs t) s
                  in set_sx t (screen_x s t + 1) s));
          s = (if screen_x s t \<ge> NUM_COLS then new_line t s else s);
          s = (if screen_y s t \<ge> NUM_ROWS then scroll s else s)
      in update_cursor s)"

text \<open>\<open>scoot_text\<close> moves only characters; the attribute of a moved cell is set afresh.\<close>

definition scoot_cell :: "int \<Rightarrow> int \<Rightarrow> int \<Rightarrow> int \<Rightarrow> 'a screen_scheme \<Rightarrow> 'a screen_scheme" where
  "scoot_cell x y x' y' s =
     put_cell video_mem x y (kread8 s (cell_at video_mem x' y')) (attribs (current_terminal s)) s"

definition scoot_text :: "'a screen_scheme \<Rightarrow> 'a screen_scheme" where
  "scoot_text s =
     (let t = current_terminal s;
          s = fold (\<lambda>y s. fold (\<lambda>x. scoot_cell x y (x - 1) y) (rev [1..NUM_COLS - 1])
                     (scoot_cell 0 y (NUM_COLS - 1) (y - 1) s))
                (rev [screen_y s t + 1..NUM_ROWS - 1]) s
      in fold (\<lambda>x. scoot_cell x (screen_y s t) (x - 1) (screen_y s t))
           (rev [screen_x s t + 1..NUM_COLS - 1]) s)"

section \<open>Translation does not depend on the console state\<close>

lemma translate_cong:
  assumes "page_directories s = page_directories s'" "low_memory_table s = low_memory_table s'"
    "video_table s = video_table s'" "low_memory_at s = low_memory_at s'"
    "video_table_at s = video_table_at s'" "cr0 s = cr0 s'" "cr3 s = cr3 s'" "cr4 s = cr4 s'"
  shows "translate s = translate s'"
proof -
  have "page_table s = page_table s'" using assms by (simp add: fun_eq_iff page_table_def)
  then show ?thesis by (intro ext) (simp only: translate_def assms)
qed

lemma translate_upd [simp]:
  "translate (s\<lparr>phys := m\<rparr>) = translate s" "translate (s\<lparr>fault := b\<rparr>) = translate s"
  "translate (s\<lparr>current_terminal := t\<rparr>) = translate s"
  by (rule translate_cong; simp)+

lemma translate_kwrite8 [simp]: "translate (kwrite8 v b s) = translate s"
  by (simp add: kwrite8_def split: option.splits)

lemma translate_screen [simp]:
  "translate (set_sx t v s) = translate s" "translate (set_sy t v s) = translate s"
  "translate (set_by t v s) = translate s" "translate (cli s) = translate s"
  "translate (sti s) = translate s" "translate (outb b q s) = translate s"
  "translate (s\<lparr>write_y := w\<rparr>) = translate s"
  by (rule translate_cong; simp add: set_sx_def set_sy_def set_by_def cli_def sti_def outb_def)+

lemma paging_ok_screen [simp]:
  "paging_ok (set_sx t v s) = paging_ok s" "paging_ok (set_sy t v s) = paging_ok s"
  "paging_ok (set_by t v s) = paging_ok s" "paging_ok (cli s) = paging_ok s"
  "paging_ok (sti s) = paging_ok s" "paging_ok (outb b q s) = paging_ok s"
  "paging_ok (s\<lparr>write_y := w\<rparr>) = paging_ok s"
  by (rule paging_ok_cong; simp add: set_sx_def set_sy_def set_by_def cli_def sti_def outb_def)+

text \<open>The page of virtual addresses at \<open>base\<close> is the page of physical memory at \<open>f\<close>.\<close>

definition maps :: "'a machine_scheme \<Rightarrow> u32 \<Rightarrow> u32 \<Rightarrow> bool" where
  "maps s base f \<longleftrightarrow> (\<forall>k < 4096. \<forall>wr. translate s False wr (base + of_nat k) = Some (f + of_nat k))"

lemma maps_cong: "translate s = translate s' \<Longrightarrow> maps s base f = maps s' base f"
  by (simp add: maps_def)

lemma maps_upd [simp]:
  "maps (s\<lparr>phys := m\<rparr>) base f = maps s base f" "maps (set_sx t v s) base f = maps s base f"
  "maps (set_sy t v s) base f = maps s base f" "maps (set_by t v s) base f = maps s base f"
  "maps (cli s) base f = maps s base f" "maps (sti s) base f = maps s base f"
  by (rule maps_cong; simp)+

lemma kwrite8_maps: "maps s base f \<Longrightarrow> k < 4096 \<Longrightarrow>
    kwrite8 (base + of_nat k) b s = s\<lparr>phys := (phys s)(f + of_nat k := b)\<rparr>"
  by (simp add: maps_def kwrite8_def)

lemma kread8_maps: "maps s base f \<Longrightarrow> k < 4096 \<Longrightarrow> kread8 s (base + of_nat k) = phys s (f + of_nat k)"
  by (simp add: maps_def kread8_def)

lemma video_mem_window: "video_mem = vid_window 3"
  by (simp add: video_mem_def vid_window_def)

lemma maps_video_mem: "paging_ok s \<Longrightarrow> maps s video_mem (vid_frame 3)"
  by (simp add: maps_def video_mem_window translate_window)

lemma maps_map_video_mem:
  "paging_ok s \<Longrightarrow> low_memory_table s 184 = vid_frame t OR 7 \<Longrightarrow> t < 4 \<Longrightarrow>
   maps s map_video_mem (vid_frame t)"
  by (simp add: maps_def map_video_mem_def translate_low_video)

section \<open>Cells\<close>

text \<open>A screen page as a list of 2000 cells, character and attribute.\<close>

type_synonym cell = "byte \<times> byte"

definition cell :: "memory \<Rightarrow> u32 \<Rightarrow> nat \<Rightarrow> cell" where
  "cell m f i = (m (f + of_nat (2 * i)), m (f + of_nat (2 * i + 1)))"

definition cells :: "memory \<Rightarrow> u32 \<Rightarrow> cell list" where
  "cells m f = map (cell m f) [0..<2000]"

definition set_cell :: "memory \<Rightarrow> u32 \<Rightarrow> nat \<Rightarrow> cell \<Rightarrow> memory" where
  "set_cell m f i ca = m(f + of_nat (2 * i) := fst ca, f + of_nat (2 * i + 1) := snd ca)"

lemma length_cells [simp]: "length (cells m f) = 2000"
  by (simp add: cells_def)

lemma nth_cells [simp]: "i < 2000 \<Longrightarrow> cells m f ! i = cell m f i"
  by (simp add: cells_def)

lemma of_nat_inj32: "i < 2 ^ 32 \<Longrightarrow> j < 2 ^ 32 \<Longrightarrow> (of_nat i :: u32) = of_nat j \<longleftrightarrow> i = j"
  by (metis unat_of_nat_less)

lemma cell_set_cell:
  assumes "i < 2048" and "j < 2048"
  shows "cell (set_cell m f i ca) f j = (if i = j then ca else cell m f j)"
proof -
  have "(of_nat a :: u32) = of_nat b \<longleftrightarrow> a = b" if "a < 4096" "b < 4096" for a b
    using that by (intro of_nat_inj32) simp_all
  from this [of "2 * i" "2 * j"] this [of "2 * i" "2 * j + 1"] this [of "2 * i + 1" "2 * j"]
    this [of "2 * i + 1" "2 * j + 1"]
  have "(of_nat (2 * i) :: u32) = of_nat (2 * j) \<longleftrightarrow> i = j" "(of_nat (2 * i) :: u32) \<noteq> of_nat (2 * j + 1)"
    "(of_nat (2 * i + 1) :: u32) \<noteq> of_nat (2 * j)" "(of_nat (2 * i + 1) :: u32) = of_nat (2 * j + 1) \<longleftrightarrow> i = j"
    using assms by (simp_all del: of_nat_add of_nat_mult of_nat_Suc) presburger+
  then show ?thesis by (auto simp: cell_def set_cell_def simp del: of_nat_add of_nat_mult of_nat_Suc)
qed

lemma cells_set_cell:
  "i < 2048 \<Longrightarrow> cells (set_cell m f i ca) f = (if i < 2000 then (cells m f)[i := ca] else cells m f)"
  by (auto intro!: nth_equalityI simp: cell_set_cell nth_list_update)

lemma set_cell_outside:
  assumes "a \<notin> region f 4096" and "i < 2048"
  shows "set_cell m f i ca a = m a"
proof -
  have "f + of_nat (2 * i) \<in> region f 4096" "f + of_nat (2 * i + 1) \<in> region f 4096"
    using assms(2) by (intro add_in_region; simp)+
  then show ?thesis using assms(1) by (auto simp: set_cell_def)
qed

lemma cell_at_offset:
  assumes "0 \<le> 80 * y + x"
  shows "cell_at base x y = base + of_nat (2 * nat (80 * y + x))"
    and "cell_at base x y + 1 = base + of_nat (2 * nat (80 * y + x) + 1)"
proof -
  obtain n where "80 * y + x = int n" using assms by (metis nonneg_int_cases)
  then have "of_int ((80 * y + x) * 2) = (of_nat (2 * nat (80 * y + x)) :: u32)" by simp
  then show 1: "cell_at base x y = base + of_nat (2 * nat (80 * y + x))"
    by (simp only: cell_at_def NUM_COLS_def)
  show "cell_at base x y + 1 = base + of_nat (2 * nat (80 * y + x) + 1)"
    unfolding 1 by (simp add: add.assoc)
qed

lemma put_cell_eq:
  assumes "maps s base f" and "0 \<le> 80 * y + x" and "80 * y + x < 2048"
  shows "put_cell base x y c a s = s\<lparr>phys := set_cell (phys s) f (nat (80 * y + x)) (c, a)\<rparr>"
proof -
  define i where "i = nat (80 * y + x)"
  have "2 * i < 4096" "2 * i + 1 < 4096" using assms by (simp_all add: i_def)
  then show ?thesis
    using assms(1) unfolding put_cell_def cell_at_offset(2) [OF assms(2)]
    by (simp add: cell_at_offset(1) [OF assms(2)] kwrite8_maps set_cell_def
        flip: i_def del: of_nat_add of_nat_mult of_nat_Suc)
qed

lemma copy_cell_eq:
  assumes "maps s base f" and "0 \<le> 80 * y + x" and "80 * y + x < 2048"
    and "0 \<le> 80 * y' + x'" and "80 * y' + x' < 2048"
  shows "copy_cell base x y x' y' s =
    s\<lparr>phys := set_cell (phys s) f (nat (80 * y + x)) (cell (phys s) f (nat (80 * y' + x')))\<rparr>"
proof -
  define i j where "i = nat (80 * y + x)" and "j = nat (80 * y' + x')"
  have ij: "i < 2048" "j < 2048" using assms by (simp_all add: i_def j_def)
  then have b: "2 * i < 4096" "2 * i + 1 < 4096" "2 * j < 4096" "2 * j + 1 < 4096" by simp_all
  have "(of_nat (2 * j + 1) :: u32) = of_nat (2 * i) \<longleftrightarrow> 2 * j + 1 = 2 * i"
    using b by (intro of_nat_inj32) simp_all
  then have "(of_nat (2 * j + 1) :: u32) \<noteq> of_nat (2 * i)" by presburger
  then show ?thesis
    using assms(1) b
    unfolding copy_cell_def cell_at_offset(2) [OF assms(2)] cell_at_offset(2) [OF assms(4)]
    by (simp add: cell_at_offset(1) [OF assms(2)] cell_at_offset(1) [OF assms(4)]
        kwrite8_maps kread8_maps set_cell_def cell_def Let_def
        flip: i_def j_def del: of_nat_add of_nat_mult of_nat_Suc)
qed

section \<open>Loops over cells\<close>

lemma fold_phys:
  assumes "\<And>z m. z \<in> set zs \<Longrightarrow> g z (s\<lparr>phys := m\<rparr>) = s\<lparr>phys := h z m\<rparr>"
  shows "fold g zs (s\<lparr>phys := m\<rparr>) = s\<lparr>phys := fold h zs m\<rparr>"
  using assms by (induction zs arbitrary: m) simp_all

lemma fold_nested:
  "fold (\<lambda>r. fold (\<lambda>a. f (c * r + a)) [0..<c]) [0..<n] = fold f [0..<c * n]" for c n :: nat
proof (induction n)
  case 0
  show ?case by simp
next
  case (Suc n)
  have "[0..<c * Suc n] = [0..<c * n] @ map (\<lambda>a. c * n + a) [0..<c]"
    using upt_add_eq_append [of 0 "c * n" c] by (simp add: map_add_upt add.commute)
  then show ?case using Suc by (simp add: fold_map comp_def)
qed

lemma cols_upto: "[0..NUM_COLS - 1] = map int [0..<80]"
  unfolding NUM_COLS_def by code_simp

lemma rows_upto: "[1..NUM_ROWS - 1] = map (\<lambda>r. int r + 1) [0..<24]"
  unfolding NUM_ROWS_def by code_simp

lemma phys_id: "s\<lparr>phys := phys s\<rparr> = s"
  by simp

definition shift_cell :: "u32 \<Rightarrow> nat \<Rightarrow> memory \<Rightarrow> memory" where
  "shift_cell f j m = set_cell m f j (cell m f (j + 80))"

lemma scroll_rows_eq:
  assumes "maps s base f"
  shows "scroll_rows base s = s\<lparr>phys := fold (shift_cell f) [0..<1920] (phys s)\<rparr>"
proof -
  have step: "copy_cell base (int a) (int r) (int a) (int r + 1) (s\<lparr>phys := m\<rparr>) =
      s\<lparr>phys := shift_cell f (80 * r + a) m\<rparr>" if "a < 80" "r < 24" for a r m
  proof -
    have "nat (80 * int r + int a) = 80 * r + a" "nat (80 * (int r + 1) + int a) = 80 * r + a + 80"
      by (simp_all add: nat_eq_iff)
    then show ?thesis using that assms by (simp add: copy_cell_eq shift_cell_def)
  qed
  have row: "fold (\<lambda>a. copy_cell base (int a) (int r) (int a) (int r + 1)) [0..<80] (s\<lparr>phys := m\<rparr>) =
      s\<lparr>phys := fold (\<lambda>a. shift_cell f (80 * r + a)) [0..<80] m\<rparr>" if "r < 24" for r m
    using that step by (intro fold_phys) simp
  have "scroll_rows base (s\<lparr>phys := phys s\<rparr>) =
      s\<lparr>phys := fold (\<lambda>r. fold (\<lambda>a. shift_cell f (80 * r + a)) [0..<80]) [0..<24] (phys s)\<rparr>"
    unfolding scroll_rows_def cols_upto rows_upto fold_map comp_def
    by (rule fold_phys) (use row in simp)
  then show ?thesis by (simp add: fold_nested)
qed

lemma cells_shift:
  assumes "n \<le> 1920"
  shows "cells (fold (shift_cell f) [0..<n] m) f = take n (drop 80 (cells m f)) @ drop n (cells m f)"
  using assms
proof (induction n)
  case 0
  show ?case by simp
next
  case (Suc n)
  let ?m = "fold (shift_cell f) [0..<n] m"
  have IH: "cells ?m f = take n (drop 80 (cells m f)) @ drop n (cells m f)" using Suc by simp
  have "cell ?m f (n + 80) = cells ?m f ! (n + 80)" using Suc.prems by simp
  also have "\<dots> = cells m f ! (n + 80)" unfolding IH using Suc.prems by (simp add: nth_append)
  finally have "cells (fold (shift_cell f) [0..<Suc n] m) f = (cells ?m f)[n := cells m f ! (n + 80)]"
    using Suc.prems by (simp add: shift_cell_def cells_set_cell)
  also have "\<dots> = take (Suc n) (drop 80 (cells m f)) @ drop (Suc n) (cells m f)"
    unfolding IH using Suc.prems
    by (intro nth_equalityI) (auto simp: nth_append nth_list_update add.commute less_Suc_eq)
  finally show ?case .
qed

lemma fold_outside:
  assumes "\<And>z m. z \<in> set zs \<Longrightarrow> h z m a = m a"
  shows "fold h zs m a = m a"
  using assms by (induction zs arbitrary: m) simp_all

lemma shift_outside: "a \<notin> region f 4096 \<Longrightarrow> fold (shift_cell f) [0..<1920] m a = m a"
  by (rule fold_outside) (simp add: shift_cell_def set_cell_outside)

lemma blank_row_eq:
  assumes "maps s base f"
  shows "blank_row base 24 a s = s\<lparr>phys := fold (\<lambda>x m. set_cell m f (1920 + x) (0, a)) [0..<80] (phys s)\<rparr>"
proof -
  have "put_cell base (int x) 24 0 a (s\<lparr>phys := m\<rparr>) = s\<lparr>phys := set_cell m f (1920 + x) (0, a)\<rparr>"
    if "x < 80" for x m
  proof -
    have "nat (80 * 24 + int x) = 1920 + x" by (simp add: nat_eq_iff)
    then show ?thesis using that assms by (simp add: put_cell_eq)
  qed
  then have "blank_row base 24 a (s\<lparr>phys := phys s\<rparr>) =
      s\<lparr>phys := fold (\<lambda>x m. set_cell m f (1920 + x) (0, a)) [0..<80] (phys s)\<rparr>"
    unfolding blank_row_def cols_upto fold_map comp_def by (intro fold_phys) simp
  then show ?thesis by simp
qed

lemma cells_blank:
  assumes "n \<le> 80"
  shows "cells (fold (\<lambda>x m. set_cell m f (1920 + x) (0, a)) [0..<n] m) f =
    take 1920 (cells m f) @ replicate n (0, a) @ drop (1920 + n) (cells m f)"
  using assms
proof (induction n)
  case 0
  show ?case by simp
next
  case (Suc n)
  then show ?case
    by (simp add: cells_set_cell)
       (auto intro!: nth_equalityI simp: nth_append nth_list_update less_Suc_eq nth_Cons')
qed

lemma blank_outside:
  "z \<notin> region f 4096 \<Longrightarrow> fold (\<lambda>x m. set_cell m f (1920 + x) (0, a)) [0..<80] m z = m z"
  by (rule fold_outside) (simp add: set_cell_outside)

text \<open>Shifting the rows up and blanking the last one, on memory.\<close>

definition scroll_mem :: "u32 \<Rightarrow> byte \<Rightarrow> memory \<Rightarrow> memory" where
  "scroll_mem f a m =
     fold (\<lambda>x m. set_cell m f (1920 + x) (0, a)) [0..<80] (fold (shift_cell f) [0..<1920] m)"

lemma cells_scroll_mem: "cells (scroll_mem f a m) f = drop 80 (cells m f) @ replicate 80 (0, a)"
  by (simp add: scroll_mem_def cells_blank cells_shift)

lemma scroll_mem_outside: "z \<notin> region f 4096 \<Longrightarrow> scroll_mem f a m z = m z"
  by (simp add: scroll_mem_def blank_outside shift_outside)

section \<open>The operations in closed form\<close>

lemma put_cell_checked_eq:
  assumes "maps s base f" and "base = of_nat b" and "0 < b" and "b < 2 ^ 30"
    and "0 \<le> 80 * y + x" and "80 * y + x < 2 ^ 28"
  shows "put_cell_checked base x y c a s =
    (if 80 * y + x < 2048 then s\<lparr>phys := set_cell (phys s) f (nat (80 * y + x)) (c, a)\<rparr> else s)"
proof -
  define i where "i = nat (80 * y + x)"
  have i: "i < 2 ^ 28" using assms(5,6) by (simp add: i_def)
  have "cell_at base x y = of_nat (b + 2 * i)"
    using cell_at_offset(1) [OF assms(5), of base] by (simp add: assms(2) i_def)
  then have "sint (cell_at base x y) = int (b + 2 * i)"
    using assms(4) i by (simp add: sint_of_nat_small del: of_nat_add of_nat_mult)
  moreover have "sint base = int b"
    using assms(4) unfolding assms(2) by (intro sint_of_nat_small) simp
  moreover have "sint OFFSET_4K = 4096"
    using sint_of_nat_small [of 4096] by (simp add: OFFSET_4K_def)
  ultimately have "(sint (cell_at base x y) > 0 \<and>
      sint (cell_at base x y) < sint base + sint OFFSET_4K - 1) \<longleftrightarrow> i < 2048"
    using assms(3) by auto
  moreover have "i < 2048 \<longleftrightarrow> 80 * y + x < 2048" using assms(5) by (simp add: i_def nat_less_iff)
  ultimately show ?thesis
    using assms(1,5) by (simp add: put_cell_checked_def put_cell_eq Let_def)
qed

lemma put_cell_video_mem:
  assumes "maps s video_mem f" and "0 \<le> 80 * y + x" and "80 * y + x < 2 ^ 28"
  shows "put_cell_checked video_mem x y c a s =
    (if 80 * y + x < 2048 then s\<lparr>phys := set_cell (phys s) f (nat (80 * y + x)) (c, a)\<rparr> else s)"
  using assms by (intro put_cell_checked_eq [where b = 50343936]) (simp_all add: video_mem_def paging_consts)

lemma put_cell_map_video_mem:
  assumes "paging_ok s" and "low_memory_table s 184 = vid_frame t OR 7" and "t < 4"
    and "0 \<le> 80 * y + x" and "80 * y + x < 2 ^ 28"
  shows "put_cell_checked map_video_mem x y c a s =
    (if 80 * y + x < 2048
     then s\<lparr>phys := set_cell (phys s) (vid_frame t) (nat (80 * y + x)) (c, a)\<rparr> else s)"
  using assms
  by (intro put_cell_checked_eq [where b = 753664] maps_map_video_mem) (simp_all add: map_video_mem_def)

lemma scroll_maps:
  assumes "maps s video_mem f" and "t = current_terminal s"
  shows "scroll s = s\<lparr>phys := scroll_mem f (attribs t) (phys s),
    screen_x := (screen_x s)(t := 0), screen_y := (screen_y s)(t := 24),
    biggest_y := (biggest_y s)(t := 24), write_y := (write_y s)(t := write_y s t - 1)\<rparr>"
proof -
  let ?s1 = "s\<lparr>phys := fold (shift_cell f) [0..<1920] (phys s)\<rparr>"
  let ?s2 = "set_sy t 24 (set_by t 24 ?s1)"
  have "blank_row video_mem 24 (attribs t) ?s2 = ?s2\<lparr>phys :=
      fold (\<lambda>x m. set_cell m f (1920 + x) (0, attribs t)) [0..<80] (phys ?s2)\<rparr>"
    using assms(1) by (intro blank_row_eq) simp
  then show ?thesis
    using assms(2) scroll_rows_eq [OF assms(1)]
    by (simp add: scroll_def Let_def set_sx_def set_sy_def set_by_def NUM_ROWS_def scroll_mem_def)
qed

lemmas scroll_eq = scroll_maps [OF maps_video_mem]

lemma mt_scroll_eq:
  assumes "paging_ok s" and "low_memory_table s 184 = vid_frame f OR 7" and "f < 4"
    and "p = current_active_process s" and "p \<noteq> current_terminal s"
  shows "mt_scroll s = s\<lparr>phys := scroll_mem (vid_frame f) (attribs p) (phys s),
    screen_x := (screen_x s)(p := 0), screen_y := (screen_y s)(p := 24),
    biggest_y := (biggest_y s)(p := 24)\<rparr>"
proof -
  let ?s1 = "s\<lparr>phys := fold (shift_cell (vid_frame f)) [0..<1920] (phys s)\<rparr>"
  let ?s2 = "set_sy p 24 (set_by p 24 ?s1)"
  note mp = maps_map_video_mem [OF assms(1-3)]
  have "blank_row map_video_mem 24 (attribs p) ?s2 = ?s2\<lparr>phys :=
      fold (\<lambda>x m. set_cell m (vid_frame f) (1920 + x) (0, attribs p)) [0..<80] (phys ?s2)\<rparr>"
    using mp by (intro blank_row_eq) simp
  then show ?thesis
    using assms(4,5) scroll_rows_eq [OF mp]
    by (simp add: mt_scroll_def Let_def set_sx_def set_sy_def set_by_def NUM_ROWS_def scroll_mem_def)
qed

lemma update_cursor_simps [simp]:
  "phys (update_cursor s) = phys s" "screen_x (update_cursor s) = screen_x s"
  "screen_y (update_cursor s) = screen_y s" "biggest_y (update_cursor s) = biggest_y s"
  "write_x (update_cursor s) = write_x s" "write_y (update_cursor s) = write_y s"
  "current_terminal (update_cursor s) = current_terminal s" "fault (update_cursor s) = fault s"
  "current_active_process (update_cursor s) = current_active_process s"
  "low_memory_table (update_cursor s) = low_memory_table s"
  "paging_ok (update_cursor s) = paging_ok s" "iflag (update_cursor s) = iflag s"
  "screen.more (update_cursor s) = screen.more s"
  by (simp_all add: update_cursor_def cursor_loc_def Let_def) (simp_all add: outb_def)

lemmas console_upd = set_sx_def set_sy_def set_by_def cli_def sti_def new_line_def

section \<open>The abstract text screen\<close>

text \<open>
  A screen is its 2000 cells and the cursor column and row. Printing a character with attribute
  \<open>a\<close>: a newline or carriage return goes to the next row, any other character is stored and the
  cursor advances; after column 79 comes the next row; below the last row everything scrolls.
\<close>

type_synonym text_screen = "cell list \<times> nat \<times> nat"

definition ascroll :: "byte \<Rightarrow> cell list \<Rightarrow> cell list" where
  "ascroll a cs = drop 80 cs @ replicate 80 (0, a)"

definition aputc :: "byte \<Rightarrow> byte \<Rightarrow> text_screen \<Rightarrow> text_screen" where
  "aputc a c = (\<lambda>(cs, x, y).
     let (cs, x, y) = (if c = 10 \<or> c = 13 then (cs, 0, y + 1) else (cs[80 * y + x := (c, a)], x + 1, y));
         (x, y) = (if 80 \<le> x then (0, y + 1) else (x, y))
     in if 25 \<le> y then (ascroll a cs, 0, 24) else (cs, x, y))"

text \<open>The screen of terminal \<open>t\<close>: the real one when it is displayed, its buffer otherwise.\<close>

definition screen_frame :: "'a machine_scheme \<Rightarrow> nat \<Rightarrow> u32" where
  "screen_frame s t = vid_frame (if current_terminal s = t then 3 else t)"

definition text_view :: "nat \<Rightarrow> 'a screen_scheme \<Rightarrow> text_screen" where
  "text_view t s = (cells (phys s) (screen_frame s t), nat (screen_x s t), nat (screen_y s t))"

text \<open>
  Cursor positions the console can be in. The column has no upper limit but the one of the
  machine: the background output of \<open>mt_putc\<close> does not wrap lines.
\<close>

definition cursor_ok :: "'a screen_scheme \<Rightarrow> nat \<Rightarrow> bool" where
  "cursor_ok s t \<longleftrightarrow> 0 \<le> screen_x s t \<and> screen_x s t < 2 ^ 24 \<and> 0 \<le> screen_y s t \<and> screen_y s t < 25"

definition console_ok :: "'a screen_scheme \<Rightarrow> bool" where
  "console_ok s \<longleftrightarrow> paging_ok s \<and> current_terminal s < 3 \<and> (\<forall>t < 3. cursor_ok s t)"

lemma cells_set_cell_int:
  assumes "0 \<le> x" and "0 \<le> y" and "80 * y + x < 2048"
  shows "cells (set_cell m f (nat (80 * y + x)) ca) f = (cells m f)[80 * nat y + nat x := ca]"
proof -
  have i: "nat (80 * y + x) = 80 * nat y + nat x" using assms by (simp add: nat_add_distrib nat_mult_distrib)
  have "80 * nat y + nat x < 2048" using assms(3) i by linarith
  then show ?thesis by (simp add: i cells_set_cell list_update_beyond)
qed

text \<open>\<open>putc\<close> before the cursor is shown: the cell it writes, the wrapped position, the scroll.\<close>

definition place :: "byte \<Rightarrow> nat \<Rightarrow> u32 \<Rightarrow> 'a screen_scheme \<Rightarrow> memory" where
  "place c t f s =
     (if (c = 10 \<or> c = 13) \<or> 2048 \<le> 80 * screen_y s t + screen_x s t then phys s
      else set_cell (phys s) f (nat (80 * screen_y s t + screen_x s t)) (c, attribs t))"

lemma putc_maps:
  assumes mp: "maps s video_mem f" and t: "t = current_terminal s" and c: "cursor_ok s t"
  shows "phys (putc c s) =
      (if screen_y s t = 24 \<and> (c = 10 \<or> c = 13 \<or> 79 \<le> screen_x s t)
       then scroll_mem f (attribs t) (place c t f s) else place c t f s)"
    and "screen_x (putc c s) =
      (screen_x s)(t := if c = 10 \<or> c = 13 \<or> 79 \<le> screen_x s t then 0 else screen_x s t + 1)"
    and "screen_y (putc c s) =
      (screen_y s)(t := if c = 10 \<or> c = 13 \<or> 79 \<le> screen_x s t then min 24 (screen_y s t + 1) else screen_y s t)"
    and "current_terminal (putc c s) = t" and "fault (putc c s) = fault s"
    and "translate (putc c s) = translate s" and "low_memory_table (putc c s) = low_memory_table s"
    and "current_active_process (putc c s) = current_active_process s" and "paging_ok (putc c s) = paging_ok s"
proof -
  have ok: "0 \<le> screen_x s t" "screen_x s t < 2 ^ 24" "0 \<le> screen_y s t" "screen_y s t < 25"
    using c by (auto simp: cursor_ok_def)
  define s1 where "s1 = (if c = 10 \<or> c = 13 then new_line t (cli s)
      else (let s = put_cell_checked video_mem (screen_x s t) (screen_y s t) c (attribs t) (cli s)
            in set_sx t (screen_x s t + 1) s))"
  define s2 where "s2 = (if screen_x s1 t \<ge> NUM_COLS then new_line t s1 else s1)"
  define s3 where "s3 = (if screen_y s2 t \<ge> NUM_ROWS then scroll s2 else s2)"
  have putc: "putc c s = sti (update_cursor s3)"
    by (simp add: putc_def s1_def s2_def s3_def Let_def t) (simp add: cli_def)
  have pc: "put_cell_checked video_mem (screen_x s t) (screen_y s t) c (attribs t) (cli s) =
      (if 80 * screen_y s t + screen_x s t < 2048
       then (cli s)\<lparr>phys := set_cell (phys (cli s)) f (nat (80 * screen_y s t + screen_x s t)) (c, attribs t)\<rparr> else cli s)"
    using mp ok by (intro put_cell_video_mem) simp_all
  have 1: "phys s1 = place c t f s" "screen_x s1 = (screen_x s)(t := if c = 10 \<or> c = 13 then 0 else screen_x s t + 1)"
    "screen_y s1 = (screen_y s)(t := if c = 10 \<or> c = 13 then screen_y s t + 1 else screen_y s t)"
    "current_terminal s1 = t" "fault s1 = fault s" "translate s1 = translate s"
    "low_memory_table s1 = low_memory_table s" "current_active_process s1 = current_active_process s" "paging_ok s1 = paging_ok s"
    using ok unfolding s1_def pc by (auto simp: place_def Let_def console_upd t intro!: translate_cong cong: paging_ok_cong)
  have 2: "phys s2 = place c t f s"
    "screen_x s2 = (screen_x s)(t := if c = 10 \<or> c = 13 \<or> 79 \<le> screen_x s t then 0 else screen_x s t + 1)"
    "screen_y s2 = (screen_y s)(t := if c = 10 \<or> c = 13 \<or> 79 \<le> screen_x s t then screen_y s t + 1 else screen_y s t)"
    "current_terminal s2 = t" "fault s2 = fault s" "low_memory_table s2 = low_memory_table s"
    "current_active_process s2 = current_active_process s" "paging_ok s2 = paging_ok s"
    using 1 ok by (auto simp: s2_def NUM_COLS_def console_upd cong: paging_ok_cong)
  have tr2: "translate s2 = translate s" using 1(6) by (simp add: s2_def new_line_def)
  have mp2: "maps s2 video_mem f" using mp maps_cong [OF tr2] by simp
  show "phys (putc c s) =
      (if screen_y s t = 24 \<and> (c = 10 \<or> c = 13 \<or> 79 \<le> screen_x s t)
       then scroll_mem f (attribs t) (place c t f s) else place c t f s)"
    "screen_x (putc c s) =
      (screen_x s)(t := if c = 10 \<or> c = 13 \<or> 79 \<le> screen_x s t then 0 else screen_x s t + 1)"
    "screen_y (putc c s) =
      (screen_y s)(t := if c = 10 \<or> c = 13 \<or> 79 \<le> screen_x s t then min 24 (screen_y s t + 1) else screen_y s t)"
    "current_terminal (putc c s) = t" "fault (putc c s) = fault s" "low_memory_table (putc c s) = low_memory_table s"
    "current_active_process (putc c s) = current_active_process s" "paging_ok (putc c s) = paging_ok s"
    unfolding putc s3_def using 2 ok scroll_maps [OF mp2, of t]
    by (auto simp: NUM_ROWS_def sti_def min_def cong: paging_ok_cong)
  have "translate (scroll s2) = translate s2" unfolding scroll_maps [OF mp2 2(4) [symmetric]] by (rule translate_cong) simp_all
  then have "translate s3 = translate s" using tr2 by (simp add: s3_def)
  then show "translate (putc c s) = translate s" unfolding putc by (simp add: update_cursor_def cursor_loc_def Let_def)
qed

lemma putc_cases:
  assumes "console_ok s" and "t = current_terminal s"
  shows "phys (putc c s) =
      (if screen_y s t = 24 \<and> (c = 10 \<or> c = 13 \<or> 79 \<le> screen_x s t)
       then scroll_mem (vid_frame 3) (attribs t) (place c t (vid_frame 3) s) else place c t (vid_frame 3) s)"
    and "screen_x (putc c s) =
      (screen_x s)(t := if c = 10 \<or> c = 13 \<or> 79 \<le> screen_x s t then 0 else screen_x s t + 1)"
    and "screen_y (putc c s) =
      (screen_y s)(t := if c = 10 \<or> c = 13 \<or> 79 \<le> screen_x s t then min 24 (screen_y s t + 1) else screen_y s t)"
    and "current_terminal (putc c s) = t" and "fault (putc c s) = fault s"
    and "paging_ok (putc c s)" and "low_memory_table (putc c s) = low_memory_table s"
    and "current_active_process (putc c s) = current_active_process s"
proof -
  have "cursor_ok s t" "paging_ok s" using assms by (auto simp: console_ok_def)
  note p = putc_maps [OF maps_video_mem [OF this(2)] assms(2) this(1), of c]
  show "phys (putc c s) =
      (if screen_y s t = 24 \<and> (c = 10 \<or> c = 13 \<or> 79 \<le> screen_x s t)
       then scroll_mem (vid_frame 3) (attribs t) (place c t (vid_frame 3) s) else place c t (vid_frame 3) s)"
    "screen_x (putc c s) =
      (screen_x s)(t := if c = 10 \<or> c = 13 \<or> 79 \<le> screen_x s t then 0 else screen_x s t + 1)"
    "screen_y (putc c s) =
      (screen_y s)(t := if c = 10 \<or> c = 13 \<or> 79 \<le> screen_x s t then min 24 (screen_y s t + 1) else screen_y s t)"
    "current_terminal (putc c s) = t" "fault (putc c s) = fault s" "low_memory_table (putc c s) = low_memory_table s"
    "current_active_process (putc c s) = current_active_process s"
    by (fact p(1), fact p(2), fact p(3), fact p(4), fact p(5), fact p(7), fact p(8))
  show "paging_ok (putc c s)" using p(9) \<open>paging_ok s\<close> by simp
qed

lemma cells_cong: "(\<And>a. a \<in> region f 4096 \<Longrightarrow> m a = m' a) \<Longrightarrow> cells m f = cells m' f"
proof -
  assume eq: "\<And>a. a \<in> region f 4096 \<Longrightarrow> m a = m' a"
  have "cell m f i = cell m' f i" if "i < 2000" for i
    unfolding cell_def using that by (simp only: prod.inject) (intro conjI eq add_in_region; simp)
  then show "cells m f = cells m' f" by (simp add: cells_def)
qed

lemma place_outside:
  assumes "a \<notin> region f 4096"
  shows "place c t f s a = phys s a"
proof -
  have "nat (80 * screen_y s t + screen_x s t) < 2048" if "80 * screen_y s t + screen_x s t < 2048"
    using that by linarith
  then show ?thesis using assms by (simp add: place_def set_cell_outside)
qed

lemma cells_place:
  assumes "0 \<le> screen_x s t" and "0 \<le> screen_y s t"
  shows "cells (place c t f s) f =
    (if c = 10 \<or> c = 13 then cells (phys s) f
     else (cells (phys s) f)[80 * nat (screen_y s t) + nat (screen_x s t) := (c, attribs t)])"
proof (cases "80 * screen_y s t + screen_x s t < 2048")
  case True
  then show ?thesis using assms by (simp add: place_def cells_set_cell_int)
next
  case False
  then have "2048 \<le> 80 * nat (screen_y s t) + nat (screen_x s t)" using assms by linarith
  then show ?thesis using False by (simp add: place_def list_update_beyond)
qed

lemma other_frame:
  assumes "u < 3" and "t < 3" and "u \<noteq> t" and "a \<in> region (screen_frame s u) 4096"
  shows "a \<notin> region (screen_frame s t) 4096"
  using vid_frames_disjoint [of "if current_terminal s = u then 3 else u" "if current_terminal s = t then 3 else t"]
    assms unfolding screen_frame_def disjoint_regions_def by (auto split: if_splits)

lemma nat_less_80: "0 \<le> x \<Longrightarrow> (79 \<le> nat x) = (79 \<le> x)" "0 \<le> x \<Longrightarrow> (80 \<le> nat x + 1) = (79 \<le> x)"
  by linarith+

lemma putc_view:
  assumes "console_ok s" and "t = current_terminal s"
  shows "text_view t (putc c s) = aputc (attribs t) c (text_view t s)"
proof -
  have ok: "0 \<le> screen_x s t" "0 \<le> screen_y s t" "screen_y s t < 25"
    using assms by (auto simp: console_ok_def cursor_ok_def)
  have f: "screen_frame s t = vid_frame 3" "screen_frame (putc c s) t = vid_frame 3"
    using assms putc_cases(4) [OF assms] by (simp_all add: screen_frame_def)
  let ?cs = "cells (place c t (vid_frame 3) s) (vid_frame 3)"
  have y: "nat (min 24 (screen_y s t + 1)) = (if 25 \<le> nat (screen_y s t) + 1 then 24 else nat (screen_y s t) + 1)"
    "(screen_y s t = 24) = (25 \<le> nat (screen_y s t) + 1)" "nat (screen_y s t) \<le> 24"
    using ok by auto
  have "text_view t (putc c s) =
    (if c = 10 \<or> c = 13 \<or> 79 \<le> screen_x s t
     then if 25 \<le> nat (screen_y s t) + 1 then (ascroll (attribs t) ?cs, 0, 24) else (?cs, 0, nat (screen_y s t) + 1)
     else (?cs, nat (screen_x s t) + 1, nat (screen_y s t)))"
    using ok y by (auto simp: text_view_def f putc_cases [OF assms] cells_scroll_mem ascroll_def)
  then show ?thesis
    using ok y(3) nat_less_80 [OF ok(1)]
    by (auto simp: aputc_def text_view_def f cells_place Let_def)
qed

lemma putc_other_view:
  assumes "console_ok s" and "u < 3" and "u \<noteq> current_terminal s"
  shows "text_view u (putc c s) = text_view u s"
proof -
  let ?t = "current_terminal s"
  note pc = putc_cases [OF assms(1) refl, of c]
  have f: "screen_frame (putc c s) u = screen_frame s u" "screen_frame s ?t = vid_frame 3"
    using pc(4) by (simp_all add: screen_frame_def)
  have "phys (putc c s) a = phys s a" if "a \<in> region (screen_frame s u) 4096" for a
  proof -
    have "a \<notin> region (vid_frame 3) 4096"
      using other_frame [OF assms(2) _ assms(3) that] assms(1) f(2) by (simp add: console_ok_def)
    then show ?thesis by (simp add: pc scroll_mem_outside place_outside)
  qed
  then have "cells (phys (putc c s)) (screen_frame s u) = cells (phys s) (screen_frame s u)"
    by (rule cells_cong)
  then show ?thesis using assms(3) pc(2,3) by (simp add: text_view_def f)
qed

lemma putc_ok:
  assumes "console_ok s"
  shows "console_ok (putc c s)"
  using assms putc_cases [OF assms refl, of c]
  by (auto simp: console_ok_def cursor_ok_def)

text \<open>The displayed console implements the text screen, and leaves everything else alone.\<close>

interpretation shown: refinement putc "\<lambda>s. console_ok s \<and> current_terminal s = t" "text_view t" "aputc (attribs t)"
  for t
  by unfold_locales (auto simp: putc_ok putc_cases putc_view)

interpretation hidden: keeps_frame putc "\<lambda>s. console_ok s \<and> current_terminal s = t"
    "\<lambda>s. (fault s, \<lambda>u. if u < 3 \<and> u \<noteq> t then Some (text_view u s) else None)"
  for t
  by unfold_locales (auto simp: putc_ok putc_cases putc_other_view)

lemma putc_run:
  assumes "console_ok s" and "t = current_terminal s"
  shows "text_view t (fold putc cs s) = fold (aputc (attribs t)) cs (text_view t s)"
    "fault (fold putc cs s) = fault s" "console_ok (fold putc cs s)"
    "u < 3 \<Longrightarrow> u \<noteq> t \<Longrightarrow> text_view u (fold putc cs s) = text_view u s"
proof -
  have i: "console_ok s \<and> current_terminal s = t" using assms by simp
  show "text_view t (fold putc cs s) = fold (aputc (attribs t)) cs (text_view t s)"
    by (rule shown.run_abs [OF i])
  show "console_ok (fold putc cs s)" using shown.run_inv [OF i] by blast
  note obs = hidden.run_obs [OF i, of cs]
  show "fault (fold putc cs s) = fault s" using obs by blast
  show "text_view u (fold putc cs s) = text_view u s" if "u < 3" "u \<noteq> t"
    using fun_cong [OF arg_cong [OF obs, of snd], of u] that by simp
qed

text \<open>
  C21. Printing a string with \<open>putc\<close> on the displayed terminal is printing it on an abstract text
  screen: every character lands in the cell under the cursor with the colour of the terminal, lines
  wrap after column 79, and the screen scrolls below row 24. No access faults, and the screens of
  the other two terminals do not change.
\<close>

theorem putc_prints:
  assumes "console_ok s" and "t = current_terminal s"
  shows "text_view t (fold putc cs s) = fold (aputc (attribs t)) cs (text_view t s) \<and>
    fault (fold putc cs s) = fault s \<and>
    (\<forall>u < 3. u \<noteq> t \<longrightarrow> text_view u (fold putc cs s) = text_view u s)"
  using putc_run [OF assms] by blast

text \<open>A console just after boot, for the examples.\<close>

definition boot_screen :: screen where
  "boot_screen = machine.extend (enable_paging (init_tables boot_machine))
     (screen.fields (\<lambda>_. 0) (\<lambda>_. 0) (\<lambda>_. 0) (\<lambda>_. 0) (\<lambda>_. 0) 0 True [])"

lemma boot_screen_simps [simp]:
  "current_terminal boot_screen = 0" "screen_x boot_screen = (\<lambda>_. 0)" "screen_y boot_screen = (\<lambda>_. 0)"
  "current_active_process boot_screen = 0" "fault boot_screen = False" "phys boot_screen = (\<lambda>_. 0)"
  by (simp_all add: boot_screen_def screen.defs machine.defs enable_paging_def init_tables_def boot_machine_def)

lemma boot_screen_ok: "console_ok boot_screen"
proof -
  have "paging_ok boot_screen = paging_ok (enable_paging (init_tables boot_machine))"
    by (rule paging_ok_cong) (simp_all add: boot_screen_def screen.defs machine.defs)
  then show ?thesis using boot_paging_ok by (simp add: console_ok_def cursor_ok_def)
qed

theorem putc_prints_witness:
  "console_ok boot_screen \<and>
   text_view 0 (fold putc [0x68, 0x69, 10] boot_screen) =
     ((cells (\<lambda>_. 0) 0xB8000)[0 := (0x68, 0x30), 1 := (0x69, 0x30)], 0, 1)"
  using putc_prints [OF boot_screen_ok, of 0 "[0x68, 0x69, 10]"] boot_screen_ok
  by (simp add: text_view_def screen_frame_def vid_frame_def aputc_def attribs_def)

section \<open>Background output\<close>

text \<open>
  Output of a process whose terminal is not displayed. \<open>mt_putc\<close> tests the column of the displayed
  terminal, so a background line does not wrap: characters past column 79 go to the next cells
  in memory order while the cursor row stays the same.
\<close>

definition bputc :: "byte \<Rightarrow> byte \<Rightarrow> text_screen \<Rightarrow> text_screen" where
  "bputc a c = (\<lambda>(cs, x, y).
     let (cs, x, y) = (if c = 10 \<or> c = 13 then (cs, 0, y + 1) else (cs[80 * y + x := (c, a)], x + 1, y))
     in if 25 \<le> y then (ascroll a cs, 0, 24) else (cs, x, y))"

text \<open>The page \<open>0xB8000\<close> leads to the screen of the terminal whose process runs.\<close>

definition vmem_ok :: "'a screen_scheme \<Rightarrow> bool" where
  "vmem_ok s \<longleftrightarrow> current_active_process s < 3 \<and>
     low_memory_table s 184 = screen_frame s (current_active_process s) OR 7"

lemma mt_putc_cases:
  assumes "console_ok s" and "vmem_ok s" and "screen_x s (current_terminal s) < 80"
    and p: "p = current_active_process s" "p \<noteq> current_terminal s"
  shows "phys (mt_putc c s) =
      (if screen_y s p = 24 \<and> (c = 10 \<or> c = 13)
       then scroll_mem (vid_frame p) (attribs p) (place c p (vid_frame p) s) else place c p (vid_frame p) s)"
    and "screen_x (mt_putc c s) = (screen_x s)(p := if c = 10 \<or> c = 13 then 0 else screen_x s p + 1)"
    and "screen_y (mt_putc c s) =
      (screen_y s)(p := if c = 10 \<or> c = 13 then min 24 (screen_y s p + 1) else screen_y s p)"
    and "current_terminal (mt_putc c s) = current_terminal s" and "fault (mt_putc c s) = fault s"
    and "paging_ok (mt_putc c s)" and "low_memory_table (mt_putc c s) = low_memory_table s"
    and "current_active_process (mt_putc c s) = p"
proof -
  have p3: "p < 4" and v: "low_memory_table s 184 = vid_frame p OR 7"
    using assms(2) p by (auto simp: vmem_ok_def screen_frame_def)
  have ok: "paging_ok s" "0 \<le> screen_x s p" "screen_x s p < 2 ^ 24" "0 \<le> screen_y s p" "screen_y s p < 25"
    using assms by (auto simp: console_ok_def cursor_ok_def vmem_ok_def)
  define s1 where "s1 = (if c = 10 \<or> c = 13 then new_line p (cli s)
      else (let s = put_cell_checked map_video_mem (screen_x s p) (screen_y s p) c (attribs p) (cli s)
            in set_sx p (screen_x s p + 1) s))"
  have 1: "phys s1 = place c p (vid_frame p) s" "screen_x s1 = (screen_x s)(p := if c = 10 \<or> c = 13 then 0 else screen_x s p + 1)"
    "screen_y s1 = (screen_y s)(p := if c = 10 \<or> c = 13 then screen_y s p + 1 else screen_y s p)"
    "current_terminal s1 = current_terminal s" "fault s1 = fault s" "paging_ok s1"
    "low_memory_table s1 = low_memory_table s" "current_active_process s1 = p"
  proof -
    have "put_cell_checked map_video_mem (screen_x s p) (screen_y s p) c (attribs p) (cli s) =
      (if 80 * screen_y s p + screen_x s p < 2048 then (cli s)\<lparr>phys := set_cell (phys (cli s)) (vid_frame p)
        (nat (80 * screen_y s p + screen_x s p)) (c, attribs p)\<rparr> else cli s)"
      using ok v p3 by (intro put_cell_map_video_mem) (simp_all, simp add: cli_def)
    then show "phys s1 = place c p (vid_frame p) s" "screen_x s1 = (screen_x s)(p := if c = 10 \<or> c = 13 then 0 else screen_x s p + 1)"
    "screen_y s1 = (screen_y s)(p := if c = 10 \<or> c = 13 then screen_y s p + 1 else screen_y s p)"
    "current_terminal s1 = current_terminal s" "fault s1 = fault s" "paging_ok s1"
    "low_memory_table s1 = low_memory_table s" "current_active_process s1 = p"
      using ok p by (auto simp: s1_def place_def Let_def console_upd cong: paging_ok_cong)
  qed
  define s2 where "s2 = (if screen_x s1 (current_terminal s) \<ge> NUM_COLS then new_line p s1 else s1)"
  have cli: "current_active_process (cli s) = p" "current_terminal (cli s) = current_terminal s"
    "screen_x (cli s) = screen_x s" "screen_y (cli s) = screen_y s"
    using p by (simp_all add: cli_def)
  have "mt_putc c s = sti (update_cursor (if screen_y s2 p \<ge> NUM_ROWS then mt_scroll s2 else s2))"
    unfolding mt_putc_def Let_def cli if_not_P [OF p(2)] s2_def s1_def ..
  moreover have "s2 = s1" using 1(2) assms(3) p by (simp add: s2_def NUM_COLS_def)
  ultimately have mp: "mt_putc c s = sti (update_cursor (if screen_y s1 p \<ge> NUM_ROWS then mt_scroll s1 else s1))"
    by simp
  have sc: "mt_scroll s1 = s1\<lparr>phys := scroll_mem (vid_frame p) (attribs p) (phys s1),
    screen_x := (screen_x s1)(p := 0), screen_y := (screen_y s1)(p := 24), biggest_y := (biggest_y s1)(p := 24)\<rparr>"
    using 1 v p3 p by (intro mt_scroll_eq) simp_all
  show "phys (mt_putc c s) =
      (if screen_y s p = 24 \<and> (c = 10 \<or> c = 13)
       then scroll_mem (vid_frame p) (attribs p) (place c p (vid_frame p) s) else place c p (vid_frame p) s)"
    "screen_x (mt_putc c s) = (screen_x s)(p := if c = 10 \<or> c = 13 then 0 else screen_x s p + 1)"
    "screen_y (mt_putc c s) =
      (screen_y s)(p := if c = 10 \<or> c = 13 then min 24 (screen_y s p + 1) else screen_y s p)"
    "current_terminal (mt_putc c s) = current_terminal s" "fault (mt_putc c s) = fault s"
    "paging_ok (mt_putc c s)" "low_memory_table (mt_putc c s) = low_memory_table s"
    "current_active_process (mt_putc c s) = p"
    unfolding mp sc using 1 ok
    by (auto simp: NUM_ROWS_def sti_def min_def cong: paging_ok_cong)
qed

lemma mt_putc_background:
  assumes "console_ok s" and "vmem_ok s" and "screen_x s (current_terminal s) < 80"
    and p: "p = current_active_process s" "p \<noteq> current_terminal s"
  shows "text_view p (mt_putc c s) = bputc (attribs p) c (text_view p s)"
    and "u < 3 \<Longrightarrow> u \<noteq> p \<Longrightarrow> text_view u (mt_putc c s) = text_view u s"
proof -
  note mc = mt_putc_cases [OF assms, of c]
  have p3: "p < 3" using assms(2) p by (simp add: vmem_ok_def)
  have ok: "0 \<le> screen_x s p" "0 \<le> screen_y s p" "screen_y s p < 25"
    using assms p3 by (auto simp: console_ok_def cursor_ok_def)
  have f: "screen_frame (mt_putc c s) u = screen_frame s u" "screen_frame s p = vid_frame p" for u
    using mc(4) p by (simp_all add: screen_frame_def)
  let ?cs = "cells (place c p (vid_frame p) s) (vid_frame p)"
  have "text_view p (mt_putc c s) =
    (if c = 10 \<or> c = 13
     then if 25 \<le> nat (screen_y s p) + 1 then (ascroll (attribs p) ?cs, 0, 24) else (?cs, 0, nat (screen_y s p) + 1)
     else (?cs, nat (screen_x s p) + 1, nat (screen_y s p)))"
    using ok by (auto simp: text_view_def f mc cells_scroll_mem ascroll_def nat_add_distrib)
  then show "text_view p (mt_putc c s) = bputc (attribs p) c (text_view p s)"
    using ok by (auto simp: bputc_def text_view_def f cells_place Let_def)
  assume u: "u < 3" "u \<noteq> p"
  have "phys (mt_putc c s) a = phys s a" if "a \<in> region (screen_frame s u) 4096" for a
    using other_frame [OF u(1) p3 u(2) that] f(2) by (simp add: mc scroll_mem_outside place_outside)
  then have "cells (phys (mt_putc c s)) (screen_frame s u) = cells (phys s) (screen_frame s u)"
    by (rule cells_cong)
  then show "text_view u (mt_putc c s) = text_view u s"
    using u(2) mc(2,3) by (simp add: text_view_def f)
qed

text \<open>Both cases of \<open>mt_putc\<close>: room for \<open>n\<close> more characters, and what one character does.\<close>

definition out_ok :: "nat \<Rightarrow> 'a screen_scheme \<Rightarrow> bool" where
  "out_ok n s \<longleftrightarrow> console_ok s \<and> vmem_ok s \<and> screen_x s (current_terminal s) < 80 \<and>
     screen_x s (current_active_process s) + int n < 2 ^ 24"

definition printc :: "'a screen_scheme \<Rightarrow> byte \<Rightarrow> byte \<Rightarrow> text_screen \<Rightarrow> text_screen" where
  "printc s = (if current_active_process s = current_terminal s then aputc else bputc)"

lemma cli_simps [simp]:
  "text_view t (cli s) = text_view t s" "console_ok (cli s) = console_ok s"
  "current_terminal (cli s) = current_terminal s" "screen_x (cli s) = screen_x s" "screen_y (cli s) = screen_y s"
  "current_active_process (cli s) = current_active_process s" "fault (cli s) = fault s"
  "low_memory_table (cli s) = low_memory_table s" "phys (cli s) = phys s"
  by (simp_all add: text_view_def screen_frame_def console_ok_def cursor_ok_def) (simp_all add: cli_def)

lemma mt_putc_step:
  assumes "out_ok (Suc n) s" and "p = current_active_process s"
  shows "text_view p (mt_putc c s) = printc s (attribs p) c (text_view p s) \<and>
    (\<forall>u < 3. u \<noteq> p \<longrightarrow> text_view u (mt_putc c s) = text_view u s) \<and> fault (mt_putc c s) = fault s \<and>
    out_ok n (mt_putc c s) \<and> current_active_process (mt_putc c s) = p \<and>
    current_terminal (mt_putc c s) = current_terminal s"
proof -
  have ok: "console_ok s" "vmem_ok s" "screen_x s (current_terminal s) < 80" using assms(1) by (simp_all add: out_ok_def)
  show ?thesis
  proof (cases "p = current_terminal s")
    case True
    then have m: "mt_putc c s = putc c (cli s)" using assms(2) by (simp add: mt_putc_def Let_def)
    have c: "console_ok (cli s)" "p = current_terminal (cli s)" using ok True by simp_all
    note pc = putc_cases [OF c, of c]
    have "0 \<le> screen_x s p" using ok True by (auto simp: console_ok_def cursor_ok_def)
    then have "out_ok n (putc c (cli s))"
      using assms ok True pc putc_ok [OF c(1), of c]
      by (auto simp: out_ok_def vmem_ok_def screen_frame_def)
    then show ?thesis
      using assms(2) True putc_view [OF c, of c] putc_other_view [OF c(1)] pc
      by (simp add: m printc_def)
  next
    case False
    note mc = mt_putc_cases [OF ok assms(2) False, of c]
    have p3: "p < 3" using ok(2) assms(2) by (simp add: vmem_ok_def)
    then have "0 \<le> screen_x s p" using ok by (auto simp: console_ok_def cursor_ok_def)
    then have "out_ok n (mt_putc c s)"
      using assms ok False mc p3
      by (auto simp: out_ok_def vmem_ok_def screen_frame_def console_ok_def cursor_ok_def)
    then show ?thesis
      using assms(2) False mt_putc_background [OF ok assms(2) False] mc by (simp add: printc_def)
  qed
qed

lemma mt_putc_run:
  assumes "out_ok (length cs + k) s" and "p = current_active_process s"
  shows "text_view p (fold mt_putc cs s) = fold (printc s (attribs p)) cs (text_view p s) \<and>
    (\<forall>u < 3. u \<noteq> p \<longrightarrow> text_view u (fold mt_putc cs s) = text_view u s) \<and>
    fault (fold mt_putc cs s) = fault s \<and> out_ok k (fold mt_putc cs s) \<and>
    current_active_process (fold mt_putc cs s) = p \<and>
    current_terminal (fold mt_putc cs s) = current_terminal s"
  using assms
proof (induction cs arbitrary: s)
  case Nil
  then show ?case by simp
next
  case (Cons c cs)
  then have o: "out_ok (Suc (length cs + k)) s" by simp
  note st = mt_putc_step [OF o Cons.prems(2), where c = c]
  have pr: "printc (mt_putc c s) = printc s" using st Cons.prems(2) by (simp add: printc_def)
  show ?case using Cons.IH [of "mt_putc c s"] st by (simp add: pr)
qed

section \<open>What no console operation changes\<close>

text \<open>
  The page tables, the registers, the displayed terminal and all state of later theories
  (\<open>screen.more\<close>) are outside the reach of the console.
\<close>

definition rest :: "'a screen_scheme \<Rightarrow> ((nat \<Rightarrow> nat \<Rightarrow> u32) \<times> (nat \<Rightarrow> u32) \<times> (nat \<Rightarrow> u32) \<times> u32 \<times> u32) \<times>
    (u32 \<times> nat \<times> u32) \<times> (nat \<times> nat \<times> (nat \<Rightarrow> int)) \<times> 'a" where
  "rest s = ((page_directories s, low_memory_table s, video_table s, low_memory_at s, video_table_at s),
     (cr0 s, cr3 s, cr4 s), (current_terminal s, current_active_process s, write_x s), screen.more s)"

lemma rest_fold: "(\<And>z s. rest (g z s) = rest s) \<Longrightarrow> rest (fold g zs s) = rest s"
  by (induction zs arbitrary: s) simp_all

lemma rest_basic [simp]:
  "rest (kwrite8 v b s) = rest s" "rest (set_sx t x s) = rest s" "rest (set_sy t x s) = rest s"
  "rest (set_by t x s) = rest s" "rest (cli s) = rest s" "rest (sti s) = rest s" "rest (outb b q s) = rest s"
  by (simp_all add: rest_def kwrite8_def set_sx_def set_sy_def set_by_def cli_def sti_def outb_def split: option.split)

lemma rest_write_y [simp]: "rest (s\<lparr>write_y := w\<rparr>) = rest s"
  by (simp add: rest_def)

lemma rest_cells [simp]:
  "rest (put_cell b x y c a s) = rest s" "rest (put_cell_checked b x y c a s) = rest s"
  "rest (copy_cell b x y x' y' s) = rest s" "rest (scoot_cell x y x' y' s) = rest s"
  "rest (scroll_rows b s) = rest s" "rest (blank_row b y a s) = rest s" "rest (new_line t s) = rest s"
  "rest (update_cursor s) = rest s"
  by (simp_all add: put_cell_def put_cell_checked_def copy_cell_def scoot_cell_def scroll_rows_def
      blank_row_def rest_fold new_line_def update_cursor_def cursor_loc_def Let_def)

lemma rest_console [simp]:
  "rest (scroll s) = rest s" "rest (mt_scroll s) = rest s" "rest (clear s) = rest s"
  "rest (kb_backspace s) = rest s" "rest (scoot_text s) = rest s"
  "rest (move_left s) = rest s" "rest (move_right s) = rest s" "rest (set_pos x y s) = rest s" "rest (set_x x s) = rest s"
  by (simp_all add: scroll_def mt_scroll_def clear_def kb_backspace_def scoot_text_def
      move_left_def move_right_def set_pos_def set_x_def rest_fold Let_def)

lemma rest_output [simp]:
  "rest (putc c s) = rest s" "rest (mt_putc c s) = rest s" "rest (putc_kb c s) = rest s"
  by (simp_all add: putc_def mt_putc_def putc_kb_def Let_def)

lemma restD:
  assumes "rest s' = rest s"
  shows "page_directories s' = page_directories s" "low_memory_table s' = low_memory_table s"
    "video_table s' = video_table s" "low_memory_at s' = low_memory_at s" "video_table_at s' = video_table_at s"
    "cr0 s' = cr0 s" "cr3 s' = cr3 s" "cr4 s' = cr4 s" "current_terminal s' = current_terminal s"
    "current_active_process s' = current_active_process s" "write_x s' = write_x s" "screen.more s' = screen.more s"
  using assms by (simp_all add: rest_def)

end
