(* ===== verification/Vmem.thy ===== *)
theory Vmem
  imports Paging
begin

unbundle bit_operations_syntax

text \<open>
  The memory as kernel code sees it through the page tables: \<open>vmem s\<close> is the flat virtual memory the
  routines of \<^verbatim>\<open>lib.c\<close> and the file system run on, \<open>put_vmem m s\<close> stores such a memory back into
  physical memory. The kernel writes through one virtual address per physical byte: its own 4 MB
  (mapped one to one), the running program's 4 MB at 128 MB, and the video window. Before paging is
  enabled the two are the same.
\<close>

section \<open>The view and its write-back\<close>

definition vmem :: "'a machine_scheme \<Rightarrow> memory" where
  "vmem s v = kread8 s v"

text \<open>The virtual address through which the kernel writes physical address \<open>p\<close>.\<close>

definition vaddr_of :: "'a machine_scheme \<Rightarrow> u32 \<Rightarrow> u32 option" where
  "vaddr_of s p =
     (let base = of_nat (cr3 s + 1) * 0x400000 in
      if cr0 s AND 0x80000000 = 0 then Some p
      else if 0x400000 \<le> p \<and> p < 0x800000 then Some p
      else if cr3 s \<noteq> 0 \<and> p - base < 0x400000 then Some (0x8000000 + (p - base))
      else if p - 0x3000000 < 0x3000 then Some p
      else if p - 0xB8000 < 0x1000 then Some (0x3003000 + (p - 0xB8000))
      else None)"

definition put_vmem :: "memory \<Rightarrow> 'a machine_scheme \<Rightarrow> 'a machine_scheme" where
  "put_vmem m s =
     s\<lparr>phys := (\<lambda>p. case vaddr_of s p of None \<Rightarrow> phys s p | Some v \<Rightarrow> m v)\<rparr>"

section \<open>Before paging\<close>

lemma vmem_flat: "cr0 s AND 0x80000000 = 0 \<Longrightarrow> vmem s = phys s"
  by (simp add: vmem_def kread8_def translate_def fun_eq_iff)

lemma put_vmem_flat: "cr0 s AND 0x80000000 = 0 \<Longrightarrow> put_vmem m s = s\<lparr>phys := m\<rparr>"
  by (simp add: put_vmem_def vaddr_of_def)

section \<open>The write-back agrees with the translation\<close>

lemma vaddr_paged:
  "paging_ok s \<Longrightarrow> vaddr_of s p =
     (if 0x400000 \<le> p \<and> p < 0x800000 then Some p
      else if cr3 s \<noteq> 0 \<and> p - of_nat (cr3 s + 1) * 0x400000 < 0x400000
      then Some (0x8000000 + (p - of_nat (cr3 s + 1) * 0x400000))
      else if p - 0x3000000 < 0x3000 then Some p
      else if p - 0xB8000 < 0x1000 then Some (0x3003000 + (p - 0xB8000)) else None)"
  unfolding vaddr_of_def Let_def paging_ok_def by (simp only: if_False simp_thms)

lemma translate_user_page:
  assumes ok: "paging_ok s" and p: "cr3 s \<noteq> 0" and k: "k < 0x400000"
  shows "translate s usr wr (0x8000000 + k) = Some (of_nat (cr3 s + 1) * 0x400000 + k)"
proof -
  have p10: "cr3 s \<le> 10" using ok by (simp add: paging_ok_def pd_ready_def paging_consts)
  define b :: u32 where "b = of_nat (cr3 s + 1) * 0x400000"
  have ku: "unat k < 4194304" using k by (simp add: word_less_nat_alt)
  then have u: "unat (0x8000000 + k) = 134217728 + unat k" by (simp add: unat_plus_if')
  then have i: "unat ((0x8000000 + k) div 0x400000) = 32" using ku by (simp add: unat_div)
  have pd: "page_directories s (cr3 s) 32 = b OR 0x87"
    using ok p by (simp add: paging_ok_def pd_ready_def pd_entry_def b_def)
  have m: "(0x8000000 + k) mod 0x400000 = k"
  proof -
    have "(134217728 + unat k) mod 4194304 = unat k"
      using mod_mult_self1 [of "unat k" 32 4194304] ku by (simp add: add.commute)
    then show ?thesis using word_mod_of_nat [of "0x8000000 + k" "0x400000"] u by (simp del: of_nat_mod)
  qed
  from i show ?thesis
    using user_page_entry [OF p10, folded b_def] linkedD [OF ok]
    by (simp only: translate_def Let_def pd m b_def [symmetric]) (simp add: allowed_def)
qed

lemma some_choice:
  "(if A then Some a else if B then Some b else if C then Some c else if D then Some d else None) = Some v \<Longrightarrow>
   A \<and> v = a \<or> B \<and> v = b \<or> C \<and> v = c \<or> D \<and> v = d"
  by (auto split: if_splits)

lemma translate_vaddr:
  assumes ok: "paging_ok s" and v: "vaddr_of s p = Some v"
  shows "translate s False wr v = Some p"
proof -
  define b :: u32 where "b = of_nat (cr3 s + 1) * 0x400000"
  consider "0x400000 \<le> p" "p < 0x800000" "v = p"
    | "cr3 s \<noteq> 0" "p - b < 0x400000" "v = 0x8000000 + (p - b)"
    | "p - 0x3000000 < 0x3000" "v = p"
    | "p - 0xB8000 < 0x1000" "v = 0x3003000 + (p - 0xB8000)"
    using some_choice [OF v [unfolded vaddr_paged [OF ok], folded b_def]] by blast
  then show ?thesis
  proof cases
    case 1
    then show ?thesis using translate_kernel [OF ok] by simp
  next
    case 2
    then show ?thesis using translate_user_page [OF ok 2(1,2), folded b_def] by simp
  next
    case 3
    define x where "x = unat (p - 0x3000000)"
    have x: "x < 12288" using 3 by (simp add: x_def word_less_nat_alt)
    define t k where "t = x div 4096" and "k = x mod 4096"
    have t: "t < 3" "k < 4096" "x = 4096 * t + k" using x by (auto simp: t_def k_def)
    have "p = 0x3000000 + of_nat x" by (simp add: x_def)
    then have "p = vid_window t + of_nat k" using t by (simp add: vid_window_value)
    moreover have "vid_frame t = vid_window t" using t by (simp add: vid_frame_def)
    ultimately show ?thesis using translate_window [OF ok, of t k] t 3(2) by simp
  next
    case 4
    define k where "k = unat (p - 0xB8000)"
    have k: "k < 4096" using 4 by (simp add: k_def word_less_nat_alt)
    have "v = vid_window 3 + of_nat k" using 4(2) by (simp add: k_def vid_window_value)
    moreover have "p = vid_frame 3 + of_nat k" by (simp add: vid_frame_def k_def)
    ultimately show ?thesis using translate_window [OF ok, of 3 k] k by simp
  qed
qed

lemma vmem_vaddr: "paging_ok s \<Longrightarrow> vaddr_of s p = Some v \<Longrightarrow> vmem s v = phys s p"
  using translate_vaddr [of s p v False] by (simp add: vmem_def kread8_def)

lemma put_vmem_other [simp]:
  "page_directories (put_vmem m s) = page_directories s" "low_memory_table (put_vmem m s) = low_memory_table s"
  "video_table (put_vmem m s) = video_table s" "low_memory_at (put_vmem m s) = low_memory_at s"
  "video_table_at (put_vmem m s) = video_table_at s" "cr0 (put_vmem m s) = cr0 s" "cr3 (put_vmem m s) = cr3 s"
  "cr4 (put_vmem m s) = cr4 s" "current_terminal (put_vmem m s) = current_terminal s"
  "fault (put_vmem m s) = fault s" "machine.more (put_vmem m s) = machine.more s"
  "paging_ok (put_vmem m s) = paging_ok s"
  by (simp_all add: put_vmem_def)

text \<open>A run of bytes that the page tables map to a run of physical bytes.\<close>

definition mapped_run :: "'a machine_scheme \<Rightarrow> u32 \<Rightarrow> u32 \<Rightarrow> nat \<Rightarrow> bool" where
  "mapped_run s v p n \<longleftrightarrow> (\<forall>i < n. vaddr_of s (p + of_nat i) = Some (v + of_nat i))"

lemma rd_vmem: "paging_ok s \<Longrightarrow> mapped_run s v p n \<Longrightarrow> rd_bytes (vmem s) v n = rd_bytes (phys s) p n"
  by (rule rd_bytes_cong) (simp add: mapped_run_def vmem_vaddr)

text \<open>Writing a run of bytes through the view writes the physical bytes behind it, and no others.\<close>

lemma put_vmem_wr_bytes:
  assumes ok: "paging_ok s" and run: "mapped_run s v p (length xs)" and len: "length xs \<le> 2 ^ 32"
  shows "put_vmem (wr_bytes m v xs) s = (put_vmem m s)\<lparr>phys := wr_bytes (phys (put_vmem m s)) p xs\<rparr>"
proof -
  let ?m = "\<lambda>q. case vaddr_of s q of None \<Rightarrow> phys s q | Some w \<Rightarrow> m w"
  have "(case vaddr_of s q of None \<Rightarrow> phys s q | Some w \<Rightarrow> wr_bytes m v xs w) = wr_bytes ?m p xs q" for q
  proof (cases "q \<in> region p (length xs)")
    case True
    define i where "i = unat (q - p)"
    have i: "i < length xs" "q = p + of_nat i" using True by (simp_all add: region_def i_def)
    then have "vaddr_of s q = Some (v + of_nat i)" using run by (simp add: mapped_run_def)
    then show ?thesis using i len by (simp add: wr_bytes_inside)
  next
    case False
    have "w \<notin> region v (length xs)" if Some: "vaddr_of s q = Some w" for w
    proof
      assume w: "w \<in> region v (length xs)"
      define i where "i = unat (w - v)"
      have i: "i < length xs" "w = v + of_nat i" using w by (simp_all add: region_def i_def)
      then have "vaddr_of s (p + of_nat i) = Some w" using run by (simp add: mapped_run_def)
      then have "q = p + of_nat i"
        using translate_vaddr [OF ok Some, of False] translate_vaddr [OF ok, of "p + of_nat i" w False] by simp
      then show False using False i len by (simp add: add_in_region)
    qed
    then show ?thesis using False len by (simp add: wr_bytes_outside split: option.split)
  qed
  then show ?thesis by (simp add: put_vmem_def)
qed

lemma put_vmem_id: "paging_ok s \<Longrightarrow> put_vmem (vmem s) s = s"
proof -
  assume ok: "paging_ok s"
  have "(case vaddr_of s q of None \<Rightarrow> phys s q | Some w \<Rightarrow> vmem s w) = phys s q" for q
    using vmem_vaddr [OF ok, of q] by (simp split: option.split)
  then show ?thesis by (simp add: put_vmem_def)
qed

lemma put_vmem_wr:
  assumes "paging_ok s" and "mapped_run s v p (length xs)" and "length xs \<le> 2 ^ 32"
  shows "put_vmem (wr_bytes (vmem s) v xs) s = s\<lparr>phys := wr_bytes (phys s) p xs\<rparr>"
  using put_vmem_wr_bytes [OF assms, of "vmem s"] put_vmem_id [OF assms(1)] by simp

lemma mapped_window:
  assumes "paging_ok s" and "t < 4"
  shows "mapped_run s (vid_window t) (vid_frame t) 4096"
  unfolding mapped_run_def
proof (intro allI impI)
  fix i :: nat assume i: "i < 4096"
  have p10: "cr3 s \<le> 10" using assms(1) by (simp add: paging_ok_def pd_ready_def paging_consts)
  let ?p = "vid_frame t + of_nat i"
  have iu: "unat (of_nat i :: u32) = i" using i by (simp add: unat_of_nat_less)
  have "?p \<in> video_frames" using assms(2) i unfolding video_frames_def by (intro UN_I [of t] add_in_region) simp_all
  then have nk: "?p \<notin> kernel_frame" "?p \<notin> user_frame (cr3 s)"
    using kernel_frame_video user_frame_video [OF p10] by auto
  have nu: "\<not> ?p - of_nat (cr3 s + 1) * 0x400000 < 0x400000"
    using nk(2) unfolding user_frame_def region_def by (simp only: mem_Collect_eq word_less_nat_alt) simp
  have nk': "\<not> (0x400000 \<le> ?p \<and> ?p < 0x800000)"
    using nk(1) by (simp add: kernel_frame_interval word_le_nat_alt word_less_nat_alt)
  show "vaddr_of s ?p = Some (vid_window t + of_nat i)"
  proof (cases "t = 3")
    case True
    have "unat (?p - 0x3000000) = 4294967296 + 753664 + i - 50331648"
      using True i iu by (simp add: vid_frame_def unat_sub_if_size word_size unat_plus_if')
    then have "\<not> ?p - 0x3000000 < 0x3000" using i by (simp add: word_less_nat_alt)
    moreover have "?p - 0xB8000 < 0x1000" using True i iu by (simp add: vid_frame_def word_less_nat_alt)
    ultimately show ?thesis
      using nk' nu True unfolding vaddr_paged [OF assms(1)] by (simp add: vid_frame_def vid_window_value)
  next
    case False
    have e: "?p - 0x3000000 = of_nat (4096 * t + i)" using False assms(2) by (simp add: vid_frame_def vid_window_value)
    have "unat (of_nat (4096 * t + i) :: u32) = 4096 * t + i"
      using False assms(2) i by (intro unat_of_nat_less) simp
    then have "?p - 0x3000000 < 0x3000"
      unfolding word_less_nat_alt e using False assms(2) i by (simp del: of_nat_add of_nat_mult)
    then show ?thesis
      using nk' nu False unfolding vaddr_paged [OF assms(1)] by (simp add: vid_frame_def)
  qed
qed

end
