(* ===== verification/Pic_Rtc.thy ===== *)
theory Pic_Rtc
  imports Screen Vmem
begin

unbundle bit_operations_syntax

text \<open>
  The interrupt controller (\<^verbatim>\<open>i8259.c\<close>) and the real-time clock (\<^verbatim>\<open>rtc.c\<close> and its interrupt handler
  in \<^verbatim>\<open>idt_funcs.c\<close>). The devices are not part of the program: what a port returns is the argument
  \<open>dev\<close>, a function of the accesses made so far. The hypotheses \<open>pic_data\<close> and \<open>cmos_ports\<close> state the
  documented behaviour of the mask registers and of the indexed registers of the clock.
\<close>

section \<open>State and port accesses\<close>

type_synonym device = "io_event list \<Rightarrow> u16 \<Rightarrow> byte"

record clock = screen +
  rtc_f :: bool

definition inb :: "device \<Rightarrow> u16 \<Rightarrow> 'a screen_scheme \<Rightarrow> 'a screen_scheme \<times> byte" where
  "inb dev p s = (s\<lparr>iolog := In p # iolog s\<rparr>, dev (iolog s) p)"

section \<open>i8259.c\<close>

definition MASTER_8259_PORT :: u16 where "MASTER_8259_PORT = 0x20"

definition SLAVE_8259_PORT :: u16 where "SLAVE_8259_PORT = 0xA0"

definition i8259_init :: "'a screen_scheme \<Rightarrow> 'a screen_scheme" where
  "i8259_init s =
     fold (\<lambda>(b, p). outb b p)
       [(0x11, MASTER_8259_PORT), (0x11, SLAVE_8259_PORT),
        (0x20, MASTER_8259_PORT + 1), (0x28, SLAVE_8259_PORT + 1),
        (0x04, MASTER_8259_PORT + 1), (0x02, MASTER_8259_PORT + 1),
        (0x01, MASTER_8259_PORT + 1), (0x01, MASTER_8259_PORT + 1)] s"

text \<open>The port and the line on it, as both \<open>enable_irq\<close> and \<open>disable_irq\<close> compute them.\<close>

definition irq_port :: "u32 \<Rightarrow> u16 \<times> u32" where
  "irq_port irq_num =
     (if irq_num < 8 then (MASTER_8259_PORT + 1, irq_num) else (SLAVE_8259_PORT + 1, irq_num - 8))"

definition enable_irq :: "device \<Rightarrow> u32 \<Rightarrow> 'a screen_scheme \<Rightarrow> 'a screen_scheme" where
  "enable_irq dev irq_num s =
     (let (port, n) = irq_port irq_num;
          (s, v) = inb dev port s
      in outb (v OR ucast (push_bit (unat n) 1 :: u32)) port s)"

definition disable_irq :: "device \<Rightarrow> u32 \<Rightarrow> 'a screen_scheme \<Rightarrow> 'a screen_scheme" where
  "disable_irq dev irq_num s =
     (let (port, n) = irq_port irq_num;
          (s, v) = inb dev port s
      in outb (v AND ucast (NOT (push_bit (unat n) 1 :: u32))) port s)"

definition send_eoi :: "u32 \<Rightarrow> 'a screen_scheme \<Rightarrow> 'a screen_scheme" where
  "send_eoi irq_num s =
     (let s = (if irq_num \<ge> 8 then outb (ucast (0x60 OR (irq_num - 8))) SLAVE_8259_PORT s else s)
      in outb (ucast (0x60 OR irq_num)) MASTER_8259_PORT s)"

section \<open>rtc.c\<close>

definition RTC_INDEX_PORT :: u16 where "RTC_INDEX_PORT = 0x70"

definition RTC_RW_PORT :: u16 where "RTC_RW_PORT = 0x71"

definition rtc_init :: "device \<Rightarrow> 'a screen_scheme \<Rightarrow> 'a screen_scheme" where
  "rtc_init dev s =
     (let s = outb 0x8B RTC_INDEX_PORT s;
          (s, current_b) = inb dev RTC_RW_PORT s;
          s = outb 0x8B RTC_INDEX_PORT s;
          s = outb (current_b OR 0x40) RTC_RW_PORT s;
          (s, i) = inb dev RTC_INDEX_PORT s;
          s = outb (i AND 0x7F) RTC_INDEX_PORT s
      in enable_irq dev 8 s)"

definition change_rtc_freq :: "device \<Rightarrow> int \<Rightarrow> 'a screen_scheme \<Rightarrow> 'a screen_scheme \<times> int" where
  "change_rtc_freq dev rate s =
     (if rate \<le> 2 \<or> rate > 15 then (s, - 1)
      else
        (let s = cli s;
             s = outb 0x8A RTC_INDEX_PORT s;
             (s, previous_rate) = inb dev RTC_RW_PORT s;
             s = outb 0x8A RTC_INDEX_PORT s;
             s = outb ((previous_rate AND 0xF0) OR of_int rate) RTC_RW_PORT s;
             (s, i) = inb dev RTC_INDEX_PORT s;
             s = outb (i AND 0x7F) RTC_INDEX_PORT s
         in (sti s, 0)))"

text \<open>The switch of \<open>rtc_write\<close>: the rate for a frequency.\<close>

definition rate_of :: "u32 \<Rightarrow> int option" where
  "rate_of freq =
     (if freq = 2 then Some 15 else if freq = 4 then Some 14 else if freq = 8 then Some 13
      else if freq = 16 then Some 12 else if freq = 32 then Some 11 else if freq = 64 then Some 10
      else if freq = 128 then Some 9 else if freq = 256 then Some 8 else if freq = 512 then Some 7
      else if freq = 1024 then Some 6 else None)"

definition rtc_write :: "device \<Rightarrow> u32 \<Rightarrow> int \<Rightarrow> 'a screen_scheme \<Rightarrow> 'a screen_scheme \<times> int" where
  "rtc_write dev frequency numbytes s =
     (if numbytes \<noteq> 4 then (s, - 1)
      else
        (case rate_of (rd32 (vmem s) frequency) of
           None \<Rightarrow> (s, - 1)
         | Some new_rate \<Rightarrow> change_rtc_freq dev new_rate s))"

definition rtc_open :: "device \<Rightarrow> 'a screen_scheme \<Rightarrow> 'a screen_scheme \<times> int" where
  "rtc_open dev s = change_rtc_freq dev 15 s"

definition rtc_close :: int where
  "rtc_close = 0"

definition rtc_handler :: "device \<Rightarrow> 'a clock_scheme \<Rightarrow> 'a clock_scheme" where
  "rtc_handler dev s =
     (let s = cli s;
          s = outb 0x8C RTC_INDEX_PORT s;
          (s, _) = inb dev RTC_RW_PORT s;
          s = s\<lparr>rtc_f := False\<rparr>;
          (s, i) = inb dev RTC_INDEX_PORT s;
          s = outb (i AND 0x7F) RTC_INDEX_PORT s;
          s = sti s
      in send_eoi 8 s)"

definition pit_handler :: "'a screen_scheme \<Rightarrow> 'a screen_scheme" where
  "pit_handler s = send_eoi 0 (sti (cli s))"

text \<open>
  \<open>rtc_read\<close> spins on \<open>rtc_f\<close>. The list says at each turn of the loop whether a clock interrupt is
  taken; \<open>None\<close> means that the loop is still waiting when the list ends.
\<close>

primrec rtc_wait :: "device \<Rightarrow> bool list \<Rightarrow> 'a clock_scheme \<Rightarrow> ('a clock_scheme \<times> int) option" where
  "rtc_wait dev [] s = (if rtc_f s then None else Some (s, 0))"
| "rtc_wait dev (e # es) s =
     (if rtc_f s then rtc_wait dev es (if e then rtc_handler dev s else s) else Some (s, 0))"

definition rtc_read :: "device \<Rightarrow> bool list \<Rightarrow> 'a clock_scheme \<Rightarrow> ('a clock_scheme \<times> int) option" where
  "rtc_read dev es s = rtc_wait dev es (s\<lparr>rtc_f := True\<rparr>)"

section \<open>The interrupt masks\<close>

text \<open>Documented behaviour of the data ports: they read back the mask written last.\<close>

definition pic_data :: "device \<Rightarrow> bool" where
  "pic_data dev \<longleftrightarrow> (\<forall>log p. p = 0x21 \<or> p = 0xA1 \<longrightarrow>
     (\<forall>b q. dev (Out b q # log) p = (if q = p then b else dev log p)) \<and>
     (\<forall>q. dev (In q # log) p = dev log p))"

definition irq_mask :: "device \<Rightarrow> 'a screen_scheme \<Rightarrow> nat \<Rightarrow> bool" where
  "irq_mask dev s n = (if n < 8 then bit (dev (iolog s) 0x21) n else bit (dev (iolog s) 0xA1) (n - 8))"

lemma ucast_bit: "n < 8 \<Longrightarrow> bit (ucast (2 ^ n :: u32) :: byte) k \<longleftrightarrow> k = n"
  by (auto simp: bit_simps)

lemma ucast_not_bit: "n < 8 \<Longrightarrow> k < 8 \<Longrightarrow> bit (ucast (NOT (2 ^ n :: u32)) :: byte) k \<longleftrightarrow> k \<noteq> n"
  by (auto simp: bit_simps)

lemma irq_port_cases:
  assumes "n < 16"
  shows "irq_port (of_nat n) = (if n < 8 then (0x21, of_nat n) else (0xA1, of_nat (n - 8)))"
    and "unat (of_nat (n - 8) :: u32) = n - 8" and "unat (of_nat n :: u32) = n"
proof -
  show u: "unat (of_nat (n - 8) :: u32) = n - 8" "unat (of_nat n :: u32) = n"
    using assms by (simp_all add: unat_of_nat_less)
  have "(of_nat n :: u32) < 8 \<longleftrightarrow> n < 8" using u by (simp add: word_less_nat_alt)
  then show "irq_port (of_nat n) = (if n < 8 then (0x21, of_nat n) else (0xA1, of_nat (n - 8)))"
    by (simp add: irq_port_def MASTER_8259_PORT_def SLAVE_8259_PORT_def of_nat_diff)
qed

text \<open>
  C37. \<open>enable_irq\<close> sets the bit of its line in the interrupt mask of the right controller and
  \<open>disable_irq\<close> clears it; neither touches the bit of another line. On the 8259 a set mask bit blocks
  the line, so the two functions do the opposite of what their names and comments say.
\<close>

theorem irq_masks:
  assumes "pic_data dev" and "n < 16" and "k < 16"
  shows "(irq_mask dev (enable_irq dev (of_nat n) s) k \<longleftrightarrow> k = n \<or> irq_mask dev s k) \<and>
    (irq_mask dev (disable_irq dev (of_nat n) s) k \<longleftrightarrow> k \<noteq> n \<and> irq_mask dev s k)"
proof -
  have d: "dev (Out b q # log) p = (if q = p then b else dev log p)" "dev (In q # log) p = dev log p"
    if "p = 0x21 \<or> p = 0xA1" for b q log p
    using assms(1) that unfolding pic_data_def by blast+
  note pc = irq_port_cases [OF assms(2)]
  show ?thesis
  proof (cases "n < 8")
    case True
    then show ?thesis
      using assms(3) pc by (auto simp: enable_irq_def disable_irq_def irq_mask_def inb_def outb_def d
          ucast_bit ucast_not_bit bit_or_iff bit_and_iff)
  next
    case False
    then have "n - 8 < 8" using assms(2) by simp
    then show ?thesis
      using False assms(3) pc by (auto simp: enable_irq_def disable_irq_def irq_mask_def inb_def outb_def d
          ucast_bit ucast_not_bit bit_or_iff bit_and_iff)
  qed
qed

text \<open>A device with the documented behaviour: every port reads back what was written to it last.\<close>

fun latch :: device where
  "latch [] p = 0"
| "latch (Out b q # log) p = (if q = p then b else latch log p)"
| "latch (In q # log) p = latch log p"

lemma latch_pic: "pic_data latch"
  by (simp add: pic_data_def)

theorem irq_masks_witness:
  "pic_data latch \<and> irq_mask latch (enable_irq latch 8 boot_screen) 8 \<and>
   \<not> irq_mask latch (disable_irq latch 1 boot_screen) 1"
  using irq_masks [OF latch_pic, of 8 8 boot_screen] irq_masks [OF latch_pic, of 1 1 boot_screen]
  by (simp add: latch_pic)

section \<open>The clock\<close>

text \<open>
  Documented behaviour of the clock: port \<open>0x70\<close> holds the register index (bit 7 blocks the
  non-maskable interrupt), port \<open>0x71\<close> is the selected register; reading changes at most register C.
\<close>

definition cmos_ports :: "device \<Rightarrow> (io_event list \<Rightarrow> byte) \<Rightarrow> (io_event list \<Rightarrow> byte \<Rightarrow> byte) \<Rightarrow> bool" where
  "cmos_ports dev idx reg \<longleftrightarrow> (\<forall>log.
     dev log 0x70 = idx log \<and> dev log 0x71 = reg log (idx log AND 0x7F) \<and>
     (\<forall>b. idx (Out b 0x70 # log) = b \<and> reg (Out b 0x70 # log) = reg log) \<and>
     (\<forall>b. idx (Out b 0x71 # log) = idx log \<and> reg (Out b 0x71 # log) = (reg log)(idx log AND 0x7F := b)) \<and>
     (\<forall>q. idx (In q # log) = idx log \<and> (\<forall>r. r \<noteq> 0xC \<longrightarrow> reg (In q # log) r = reg log r)))"

lemma cmosD:
  assumes "cmos_ports dev idx reg"
  shows "dev log 0x70 = idx log" "dev log 0x71 = reg log (idx log AND 0x7F)"
    "idx (Out b 0x70 # log) = b" "reg (Out b 0x70 # log) = reg log"
    "idx (Out b 0x71 # log) = idx log" "reg (Out b 0x71 # log) = (reg log)(idx log AND 0x7F := b)"
    "idx (In q # log) = idx log" "r \<noteq> 0xC \<Longrightarrow> reg (In q # log) r = reg log r"
  using assms unfolding cmos_ports_def by blast+

lemma change_rtc_freq_eq:
  assumes "cmos_ports dev idx reg" and "2 < rate" and "rate \<le> 15"
    and "change_rtc_freq dev rate s = (s', r)"
  shows "r = 0" and "reg (iolog s') 0xA = (reg (iolog s) 0xA AND 0xF0) OR of_int rate"
    and "q \<noteq> 0xA \<Longrightarrow> q \<noteq> 0xC \<Longrightarrow> reg (iolog s') q = reg (iolog s) q"
    and "idx (iolog s') = 0x0A"
  using assms(2-4)
  by (auto simp: change_rtc_freq_def cli_def sti_def inb_def outb_def RTC_INDEX_PORT_def RTC_RW_PORT_def
      cmosD [OF assms(1)] Let_def)

lemma rate_of_eq: "rate_of freq = Some r \<longleftrightarrow> (\<exists>k. 1 \<le> k \<and> k \<le> 10 \<and> freq = 2 ^ k \<and> r = 16 - int k)"
proof
  assume "rate_of freq = Some r"
  then have "(freq, r) \<in> {(2, 15), (4, 14), (8, 13), (16, 12), (32, 11), (64, 10), (128, 9), (256, 8), (512, 7), (1024, 6)}"
    by (simp add: rate_of_def split: if_splits)
  then show "\<exists>k. 1 \<le> k \<and> k \<le> 10 \<and> freq = 2 ^ k \<and> r = 16 - int k"
    by (elim insertE) (auto intro: exI [of _ 1] exI [of _ 2] exI [of _ 3] exI [of _ 4] exI [of _ 5]
        exI [of _ 6] exI [of _ 7] exI [of _ 8] exI [of _ 9] exI [of _ 10])
next
  assume "\<exists>k. 1 \<le> k \<and> k \<le> 10 \<and> freq = 2 ^ k \<and> r = 16 - int k"
  then obtain k where k: "1 \<le> k" "k \<le> 10" "freq = 2 ^ k" "r = 16 - int k" by blast
  have "k = 1 \<or> k = 2 \<or> k = 3 \<or> k = 4 \<or> k = 5 \<or> k = 6 \<or> k = 7 \<or> k = 8 \<or> k = 9 \<or> k = 10"
    using k(1,2) by presburger
  then show "rate_of freq = Some r" using k(3,4) by (elim disjE) (simp_all add: rate_of_def)
qed


text \<open>A clock with the documented behaviour.\<close>

fun cmos_idx :: "io_event list \<Rightarrow> byte" where
  "cmos_idx [] = 0"
| "cmos_idx (Out b q # log) = (if q = 0x70 then b else cmos_idx log)"
| "cmos_idx (In q # log) = cmos_idx log"

fun cmos_reg :: "io_event list \<Rightarrow> byte \<Rightarrow> byte" where
  "cmos_reg [] r = 0"
| "cmos_reg (Out b q # log) r = (if q = 0x71 \<and> r = cmos_idx log AND 0x7F then b else cmos_reg log r)"
| "cmos_reg (In q # log) r = cmos_reg log r"

definition cmos :: device where
  "cmos log p = (if p = 0x70 then cmos_idx log else if p = 0x71 then cmos_reg log (cmos_idx log AND 0x7F) else 0)"

lemma cmos_ports_cmos: "cmos_ports cmos cmos_idx cmos_reg"
  by (auto simp: cmos_ports_def cmos_def fun_eq_iff)

definition rtc_demo :: screen where
  "rtc_demo = boot_screen\<lparr>cr0 := 0, phys := (\<lambda>_. 0)(0x100 := 32)\<rparr>"

lemma rtc_demo_freq: "rd32 (vmem rtc_demo) 0x100 = 32"
  by (simp add: rd32_def le32_def mem_eval vmem_def kread8_def translate_def rtc_demo_def)


lemma rtc_handler_flag: "\<not> rtc_f (rtc_handler dev s)"
  by (simp add: rtc_handler_def Let_def send_eoi_def cli_def sti_def inb_def outb_def)

lemma rtc_wait_none: "rtc_f s \<Longrightarrow> rtc_wait dev (replicate n False) s = None"
  by (induction n) auto

lemma rtc_wait_first:
  "rtc_f s \<Longrightarrow> rtc_wait dev (replicate n False @ True # es) s = Some (rtc_handler dev s, 0)"
  by (induction n) (cases es; simp add: rtc_handler_flag)+

text \<open>
  C40. \<open>rtc_read\<close> blocks until the next clock interrupt and no longer: without an interrupt it keeps
  waiting, and with the first one that is taken it returns 0, right after the handler ran.
\<close>

theorem rtc_read_waits_for_interrupt:
  "rtc_read dev (replicate n False) s = None \<and>
   rtc_read dev (replicate n False @ True # es) s = Some (rtc_handler dev (s\<lparr>rtc_f := True\<rparr>), 0)"
  by (simp add: rtc_read_def rtc_wait_none rtc_wait_first)

end
