(* ===== verification/Zbigfs.thy ===== *)
theory Zbigfs
  imports Lib_String
begin

unbundle bit_operations_syntax

text \<open>
  The read-only file system of \<^verbatim>\<open>zbigfs.c\<close>. The image is a run of 4096-byte blocks in memory at
  \<open>zbigfs_start\<close> (argument \<open>zb\<close>): the boot block, one block per inode, then the data blocks. The
  structs of the source are read at their offsets (\<open>boot_block_t\<close>, \<open>dentry_t\<close>, \<open>inode_t\<close>); an
  output parameter is an address in the same memory. An open file is a \<open>FILE\<close> record.

  The second half gives the image a meaning (the list of bytes of a file, the list of directory
  entries) and shows that \<open>read_data\<close> and the directory functions implement it.
\<close>

section \<open>The image in memory\<close>

subsection \<open>boot\_block\_t, dentry\_t, inode\_t\<close>

definition num_dentry :: "memory \<Rightarrow> u32 \<Rightarrow> u32" where
  "num_dentry m zb = rd32 m zb"

definition num_inode :: "memory \<Rightarrow> u32 \<Rightarrow> u32" where
  "num_inode m zb = rd32 m (zb + 4)"

definition num_dblock :: "memory \<Rightarrow> u32 \<Rightarrow> u32" where
  "num_dblock m zb = rd32 m (zb + 8)"

text \<open>The address of \<open>zbigfs_start->dentries[i]\<close>, and the fields of a \<open>dentry_t\<close> at an address.\<close>

definition dentries :: "u32 \<Rightarrow> u32 \<Rightarrow> u32" where
  "dentries zb i = zb + 64 + 64 * i"

definition d_fname :: "u32 \<Rightarrow> u32" where
  "d_fname d = d"

definition d_ftype :: "u32 \<Rightarrow> u32" where
  "d_ftype d = d + 32"

definition d_inode_num :: "u32 \<Rightarrow> u32" where
  "d_inode_num d = d + 36"

definition FTYPE_SPECIAL :: u32 where "FTYPE_SPECIAL = 0"

definition FTYPE_DIRECTORY :: u32 where "FTYPE_DIRECTORY = 1"

definition FTYPE_REGULAR :: u32 where "FTYPE_REGULAR = 2"

text \<open>The inode block and the first data block, as \<open>read_data\<close> computes them.\<close>

definition inode_entry :: "u32 \<Rightarrow> u32 \<Rightarrow> u32" where
  "inode_entry zb ino = zb + 4096 * (1 + ino)"

definition datablock0 :: "memory \<Rightarrow> u32 \<Rightarrow> u32" where
  "datablock0 m zb = zb + 4096 * (1 + num_inode m zb)"

definition i_length :: "memory \<Rightarrow> u32 \<Rightarrow> u32" where
  "i_length m ie = rd32 m ie"

definition i_datablock_num :: "memory \<Rightarrow> u32 \<Rightarrow> u32 \<Rightarrow> u32" where
  "i_datablock_num m ie k = rd32 m (ie + 4 + 4 * k)"

subsection \<open>FILE\<close>

datatype optable = Ops_null | Ops_regular | Ops_directory | Ops_rtc | Ops_stdin | Ops_stdout

record FILE =
  optable :: optable
  inode :: u32
  pos :: u32
  flags :: u32

section \<open>The operations\<close>

text \<open>The \<open>i\<close>-th entry is copied out; \<open>inode_num\<close> is only set for a regular file.\<close>

definition read_dentry_by_index :: "memory \<Rightarrow> u32 \<Rightarrow> u32 \<Rightarrow> u32 \<Rightarrow> memory \<times> int" where
  "read_dentry_by_index m zb i dentry =
     (if num_dentry m zb \<le> i then (m, - 1)
      else
        (let m1 = strncpy m (d_fname dentry) (d_fname (dentries zb i)) 32;
             m2 = wr32 m1 (d_ftype dentry) (rd32 m1 (d_ftype (dentries zb i)))
         in if rd32 m2 (d_ftype dentry) = FTYPE_REGULAR
            then (wr32 m2 (d_inode_num dentry) (rd32 m2 (d_inode_num (dentries zb i))), 0)
            else (m2, 0)))"

function read_dentry_loop :: "memory \<Rightarrow> u32 \<Rightarrow> u32 \<Rightarrow> u32 \<Rightarrow> u32 \<Rightarrow> memory \<times> int" where
  "read_dentry_loop m zb fname dentry i =
     (if i < num_dentry m zb then
        (if strncmp m fname (d_fname (dentries zb i)) 31 = 0
         then read_dentry_by_index m zb i dentry
         else read_dentry_loop m zb fname dentry (i + 1))
      else (m, - 1))"
  by pat_completeness auto
termination
  by (relation "measure (\<lambda>(m, zb, fname, dentry, i). unat (num_dentry m zb) - unat i)")
     (auto simp: unat_Suc_less word_less_nat_alt)

definition read_dentry_by_name :: "memory \<Rightarrow> u32 \<Rightarrow> u32 \<Rightarrow> u32 \<Rightarrow> memory \<times> int" where
  "read_dentry_by_name m zb fname dentry = read_dentry_loop m zb fname dentry 0"

lemma next_block:
  fixes offset last' :: u32
  assumes "offset div 4096 < last' div 4096"
  shows "unat (offset + (4096 - offset mod 4096)) = 4096 * (unat offset div 4096 + 1)"
proof -
  define q r where "q = unat offset div 4096" and "r = unat offset mod 4096"
  have o: "unat offset = 4096 * q + r" and r: "r < 4096"
    by (simp_all add: q_def r_def)
  have "q < unat last' div 4096"
    using assms by (simp add: word_less_nat_alt unat_div q_def)
  then have "4096 * (q + 1) \<le> unat last'" by (simp add: less_eq_div_iff_mult_less_eq)
  then have b: "4096 * (q + 1) < 2 ^ 32" using unat_lt32 [of last'] by (rule le_less_trans)
  have "unat (4096 - offset mod 4096) = 4096 - r"
    by (subst unat_sub) (simp_all add: word_le_nat_alt unat_mod r_def)
  then have "unat offset + unat (4096 - offset mod 4096) = 4096 * (q + 1)"
    using o r by simp
  then show ?thesis
    using b unat_add_lem [of offset "4096 - offset mod 4096"] by (simp add: q_def)
qed

text \<open>The loop over whole blocks of \<open>read_data\<close>: it returns the memory, \<open>buf\<close> and \<open>offset\<close>.\<close>

function read_blocks ::
  "memory \<Rightarrow> u32 \<Rightarrow> u32 \<Rightarrow> u32 \<Rightarrow> u32 \<Rightarrow> u32 \<Rightarrow> memory \<times> u32 \<times> u32" where
  "read_blocks m ie db0 last' buf offset =
     (if offset div 4096 < last' div 4096 then
        (let m' = memcpy m buf
               (db0 + 4096 * i_datablock_num m ie (offset div 4096) + offset mod 4096)
               (4096 - offset mod 4096)
         in read_blocks m' ie db0 last' (buf + (4096 - offset mod 4096))
              (offset + (4096 - offset mod 4096)))
      else (m, buf, offset))"
  by pat_completeness auto
termination
  by (relation "measure (\<lambda>(m, ie, db0, last', buf, offset).
        unat last' div 4096 - unat offset div 4096)")
     (auto simp: next_block word_less_nat_alt unat_div)

definition read_data :: "memory \<Rightarrow> u32 \<Rightarrow> u32 \<Rightarrow> u32 \<Rightarrow> u32 \<Rightarrow> u32 \<Rightarrow> memory \<times> u32" where
  "read_data m zb ino offset buf len =
     (if num_inode m zb \<le> ino then (m, - 1)
      else
        (let ie = inode_entry zb ino;
             db0 = datablock0 m zb;
             first = offset;
             last0 = offset + len;
             last' = (if i_length m ie < last0 then i_length m ie else last0)
         in if last' < first then (m, 0)
            else
              (let (m', buf', offset') = read_blocks m ie db0 last' buf offset;
                   m'' = memcpy m' buf'
                     (db0 + 4096 * i_datablock_num m' ie (offset' div 4096) + offset' mod 4096)
                     (last' mod 4096 - offset' mod 4096)
               in (m'', last' - first))))"

definition regular_read :: "memory \<Rightarrow> u32 \<Rightarrow> FILE \<Rightarrow> u32 \<Rightarrow> u32 \<Rightarrow> memory \<times> FILE \<times> int" where
  "regular_read m zb f buf nbytes =
     (let (m', r) = read_data m zb (inode f) (pos f) buf nbytes
      in if sint r < 0 then (m', f, - 1) else (m', f\<lparr>pos := pos f + r\<rparr>, sint r))"

text \<open>\<open>dentry\<close> is the address of the local \<open>dentry_t\<close> of \<open>directory_read\<close>.\<close>

definition directory_read ::
  "memory \<Rightarrow> u32 \<Rightarrow> u32 \<Rightarrow> FILE \<Rightarrow> u32 \<Rightarrow> u32 \<Rightarrow> memory \<times> FILE \<times> int" where
  "directory_read m zb dentry f buf nbytes =
     (let (m1, r) = read_dentry_by_index m zb (pos f) dentry
      in if r \<noteq> 0 then (m1, f, 0)
         else (strncpy m1 buf (d_fname dentry) nbytes, f\<lparr>pos := pos f + 1\<rparr>, sint nbytes))"

definition readonly_write :: "FILE \<Rightarrow> int" where
  "readonly_write f = - 1"

definition regular_open :: "FILE \<Rightarrow> int" where
  "regular_open f = 0"

definition directory_open :: "FILE \<Rightarrow> int" where
  "directory_open f = 0"

lemmas zbigfs_loop_defs [simp del] = read_dentry_loop.simps read_blocks.simps

lemmas fs_layout = num_dentry_def num_inode_def num_dblock_def dentries_def d_fname_def d_ftype_def
  d_inode_num_def inode_entry_def datablock0_def i_length_def i_datablock_num_def

section \<open>What the image means\<close>

definition fs_size :: "memory \<Rightarrow> u32 \<Rightarrow> nat" where
  "fs_size m zb = 4096 * (1 + unat (num_inode m zb) + unat (num_dblock m zb))"

definition file_len :: "memory \<Rightarrow> u32 \<Rightarrow> u32 \<Rightarrow> nat" where
  "file_len m zb ino = unat (i_length m (inode_entry zb ino))"

text \<open>The byte at position \<open>p\<close> of a file, and the bytes from \<open>p\<close> up to \<open>q\<close>.\<close>

definition file_byte :: "memory \<Rightarrow> u32 \<Rightarrow> u32 \<Rightarrow> nat \<Rightarrow> byte" where
  "file_byte m zb ino p =
     m (datablock0 m zb + 4096 * i_datablock_num m (inode_entry zb ino) (of_nat (p div 4096))
        + of_nat (p mod 4096))"

definition file_bytes :: "memory \<Rightarrow> u32 \<Rightarrow> u32 \<Rightarrow> nat \<Rightarrow> nat \<Rightarrow> byte list" where
  "file_bytes m zb ino p q = map (file_byte m zb ino) [p..<q]"

definition file_contents :: "memory \<Rightarrow> u32 \<Rightarrow> u32 \<Rightarrow> byte list" where
  "file_contents m zb ino = file_bytes m zb ino 0 (file_len m zb ino)"

text \<open>
  A well-formed image fits in the address space, has at most 63 directory entries, and the files
  fit their inodes and use data blocks that exist.
\<close>

definition wf_fs :: "memory \<Rightarrow> u32 \<Rightarrow> bool" where
  "wf_fs m zb \<longleftrightarrow> unat zb + fs_size m zb \<le> 2 ^ 32 \<and> unat (num_dentry m zb) \<le> 63 \<and>
     (\<forall>ino < num_inode m zb. file_len m zb ino \<le> 4096 * 1023 \<and>
        (\<forall>k < 1023. 4096 * k < file_len m zb ino \<longrightarrow>
           i_datablock_num m (inode_entry zb ino) (of_nat k) < num_dblock m zb))"

text \<open>Two memories that hold the same image.\<close>

definition same_fs :: "u32 \<Rightarrow> memory \<Rightarrow> memory \<Rightarrow> bool" where
  "same_fs zb m m' \<longleftrightarrow> (\<forall>a \<in> region zb (fs_size m zb). m' a = m a)"

lemma wf_fs_size:
  assumes "wf_fs m zb"
  shows "unat zb + fs_size m zb \<le> 2 ^ 32" "fs_size m zb \<le> 2 ^ 32" "4096 \<le> fs_size m zb"
  using assms by (auto simp: wf_fs_def fs_size_def)

lemma same_fs_refl [simp]: "same_fs zb m m"
  by (simp add: same_fs_def)

lemma same_fs_rd_bytes:
  assumes "same_fs zb m m'" and "x + k \<le> fs_size m zb" and "fs_size m zb \<le> 2 ^ 32"
  shows "rd_bytes m' (zb + of_nat x) k = rd_bytes m (zb + of_nat x) k"
proof (rule rd_bytes_cong)
  fix i assume "i < k"
  then have "zb + of_nat (x + i) \<in> region zb (fs_size m zb)"
    using assms(2,3) by (intro add_in_region) auto
  then show "m' (zb + of_nat x + of_nat i) = m (zb + of_nat x + of_nat i)"
    using assms(1) by (simp add: same_fs_def add.assoc)
qed

lemma same_fs_rd32:
  assumes "same_fs zb m m'" and "x + 4 \<le> fs_size m zb" and "fs_size m zb \<le> 2 ^ 32"
  shows "rd32 m' (zb + of_nat x) = rd32 m (zb + of_nat x)"
  using same_fs_rd_bytes [OF assms(1), of x 4] assms(2,3) by (simp add: rd32_def)

lemma same_fs_wr_bytes:
  assumes "same_fs zb m m'" and "disjoint_regions buf (length xs) zb (fs_size m zb)"
    and "length xs \<le> 2 ^ 32"
  shows "same_fs zb m (wr_bytes m' buf xs)"
proof -
  have "wr_bytes m' buf xs a = m' a" if "a \<in> region zb (fs_size m zb)" for a
    using that assms(2,3) by (intro wr_bytes_outside) (auto simp: disjoint_regions_def)
  with assms(1) show ?thesis by (simp add: same_fs_def)
qed

subsection \<open>Addresses of the image as offsets from its start\<close>

lemma inode_entry_ofs: "inode_entry zb ino = zb + of_nat (4096 * (1 + unat ino))"
  by (simp add: inode_entry_def algebra_simps)

lemma datablock0_ofs: "datablock0 m zb = zb + of_nat (4096 * (1 + unat (num_inode m zb)))"
  by (simp add: datablock0_def algebra_simps)

lemma dentries_ofs: "dentries zb i = zb + of_nat (64 + 64 * unat i)"
  by (simp add: dentries_def algebra_simps)

lemma inode_in_fs:
  assumes "ino < num_inode m zb" and "x \<le> 4096"
  shows "4096 * (1 + unat ino) + x \<le> fs_size m zb"
  using assms by (simp add: fs_size_def word_less_nat_alt)

lemma same_fs_datablock_num:
  assumes "same_fs zb m m'" and "wf_fs m zb" and "ino < num_inode m zb" and "k < 1023"
  shows "i_datablock_num m' (inode_entry zb ino) (of_nat k) =
    i_datablock_num m (inode_entry zb ino) (of_nat k)"
proof -
  have "4096 * (1 + unat ino) + (4 + 4 * k) + 4 \<le> fs_size m zb"
    using inode_in_fs [OF assms(3), of "4 + 4 * k + 4"] assms(4) by simp
  from same_fs_rd32 [OF assms(1) this wf_fs_size(2) [OF assms(2)]] show ?thesis
    by (simp add: i_datablock_num_def inode_entry_ofs algebra_simps)
qed

lemma file_block_address:
  assumes "wf_fs m zb" and "ino < num_inode m zb" and "p < file_len m zb ino"
  obtains x where "x + 4096 \<le> fs_size m zb" and "p div 4096 < 1023"
    and "datablock0 m zb + 4096 * i_datablock_num m (inode_entry zb ino) (of_nat (p div 4096)) =
      zb + of_nat x"
proof -
  let ?b = "i_datablock_num m (inode_entry zb ino) (of_nat (p div 4096))"
  let ?x = "4096 * (1 + unat (num_inode m zb)) + 4096 * unat ?b"
  have len: "file_len m zb ino \<le> 4096 * 1023" using assms(1,2) by (simp add: wf_fs_def)
  then have k: "p div 4096 < 1023" using assms(3) by (simp add: less_mult_imp_div_less)
  have "4096 * (p div 4096) \<le> p" by simp
  then have "4096 * (p div 4096) < file_len m zb ino" using assms(3) by (rule le_less_trans)
  with assms(1,2) k have "?b < num_dblock m zb" unfolding wf_fs_def by blast
  then have "?x + 4096 \<le> fs_size m zb" by (simp add: fs_size_def word_less_nat_alt)
  moreover have "datablock0 m zb + 4096 * ?b = zb + of_nat ?x"
    by (simp add: datablock0_ofs algebra_simps)
  ultimately show thesis using that k by blast
qed

lemma length_file_bytes [simp]: "length (file_bytes m zb ino p q) = q - p"
  by (simp add: file_bytes_def)

lemma file_bytes_append:
  "p \<le> q \<Longrightarrow> q \<le> r \<Longrightarrow> file_bytes m zb ino p q @ file_bytes m zb ino q r = file_bytes m zb ino p r"
  using upt_add_eq_append [of p q "r - q"]
  by (simp add: file_bytes_def map_append [symmetric] del: map_append)

lemma file_bytes_slice:
  "file_bytes m zb ino p (min (file_len m zb ino) (p + n)) = take n (drop p (file_contents m zb ino))"
  by (rule nth_equalityI) (auto simp: file_contents_def file_bytes_def less_diff_conv add.commute)

section \<open>read\_data reads the file\<close>

text \<open>One \<open>memcpy\<close> of \<open>read_data\<close>: it stays in one block and moves a piece of the file.\<close>

lemma copy_piece:
  assumes same: "same_fs zb m m'" and wf: "wf_fs m zb" and ino: "ino < num_inode m zb"
    and blk: "unat offset mod 4096 + unat n \<le> 4096"
    and len: "unat offset + unat n \<le> file_len m zb ino"
    and disj: "disjoint_regions buf (unat n) zb (fs_size m zb)"
  shows "memcpy m' buf (datablock0 m zb +
      4096 * i_datablock_num m' (inode_entry zb ino) (offset div 4096) + offset mod 4096) n =
    wr_bytes m' buf (file_bytes m zb ino (unat offset) (unat offset + unat n))"
proof (cases "unat n = 0")
  case True
  then show ?thesis by (simp add: memcpy_def file_bytes_def)
next
  case False
  let ?o = "unat offset"
  have p: "?o < file_len m zb ino" using len False by simp
  obtain x where x: "x + 4096 \<le> fs_size m zb" and k: "?o div 4096 < 1023"
    and a: "datablock0 m zb + 4096 * i_datablock_num m (inode_entry zb ino) (of_nat (?o div 4096)) =
      zb + of_nat x"
    using file_block_address [OF wf ino p] by blast
  have d: "offset div 4096 = of_nat (?o div 4096)" by (simp add: word_arith_nat_div)
  have r: "offset mod 4096 = of_nat (?o mod 4096)" by (simp add: word_arith_nat_mod)
  let ?src = "zb + of_nat (x + ?o mod 4096)"
  have src: "datablock0 m zb + 4096 * i_datablock_num m' (inode_entry zb ino) (offset div 4096)
      + offset mod 4096 = ?src"
    using a by (simp add: d r same_fs_datablock_num [OF same wf ino k] add.assoc [symmetric])
  have in_fs: "x + ?o mod 4096 + unat n \<le> fs_size m zb" using x blk by simp
  have "disjoint_regions buf (unat n) ?src (unat n)"
    using disjoint_regions_sub [OF disj, of 0 "unat n" "x + ?o mod 4096" "unat n"] in_fs
      wf_fs_size(2) [OF wf] unat_lt32 [of n] by simp
  from memcpy_eq [OF this, of m']
  have "memcpy m' buf ?src n = wr_bytes m' buf (rd_bytes m' ?src (unat n))" .
  also have "rd_bytes m' ?src (unat n) = rd_bytes m ?src (unat n)"
    by (rule same_fs_rd_bytes [OF same in_fs wf_fs_size(2) [OF wf]])
  also have "\<dots> = file_bytes m zb ino ?o (?o + unat n)"
  proof (rule nth_equalityI)
    fix i assume "i < length (rd_bytes m ?src (unat n))"
    then have i: "i < unat n" by simp
    define q s where "q = ?o div 4096" and "s = ?o mod 4096"
    have o: "?o = 4096 * q + s" and "s + i < 4096" using i blk by (simp_all add: q_def s_def)
    then have "(?o + i) div 4096 = q" "(?o + i) mod 4096 = s + i" by (simp_all add: add.assoc)
    then show "rd_bytes m ?src (unat n) ! i = file_bytes m zb ino ?o (?o + unat n) ! i"
      using i a by (simp add: file_bytes_def file_byte_def q_def s_def add.assoc)
  qed simp
  finally show ?thesis by (simp only: src)
qed

lemma read_blocks_eq:
  assumes "same_fs zb m m'" and wf: "wf_fs m zb" and ino: "ino < num_inode m zb"
    and "offset \<le> last'" and len: "unat last' \<le> file_len m zb ino"
    and "disjoint_regions buf (unat last' - unat offset) zb (fs_size m zb)"
  shows "\<exists>offset'. read_blocks m' (inode_entry zb ino) (datablock0 m zb) last' buf offset =
      (wr_bytes m' buf (file_bytes m zb ino (unat offset) (unat offset')),
       buf + of_nat (unat offset' - unat offset), offset') \<and>
    offset \<le> offset' \<and> offset' \<le> last' \<and> unat offset' div 4096 = unat last' div 4096"
  using assms(1,4,6)
proof (induction "unat last' - unat offset" arbitrary: m' buf offset rule: less_induct)
  case less
  let ?o = "unat offset" and ?l = "unat last'"
  show ?case
  proof (cases "offset div 4096 < last' div 4096")
    case False
    then have "?l div 4096 \<le> ?o div 4096" by (simp add: word_less_nat_alt unat_div)
    moreover have "?o div 4096 \<le> ?l div 4096"
      using less.prems(2) by (intro div_le_mono) (simp add: word_le_nat_alt)
    ultimately show ?thesis
      using False less.prems(2) by (subst read_blocks.simps) (simp add: file_bytes_def)
  next
    case True
    let ?n = "4096 - offset mod 4096"
    let ?off = "offset + ?n" and ?e = "4096 * (?o div 4096 + 1)"
    have off: "unat ?off = ?e" using next_block [OF True] .
    have n: "unat ?n = 4096 - ?o mod 4096"
      by (subst unat_sub) (simp_all add: word_le_nat_alt unat_mod)
    have e: "?e = ?o + unat ?n"
    proof -
      define q r where "q = ?o div 4096" and "r = ?o mod 4096"
      have "?o = 4096 * q + r" and "r < 4096" by (simp_all add: q_def r_def)
      then show ?thesis unfolding n by (simp flip: q_def r_def)
    qed
    have "?o div 4096 < ?l div 4096" using True by (simp add: word_less_nat_alt unat_div)
    then have el: "?e \<le> ?l" by (simp add: less_eq_div_iff_mult_less_eq)
    let ?w = "wr_bytes m' buf (file_bytes m zb ino ?o ?e)"
    have d1: "disjoint_regions buf (unat ?n) zb (fs_size m zb)"
      using disjoint_regions_sub [OF less.prems(3), of 0 "unat ?n" 0 "fs_size m zb"] el e
        wf_fs_size(2) [OF wf] unat_lt32 [of last'] by simp
    have d2: "disjoint_regions (buf + of_nat (unat ?n)) (?l - unat ?off) zb (fs_size m zb)"
      using disjoint_regions_sub [OF less.prems(3), of "unat ?n" "?l - unat ?off" 0 "fs_size m zb"]
        el e off wf_fs_size(2) [OF wf] unat_lt32 [of last'] by simp
    have "0 < unat ?n" using n mod_less_divisor [of 4096 ?o] by simp
    then have dec: "?l - unat ?off < ?l - ?o" using off e el by linarith
    have off_le: "?off \<le> last'" using off el by (simp add: word_le_nat_alt)
    have cp: "memcpy m' buf (datablock0 m zb +
        4096 * i_datablock_num m' (inode_entry zb ino) (offset div 4096) + offset mod 4096) ?n = ?w"
      using copy_piece [OF less.prems(1) wf ino, of offset ?n buf] d1 n e el len by simp
    have same: "same_fs zb m ?w"
      using same_fs_wr_bytes [OF less.prems(1), of buf "file_bytes m zb ino ?o ?e"] d1 e
        unat_lt32 [of ?n] by simp
    have "\<exists>offset'. read_blocks ?w (inode_entry zb ino) (datablock0 m zb) last'
          (buf + of_nat (unat ?n)) ?off =
        (wr_bytes ?w (buf + of_nat (unat ?n)) (file_bytes m zb ino (unat ?off) (unat offset')),
         buf + of_nat (unat ?n) + of_nat (unat offset' - unat ?off), offset') \<and>
      ?off \<le> offset' \<and> offset' \<le> last' \<and> unat offset' div 4096 = ?l div 4096"
      by (rule less.hyps [OF dec same off_le d2])
    then obtain offset' where rb: "read_blocks ?w (inode_entry zb ino) (datablock0 m zb) last'
          (buf + ?n) ?off =
        (wr_bytes ?w (buf + ?n) (file_bytes m zb ino ?e (unat offset')),
         buf + ?n + of_nat (unat offset' - ?e), offset')"
      and o': "?off \<le> offset'" "offset' \<le> last'" "unat offset' div 4096 = ?l div 4096"
      by (auto simp: off)
    have ee: "?e \<le> unat offset'" using o'(1) off by (simp add: word_le_nat_alt)
    have "wr_bytes ?w (buf + ?n) (file_bytes m zb ino ?e (unat offset')) =
        wr_bytes m' buf (file_bytes m zb ino ?o (unat offset'))"
    proof -
      have "?e - ?o = unat ?n" using e by simp
      then have len_e: "of_nat (length (file_bytes m zb ino ?o ?e)) = ?n"
        by (simp only: length_file_bytes of_nat_of_unat)
      have "file_bytes m zb ino ?o (unat offset') =
          file_bytes m zb ino ?o ?e @ file_bytes m zb ino ?e (unat offset')"
        using e ee by (intro file_bytes_append [symmetric]) simp_all
      then show ?thesis by (simp only: wr_bytes_append len_e)
    qed
    moreover have "buf + ?n + of_nat (unat offset' - ?e) = buf + of_nat (unat offset' - ?o)"
    proof -
      have "unat offset' - ?o = unat ?n + (unat offset' - ?e)" using ee e by simp
      then show ?thesis by (simp only: of_nat_add of_nat_of_unat add.assoc)
    qed
    moreover have "offset \<le> offset'" using ee e by (simp add: word_le_nat_alt)
    ultimately show ?thesis
      using True cp rb o' by (subst read_blocks.simps) (auto simp: Let_def)
  qed
qed

lemma read_data_slice:
  assumes wf: "wf_fs m zb" and ino: "ino < num_inode m zb"
    and nowrap: "unat offset + unat len < 2 ^ 32"
    and disj: "disjoint_regions buf (unat len) zb (fs_size m zb)"
    and inside: "unat offset \<le> file_len m zb ino"
  shows "read_data m zb ino offset buf len =
    (wr_bytes m buf (take (unat len) (drop (unat offset) (file_contents m zb ino))),
     of_nat (min (unat len) (file_len m zb ino - unat offset)))"
proof -
  let ?ie = "inode_entry zb ino" and ?o = "unat offset"
  define l where "l = (if i_length m ?ie < offset + len then i_length m ?ie else offset + len)"
  have sum: "unat (offset + len) = ?o + unat len" using nowrap by (simp add: unat_plus_if')
  have l: "unat l = min (file_len m zb ino) (?o + unat len)"
    using sum by (simp add: l_def file_len_def word_less_nat_alt)
  have ol: "offset \<le> l" using l inside by (simp add: word_le_nat_alt)
  have nle: "\<not> num_inode m zb \<le> ino" "\<not> l < offset" using ino ol by auto
  have cnt: "unat l - ?o \<le> unat len" using l by simp
  have d: "disjoint_regions buf (unat l - ?o) zb (fs_size m zb)"
    using disjoint_regions_sub [OF disj, of 0 "unat l - ?o" 0 "fs_size m zb"] cnt
      wf_fs_size(2) [OF wf] unat_lt32 [of len] by simp
  obtain off where rb: "read_blocks m ?ie (datablock0 m zb) l buf offset =
      (wr_bytes m buf (file_bytes m zb ino ?o (unat off)), buf + of_nat (unat off - ?o), off)"
    and o1: "offset \<le> off" and o2: "off \<le> l" and o3: "unat off div 4096 = unat l div 4096"
    using read_blocks_eq [OF same_fs_refl wf ino ol _ d] l by auto
  let ?m' = "wr_bytes m buf (file_bytes m zb ino ?o (unat off))"
  let ?buf' = "buf + of_nat (unat off - ?o)" and ?n = "l mod 4096 - off mod 4096"
  have le: "?o \<le> unat off" "unat off \<le> unat l" using o1 o2 by (simp_all add: word_le_nat_alt)
  have n: "unat ?n = unat l - unat off" and blk: "unat off mod 4096 + unat ?n \<le> 4096"
  proof -
    define q r s where "q = unat l div 4096" and "r = unat l mod 4096" and "s = unat off mod 4096"
    have a: "unat l = 4096 * q + r" "unat off = 4096 * q + s" "r < 4096"
      by (simp_all add: q_def r_def s_def) (metis o3 mult_div_mod_eq)
    then have "s \<le> r" using le(2) by simp
    then have "unat ?n = r - s"
      by (subst unat_sub) (simp_all add: word_le_nat_alt unat_mod r_def s_def)
    with a \<open>s \<le> r\<close> show "unat ?n = unat l - unat off" and "unat off mod 4096 + unat ?n \<le> 4096"
      by (simp_all add: s_def [symmetric])
  qed
  have same: "same_fs zb m ?m'"
    using same_fs_wr_bytes [OF same_fs_refl, of buf "file_bytes m zb ino ?o (unat off)"]
      disjoint_regions_sub [OF d, of 0 "unat off - ?o" 0 "fs_size m zb"] le
      wf_fs_size(2) [OF wf] unat_lt32 [of l] by simp
  have d': "disjoint_regions ?buf' (unat ?n) zb (fs_size m zb)"
    using disjoint_regions_sub [OF d, of "unat off - ?o" "unat ?n" 0 "fs_size m zb"] le n
      wf_fs_size(2) [OF wf] unat_lt32 [of l] by simp
  have "memcpy ?m' ?buf' (datablock0 m zb + 4096 * i_datablock_num ?m' ?ie (off div 4096)
      + off mod 4096) ?n = wr_bytes ?m' ?buf' (file_bytes m zb ino (unat off) (unat l))"
    using copy_piece [OF same wf ino blk _ d'] n l le by simp
  also have "\<dots> = wr_bytes m buf (file_bytes m zb ino ?o (unat l))"
    using file_bytes_append [OF le, of m zb ino]
    by (metis length_file_bytes wr_bytes_append)
  also have "file_bytes m zb ino ?o (unat l) = take (unat len) (drop ?o (file_contents m zb ino))"
    unfolding l by (rule file_bytes_slice)
  finally have "read_data m zb ino offset buf len =
      (wr_bytes m buf (take (unat len) (drop ?o (file_contents m zb ino))), l - offset)"
    using nle rb by (simp add: read_data_def Let_def l_def [symmetric])
  moreover have "l - offset = of_nat (min (unat len) (file_len m zb ino - ?o))"
  proof -
    have "unat (l - offset) = unat l - ?o" using ol by (rule unat_sub)
    also have "\<dots> = min (unat len) (file_len m zb ino - ?o)" using l inside by simp
    finally show ?thesis by (metis of_nat_of_unat)
  qed
  ultimately show ?thesis by simp
qed

lemma length_file_contents [simp]: "length (file_contents m zb ino) = file_len m zb ino"
  by (simp add: file_contents_def)

text \<open>
  C17. \<open>read_data\<close> implements reading from a file: for an inode of a well-formed image it stores at
  \<open>buf\<close> the bytes of the file from \<open>offset\<close> on, at most \<open>length\<close> of them and cut at the end of the
  file, changes no other byte, and returns how many it stored (0 at or after the end). The buffer
  has to lie outside the image, and \<open>offset + length\<close> must not wrap.
\<close>

theorem read_data_reads_file:
  assumes "wf_fs m zb" and "ino < num_inode m zb" and "unat offset + unat len < 2 ^ 32"
    and "disjoint_regions buf (unat len) zb (fs_size m zb)"
  shows "read_data m zb ino offset buf len =
    (let xs = take (unat len) (drop (unat offset) (file_contents m zb ino))
     in (wr_bytes m buf xs, of_nat (length xs)))"
proof (cases "unat offset \<le> file_len m zb ino")
  case True
  then show ?thesis using read_data_slice [OF assms True] by (simp add: Let_def min.commute)
next
  case False
  then have "i_length m (inode_entry zb ino) < offset"
    by (simp add: file_len_def word_less_nat_alt)
  moreover have "offset \<le> offset + len"
    using assms(3) by (simp add: word_le_nat_alt unat_plus_if')
  ultimately have "i_length m (inode_entry zb ino) < offset + len" "i_length m (inode_entry zb ino) < offset"
    by simp_all
  moreover have "\<not> num_inode m zb \<le> ino" using assms(2) by simp
  ultimately show ?thesis using False by (simp add: read_data_def Let_def)
qed

subsection \<open>A small image\<close>

text \<open>
  Images of three blocks at \<open>0x500000\<close>: one directory entry and one file of at most a block. The example
  image has the entry \<open>f\<close>, a regular file in inode 0 with the three bytes \<open>abc\<close> in data block 0.
\<close>

definition demo_fs :: memory where
  "demo_fs = (\<lambda>_. 0)(0x500000 := 1, 0x500004 := 1, 0x500008 := 1, 0x500040 := 0x66, 0x500060 := 2,
     0x501000 := 3, 0x502000 := 0x61, 0x502001 := 0x62, 0x502002 := 0x63)"

lemmas demo_eval = demo_fs_def fs_layout rd32_def le32_def mem_eval

lemma one_inode_fs:
  assumes h: "unat (num_dentry m 0x500000) \<le> 63" "num_inode m 0x500000 = 1" "num_dblock m 0x500000 = 1"
    and n: "file_len m 0x500000 0 = n" "n \<le> 4096" and b: "i_datablock_num m (inode_entry 0x500000 0) 0 = 0"
  shows "fs_size m 0x500000 = 12288" and "wf_fs m 0x500000" and "file_contents m 0x500000 0 = rd_bytes m 0x502000 n"
proof -
  show sz: "fs_size m 0x500000 = 12288" by (simp add: fs_size_def h)
  have "file_len m 0x500000 ino \<le> 4096 * 1023 \<and> (\<forall>k < 1023. 4096 * k < file_len m 0x500000 ino \<longrightarrow>
      i_datablock_num m (inode_entry 0x500000 ino) (of_nat k) < 1)" if "ino < 1" for ino
  proof -
    have "ino = 0" using that by (simp add: word_less_nat_alt unat_eq_0)
    moreover have "i_datablock_num m (inode_entry 0x500000 0) (of_nat k) < 1" if "4096 * k < n" for k
    proof -
      have "k = 0" using that n(2) by (cases k) simp_all
      then show ?thesis using b by simp
    qed
    ultimately show ?thesis using n by simp
  qed
  then show "wf_fs m 0x500000" by (simp add: wf_fs_def sz h)
  have "file_byte m 0x500000 0 q = m (0x502000 + of_nat q)" if "q < n" for q
    using that n(2) b by (simp add: file_byte_def datablock0_def h)
  then show "file_contents m 0x500000 0 = rd_bytes m 0x502000 n"
    by (simp add: file_contents_def file_bytes_def n(1) rd_bytes_conv)
qed

lemma one_file_fs:
  assumes "num_dentry m 0x500000 = 1" "num_inode m 0x500000 = 1" "num_dblock m 0x500000 = 1"
    and "file_len m 0x500000 0 = n" "n \<le> 4096" and "i_datablock_num m (inode_entry 0x500000 0) 0 = 0"
  shows "fs_size m 0x500000 = 12288" and "wf_fs m 0x500000" and "file_contents m 0x500000 0 = rd_bytes m 0x502000 n"
  using assms one_inode_fs [of m n] by simp_all

lemma demo_fs_header:
  "num_dentry demo_fs 0x500000 = 1" "num_inode demo_fs 0x500000 = 1" "num_dblock demo_fs 0x500000 = 1"
  by (simp_all add: demo_eval)

lemma demo_fs_block: "file_len demo_fs 0x500000 0 = 3" "i_datablock_num demo_fs (inode_entry 0x500000 0) 0 = 0"
  by (simp_all add: file_len_def) (simp_all add: demo_eval)

lemmas demo_fs_one = one_file_fs [OF demo_fs_header demo_fs_block(1) _ demo_fs_block(2), simplified]

lemma demo_fs_file: "file_len demo_fs 0x500000 0 = 3" "fs_size demo_fs 0x500000 = 12288"
  using demo_fs_block(1) demo_fs_one(1) by simp_all

lemma demo_fs_contents: "file_contents demo_fs 0x500000 0 = [0x61, 0x62, 0x63]"
  unfolding demo_fs_one(3) by (simp add: demo_fs_def mem_eval)

lemma demo_fs_wf: "wf_fs demo_fs 0x500000"
  by (rule demo_fs_one(2))

lemma demo_fs_buffer:
  "k \<le> 0x1000 \<Longrightarrow> disjoint_regions 0x100 k 0x500000 (fs_size demo_fs 0x500000)"
  by (rule disjoint_regions_intervalI) (simp_all add: demo_fs_file)

theorem read_data_reads_file_witness:
  "wf_fs demo_fs 0x500000 \<and>
   read_data demo_fs 0x500000 0 1 0x100 8 = (wr_bytes demo_fs 0x100 [0x62, 0x63], 2)"
  using read_data_reads_file [OF demo_fs_wf, where ino = 0 and offset = 1 and len = 8 and buf = "0x100"]
    demo_fs_buffer [of 8] demo_fs_wf
  by (simp add: demo_fs_header demo_fs_contents)

section \<open>The directory\<close>

text \<open>The name of the \<open>i\<close>-th entry, and the comparison \<open>read_dentry_by_name\<close> makes.\<close>

definition entry_name :: "memory \<Rightarrow> u32 \<Rightarrow> u32 \<Rightarrow> byte list" where
  "entry_name m zb i = upto_nul (rd_bytes m (dentries zb i) 32)"

definition name_matches :: "memory \<Rightarrow> u32 \<Rightarrow> u32 \<Rightarrow> nat \<Rightarrow> bool" where
  "name_matches m zb fname i \<longleftrightarrow>
     upto_nul (rd_bytes m fname 31) = upto_nul (rd_bytes m (dentries zb (of_nat i)) 31)"

lemma strncmp_name:
  "strncmp m fname (d_fname (dentries zb (of_nat i))) 31 = 0 \<longleftrightarrow> name_matches m zb fname i"
  by (simp add: strncmp_zero name_matches_def d_fname_def)

lemma read_dentry_loop_eq:
  assumes "i \<le> unat (num_dentry m zb)"
  shows "read_dentry_loop m zb fname dentry (of_nat i) =
    (case find (name_matches m zb fname) [i..<unat (num_dentry m zb)] of
       None \<Rightarrow> (m, - 1)
     | Some k \<Rightarrow> read_dentry_by_index m zb (of_nat k) dentry)"
  using assms
proof (induction "unat (num_dentry m zb) - i" arbitrary: i)
  case 0
  then have "i = unat (num_dentry m zb)" by simp
  then show ?case by (subst read_dentry_loop.simps) simp
next
  case (Suc k)
  then have lt: "i < unat (num_dentry m zb)" by simp
  moreover have i: "unat (of_nat i :: u32) = i"
    using lt unat_lt32 [of "num_dentry m zb"] by (intro unat_of_nat_less) simp
  ultimately have "of_nat i < num_dentry m zb" by (simp add: word_less_nat_alt)
  then show ?case
    using Suc.hyps(1) [of "Suc i"] Suc.hyps(2) lt
    by (subst read_dentry_loop.simps)
       (simp add: upt_conv_Cons strncmp_name add.commute)
qed

text \<open>What a look-up stores at \<open>dentry\<close>: the padded name, the type and, for a regular file, the inode.\<close>

definition is_regular :: "memory \<Rightarrow> u32 \<Rightarrow> u32 \<Rightarrow> bool" where
  "is_regular m zb i \<longleftrightarrow> rd32 m (d_ftype (dentries zb i)) = FTYPE_REGULAR"

definition entry_image :: "memory \<Rightarrow> u32 \<Rightarrow> u32 \<Rightarrow> byte list" where
  "entry_image m zb i = pad_nul 32 (entry_name m zb i) @
     rd_bytes m (d_ftype (dentries zb i)) (if is_regular m zb i then 8 else 4)"

lemma length_entry_name: "length (entry_name m zb i) \<le> 32"
  using length_upto_nul_le [of "rd_bytes m (dentries zb i) 32"] by (simp add: entry_name_def)

lemma length_padded_name [simp]: "length (pad_nul 32 (entry_name m zb i)) = 32"
  using length_entry_name [of m zb i] by (simp add: pad_nul_def)

lemma length_entry_image: "length (entry_image m zb i) = (if is_regular m zb i then 40 else 36)"
  by (simp add: entry_image_def)

lemma entry_in_fs:
  assumes "wf_fs m zb" and "i < num_dentry m zb"
  shows "64 + 64 * unat i + 64 \<le> fs_size m zb"
  using assms wf_fs_size(3) [OF assms(1)] by (simp add: wf_fs_def word_less_nat_alt)

lemma same_fs_entry_bytes:
  assumes "same_fs zb m m'" and "wf_fs m zb" and "i < num_dentry m zb" and "x + k \<le> 64"
  shows "rd_bytes m' (dentries zb i + of_nat x) k = rd_bytes m (dentries zb i + of_nat x) k"
  using same_fs_rd_bytes [OF assms(1), of "64 + 64 * unat i + x" k] wf_fs_size(2) [OF assms(2)]
    entry_in_fs [OF assms(2,3)] assms(4)
  by (simp add: dentries_ofs algebra_simps)

lemma read_dentry_by_index_eq:
  assumes wf: "wf_fs m zb" and i: "i < num_dentry m zb"
    and d: "disjoint_regions dentry 40 zb (fs_size m zb)"
  shows "read_dentry_by_index m zb i dentry = (wr_bytes m dentry (entry_image m zb i), 0)"
proof -
  let ?e = "dentries zb i" and ?xs = "pad_nul 32 (entry_name m zb i)"
  note sub = disjoint_regions_sub [OF d, where k' = "fs_size m zb" and j = 0, simplified]
  note fs = wf_fs_size(2) [OF wf]
  have "disjoint_regions dentry 32 (zb + of_nat (64 + 64 * unat i)) 32"
    using disjoint_regions_sub [OF d, of 0 32 "64 + 64 * unat i" 32] entry_in_fs [OF wf i] fs
    by simp
  then have d32: "disjoint_regions dentry (unat (32 :: u32)) ?e (unat (32 :: u32))"
    unfolding dentries_ofs by simp
  define m1 where "m1 = strncpy m (d_fname dentry) (d_fname ?e) 32"
  have m1: "m1 = wr_bytes m dentry ?xs"
    using strncpy_eq [OF d32] by (simp add: m1_def d_fname_def entry_name_def)
  have s1: "same_fs zb m m1"
    unfolding m1 using sub [of 0 32] fs by (intro same_fs_wr_bytes) auto
  define m2 where "m2 = wr32 m1 (d_ftype dentry) (rd32 m1 (d_ftype ?e))"
  have m2: "m2 = wr_bytes m1 (dentry + 32) (rd_bytes m (?e + 32) 4)"
    using same_fs_entry_bytes [OF s1 wf i, of 32 4] by (simp add: m2_def wr32_rd32 d_ftype_def)
  have s2: "same_fs zb m m2"
    unfolding m2 using sub [of 32 4] fs by (intro same_fs_wr_bytes [OF s1]) auto
  have t: "rd32 m2 (d_ftype dentry) = rd32 m (d_ftype ?e)"
    using same_fs_entry_bytes [OF s1 wf i, of 32 4]
    by (simp add: m2_def rd32_wr32_same) (simp add: rd32_def d_ftype_def)
  have m3: "wr32 m2 (d_inode_num dentry) (rd32 m2 (d_inode_num ?e)) =
      wr_bytes m2 (dentry + 36) (rd_bytes m (?e + 36) 4)"
    using same_fs_entry_bytes [OF s2 wf i, of 36 4] by (simp add: wr32_rd32 d_inode_num_def)
  have r8: "rd_bytes m (?e + 32) 8 = rd_bytes m (?e + 32) 4 @ rd_bytes m (?e + 36) 4"
    using rd_bytes_add [of m "?e + 32" 4 4] by (simp add: add.assoc)
  have "wr_bytes m dentry (?xs @ rd_bytes m (?e + 32) 4) = m2"
    by (simp add: m2 m1 wr_bytes_append)
  moreover have "wr_bytes m dentry (?xs @ rd_bytes m (?e + 32) 8) =
      wr_bytes m2 (dentry + 36) (rd_bytes m (?e + 36) 4)"
    by (simp add: m2 m1 r8 wr_bytes_append add.assoc)
  ultimately show ?thesis
    using i t m3
    by (simp add: read_dentry_by_index_def Let_def entry_image_def is_regular_def
        flip: m1_def m2_def) (simp add: d_ftype_def)
qed

lemma read_dentry_by_name_eq:
  assumes "wf_fs m zb" and "disjoint_regions dentry 40 zb (fs_size m zb)"
  shows "read_dentry_by_name m zb fname dentry =
    (case find (name_matches m zb fname) [0..<unat (num_dentry m zb)] of
       None \<Rightarrow> (m, - 1)
     | Some k \<Rightarrow> (wr_bytes m dentry (entry_image m zb (of_nat k)), 0))"
proof (cases "find (name_matches m zb fname) [0..<unat (num_dentry m zb)]")
  case None
  then show ?thesis
    using read_dentry_loop_eq [of 0 m zb fname dentry] by (simp add: read_dentry_by_name_def)
next
  case (Some k)
  then have "k < unat (num_dentry m zb)" by (auto simp: find_Some_iff)
  moreover from this have "unat (of_nat k :: u32) = k"
    using unat_lt32 [of "num_dentry m zb"] by (intro unat_of_nat_less) simp
  ultimately have "of_nat k < num_dentry m zb" by (simp add: word_less_nat_alt)
  with Some show ?thesis
    using read_dentry_loop_eq [of 0 m zb fname dentry] read_dentry_by_index_eq [OF assms(1) _ assms(2)]
    by (simp add: read_dentry_by_name_def)
qed

lemma demo_fs_match: "name_matches demo_fs 0x500000 0x500040 0"
  by (simp add: name_matches_def dentries_def)

lemma demo_fs_entry:
  "entry_image demo_fs 0x500000 0 = 0x66 # replicate 31 0 @ [2, 0, 0, 0, 0, 0, 0, 0]"
proof -
  have "entry_name demo_fs 0x500000 0 = [0x66]"
    by (simp add: entry_name_def demo_eval)
  moreover have "is_regular demo_fs 0x500000 0"
    by (simp add: is_regular_def FTYPE_REGULAR_def demo_eval)
  moreover have "rd_bytes demo_fs (d_ftype (dentries 0x500000 0)) 8 = [2, 0, 0, 0, 0, 0, 0, 0]"
    by (simp add: demo_eval)
  ultimately show ?thesis by (simp add: entry_image_def pad_nul_def)
qed

section \<open>Reading a file to its end\<close>

subsection \<open>Writes outside the image keep it\<close>

lemma same_fs_header:
  assumes "same_fs zb m m'" and "wf_fs m zb"
  shows "num_dentry m' zb = num_dentry m zb" "num_inode m' zb = num_inode m zb"
    "num_dblock m' zb = num_dblock m zb"
  using same_fs_rd32 [OF assms(1), of 0] same_fs_rd32 [OF assms(1), of 4]
    same_fs_rd32 [OF assms(1), of 8] wf_fs_size(2,3) [OF assms(2)]
  by (simp_all add: num_dentry_def num_inode_def num_dblock_def)

lemma same_fs_size: "same_fs zb m m' \<Longrightarrow> wf_fs m zb \<Longrightarrow> fs_size m' zb = fs_size m zb"
  by (simp add: fs_size_def same_fs_header)

lemma same_fs_file_len:
  assumes "same_fs zb m m'" and "wf_fs m zb" and "ino < num_inode m zb"
  shows "file_len m' zb ino = file_len m zb ino"
  using same_fs_rd32 [OF assms(1), of "4096 * (1 + unat ino)"] inode_in_fs [OF assms(3), of 4]
    wf_fs_size(2) [OF assms(2)]
  by (simp add: file_len_def i_length_def inode_entry_ofs)

lemma same_fs_wf:
  assumes "same_fs zb m m'" and "wf_fs m zb"
  shows "wf_fs m' zb"
  using assms
  by (auto simp: wf_fs_def [of m' zb] same_fs_header same_fs_size same_fs_file_len
      same_fs_datablock_num) (auto simp: wf_fs_def)

lemma same_fs_file_contents:
  assumes "same_fs zb m m'" and "wf_fs m zb" and "ino < num_inode m zb"
  shows "file_contents m' zb ino = file_contents m zb ino"
proof -
  have "file_byte m' zb ino p = file_byte m zb ino p" if p: "p < file_len m zb ino" for p
  proof -
    obtain x where x: "x + 4096 \<le> fs_size m zb" "p div 4096 < 1023"
      "datablock0 m zb + 4096 * i_datablock_num m (inode_entry zb ino) (of_nat (p div 4096)) =
        zb + of_nat x"
      by (rule file_block_address [OF assms(2,3) p])
    have "zb + of_nat (x + p mod 4096) \<in> region zb (fs_size m zb)"
    proof (rule add_in_region)
      show "x + p mod 4096 < fs_size m zb" using x(1) mod_less_divisor [of 4096 p] by linarith
    qed (rule wf_fs_size(2) [OF assms(2)])
    then have "m' (zb + of_nat x + of_nat (p mod 4096)) = m (zb + of_nat x + of_nat (p mod 4096))"
      using assms(1) by (simp add: same_fs_def add.assoc)
    moreover have "datablock0 m' zb = datablock0 m zb"
      by (simp add: datablock0_def same_fs_header [OF assms(1,2)])
    ultimately show ?thesis
      using same_fs_datablock_num [OF assms x(2)] x(3) by (simp add: file_byte_def)
  qed
  then show ?thesis
    by (simp add: file_contents_def file_bytes_def same_fs_file_len [OF assms])
qed

subsection \<open>Sequential readers\<close>

text \<open>
  What a program that reads a file in a loop relies on: there is a rest still to come, a read
  delivers a prefix of it and leaves the remainder, and a read delivers nothing only at the end.
  \<open>drain\<close> is the loop of such a program: read until a read returns 0.
\<close>

primrec drain :: "('s \<Rightarrow> 's \<times> 'a list) \<Rightarrow> nat \<Rightarrow> 's \<Rightarrow> 'a list" where
  "drain rd 0 s = []"
| "drain rd (Suc n) s = (let (s', xs) = rd s in if xs = [] then [] else xs @ drain rd n s')"

locale sequential_reader =
  fixes rd :: "'s \<Rightarrow> 's \<times> 'a list"
    and rest :: "'s \<Rightarrow> 'a list"
    and ok :: "'s \<Rightarrow> bool"
  assumes rd_ok: "ok s \<Longrightarrow> rd s = (s', xs) \<Longrightarrow> ok s'"
    and rd_rest: "ok s \<Longrightarrow> rd s = (s', xs) \<Longrightarrow> rest s = xs @ rest s'"
    and rd_end: "ok s \<Longrightarrow> rd s = (s', []) \<Longrightarrow> rest s = []"
begin

lemma drain_rest: "ok s \<Longrightarrow> length (rest s) \<le> n \<Longrightarrow> drain rd n s = rest s"
proof (induction n arbitrary: s)
  case 0
  then show ?case by simp
next
  case (Suc n)
  obtain s' xs where r: "rd s = (s', xs)" by fastforce
  show ?case
  proof (cases "xs = []")
    case True
    then show ?thesis using rd_end [OF Suc.prems(1)] r by simp
  next
    case False
    then have "length (rest s') \<le> n"
      using rd_rest [OF Suc.prems(1) r] Suc.prems(2) by (cases xs) auto
    with Suc.IH [OF rd_ok [OF Suc.prems(1) r]] rd_rest [OF Suc.prems(1) r] False show ?thesis
      by (simp add: r)
  qed
qed

end

subsection \<open>Regular files\<close>

text \<open>One read of at most \<open>nb\<close> bytes into \<open>buf\<close>, with the bytes the caller then finds there.\<close>

definition read_chunk :: "u32 \<Rightarrow> u32 \<Rightarrow> u32 \<Rightarrow> memory \<times> FILE \<Rightarrow> (memory \<times> FILE) \<times> byte list" where
  "read_chunk zb buf nb s =
     (let (m', f', r) = regular_read (fst s) zb (snd s) buf nb
      in ((m', f'), rd_bytes m' buf (nat r)))"

definition rest_of_file :: "u32 \<Rightarrow> memory \<times> FILE \<Rightarrow> byte list" where
  "rest_of_file zb s = drop (unat (pos (snd s))) (file_contents (fst s) zb (inode (snd s)))"

definition readable :: "u32 \<Rightarrow> u32 \<Rightarrow> u32 \<Rightarrow> memory \<times> FILE \<Rightarrow> bool" where
  "readable zb buf nb s \<longleftrightarrow> (case s of (m, f) \<Rightarrow>
     wf_fs m zb \<and> inode f < num_inode m zb \<and> unat (pos f) \<le> file_len m zb (inode f) \<and>
     0 < nb \<and> unat nb < 2 ^ 31 \<and> disjoint_regions buf (unat nb) zb (fs_size m zb))"

lemma wf_fs_file_len: "wf_fs m zb \<Longrightarrow> ino < num_inode m zb \<Longrightarrow> file_len m zb ino \<le> 4190208"
  by (auto simp: wf_fs_def)

lemma regular_read_eq:
  assumes "readable zb buf nb (m, f)"
  shows "regular_read m zb f buf nb =
    (let xs = take (unat nb) (rest_of_file zb (m, f))
     in (wr_bytes m buf xs, f\<lparr>pos := pos f + of_nat (length xs)\<rparr>, int (length xs)))"
proof -
  from assms have r: "wf_fs m zb" "inode f < num_inode m zb"
    "unat (pos f) \<le> file_len m zb (inode f)" "unat nb < 2 ^ 31"
    "disjoint_regions buf (unat nb) zb (fs_size m zb)"
    by (simp_all add: readable_def)
  have nw: "unat (pos f) + unat nb < 2 ^ 32" using wf_fs_file_len [OF r(1,2)] r(3,4) by simp
  have "sint (of_nat (min (unat nb) (file_len m zb (inode f) - unat (pos f))) :: u32) =
      int (min (unat nb) (file_len m zb (inode f) - unat (pos f)))"
    using r(4) by (intro sint_of_nat_small) simp
  then show ?thesis
    using read_data_slice [OF r(1,2) nw r(5,3)]
    by (simp add: regular_read_def rest_of_file_def Let_def min.commute)
qed

lemma read_chunk_eq:
  assumes "readable zb buf nb (m, f)"
  shows "read_chunk zb buf nb (m, f) =
    (let xs = take (unat nb) (rest_of_file zb (m, f))
     in ((wr_bytes m buf xs, f\<lparr>pos := pos f + of_nat (length xs)\<rparr>), xs))"
proof -
  let ?xs = "take (unat nb) (rest_of_file zb (m, f))"
  have "length ?xs \<le> 2 ^ 32" using unat_lt32 [of nb] by simp
  then have "rd_bytes (wr_bytes m buf ?xs) buf (length ?xs) = ?xs" by (rule rd_wr_bytes_same)
  then show ?thesis by (simp add: read_chunk_def regular_read_eq [OF assms] Let_def)
qed

lemma read_chunk_step:
  assumes ok: "readable zb buf nb (m, f)"
    and xs: "xs = take (unat nb) (rest_of_file zb (m, f))"
    and f': "f' = f\<lparr>pos := pos f + of_nat (length xs)\<rparr>"
  shows "readable zb buf nb (wr_bytes m buf xs, f')"
    and "rest_of_file zb (m, f) = xs @ rest_of_file zb (wr_bytes m buf xs, f')"
proof -
  from ok have r: "wf_fs m zb" "inode f < num_inode m zb"
    "unat (pos f) \<le> file_len m zb (inode f)" "0 < nb" "unat nb < 2 ^ 31"
    "disjoint_regions buf (unat nb) zb (fs_size m zb)"
    by (simp_all add: readable_def)
  have len: "length xs = min (unat nb) (file_len m zb (inode f) - unat (pos f))"
    by (simp add: xs rest_of_file_def min.commute)
  have same: "same_fs zb m (wr_bytes m buf xs)"
    using disjoint_regions_sub [OF r(6), of 0 "length xs" 0 "fs_size m zb"] len
      wf_fs_size(2) [OF r(1)] unat_lt32 [of nb]
    by (intro same_fs_wr_bytes) simp_all
  have pos': "unat (pos f') = unat (pos f) + length xs"
  proof -
    have "unat (of_nat (length xs) :: u32) = length xs"
      using r(5) len by (intro unat_of_nat_less) simp
    moreover have "length xs \<le> file_len m zb (inode f) - unat (pos f)" using len by simp
    then have "unat (pos f) + length xs < 2 ^ 32"
      using wf_fs_file_len [OF r(1,2)] r(3) by simp
    ultimately show ?thesis by (simp add: f' unat_plus_if' del: length_append)
  qed
  note eqs = same_fs_header [OF same r(1)] same_fs_size [OF same r(1)]
    same_fs_file_len [OF same r(1,2)] same_fs_file_contents [OF same r(1,2)] same_fs_wf [OF same r(1)]
  show "readable zb buf nb (wr_bytes m buf xs, f')"
    using r len pos' by (simp add: readable_def eqs f')
  have "rest_of_file zb (wr_bytes m buf xs, f') = drop (length xs) (rest_of_file zb (m, f))"
    using pos' by (simp add: rest_of_file_def eqs f' add.commute)
  moreover have "xs = take (length xs) (rest_of_file zb (m, f))"
    by (simp add: xs min_def)
  ultimately show "rest_of_file zb (m, f) = xs @ rest_of_file zb (wr_bytes m buf xs, f')"
    by (metis append_take_drop_id)
qed

interpretation regular: sequential_reader "read_chunk zb buf nb" "rest_of_file zb" "readable zb buf nb"
  for zb buf nb
proof unfold_locales
  fix s s' :: "memory \<times> FILE" and xs
  assume ok: "readable zb buf nb s"
  obtain m f where s: "s = (m, f)" by (cases s)
  note eq = read_chunk_eq [OF ok [unfolded s]]
  note step = read_chunk_step [OF ok [unfolded s] refl refl]
  { assume "read_chunk zb buf nb s = (s', xs)"
    then show "readable zb buf nb s'" using eq step(1) by (auto simp: s Let_def) }
  { assume "read_chunk zb buf nb s = (s', xs)"
    then show "rest_of_file zb s = xs @ rest_of_file zb s'"
      using eq step(2) unfolding s Let_def by (metis prod.inject) }
  { assume "read_chunk zb buf nb s = (s', [])"
    then show "rest_of_file zb s = []"
      using eq ok by (auto simp: s Let_def readable_def unat_eq_0) }
qed

end
