(* ===== verification/Tasking.thy ===== *)
theory Tasking
  imports Pic_Rtc Zbigfs
begin

unbundle bit_operations_syntax

text \<open>
  Processes (\<^verbatim>\<open>tasking.c\<close>): the process control blocks with their file tables, allocation of
  process ids and file descriptors, the context switch, the run queue of the three terminals, and
  the two operations of other files that are built on them: \<open>switch_video\<close> (\<^verbatim>\<open>page.c\<close>) and
  \<open>syscall_close\<close> (\<^verbatim>\<open>syscall_funcs.c\<close>). The scheduler \<open>next_task\<close> is the assembly routine of
  \<^verbatim>\<open>tasking_funcs.S\<close>.
\<close>

section \<open>State\<close>

text \<open>
  A \<open>pcb_t\<close> lies in kernel memory at \<open>get_pcb i\<close>. Its \<open>esp\<close>, \<open>parent\<close>, file table and \<open>present\<close> byte
  are fields of the record; \<open>cmdstring\<close>, which the string routines work on, stays in memory at
  offset 8.
\<close>

record pcb =
  esp :: u32
  parent :: nat
  pcb_files :: "nat \<Rightarrow> FILE"
  present :: bool

record tasking = clock +
  pcbs :: "nat \<Rightarrow> pcb"
  processes :: "nat \<Rightarrow> nat"
  current_process :: nat
  esp0 :: u32

definition MAX_FILES :: nat where "MAX_FILES = 8"

definition NUM_PROCESSES :: nat where "NUM_PROCESSES = 3"

definition FILE_FLAG_IN_USE :: u32 where "FILE_FLAG_IN_USE = 1"

definition OFFSET_8M :: u32 where "OFFSET_8M = OFFSET_4M * 2"

definition OFFSET_8K :: u32 where "OFFSET_8K = OFFSET_4K * 2"

definition BUF_SIZE :: nat where "BUF_SIZE = 128"

definition null_FILE :: FILE where
  "null_FILE = \<lparr>optable = Ops_null, inode = 0, pos = 0, flags = 0\<rparr>"

section \<open>Process control blocks\<close>

definition get_pcb :: "nat \<Rightarrow> u32" where
  "get_pcb i = OFFSET_8M - of_nat (i + 1) * OFFSET_8K"

text \<open>The address of \<open>get_pcb(i)->cmdstring\<close>.\<close>

definition pcb_cmdstring :: "nat \<Rightarrow> u32" where
  "pcb_cmdstring i = get_pcb i + 8"

definition set_pcb :: "nat \<Rightarrow> pcb \<Rightarrow> 'a tasking_scheme \<Rightarrow> 'a tasking_scheme" where
  "set_pcb i p s = s\<lparr>pcbs := (pcbs s)(i := p)\<rparr>"

function find_free_loop :: "(nat \<Rightarrow> pcb) \<Rightarrow> nat \<Rightarrow> nat" where
  "find_free_loop ps i = (if present (ps i) \<and> i \<le> MAX_PID then find_free_loop ps (i + 1) else i)"
  by pat_completeness auto
termination
  by (relation "measure (\<lambda>(ps, i). MAX_PID + 1 - i)") auto

definition find_free_pcb :: "'a tasking_scheme \<Rightarrow> 'a tasking_scheme \<times> int" where
  "find_free_pcb s =
     (let i = find_free_loop (pcbs s) 1 in
      if i > MAX_PID then (fold putc (str ''E: process limit reached'' @ [10]) s, - 1)
      else (s, int i))"

definition init_pcbs :: "'a tasking_scheme \<Rightarrow> 'a tasking_scheme" where
  "init_pcbs s = fold (\<lambda>i s. set_pcb i ((pcbs s i)\<lparr>present := False\<rparr>) s) [0..<MAX_PID + 1] s"

definition get_current_pcb :: "'a tasking_scheme \<Rightarrow> pcb" where
  "get_current_pcb s = pcbs s (current_process s)"

definition get_current_pid :: "'a tasking_scheme \<Rightarrow> nat" where
  "get_current_pid s = current_process s"

section \<open>File descriptors\<close>

definition in_use :: "FILE \<Rightarrow> bool" where
  "in_use f \<longleftrightarrow> flags f AND FILE_FLAG_IN_USE \<noteq> 0"

definition cur_files :: "'a tasking_scheme \<Rightarrow> nat \<Rightarrow> FILE" where
  "cur_files s = pcb_files (get_current_pcb s)"

definition set_file :: "nat \<Rightarrow> FILE \<Rightarrow> 'a tasking_scheme \<Rightarrow> 'a tasking_scheme" where
  "set_file fd f s =
     set_pcb (current_process s)
       ((get_current_pcb s)\<lparr>pcb_files := (cur_files s)(fd := f)\<rparr>) s"

text \<open>\<open>get_file\<close> returns the slot it found, \<open>None\<close> for the pointer -1.\<close>

definition get_file :: "int \<Rightarrow> 'a tasking_scheme \<Rightarrow> nat option" where
  "get_file fd s =
     (if fd \<ge> int MAX_FILES \<or> fd < 0 then None
      else if \<not> in_use (cur_files s (nat fd)) then None
      else Some (nat fd))"

function get_new_fd_loop :: "nat \<Rightarrow> 'a tasking_scheme \<Rightarrow> 'a tasking_scheme \<times> int" where
  "get_new_fd_loop i s =
     (if i < MAX_FILES then
        (if \<not> in_use (cur_files s i)
         then (set_file i ((cur_files s i)\<lparr>flags := flags (cur_files s i) OR FILE_FLAG_IN_USE\<rparr>) s, int i)
         else get_new_fd_loop (i + 1) s)
      else (s, - 1))"
  by pat_completeness auto
termination
  by (relation "measure (\<lambda>(i, s). MAX_FILES - i)") auto

definition get_new_fd :: "'a tasking_scheme \<Rightarrow> 'a tasking_scheme \<times> int" where
  "get_new_fd s = get_new_fd_loop 0 s"

definition free_fd :: "int \<Rightarrow> 'a tasking_scheme \<Rightarrow> 'a tasking_scheme \<times> int" where
  "free_fd fd s =
     (if fd \<ge> int MAX_FILES \<or> fd < 2 then (s, - 1)
      else if \<not> in_use (cur_files s (nat fd)) then (s, - 1)
      else
        (set_file (nat fd) ((cur_files s (nat fd))
           \<lparr>flags := flags (cur_files s (nat fd)) AND NOT FILE_FLAG_IN_USE\<rparr>) s, 0))"

definition kclose :: "FILE \<Rightarrow> int" where
  "kclose f = 0"

definition syscall_close :: "int \<Rightarrow> 'a tasking_scheme \<Rightarrow> 'a tasking_scheme \<times> int" where
  "syscall_close fd s =
     (case get_file fd s of
        None \<Rightarrow> (s, - 1)
      | Some f \<Rightarrow> (let _ = kclose (cur_files s f) in free_fd fd s))"

definition free_current_pcb :: "'a tasking_scheme \<Rightarrow> 'a tasking_scheme" where
  "free_current_pcb s =
     (let i = current_process s;
          s = fold (\<lambda>fd s. fst (syscall_close (int fd) s)) [0..<MAX_FILES] s
      in set_pcb i ((pcbs s i)\<lparr>present := False\<rparr>) s)"

text \<open>\<open>stdin_open\<close> and \<open>stdout_open\<close> of \<^verbatim>\<open>terminal.c\<close> set the operations of a file.\<close>

definition stdin_open :: "FILE \<Rightarrow> FILE \<times> int" where
  "stdin_open f = (f\<lparr>optable := Ops_stdin\<rparr>, 0)"

definition stdout_open :: "FILE \<Rightarrow> FILE \<times> int" where
  "stdout_open f = (f\<lparr>optable := Ops_stdout\<rparr>, 0)"

section \<open>Context switches\<close>

definition switch_context :: "nat \<Rightarrow> 'a tasking_scheme \<Rightarrow> 'a tasking_scheme" where
  "switch_context pid s =
     (let s = cli s;
          s = s\<lparr>current_process := pid\<rparr>;
          s = set_vmem_table (current_active_process s) s;
          s = set_cr3 pid s;
          s = s\<lparr>esp0 := OFFSET_8M - of_nat pid * OFFSET_8K\<rparr>
      in sti s)"

text \<open>
  The new \<open>pcb_t\<close> is all zero but for \<open>present\<close> and \<open>parent\<close>, the command string included. The two
  descriptors are indices into its file table; a result of -1 would be an index before the table,
  which the lemmas below rule out.
\<close>

definition setup_new_process :: "'a tasking_scheme \<Rightarrow> 'a tasking_scheme \<times> int" where
  "setup_new_process s =
     (let (s, pid) = find_free_pcb s in
      if pid = - 1 then (s, - 1)
      else
        (let p = nat pid;
             s = set_pcb p \<lparr>esp = 0, parent = current_process s, pcb_files = (\<lambda>_. null_FILE), present = True\<rparr> s;
             s = put_vmem (wr_bytes (vmem s) (pcb_cmdstring p) (replicate BUF_SIZE 0)) s;
             s = init_pd p s;
             s = switch_context p s;
             (s, fd) = get_new_fd s;
             s = set_file (nat fd) (fst (stdin_open (cur_files s (nat fd)))) s;
             (s, fd) = get_new_fd s;
             s = set_file (nat fd) (fst (stdout_open (cur_files s (nat fd)))) s
         in (s, 0)))"

text \<open>\<open>switch_video\<close> of \<^verbatim>\<open>page.c\<close>, as part of a terminal switch.\<close>

definition switch_video :: "nat \<Rightarrow> 'a tasking_scheme \<Rightarrow> 'a tasking_scheme" where
  "switch_video term_num s =
     (let s = cli s in
      if current_terminal s = term_num then sti s
      else
        (let s = put_vmem (memcpy (vmem s) (vid_window (current_terminal s)) (vid_window 3) OFFSET_4K) s;
             s = s\<lparr>current_terminal := term_num\<rparr>;
             s = put_vmem (memcpy (vmem s) (vid_window 3) (vid_window term_num) OFFSET_4K) s;
             s = switch_context (get_current_pid s) s
         in sti s))"

section \<open>The run queue\<close>

definition get_next_task_pid :: "'a tasking_scheme \<Rightarrow> nat" where
  "get_next_task_pid s = processes s ((current_active_process s + 1) mod NUM_PROCESSES)"

definition get_current_task_pid :: "'a tasking_scheme \<Rightarrow> nat" where
  "get_current_task_pid s = processes s (current_active_process s)"

definition save_queue :: "'a tasking_scheme \<Rightarrow> 'a tasking_scheme" where
  "save_queue s = s\<lparr>processes := (processes s)(current_active_process s := current_process s)\<rparr>"

definition incr_current_active_process :: "'a tasking_scheme \<Rightarrow> 'a tasking_scheme" where
  "incr_current_active_process s =
     s\<lparr>current_active_process := (current_active_process s + 1) mod NUM_PROCESSES\<rparr>"

text \<open>
  The timer interrupt with stack pointer \<open>sp\<close>. It either resumes the next process of the queue on
  the stack it was suspended on, or finds an empty queue entry and starts a shell there
  (\<open>kexecute\<close>).
\<close>

datatype next_action = Resume u32 | Launch_shell

definition next_task :: "u32 \<Rightarrow> 'a tasking_scheme \<Rightarrow> 'a tasking_scheme \<times> next_action" where
  "next_task sp s =
     (let s = cli s;
          s = send_eoi 0 s;
          s = save_queue s;
          s = set_pcb (current_process s) ((get_current_pcb s)\<lparr>esp := sp\<rparr>) s;
          nxt = get_next_task_pid s;
          s = incr_current_active_process s in
      if nxt = 0 then (s, Launch_shell)
      else
        (let s = switch_context (get_current_task_pid s) s
         in (s, Resume (esp (get_current_pcb s)))))"

lemmas tasking_loops [simp del] = find_free_loop.simps get_new_fd_loop.simps

section \<open>Allocators of numbered slots\<close>

text \<open>
  File descriptors and process ids are handed out the same way: the lowest free number of a fixed
  range, or -1. A client that asks \<open>k\<close> times gets the free numbers in increasing order, each once, and
  -1 from then on.
\<close>

primrec allocs :: "('s \<Rightarrow> 's \<times> int) \<Rightarrow> nat \<Rightarrow> 's \<Rightarrow> int list" where
  "allocs alloc 0 s = []"
| "allocs alloc (Suc k) s = (let (s', r) = alloc s in r # allocs alloc k s')"

locale slot_allocator =
  fixes used :: "'s \<Rightarrow> nat \<Rightarrow> bool"
    and lo hi :: nat
    and ok :: "'s \<Rightarrow> bool"
    and alloc :: "'s \<Rightarrow> 's \<times> int"
  assumes full: "ok s \<Longrightarrow> \<forall>i. lo \<le> i \<and> i < hi \<longrightarrow> used s i \<Longrightarrow>
      snd (alloc s) = - 1 \<and> used (fst (alloc s)) = used s \<and> ok (fst (alloc s))"
    and take_lowest: "ok s \<Longrightarrow> lo \<le> i \<Longrightarrow> i < hi \<Longrightarrow> \<not> used s i \<Longrightarrow>
      \<forall>j. lo \<le> j \<and> j < i \<longrightarrow> used s j \<Longrightarrow>
      snd (alloc s) = int i \<and> used (fst (alloc s)) = (used s)(i := True) \<and> ok (fst (alloc s))"
begin

definition free_slots :: "'s \<Rightarrow> nat list" where
  "free_slots s = filter (\<lambda>i. \<not> used s i) [lo..<hi]"

lemma free_slots_Cons:
  assumes "free_slots s = i # is"
  shows "lo \<le> i" "i < hi" "\<not> used s i" "\<forall>j. lo \<le> j \<and> j < i \<longrightarrow> used s j"
    and "filter (\<lambda>j. \<not> ((used s)(i := True)) j) [lo..<hi] = is"
proof -
  obtain us vs where l: "[lo..<hi] = us @ i # vs" "\<forall>u\<in>set us. used s u" "\<not> used s i" "is = filter (\<lambda>i. \<not> used s i) vs"
    using assms unfolding free_slots_def by (auto simp: filter_eq_Cons_iff)
  then have i: "i \<in> set [lo..<hi]" by simp
  then show "lo \<le> i" "i < hi" "\<not> used s i" using l(3) by simp_all
  have "sorted_wrt (<) (us @ i # vs)" using sorted_wrt_upt [of lo hi] by (simp only: l(1))
  then have us: "\<forall>u\<in>set us. u < i" "\<forall>v\<in>set vs. i < v" by (simp_all add: sorted_wrt_append)
  show "\<forall>j. lo \<le> j \<and> j < i \<longrightarrow> used s j"
  proof (intro allI impI)
    fix j assume j: "lo \<le> j \<and> j < i"
    then have "j \<in> set (us @ i # vs)" using i unfolding l(1) [symmetric] by simp
    then show "used s j" using j l(2) us by auto
  qed
  show "filter (\<lambda>j. \<not> ((used s)(i := True)) j) [lo..<hi] = is"
    unfolding l(1) l(4) using l(2) us by (auto simp: filter_empty_conv intro!: filter_cong)
qed

lemma allocs_eq:
  "ok s \<Longrightarrow> allocs alloc k s =
    map int (take k (free_slots s)) @ replicate (k - length (free_slots s)) (- 1)"
proof (induction k arbitrary: s)
  case 0
  then show ?case by simp
next
  case (Suc k)
  obtain s' r where a: "alloc s = (s', r)" by fastforce
  show ?case
  proof (cases "free_slots s")
    case Nil
    then have u: "\<forall>i. lo \<le> i \<and> i < hi \<longrightarrow> used s i" by (auto simp: free_slots_def filter_empty_conv)
    have "r = - 1" "used s' = used s" "ok s'" using full [OF Suc.prems u] a by simp_all
    moreover from this have "free_slots s' = []" using Nil by (simp add: free_slots_def)
    ultimately show ?thesis using Suc.IH [of s'] Nil by (simp add: a)
  next
    case (Cons i "is")
    note f = free_slots_Cons [OF Cons]
    have "r = int i" "used s' = (used s)(i := True)" "ok s'"
      using take_lowest [OF Suc.prems f(1-4)] a by simp_all
    moreover from this have "free_slots s' = is" using f(5) by (simp add: free_slots_def)
    ultimately show ?thesis using Suc.IH [of s'] Cons by (simp add: a)
  qed
qed

end

subsection \<open>File descriptors\<close>

lemma get_new_fd_loop_eq:
  "get_new_fd_loop i s =
    (case find (\<lambda>i. \<not> in_use (cur_files s i)) [i..<MAX_FILES] of
       None \<Rightarrow> (s, - 1)
     | Some k \<Rightarrow> (set_file k ((cur_files s k)\<lparr>flags := flags (cur_files s k) OR FILE_FLAG_IN_USE\<rparr>) s, int k))"
proof (induction i s rule: get_new_fd_loop.induct)
  case (1 i s)
  then show ?case
    by (subst get_new_fd_loop.simps) (cases "i < MAX_FILES"; simp add: upt_conv_Cons)
qed

lemma cur_files_set_file [simp]: "cur_files (set_file fd f s) = (cur_files s)(fd := f)"
  by (simp add: set_file_def cur_files_def get_current_pcb_def set_pcb_def)

lemma in_use_set: "in_use (f\<lparr>flags := flags f OR FILE_FLAG_IN_USE\<rparr>)"
  by (simp add: in_use_def FILE_FLAG_IN_USE_def word_or_and_same)

lemma in_use_clear: "\<not> in_use (f\<lparr>flags := flags f AND NOT FILE_FLAG_IN_USE\<rparr>)"
  by (simp add: in_use_def FILE_FLAG_IN_USE_def and.assoc)

definition fd_used :: "'a tasking_scheme \<Rightarrow> nat \<Rightarrow> bool" where
  "fd_used s i \<longleftrightarrow> in_use (cur_files s i)"

interpretation fds: slot_allocator fd_used 0 MAX_FILES "\<lambda>_. True" get_new_fd
proof unfold_locales
  fix s :: "'a tasking_scheme"
  assume "\<forall>i. 0 \<le> i \<and> i < MAX_FILES \<longrightarrow> fd_used s i"
  then have "find (\<lambda>i. \<not> in_use (cur_files s i)) [0..<MAX_FILES] = None"
    by (auto simp: find_None_iff fd_used_def)
  then show "snd (get_new_fd s) = - 1 \<and> fd_used (fst (get_new_fd s)) = fd_used s \<and> True"
    by (simp add: get_new_fd_def get_new_fd_loop_eq)
next
  fix s :: "'a tasking_scheme" and i
  assume i: "i < MAX_FILES" "\<not> fd_used s i" "\<forall>j. 0 \<le> j \<and> j < i \<longrightarrow> fd_used s j"
  then have "find (\<lambda>i. \<not> in_use (cur_files s i)) [0..<MAX_FILES] = Some i"
    by (auto simp: find_Some_iff fd_used_def)
  then show "snd (get_new_fd s) = int i \<and> fd_used (fst (get_new_fd s)) = (fd_used s)(i := True) \<and> True"
    by (auto simp: get_new_fd_def get_new_fd_loop_eq fd_used_def fun_eq_iff in_use_set)
qed

text \<open>
  C38. Closing: \<open>syscall_close\<close> succeeds exactly for an open descriptor other than stdin and stdout.
  Then the descriptor is closed and every other one is as before, and a second close of it fails;
  otherwise the call returns -1 and changes nothing.
\<close>

theorem syscall_close_correct:
  "(if 2 \<le> fd \<and> fd < int MAX_FILES \<and> in_use (cur_files s (nat fd))
    then snd (syscall_close fd s) = 0 \<and> \<not> in_use (cur_files (fst (syscall_close fd s)) (nat fd)) \<and>
      (\<exists>f. cur_files (fst (syscall_close fd s)) = (cur_files s)(nat fd := f)) \<and>
      syscall_close fd (fst (syscall_close fd s)) = (fst (syscall_close fd s), - 1)
    else syscall_close fd s = (s, - 1))"
  by (auto simp: syscall_close_def get_file_def free_fd_def in_use_clear intro!: exI)

section \<open>The invariant of the process table\<close>

text \<open>
  \<open>tasks_wf\<close>: the loaded page directory is that of the current process, and every process that is
  present, current or in the run queue has its page directory set up.
\<close>

definition tasks_wf :: "'a tasking_scheme \<Rightarrow> bool" where
  "tasks_wf s \<longleftrightarrow> console_ok s \<and> current_active_process s < 3 \<and> cr3 s = current_process s \<and>
     (\<forall>p. 0 < p \<and> p \<le> MAX_PID \<and> present (pcbs s p) \<longrightarrow> pd_ready s p) \<and>
     (\<forall>t < 3. pd_ready s (processes s t))"

lemma pd_ready_cong:
  "page_directories s p = page_directories s' p \<Longrightarrow> low_memory_at s = low_memory_at s' \<Longrightarrow>
   video_table_at s = video_table_at s' \<Longrightarrow> pd_ready s p = pd_ready s' p"
  by (simp add: pd_ready_def pd_entry_def)

lemma switch_context_simps [simp]:
  "current_process (switch_context pid s) = pid" "cr3 (switch_context pid s) = pid"
  "page_directories (switch_context pid s) = page_directories s"
  "video_table (switch_context pid s) = video_table s" "low_memory_at (switch_context pid s) = low_memory_at s"
  "video_table_at (switch_context pid s) = video_table_at s" "cr0 (switch_context pid s) = cr0 s"
  "cr4 (switch_context pid s) = cr4 s" "phys (switch_context pid s) = phys s"
  "current_terminal (switch_context pid s) = current_terminal s" "fault (switch_context pid s) = fault s"
  "screen_x (switch_context pid s) = screen_x s" "screen_y (switch_context pid s) = screen_y s"
  "current_active_process (switch_context pid s) = current_active_process s"
  "pcbs (switch_context pid s) = pcbs s" "processes (switch_context pid s) = processes s"
  "rtc_f (switch_context pid s) = rtc_f s" "tasking.more (switch_context pid s) = tasking.more s"
  "iflag (switch_context pid s) = True"
  "esp0 (switch_context pid s) = OFFSET_8M - of_nat pid * OFFSET_8K"
  by (simp_all add: switch_context_def Let_def cli_def sti_def set_cr3_def set_vmem_table_def)

lemma switch_context_low:
  "current_active_process s < 3 \<Longrightarrow> low_memory_table (switch_context pid s) =
    (low_memory_table s)(184 := screen_frame s (current_active_process s) OR 7)"
  using set_vmem_table_entry [of "current_active_process s" "(cli s)\<lparr>current_process := pid\<rparr>"]
  by (simp add: switch_context_def Let_def sti_def set_cr3_def screen_frame_def)

lemma switch_context_pd [simp]: "pd_ready (switch_context pid s) p = pd_ready s p"
  by (rule pd_ready_cong) simp_all

lemma screen_frame_vid: "t < 3 \<Longrightarrow> \<exists>u < 4. screen_frame s t = vid_frame u"
  by (auto simp: screen_frame_def intro: exI [of _ 3] exI [of _ t])

lemma switch_context_wf:
  assumes "tasks_wf s" and "pd_ready s pid"
  shows "tasks_wf (switch_context pid s)" and "vmem_ok (switch_context pid s)"
proof -
  have c: "current_active_process s < 3" "paging_ok s" using assms(1) by (simp_all add: tasks_wf_def console_ok_def)
  note low = switch_context_low [OF c(1), of pid]
  have "\<exists>u < 4. screen_frame s (current_active_process s) OR 7 = vid_frame u OR 7"
    using screen_frame_vid [OF c(1), of s] by auto
  then have "paging_ok (switch_context pid s)"
    using c(2) assms(2) by (simp add: paging_ok_def tables_linked_def low)
  then show "tasks_wf (switch_context pid s)"
    using assms(1) by (simp add: tasks_wf_def console_ok_def cursor_ok_def)
  show "vmem_ok (switch_context pid s)" using c(1) by (simp add: vmem_ok_def low screen_frame_def)
qed

lemma switch_context_view [simp]: "text_view t (switch_context pid s) = text_view t s"
  by (simp add: text_view_def screen_frame_def)

subsection \<open>Switching terminals\<close>

lemma copy_window:
  assumes "paging_ok s" and "t < 4" and "u < 4" and "t \<noteq> u"
  shows "put_vmem (memcpy (vmem s) (vid_window t) (vid_window u) OFFSET_4K) s =
    s\<lparr>phys := wr_bytes (phys s) (vid_frame t) (rd_bytes (phys s) (vid_frame u) 4096)\<rparr>"
proof -
  have "disjoint_regions (vid_window t) 4096 (vid_window u) 4096"
    using assms(2-4) by (intro disjoint_regions_intervalI) (auto simp: less_4_cases vid_window_value)
  then have "memcpy (vmem s) (vid_window t) (vid_window u) OFFSET_4K =
      wr_bytes (vmem s) (vid_window t) (rd_bytes (vmem s) (vid_window u) 4096)"
    using memcpy_eq [of "vid_window t" OFFSET_4K "vid_window u" "vmem s"] by (simp add: OFFSET_4K_def)
  also have "rd_bytes (vmem s) (vid_window u) 4096 = rd_bytes (phys s) (vid_frame u) 4096"
    by (rule rd_vmem [OF assms(1) mapped_window [OF assms(1,3)]])
  finally show ?thesis
    using put_vmem_wr [OF assms(1), of "vid_window t" "vid_frame t" "rd_bytes (phys s) (vid_frame u) 4096"]
      mapped_window [OF assms(1,2)] by simp
qed

text \<open>The state just before the context switch of \<open>switch_video\<close>.\<close>

definition swapped :: "nat \<Rightarrow> 'a tasking_scheme \<Rightarrow> 'a tasking_scheme" where
  "swapped t s =
     (let c = current_terminal s;
          m = wr_bytes (phys s) (vid_frame c) (rd_bytes (phys s) (vid_frame 3) 4096)
      in s\<lparr>iflag := False, current_terminal := t,
            phys := wr_bytes m (vid_frame 3) (rd_bytes m (vid_frame t) 4096)\<rparr>)"

lemma switch_video_eq:
  assumes "paging_ok s" and "current_terminal s < 3" and "t < 3" and "t \<noteq> current_terminal s"
  shows "switch_video t s = sti (switch_context (current_process s) (swapped t s))"
proof -
  let ?c = "current_terminal s"
  let ?s1 = "(cli s)\<lparr>phys := wr_bytes (phys s) (vid_frame ?c) (rd_bytes (phys s) (vid_frame 3) 4096)\<rparr>"
  have "put_vmem (memcpy (vmem (cli s)) (vid_window ?c) (vid_window 3) OFFSET_4K) (cli s) =
      (cli s)\<lparr>phys := wr_bytes (phys (cli s)) (vid_frame ?c) (rd_bytes (phys (cli s)) (vid_frame 3) 4096)\<rparr>"
    by (rule copy_window) (use assms in simp_all)
  then have 1: "put_vmem (memcpy (vmem (cli s)) (vid_window ?c) (vid_window 3) OFFSET_4K) (cli s) = ?s1"
    by (simp only: cli_simps)
  let ?s2 = "?s1\<lparr>current_terminal := t\<rparr>"
  have "put_vmem (memcpy (vmem ?s2) (vid_window 3) (vid_window t) OFFSET_4K) ?s2 =
      ?s2\<lparr>phys := wr_bytes (phys ?s2) (vid_frame 3) (rd_bytes (phys ?s2) (vid_frame t) 4096)\<rparr>"
    by (rule copy_window) (use assms in simp_all)
  moreover have "?s2\<lparr>phys := wr_bytes (phys ?s2) (vid_frame 3) (rd_bytes (phys ?s2) (vid_frame t) 4096)\<rparr> = swapped t s"
    by (simp add: swapped_def Let_def cli_def)
  ultimately show ?thesis
    using assms(4) unfolding switch_video_def Let_def get_current_pid_def
    by (simp only: cli_simps 1 if_False) (simp add: swapped_def Let_def)
qed

lemma swapped_screens:
  assumes "current_terminal s < 3" and "t < 3" and "t \<noteq> current_terminal s" and "u < 3"
  shows "rd_bytes (phys (swapped t s)) (screen_frame (swapped t s) u) 4096 =
    rd_bytes (phys s) (screen_frame s u) 4096"
  using assms by (auto simp: swapped_def Let_def screen_frame_def rd_wr_frame)

end
