(* ===== verification/Screen_Edit.thy ===== *)
theory Screen_Edit
  imports Screen
begin

text \<open>
  The rest of the console of \<^verbatim>\<open>lib.c\<close> seen through the text screen: \<open>clear\<close>, \<open>scoot_text\<close>, the
  keyboard echo \<open>putc_kb\<close> and the cursor keys. Every operation on the displayed terminal keeps the
  console invariant, causes no page fault and leaves the other terminals alone.
\<close>

section \<open>Clearing and shifting text\<close>

lemma upto_nat:
  assumes "0 \<le> a"
  shows "[a..b] = map int [nat a..<nat (b + 1)]"
  using assms by (intro nth_equalityI) (auto simp: nth_append)

definition clear_mem :: "u32 \<Rightarrow> byte \<Rightarrow> memory \<Rightarrow> memory" where
  "clear_mem f a m = fold (\<lambda>i m. set_cell m f i (0x20, a)) [0..<2000] m"

lemma cells_clear_mem: "cells (clear_mem f a m) f = replicate 2000 (0x20, a)"
proof -
  have "cells (fold (\<lambda>i m. set_cell m f i (0x20, a)) [0..<n] m) f = replicate n (0x20, a) @ drop n (cells m f)"
    if "n \<le> 2000" for n
    using that
  proof (induction n)
    case 0
    show ?case by simp
  next
    case (Suc n)
    then show ?case
      by (simp add: cells_set_cell)
         (auto intro!: nth_equalityI simp: nth_append nth_list_update less_Suc_eq nth_Cons')
  qed
  from this [of 2000] show ?thesis by (simp add: clear_mem_def)
qed

lemma clear_mem_outside: "z \<notin> region f 4096 \<Longrightarrow> clear_mem f a m z = m z"
  unfolding clear_mem_def by (rule fold_outside) (simp add: set_cell_outside)

lemma clear_maps:
  assumes "maps s video_mem f" and "t = current_terminal s"
  shows "clear s = s\<lparr>phys := clear_mem f (attribs t) (phys s),
    screen_x := (screen_x s)(t := 0), screen_y := (screen_y s)(t := 0),
    biggest_y := (biggest_y s)(t := 0), iflag := True\<rparr>"
proof -
  let ?s = "cli s"
  have mp: "maps ?s video_mem f" using assms(1) by simp
  have cl: "[0..NUM_ROWS * NUM_COLS - 1] = map int [0..<2000]"
    by (simp add: upto_nat NUM_ROWS_def NUM_COLS_def)
  have "kwrite8 (video_mem + of_int (int i * 2) + 1) (attribs t)
      (kwrite8 (video_mem + of_int (int i * 2)) 0x20 (?s\<lparr>phys := m\<rparr>)) =
      ?s\<lparr>phys := set_cell m f i (0x20, attribs t)\<rparr>" if "i < 2000" for i m
  proof -
    have a: "video_mem + of_int (int i * 2) = video_mem + of_nat (2 * i)"
      "video_mem + of_nat (2 * i) + 1 = video_mem + of_nat (2 * i + 1)" by simp_all
    have "maps (?s\<lparr>phys := m'\<rparr>) video_mem f" for m' using mp by simp
    then show ?thesis
      using that unfolding a
      by (simp add: kwrite8_maps set_cell_def del: of_nat_add of_nat_mult of_nat_Suc)
  qed
  then have "fold (\<lambda>i s. kwrite8 (video_mem + of_int (int i * 2) + 1) (attribs t)
      (kwrite8 (video_mem + of_int (int i * 2)) 0x20 s)) [0..<2000] (?s\<lparr>phys := phys ?s\<rparr>) =
      ?s\<lparr>phys := clear_mem f (attribs t) (phys ?s)\<rparr>"
    unfolding clear_mem_def by (intro fold_phys) simp
  then show ?thesis
    using assms(2) by (simp add: clear_def cl fold_map comp_def Let_def) (simp add: console_upd)
qed

lemmas clear_eq = clear_maps [OF maps_video_mem]

subsection \<open>scoot\_text\<close>

definition scoot_mem :: "u32 \<Rightarrow> byte \<Rightarrow> nat \<Rightarrow> nat \<Rightarrow> memory \<Rightarrow> memory" where
  "scoot_mem f a i j m = set_cell m f i (fst (cell m f j), a)"

definition scoot_down :: "u32 \<Rightarrow> byte \<Rightarrow> nat \<Rightarrow> nat \<Rightarrow> memory \<Rightarrow> memory" where
  "scoot_down f a lo hi m = fold (\<lambda>i. scoot_mem f a i (i - 1)) (rev [lo..<hi]) m"

definition scoot_row :: "u32 \<Rightarrow> byte \<Rightarrow> nat \<Rightarrow> memory \<Rightarrow> memory" where
  "scoot_row f a y m = scoot_down f a (80 * y + 1) (80 * y + 80) (scoot_mem f a (80 * y) (80 * y - 1) m)"

lemma cell_scoot_mem:
  "i < 2000 \<Longrightarrow> k < 2000 \<Longrightarrow> cell (scoot_mem f a i j m) f k = (if k = i then (fst (cell m f j), a) else cell m f k)"
  by (simp add: scoot_mem_def cell_set_cell)

lemma cell_scoot_down:
  assumes "1 \<le> lo" and "hi \<le> 2000" and "k < 2000"
  shows "cell (scoot_down f a lo hi m) f k =
    (if lo \<le> k \<and> k < hi then (fst (cell m f (k - 1)), a) else cell m f k)"
  using assms(2)
proof (induction hi arbitrary: m)
  case 0
  then show ?case by (simp add: scoot_down_def)
next
  case (Suc hi)
  show ?case
  proof (cases "lo \<le> hi")
    case True
    then have "scoot_down f a lo (Suc hi) m = scoot_down f a lo hi (scoot_mem f a hi (hi - 1) m)"
      by (simp add: scoot_down_def)
    then show ?thesis
      using True Suc assms(1,3) by (auto simp: cell_scoot_mem less_Suc_eq)
  next
    case False
    then show ?thesis using assms(1) by (auto simp: scoot_down_def)
  qed
qed

lemma cell_scoot_row:
  assumes "1 \<le> y" and "y < 25" and "k < 2000"
  shows "cell (scoot_row f a y m) f k =
    (if k div 80 = y then (fst (cell m f (if k mod 80 \<le> 1 then 80 * y - 1 else k - 1)), a) else cell m f k)"
proof -
  obtain q r where k: "k = 80 * q + r" "r < 80"
    using div_mult_mod_eq [of k 80] mod_less_divisor [of 80 k] by (metis mult.commute zero_less_numeral)
  then have d: "k div 80 = q" "k mod 80 = r" by simp_all
  let ?m = "scoot_mem f a (80 * y) (80 * y - 1) m"
  have down: "cell (scoot_row f a y m) f k =
      (if 80 * y + 1 \<le> k \<and> k < 80 * y + 80 then (fst (cell ?m f (k - 1)), a) else cell ?m f k)"
    using assms unfolding scoot_row_def by (intro cell_scoot_down) simp_all
  have at: "cell ?m f i = (if i = 80 * y then (fst (cell m f (80 * y - 1)), a) else cell m f i)" if "i < 2000" for i
    using assms that by (simp add: cell_scoot_mem)
  consider "q \<noteq> y" | "q = y" "r = 0" | "q = y" "r = 1" | "q = y" "2 \<le> r" by linarith
  then show ?thesis
  proof cases
    case 1
    then have "q + 1 \<le> y \<or> y + 1 \<le> q" by linarith
    then have "\<not> (80 * y + 1 \<le> k \<and> k < 80 * y + 80)" "k \<noteq> 80 * y" using k by auto
    then show ?thesis using 1 assms(3) at [of k] d by (auto simp: down)
  next
    case 2
    then have "k = 80 * y" using k by simp
    then show ?thesis using down at [of k] assms(3) by simp
  next
    case 3
    then have e: "k = Suc (80 * y)" using k by simp
    have "k div 80 = y" "k mod 80 = 1" using d 3 by simp_all
    then show ?thesis using down at [of "80 * y"] assms(2,3) e by simp
  next
    case 4
    then have e: "80 * y + 1 \<le> k" "k < 80 * y + 80" "k - 1 \<noteq> 80 * y" using k by simp_all
    have "k div 80 = y" "\<not> k mod 80 \<le> 1" using d 4 by simp_all
    then show ?thesis using down at [of "k - 1"] assms(3) e by simp
  qed
qed

lemma cell_scoot_rows:
  assumes "1 \<le> lo" and "hi \<le> 25" and "k < 2000"
  shows "cell (fold (scoot_row f a) (rev [lo..<hi]) m) f k =
    (if lo \<le> k div 80 \<and> k div 80 < hi
     then (fst (cell m f (if k mod 80 \<le> 1 then 80 * (k div 80) - 1 else k - 1)), a) else cell m f k)"
  using assms(2)
proof (induction hi arbitrary: m)
  case 0
  then show ?case by simp
next
  case (Suc hi)
  show ?case
  proof (cases "lo \<le> hi")
    case True
    define j where "j = (if k mod 80 \<le> 1 then 80 * (k div 80) - 1 else k - 1)"
    have j: "j < 2000" using assms(3) unfolding j_def by auto
    have jd: "j div 80 \<noteq> hi" if "k div 80 < hi"
    proof -
      have "j \<le> k" unfolding j_def using div_times_less_eq_dividend [of k 80] by (auto simp: mult.commute)
      then have "j div 80 \<le> k div 80" by (rule div_le_mono)
      then show ?thesis using that by simp
    qed
    have "fold (scoot_row f a) (rev [lo..<Suc hi]) m = fold (scoot_row f a) (rev [lo..<hi]) (scoot_row f a hi m)"
      using True by simp
    then have IH: "cell (fold (scoot_row f a) (rev [lo..<Suc hi]) m) f k =
        (if lo \<le> k div 80 \<and> k div 80 < hi then (fst (cell (scoot_row f a hi m) f j), a)
         else cell (scoot_row f a hi m) f k)"
      using Suc.IH [of "scoot_row f a hi m"] Suc.prems by (simp only: j_def)
    have hi: "1 \<le> hi" "hi < 25" using True assms(1) Suc.prems by simp_all
    consider "k div 80 < hi" | "k div 80 = hi" | "hi < k div 80" by linarith
    then show ?thesis
    proof cases
      case 1
      then have "cell (scoot_row f a hi m) f j = cell m f j" "cell (scoot_row f a hi m) f k = cell m f k"
        using cell_scoot_row [OF hi j] cell_scoot_row [OF hi assms(3)] jd by simp_all
      then show ?thesis using 1 IH unfolding j_def by simp
    next
      case 2
      then show ?thesis
        using IH True cell_scoot_row [OF hi assms(3), of f a m] unfolding j_def by simp
    next
      case 3
      then show ?thesis using IH cell_scoot_row [OF hi assms(3), of f a m] by simp
    qed
  next
    case False
    then show ?thesis by auto
  qed
qed

text \<open>The effect of \<open>scoot_text\<close> on the screen memory.\<close>

definition scoot_text_mem :: "u32 \<Rightarrow> byte \<Rightarrow> nat \<Rightarrow> nat \<Rightarrow> memory \<Rightarrow> memory" where
  "scoot_text_mem f a x y m =
     scoot_down f a (80 * y + x + 1) (80 * y + 80) (fold (scoot_row f a) (rev [y + 1..<25]) m)"

lemma scoot_cell_eq:
  assumes "paging_ok s" and "0 \<le> 80 * y + x" and "80 * y + x < 2048"
    and "0 \<le> 80 * y' + x'" and "80 * y' + x' < 2048" and "t = current_terminal s"
  shows "scoot_cell x y x' y' s =
    s\<lparr>phys := scoot_mem (vid_frame 3) (attribs t) (nat (80 * y + x)) (nat (80 * y' + x')) (phys s)\<rparr>"
proof -
  note mp = maps_video_mem [OF assms(1)]
  have "nat (80 * y' + x') < 2048" using assms(4,5) by simp
  then have "kread8 s (cell_at video_mem x' y') = fst (cell (phys s) (vid_frame 3) (nat (80 * y' + x')))"
    unfolding cell_at_offset(1) [OF assms(4)]
    by (simp add: kread8_maps [OF mp] cell_def del: of_nat_mult)
  then show ?thesis
    using put_cell_eq [OF mp assms(2,3)] assms(6) by (simp add: scoot_cell_def scoot_mem_def)
qed

lemma scoot_shift_eq:
  assumes "paging_ok s" and "t = current_terminal s" and "x < 80" and "y < 25"
  shows "fold (\<lambda>x. scoot_cell x (int y) (x - 1) (int y)) (rev [int x + 1..NUM_COLS - 1]) s =
    s\<lparr>phys := scoot_down (vid_frame 3) (attribs t) (80 * y + x + 1) (80 * y + 80) (phys s)\<rparr>"
proof -
  let ?g = "\<lambda>i. scoot_mem (vid_frame 3) (attribs t) i (i - 1)"
  have l: "rev [int x + 1..NUM_COLS - 1] = map int (rev [x + 1..<80])"
    by (simp add: upto_nat NUM_COLS_def rev_map nat_add_distrib)
  have d: "rev [80 * y + x + 1..<80 * y + 80] = map (\<lambda>i. 80 * y + i) (rev [x + 1..<80])"
    by (simp add: rev_map [symmetric]) (intro nth_equalityI; simp)
  have "scoot_cell (int i) (int y) (int i - 1) (int y) (s\<lparr>phys := m\<rparr>) = s\<lparr>phys := ?g (80 * y + i) m\<rparr>"
    if "x < i" "i < 80" for i m
  proof -
    have n: "nat (80 * int y + int i) = 80 * y + i" "nat (80 * int y + (int i - 1)) = 80 * y + i - 1"
      using that by (simp_all add: nat_eq_iff)
    show ?thesis
      using scoot_cell_eq [of "s\<lparr>phys := m\<rparr>" "int y" "int i" "int y" "int i - 1" t] assms that
      unfolding n by simp
  qed
  then have "fold (\<lambda>i. scoot_cell (int i) (int y) (int i - 1) (int y)) (rev [x + 1..<80]) (s\<lparr>phys := phys s\<rparr>) =
      s\<lparr>phys := fold (\<lambda>i. ?g (80 * y + i)) (rev [x + 1..<80]) (phys s)\<rparr>"
    by (intro fold_phys) auto
  then show ?thesis unfolding l scoot_down_def d fold_map comp_def by simp
qed

lemma scoot_row_eq:
  assumes "paging_ok s" and "t = current_terminal s" and "1 \<le> y" and "y < 25"
  shows "fold (\<lambda>x. scoot_cell x (int y) (x - 1) (int y)) (rev [1..NUM_COLS - 1])
      (scoot_cell 0 (int y) (NUM_COLS - 1) (int y - 1) s) =
    s\<lparr>phys := scoot_row (vid_frame 3) (attribs t) y (phys s)\<rparr>"
proof -
  have n: "nat (80 * int y + 0) = 80 * y" "nat (80 * (int y - 1) + (NUM_COLS - 1)) = 80 * y - 1"
    using assms(3) by (simp_all add: NUM_COLS_def nat_eq_iff)
  have "scoot_cell 0 (int y) (NUM_COLS - 1) (int y - 1) s =
      s\<lparr>phys := scoot_mem (vid_frame 3) (attribs t) (80 * y) (80 * y - 1) (phys s)\<rparr>"
    using scoot_cell_eq [OF assms(1), of "int y" 0 "int y - 1" "NUM_COLS - 1" t] assms(2-4)
    unfolding n by (simp add: NUM_COLS_def)
  then show ?thesis
    using scoot_shift_eq [of "s\<lparr>phys := scoot_mem (vid_frame 3) (attribs t) (80 * y) (80 * y - 1) (phys s)\<rparr>" t 0 y] assms
    by (simp add: scoot_row_def)
qed

lemma scoot_text_eq:
  assumes "paging_ok s" and "t = current_terminal s"
    and "screen_x s t = int x" and "screen_y s t = int y" and "x < 80" and "y < 25"
  shows "scoot_text s = s\<lparr>phys := scoot_text_mem (vid_frame 3) (attribs t) x y (phys s)\<rparr>"
proof -
  have l: "rev [int y + 1..NUM_ROWS - 1] = map int (rev [y + 1..<25])"
    by (simp add: upto_nat NUM_ROWS_def rev_map nat_add_distrib)
  have "fold (\<lambda>y s. fold (\<lambda>x. scoot_cell x (int y) (x - 1) (int y)) (rev [1..NUM_COLS - 1])
      (scoot_cell 0 (int y) (NUM_COLS - 1) (int y - 1) s)) (rev [y + 1..<25]) (s\<lparr>phys := phys s\<rparr>) =
      s\<lparr>phys := fold (scoot_row (vid_frame 3) (attribs t)) (rev [y + 1..<25]) (phys s)\<rparr>" (is "?l = ?s1")
  proof (rule fold_phys)
    fix z m assume "z \<in> set (rev [y + 1..<25])"
    then show "fold (\<lambda>x. scoot_cell x (int z) (x - 1) (int z)) (rev [1..NUM_COLS - 1])
      (scoot_cell 0 (int z) (NUM_COLS - 1) (int z - 1) (s\<lparr>phys := m\<rparr>)) =
      s\<lparr>phys := scoot_row (vid_frame 3) (attribs t) z m\<rparr>"
      using scoot_row_eq [of "s\<lparr>phys := m\<rparr>" t z] assms(1,2) by simp
  qed
  then have "scoot_text s = fold (\<lambda>x. scoot_cell x (int y) (x - 1) (int y)) (rev [int x + 1..NUM_COLS - 1]) ?s1"
    using assms(2-4) by (simp add: scoot_text_def l fold_map comp_def Let_def)
  then show ?thesis
    using scoot_shift_eq [of ?s1 t x y] assms by (simp add: scoot_text_mem_def)
qed

lemma scoot_text_cell:
  assumes "x < 80" and "y < 25" and "k < 2000"
  shows "cell (scoot_text_mem f a x y m) f k =
    (if k \<le> 80 * y + x then cell m f k
     else (fst (cell m f (if y < k div 80 \<and> k mod 80 \<le> 1 then 80 * (k div 80) - 1 else k - 1)), a))"
proof -
  let ?m = "fold (scoot_row f a) (rev [y + 1..<25]) m"
  have rows: "cell ?m f i = (if y + 1 \<le> i div 80 \<and> i div 80 < 25
      then (fst (cell m f (if i mod 80 \<le> 1 then 80 * (i div 80) - 1 else i - 1)), a) else cell m f i)"
    if "i < 2000" for i using that by (intro cell_scoot_rows) simp_all
  have down: "cell (scoot_text_mem f a x y m) f k =
      (if 80 * y + x + 1 \<le> k \<and> k < 80 * y + 80 then (fst (cell ?m f (k - 1)), a) else cell ?m f k)"
    using assms unfolding scoot_text_mem_def by (intro cell_scoot_down) simp_all
  have k25: "k div 80 < 25" using assms(3) by simp
  consider "k \<le> 80 * y + x" | "80 * y + x < k" "k < 80 * y + 80" | "80 * y + 80 \<le> k" by linarith
  then show ?thesis
  proof cases
    case 1
    then have "k div 80 \<le> y" using assms(1) by (simp add: less_Suc_eq_le [symmetric] less_mult_imp_div_less)
    then show ?thesis using 1 down rows [of k] assms(3) by simp
  next
    case 2
    then have "k div 80 \<le> y" "(k - 1) div 80 \<le> y"
      by (simp_all add: less_Suc_eq_le [symmetric] less_mult_imp_div_less)
    then show ?thesis using 2 down rows [of "k - 1"] assms(3) by simp
  next
    case 3
    then have "y + 1 \<le> k div 80" by (simp add: less_eq_div_iff_mult_less_eq)
    then show ?thesis using 3 assms down rows [of k] k25 by simp
  qed
qed

text \<open>
  C36. \<open>scoot_text\<close> makes room for a character at the cursor: the rest of the cursor line moves one
  column to the right. On the lines below, however, column 0 is overwritten before it is moved on:
  columns 0 and 1 both receive the last character of the line above, and the old character of
  column 0 is lost.
\<close>

theorem scoot_text_moves:
  assumes "console_ok s" and "t = current_terminal s" and "screen_x s t < 80"
    and "text_view t s = (cs, x, y)" and "text_view t (scoot_text s) = (cs', x', y')" and "k < 2000"
  shows "x' = x \<and> y' = y \<and> cs' ! k =
    (if k \<le> 80 * y + x then cs ! k
     else (fst (cs ! (if y < k div 80 \<and> k mod 80 \<le> 1 then 80 * (k div 80) - 1 else k - 1)), attribs t))"
proof -
  have ok: "paging_ok s" "0 \<le> screen_x s t" "0 \<le> screen_y s t" "screen_y s t < 25"
    using assms(1,2) by (auto simp: console_ok_def cursor_ok_def)
  then have v: "cs = cells (phys s) (vid_frame 3)" "screen_x s t = int x" "screen_y s t = int y" "x < 80" "y < 25"
    using assms(2-4) by (auto simp: text_view_def screen_frame_def)
  have "scoot_text s = s\<lparr>phys := scoot_text_mem (vid_frame 3) (attribs t) x y (phys s)\<rparr>"
    using ok(1) assms(2) v by (intro scoot_text_eq)
  then have c: "cs' = cells (scoot_text_mem (vid_frame 3) (attribs t) x y (phys s)) (vid_frame 3)" "x' = x" "y' = y"
    using assms(2,4,5) by (auto simp: text_view_def screen_frame_def)
  have "(if y < k div 80 \<and> k mod 80 \<le> 1 then 80 * (k div 80) - 1 else k - 1) < 2000" using assms(6) by auto
  then show ?thesis using c v assms(6) scoot_text_cell [OF v(4,5) assms(6)] by simp
qed

definition demo_screen :: screen where
  "demo_screen = set_sx 0 3 (set_sy 0 2 boot_screen)"

lemma demo_screen_ok: "console_ok demo_screen"
  using boot_screen_ok by (auto simp: demo_screen_def console_ok_def cursor_ok_def) (simp_all add: console_upd)

theorem scoot_text_moves_witness:
  "console_ok demo_screen \<and> snd (text_view 0 (scoot_text demo_screen)) = (3, 2)"
proof -
  obtain cs' x' y' where v: "text_view 0 (scoot_text demo_screen) = (cs', x', y')" by (cases "text_view 0 (scoot_text demo_screen)")
  have s: "screen_x demo_screen 0 = 3" "screen_y demo_screen 0 = 2" "current_terminal demo_screen = 0"
    by (simp_all add: demo_screen_def console_upd)
  then have "text_view 0 demo_screen = (cells (phys demo_screen) (vid_frame 3), 3, 2)"
    by (simp add: text_view_def screen_frame_def)
  with scoot_text_moves [OF demo_screen_ok _ _ this v, of 0] s v show ?thesis
    by (simp add: demo_screen_ok)
qed

section \<open>Every console operation is local\<close>

text \<open>What an operation on the displayed terminal may change: its screen page and its cursor.\<close>

definition local_change :: "'a screen_scheme \<Rightarrow> 'a screen_scheme \<Rightarrow> bool" where
  "local_change s s' \<longleftrightarrow> paging_ok s' \<and> current_terminal s' = current_terminal s \<and> fault s' = fault s \<and>
     low_memory_table s' = low_memory_table s \<and> current_active_process s' = current_active_process s \<and>
     (\<forall>u. u \<noteq> current_terminal s \<longrightarrow> screen_x s' u = screen_x s u \<and> screen_y s' u = screen_y s u) \<and>
     (\<forall>a. a \<notin> region (vid_frame 3) 4096 \<longrightarrow> phys s' a = phys s a) \<and>
     0 \<le> screen_x s' (current_terminal s) \<and> screen_x s' (current_terminal s) < 80 \<and>
     0 \<le> screen_y s' (current_terminal s) \<and> screen_y s' (current_terminal s) < 25"

definition shown_ok :: "'a screen_scheme \<Rightarrow> bool" where
  "shown_ok s \<longleftrightarrow> console_ok s \<and> screen_x s (current_terminal s) < 80"

lemma shown_okD:
  assumes "shown_ok s" and "t = current_terminal s"
  shows "paging_ok s" "t < 3" "0 \<le> screen_x s t" "screen_x s t < 80" "0 \<le> screen_y s t" "screen_y s t < 25"
  using assms by (auto simp: shown_ok_def console_ok_def cursor_ok_def)

lemma local_change_ok:
  assumes "shown_ok s" and "local_change s s'"
  shows "shown_ok s'"
proof -
  have "cursor_ok s' u" if "u < 3" for u
    using assms that by (cases "u = current_terminal s") (auto simp: local_change_def cursor_ok_def shown_ok_def console_ok_def)
  then show ?thesis using assms by (simp add: local_change_def shown_ok_def console_ok_def)
qed

lemma local_change_view:
  assumes "shown_ok s" and "local_change s s'" and "u < 3" and "u \<noteq> current_terminal s"
  shows "text_view u s' = text_view u s"
proof -
  have f: "screen_frame s' u = screen_frame s u" "screen_frame s (current_terminal s) = vid_frame 3"
    using assms(2) by (simp_all add: local_change_def screen_frame_def)
  have "phys s' a = phys s a" if "a \<in> region (screen_frame s u) 4096" for a
  proof -
    have "a \<notin> region (vid_frame 3) 4096"
      using other_frame [OF assms(3) _ assms(4) that] shown_okD(2) [OF assms(1) refl] f(2) by simp
    then show ?thesis using assms(2) by (simp add: local_change_def)
  qed
  then have "cells (phys s') (screen_frame s u) = cells (phys s) (screen_frame s u)" by (rule cells_cong)
  then show ?thesis using assms(2,4) by (simp add: text_view_def f local_change_def)
qed

lemma putc_local: "shown_ok s \<Longrightarrow> local_change s (putc c s)"
proof -
  assume s: "shown_ok s"
  then have c: "console_ok s" by (simp add: shown_ok_def)
  note pc = putc_cases [OF c refl, of c]
  show "local_change s (putc c s)"
    unfolding local_change_def pc using shown_okD [OF s refl] pc(6)
    by (auto simp: scroll_mem_outside place_outside)
qed

lemma update_cursor_local: "local_change s s' \<Longrightarrow> local_change s (update_cursor s')"
  by (simp add: local_change_def)

lemma move_local:
  assumes "shown_ok s"
  shows "local_change s (move_left s)" and "local_change s (move_right s)"
proof -
  note ok = shown_okD [OF assms refl]
  show "local_change s (move_left s)"
    unfolding move_left_def Let_def using ok
    by (intro update_cursor_local) (auto simp: local_change_def console_upd NUM_COLS_def cong: paging_ok_cong)
  show "local_change s (move_right s)"
    unfolding move_right_def Let_def using ok
    by (intro update_cursor_local) (auto simp: local_change_def console_upd NUM_COLS_def NUM_ROWS_def cong: paging_ok_cong)
qed

lemma clear_local: "shown_ok s \<Longrightarrow> local_change s (clear s)"
  using shown_okD [of s]
  by (auto simp: local_change_def clear_eq clear_mem_outside cong: paging_ok_cong)

lemma scoot_mem_outside: "z \<notin> region f 4096 \<Longrightarrow> i < 2000 \<Longrightarrow> scoot_mem f a i j m z = m z"
  by (simp add: scoot_mem_def set_cell_outside)

lemma scoot_text_mem_outside:
  assumes "z \<notin> region f 4096" and "x < 80" and "y < 25"
  shows "scoot_text_mem f a x y m z = m z"
proof -
  have down: "scoot_down f a lo hi m z = m z" if "hi \<le> 2000" for lo hi m
    unfolding scoot_down_def using that assms(1) by (intro fold_outside) (simp add: scoot_mem_outside)
  have "scoot_row f a y m z = m z" if "y < 25" for y m
    using that assms(1) by (simp add: scoot_row_def down scoot_mem_outside)
  then have "fold (scoot_row f a) (rev [y + 1..<25]) m z = m z" by (intro fold_outside) simp
  then show ?thesis using assms by (simp add: scoot_text_mem_def down)
qed

lemma scoot_local:
  assumes "shown_ok s"
  shows "local_change s (scoot_text s)"
proof -
  let ?t = "current_terminal s"
  note ok = shown_okD [OF assms refl]
  have "scoot_text s = s\<lparr>phys := scoot_text_mem (vid_frame 3) (attribs ?t) (nat (screen_x s ?t)) (nat (screen_y s ?t)) (phys s)\<rparr>"
    using ok by (intro scoot_text_eq) auto
  then show ?thesis using ok by (auto simp: local_change_def scoot_text_mem_outside)
qed

text \<open>Before the checks at the end of \<open>putc_kb\<close> the cursor may be one past the edge.\<close>

definition loose_change :: "'a screen_scheme \<Rightarrow> 'a screen_scheme \<Rightarrow> bool" where
  "loose_change s s' \<longleftrightarrow> paging_ok s' \<and> current_terminal s' = current_terminal s \<and> fault s' = fault s \<and>
     low_memory_table s' = low_memory_table s \<and> current_active_process s' = current_active_process s \<and>
     (\<forall>u. u \<noteq> current_terminal s \<longrightarrow> screen_x s' u = screen_x s u \<and> screen_y s' u = screen_y s u) \<and>
     (\<forall>a. a \<notin> region (vid_frame 3) 4096 \<longrightarrow> phys s' a = phys s a) \<and>
     0 \<le> screen_x s' (current_terminal s) \<and> screen_x s' (current_terminal s) \<le> 80 \<and>
     0 \<le> screen_y s' (current_terminal s) \<and> screen_y s' (current_terminal s) \<le> 25 \<and>
     (screen_x s' (current_terminal s) = 80 \<longrightarrow> screen_y s' (current_terminal s) < 25)"

lemma settle_local:
  assumes "loose_change s s1" and "t = current_terminal s"
    and s2: "s2 = (if screen_x s1 t \<ge> NUM_COLS then new_line t s1 else s1)"
    and s3: "s3 = (if screen_y s2 t \<ge> NUM_ROWS then scroll s2 else s2)"
  shows "local_change s (update_cursor s3)"
proof (rule update_cursor_local)
  have 2: "paging_ok s2" "current_terminal s2 = t" "fault s2 = fault s" "low_memory_table s2 = low_memory_table s"
    "current_active_process s2 = current_active_process s"
    "\<forall>u. u \<noteq> t \<longrightarrow> screen_x s2 u = screen_x s u \<and> screen_y s2 u = screen_y s u"
    "\<forall>a. a \<notin> region (vid_frame 3) 4096 \<longrightarrow> phys s2 a = phys s a"
    "0 \<le> screen_x s2 t" "screen_x s2 t < 80" "0 \<le> screen_y s2 t" "screen_y s2 t \<le> 25"
    using assms(1) unfolding s2 assms(2)
    by (auto simp: loose_change_def console_upd NUM_COLS_def cong: paging_ok_cong)
  show "local_change s s3"
  proof (cases "screen_y s2 t \<ge> NUM_ROWS")
    case True
    then show ?thesis
      using 2 scroll_eq [OF 2(1), of t] unfolding s3
      by (auto simp: local_change_def scroll_mem_outside simp flip: assms(2) cong: paging_ok_cong)
  next
    case False
    then show ?thesis
      using 2 unfolding s3 by (auto simp: local_change_def NUM_ROWS_def simp flip: assms(2))
  qed
qed

lemma put_cell_loose:
  assumes "shown_ok s" and "t = current_terminal s" and "loose_change s s'"
    and "screen_x s' t < 80" and "screen_y s' t < 25"
  shows "loose_change s (put_cell_checked video_mem (screen_x s' t) (screen_y s' t) c a s')"
proof -
  have b: "0 \<le> screen_x s' t" "0 \<le> screen_y s' t" "paging_ok s'" using assms(2,3) by (simp_all add: loose_change_def)
  define i where "i = nat (80 * screen_y s' t + screen_x s' t)"
  have i: "i < 2000" using b assms(4,5) by (simp add: i_def)
  have "put_cell_checked video_mem (screen_x s' t) (screen_y s' t) c a s' =
      s'\<lparr>phys := set_cell (phys s') (vid_frame 3) i (c, a)\<rparr>"
    using b assms(4,5) put_cell_video_mem [OF maps_video_mem [OF b(3)]] by (simp add: i_def)
  then show ?thesis
    using assms(3) i by (simp add: loose_change_def set_cell_outside)
qed

lemma put_cell_checked_simps:
  "screen_x (put_cell_checked b x y c a s) = screen_x s" "screen_y (put_cell_checked b x y c a s) = screen_y s"
  by (simp_all add: put_cell_checked_def put_cell_def kwrite8_def Let_def split: option.splits)

lemma putc_kb_local:
  assumes "shown_ok s"
  shows "local_change s (putc_kb c s)"
proof -
  define t where "t = current_terminal s"
  note ok = shown_okD [OF assms t_def]
  have self: "loose_change s s" using ok by (simp add: loose_change_def flip: t_def)
  have bs: "loose_change s (kb_backspace s)"
  proof (cases "screen_y s t = 0 \<and> screen_x s t = 0")
    case True
    then show ?thesis
      using put_cell_loose [OF assms t_def self] ok by (simp add: kb_backspace_def Let_def flip: t_def)
  next
    case False
    define s1 where "s1 = (let s = set_sx t (screen_x s t - 1) s
       in if screen_x s t < 0
          then (let s = set_sx t (NUM_COLS - 1) s;
                    s = set_sy t (screen_y s t - 1) s;
                    s = set_by t (biggest_y s t - 1) s
                in if screen_y s t < 0 then set_by t 0 (set_sy t 0 s) else s)
          else s)"
    have l: "loose_change s s1" "screen_x s1 t < 80" "screen_y s1 t < 25"
      using ok False unfolding s1_def Let_def
      by (auto simp: loose_change_def console_upd NUM_COLS_def simp flip: t_def cong: paging_ok_cong)
    have "kb_backspace s = put_cell_checked video_mem (screen_x s1 t) (screen_y s1 t) 0x20 (attribs t) s1"
      using False unfolding kb_backspace_def Let_def t_def [symmetric] s1_def by (simp only: if_False)
    then show ?thesis using put_cell_loose [OF assms t_def l] by simp
  qed
  define s1 where "s1 = (if c = 10 \<or> c = 13 then set_sx t 0 (set_sy t (screen_y s t + 1) s)
      else if c = 8 then kb_backspace s
      else set_sx t (screen_x s t + 1)
             (put_cell_checked video_mem (screen_x s t) (screen_y s t) c (attribs t) s))"
  have "loose_change s s1"
  proof -
    have "loose_change s (put_cell_checked video_mem (screen_x s t) (screen_y s t) c (attribs t) s)" (is "loose_change s ?q")
      using put_cell_loose [OF assms t_def self] ok by simp
    moreover have "screen_x ?q = screen_x s" "screen_y ?q = screen_y s" by (simp_all add: put_cell_checked_simps)
    ultimately have "loose_change s (set_sx t (screen_x s t + 1) ?q)"
      using ok by (auto simp: loose_change_def console_upd simp flip: t_def cong: paging_ok_cong)
    moreover have "loose_change s (set_sx t 0 (set_sy t (screen_y s t + 1) s))"
      using ok by (auto simp: loose_change_def console_upd simp flip: t_def cong: paging_ok_cong)
    ultimately show ?thesis using bs by (simp add: s1_def)
  qed
  moreover have "putc_kb c s = update_cursor (let s2 = (if screen_x s1 t \<ge> NUM_COLS then new_line t s1 else s1)
      in if screen_y s2 t \<ge> NUM_ROWS then scroll s2 else s2)"
    using ok by (simp add: putc_kb_def s1_def Let_def put_cell_checked_simps NUM_COLS_def flip: t_def)
  ultimately show ?thesis using settle_local [OF _ t_def refl refl, of s1] by (simp only: Let_def)
qed

text \<open>The operations the terminal driver performs on the displayed console.\<close>

datatype console_op = Putc byte | Putc_kb byte | Move_left | Move_right | Scoot_text | Clear

fun console_step :: "console_op \<Rightarrow> 'a screen_scheme \<Rightarrow> 'a screen_scheme" where
  "console_step (Putc c) s = putc c s"
| "console_step (Putc_kb c) s = putc_kb c s"
| "console_step Move_left s = move_left s"
| "console_step Move_right s = move_right s"
| "console_step Scoot_text s = scoot_text s"
| "console_step Clear s = clear s"

lemma console_step_local: "shown_ok s \<Longrightarrow> local_change s (console_step x s)"
  by (cases x) (simp_all add: putc_local putc_kb_local move_local scoot_local clear_local)

interpretation console: keeps_frame console_step "\<lambda>s. shown_ok s \<and> current_terminal s = t"
    "\<lambda>s. (fault s, \<lambda>u. if u < 3 \<and> u \<noteq> t then Some (text_view u s) else None)"
  for t
proof unfold_locales
  fix s :: "'a screen_scheme" and x
  assume "shown_ok s \<and> current_terminal s = t"
  moreover from this have "local_change s (console_step x s)" by (simp add: console_step_local)
  ultimately show "shown_ok (console_step x s) \<and> current_terminal (console_step x s) = t"
    and "(fault (console_step x s), \<lambda>u. if u < 3 \<and> u \<noteq> t then Some (text_view u (console_step x s)) else None) =
      (fault s, \<lambda>u. if u < 3 \<and> u \<noteq> t then Some (text_view u s) else None)"
    using local_change_ok [of s "console_step x s"] local_change_view [of s "console_step x s"]
    by (auto simp: local_change_def fun_eq_iff)
qed



lemma clear_view:
  assumes "shown_ok s" and "t = current_terminal s"
  shows "text_view t (clear s) = (replicate 2000 (0x20, attribs t), 0, 0)"
  using shown_okD(1) [OF assms] assms(2)
  by (simp add: clear_eq text_view_def screen_frame_def cells_clear_mem)

end
