(* ===== verification/Processes.thy ===== *)
theory Processes
  imports Tasking Screen_Edit
begin

unbundle bit_operations_syntax

text \<open>
  What the operations of \<^verbatim>\<open>tasking.c\<close> guarantee: switching terminals keeps the contents of every
  screen, a new process gets a free id, an address space of its own and the two standard files, and
  the timer rotates through the run queue and resumes each process on the stack it left.
\<close>

section \<open>Switching terminals\<close>

lemma cells_rd_bytes: "rd_bytes m f 4096 = rd_bytes m' g 4096 \<Longrightarrow> cells m f = cells m' g"
proof -
  assume e: "rd_bytes m f 4096 = rd_bytes m' g 4096"
  have "m (f + of_nat i) = m' (g + of_nat i)" if "i < 4096" for i
    using arg_cong [OF e, of "\<lambda>xs. xs ! i"] that by simp
  then have "cell m f i = cell m' g i" if "i < 2000" for i
    using that unfolding cell_def by (simp only: prod.inject)
  then show "cells m f = cells m' g" by (simp add: cells_def)
qed

lemma tasks_wfD:
  assumes "tasks_wf s"
  shows "paging_ok s" "current_terminal s < 3" "pd_ready s (current_process s)"
    "current_active_process s < 3" "console_ok s" "cr3 s = current_process s"
    "tables_linked s" "pd_ready s 0"
proof -
  show 1: "paging_ok s" "current_terminal s < 3" "current_active_process s < 3" "console_ok s"
    "cr3 s = current_process s"
    using assms by (simp_all add: tasks_wf_def console_ok_def)
  then show "pd_ready s (current_process s)" "tables_linked s" "pd_ready s 0"
    by (simp_all add: paging_ok_def)
qed

lemma sti_simps [simp]:
  "text_view t (sti s) = text_view t s" "console_ok (sti s) = console_ok s"
  "current_terminal (sti s) = current_terminal s" "vmem_ok (sti s) = vmem_ok s" "fault (sti s) = fault s"
  "screen_frame (sti s) t = screen_frame s t" "phys (sti s) = phys s"
  by (simp_all add: text_view_def screen_frame_def console_ok_def cursor_ok_def vmem_ok_def)
     (simp_all add: sti_def screen_frame_def)

lemma tasks_wf_sti [simp]: "tasks_wf (sti s) = tasks_wf s"
proof -
  have "pd_ready (sti s) p = pd_ready s p" for p by (rule pd_ready_cong) (simp_all add: sti_def)
  then show ?thesis by (simp add: tasks_wf_def) (simp add: sti_def)
qed

lemma swapped_wf:
  assumes "tasks_wf s" and "t < 3"
  shows "tasks_wf (swapped t s)"
proof -
  have "paging_ok (swapped t s) = paging_ok s" by (rule paging_ok_cong) (simp_all add: swapped_def Let_def)
  moreover have "pd_ready (swapped t s) p = pd_ready s p" for p
    by (rule pd_ready_cong) (simp_all add: swapped_def Let_def)
  ultimately show ?thesis
    using assms by (simp add: tasks_wf_def console_ok_def cursor_ok_def) (simp add: swapped_def Let_def)
qed

lemma switch_video_props:
  assumes wf: "tasks_wf s" and v: "vmem_ok s" and t: "t < 3" and u: "u < 3"
  shows "current_terminal (switch_video t s) = t" "fault (switch_video t s) = fault s"
    "rd_bytes (phys (switch_video t s)) (screen_frame (switch_video t s) u) 4096 =
      rd_bytes (phys s) (screen_frame s u) 4096"
    "screen_x (switch_video t s) u = screen_x s u" "screen_y (switch_video t s) u = screen_y s u"
    "tasks_wf (switch_video t s)" "vmem_ok (switch_video t s)"
proof -
  note ok = tasks_wfD [OF wf]
  have "current_terminal (switch_video t s) = t \<and> fault (switch_video t s) = fault s \<and>
    rd_bytes (phys (switch_video t s)) (screen_frame (switch_video t s) u) 4096 =
      rd_bytes (phys s) (screen_frame s u) 4096 \<and>
    screen_x (switch_video t s) u = screen_x s u \<and> screen_y (switch_video t s) u = screen_y s u \<and>
    tasks_wf (switch_video t s) \<and> vmem_ok (switch_video t s)"
  proof (cases "t = current_terminal s")
    case True
    then have e: "switch_video t s = sti (cli s)" by (simp add: switch_video_def)
    have "sti (cli s) = sti s" by (simp add: sti_def cli_def)
    then show ?thesis using True wf v e by simp (simp add: sti_def)
  next
    case False
    let ?w = "swapped t s"
    have e: "switch_video t s = sti (switch_context (current_process s) ?w)"
      by (rule switch_video_eq [OF ok(1,2) t False])
    have pd: "pd_ready ?w (current_process s)" using ok(3)
      by (subst pd_ready_cong [of _ _ s]) (simp_all add: swapped_def Let_def)
    have f: "screen_frame (switch_context (current_process s) ?w) u = screen_frame ?w u"
      "current_terminal ?w = t" "fault ?w = fault s" "screen_x ?w = screen_x s" "screen_y ?w = screen_y s"
      by (simp_all add: screen_frame_def swapped_def Let_def)
    have "screen_x (sti x) = screen_x x" "screen_y (sti x) = screen_y x" for x :: "'a tasking_scheme"
      by (simp_all add: sti_def)
    then show ?thesis
      unfolding e using switch_context_wf [OF swapped_wf [OF wf t] pd] f
        swapped_screens [OF ok(2) t False u] by simp
  qed
  then show "current_terminal (switch_video t s) = t" "fault (switch_video t s) = fault s"
    "rd_bytes (phys (switch_video t s)) (screen_frame (switch_video t s) u) 4096 =
      rd_bytes (phys s) (screen_frame s u) 4096"
    "screen_x (switch_video t s) u = screen_x s u" "screen_y (switch_video t s) u = screen_y s u"
    "tasks_wf (switch_video t s)" "vmem_ok (switch_video t s)" by blast+
qed

text \<open>
  C15. Switching the displayed terminal loses nothing: afterwards terminal \<open>term_num\<close> is on the screen,
  every one of the three terminals has the screen contents and the cursor it had before (whether it
  was or is displayed or not), no access faults, and the page \<open>0xB8000\<close> of the running process leads
  to the screen of its own terminal.
\<close>

theorem switch_video_keeps_screens:
  assumes "tasks_wf s" and "vmem_ok s" and "term_num < 3"
  shows "current_terminal (switch_video term_num s) = term_num \<and>
    fault (switch_video term_num s) = fault s \<and>
    (\<forall>u < 3. text_view u (switch_video term_num s) = text_view u s) \<and>
    vmem_ok (switch_video term_num s) \<and> tasks_wf (switch_video term_num s)"
proof -
  note p = switch_video_props [OF assms]
  have "text_view u (switch_video term_num s) = text_view u s" if "u < 3" for u
    using p(4,5) [OF that] cells_rd_bytes [OF p(3) [OF that]] by (simp add: text_view_def)
  then show ?thesis using p(1,2,6,7) [of 0] by simp
qed

section \<open>Starting a process\<close>

lemma find_free_loop_spec:
  assumes "i \<le> MAX_PID + 1"
  shows "i \<le> find_free_loop ps i \<and> find_free_loop ps i \<le> MAX_PID + 1 \<and>
    (\<forall>j. i \<le> j \<and> j < find_free_loop ps i \<longrightarrow> present (ps j)) \<and>
    (find_free_loop ps i \<le> MAX_PID \<longrightarrow> \<not> present (ps (find_free_loop ps i)))"
  using assms
proof (induction ps i rule: find_free_loop.induct)
  case (1 ps i)
  show ?case
  proof (cases "present (ps i) \<and> i \<le> MAX_PID")
    case True
    then have e: "find_free_loop ps i = find_free_loop ps (i + 1)" by (subst find_free_loop.simps) simp
    have IH: "i + 1 \<le> find_free_loop ps (i + 1) \<and> find_free_loop ps (i + 1) \<le> MAX_PID + 1 \<and>
      (\<forall>j. i + 1 \<le> j \<and> j < find_free_loop ps (i + 1) \<longrightarrow> present (ps j)) \<and>
      (find_free_loop ps (i + 1) \<le> MAX_PID \<longrightarrow> \<not> present (ps (find_free_loop ps (i + 1))))"
      using 1 True by simp
    have "present (ps j)" if "i \<le> j" "j < find_free_loop ps (i + 1)" for j
      using that IH True by (cases "j = i") auto
    then show ?thesis unfolding e using IH by auto
  next
    case False
    then have "find_free_loop ps i = i" by (subst find_free_loop.simps) (rule if_not_P)
    then show ?thesis using False "1.prems" by auto
  qed
qed

lemma find_free_least:
  assumes "0 < p" and "p \<le> MAX_PID" and "\<not> present (ps p)" and "\<forall>j. 0 < j \<and> j < p \<longrightarrow> present (ps j)"
  shows "find_free_loop ps 1 = p"
proof -
  have sp: "1 \<le> find_free_loop ps 1" "find_free_loop ps 1 \<le> MAX_PID + 1"
    "\<forall>j. 1 \<le> j \<and> j < find_free_loop ps 1 \<longrightarrow> present (ps j)"
    "find_free_loop ps 1 \<le> MAX_PID \<longrightarrow> \<not> present (ps (find_free_loop ps 1))"
    using find_free_loop_spec [of 1 ps] by (simp_all add: MAX_PID_def)
  have "\<not> p < find_free_loop ps 1" using sp(3) assms(1,3) by auto
  moreover have "\<not> find_free_loop ps 1 < p" using sp(1,4) assms(2,4) by auto
  ultimately show ?thesis by simp
qed

lemma find_free_full:
  assumes "\<forall>j. 0 < j \<and> j \<le> MAX_PID \<longrightarrow> present (ps j)"
  shows "find_free_loop ps 1 = MAX_PID + 1"
  using find_free_loop_spec [of 1 ps] assms by (auto simp: MAX_PID_def)

lemma mapped_kernel:
  assumes "4194304 \<le> unat a" and "unat a + n \<le> 8388608"
  shows "mapped_run s a a n"
  unfolding mapped_run_def
proof (intro allI impI)
  fix i assume i: "i < n"
  then have "unat (a + of_nat i) = unat a + i"
    using assms by (simp add: unat_plus_if' unat_of_nat_less)
  then have "0x400000 \<le> a + of_nat i \<and> a + of_nat i < 0x800000"
    using assms i by (simp add: word_le_nat_alt word_less_nat_alt)
  then show "vaddr_of s (a + of_nat i) = Some (a + of_nat i)" unfolding vaddr_of_def Let_def by (simp only: if_True simp_thms if_cancel)
qed

lemma pcb_cmdstring_address:
  assumes "p \<le> MAX_PID"
  shows "unat (pcb_cmdstring p) = 8388608 - (p + 1) * 8192 + 8"
proof -
  have m: "unat (of_nat (p + 1) * 0x2000 :: u32) = (p + 1) * 8192"
    using assms unat_of_nat_less [of "(p + 1) * 8192"] by (simp add: MAX_PID_def)
  have "unat (0x800008 - of_nat (p + 1) * 0x2000 :: u32) = 8388608 - (p + 1) * 8192 + 8"
    using m assms by (subst unat_sub) (simp_all add: word_le_nat_alt MAX_PID_def)
  moreover have "pcb_cmdstring p = 0x800008 - of_nat (p + 1) * 0x2000"
    by (simp add: pcb_cmdstring_def get_pcb_def OFFSET_8M_def OFFSET_8K_def paging_consts)
  ultimately show ?thesis by simp
qed

lemma cmdstring_mapped: "p \<le> MAX_PID \<Longrightarrow> mapped_run s (pcb_cmdstring p) (pcb_cmdstring p) BUF_SIZE"
  by (rule mapped_kernel) (auto simp: pcb_cmdstring_address BUF_SIZE_def MAX_PID_def)

text \<open>The file table of a new process: stdin and stdout.\<close>

definition std_files :: "nat \<Rightarrow> FILE" where
  "std_files = (\<lambda>_. null_FILE)(0 := null_FILE\<lparr>optable := Ops_stdin, flags := 1\<rparr>,
     1 := null_FILE\<lparr>optable := Ops_stdout, flags := 1\<rparr>)"

definition new_pcb :: "nat \<Rightarrow> pcb" where
  "new_pcb par = \<lparr>esp = 0, parent = par, pcb_files = std_files, present = True\<rparr>"

lemma get_new_fd_first:
  assumes "\<not> in_use (cur_files s k)" and "\<forall>j < k. in_use (cur_files s j)" and "k < MAX_FILES"
  shows "get_new_fd s = (set_file k ((cur_files s k)\<lparr>flags := flags (cur_files s k) OR FILE_FLAG_IN_USE\<rparr>) s, int k)"
proof -
  have "find (\<lambda>i. \<not> in_use (cur_files s i)) [0..<MAX_FILES] = Some k"
    using assms by (auto simp: find_Some_iff)
  then show ?thesis by (simp add: get_new_fd_def get_new_fd_loop_eq)
qed

lemma set_file_set_file [simp]: "set_file a f (set_file a g s) = set_file a f s"
  by (simp add: set_file_def set_pcb_def get_current_pcb_def cur_files_def)

lemma open_std_files:
  assumes "cur_files s = (\<lambda>_. null_FILE)"
  shows "(let (s, fd) = get_new_fd s;
             s = set_file (nat fd) (fst (stdin_open (cur_files s (nat fd)))) s;
             (s, fd) = get_new_fd s;
             s = set_file (nat fd) (fst (stdout_open (cur_files s (nat fd)))) s
         in (s, 0 :: int)) =
    (set_pcb (current_process s) ((get_current_pcb s)\<lparr>pcb_files := std_files\<rparr>) s, 0)"
proof -
  have n: "\<not> in_use null_FILE" "in_use (null_FILE\<lparr>optable := Ops_stdin, flags := 1\<rparr>)"
    by (simp_all add: in_use_def null_FILE_def FILE_FLAG_IN_USE_def)
  let ?f0 = "null_FILE\<lparr>optable := Ops_stdin, flags := 1\<rparr>"
  let ?f1 = "null_FILE\<lparr>optable := Ops_stdout, flags := 1\<rparr>"
  have 0: "get_new_fd s = (set_file 0 (null_FILE\<lparr>flags := 1\<rparr>) s, 0)"
    using get_new_fd_first [of s 0] assms n by (simp add: MAX_FILES_def null_FILE_def FILE_FLAG_IN_USE_def)
  let ?s = "set_file 0 ?f0 s"
  have 1: "get_new_fd ?s = (set_file 1 (null_FILE\<lparr>flags := 1\<rparr>) ?s, 1)"
    using get_new_fd_first [of ?s 1] assms n by (simp add: MAX_FILES_def null_FILE_def FILE_FLAG_IN_USE_def)
  have "set_file 1 ?f1 ?s = set_pcb (current_process s) ((get_current_pcb s)\<lparr>pcb_files := std_files\<rparr>) s"
    using assms by (simp add: set_file_def set_pcb_def get_current_pcb_def cur_files_def std_files_def)
  then show ?thesis
    using 0 1 by (simp add: stdin_open_def stdout_open_def null_FILE_def)
qed

text \<open>The state of a new process before its files are opened.\<close>

definition spawned :: "nat \<Rightarrow> 'a tasking_scheme \<Rightarrow> 'a tasking_scheme" where
  "spawned p s =
     switch_context p (init_pd p
       ((set_pcb p (new_pcb (current_process s)) s)
          \<lparr>phys := wr_bytes (phys s) (pcb_cmdstring p) (replicate BUF_SIZE 0)\<rparr>))"

lemma set_pcb_simps [simp]:
  "phys (set_pcb i q s) = phys s" "paging_ok (set_pcb i q s) = paging_ok s" "console_ok (set_pcb i q s) = console_ok s"
  "current_process (set_pcb i q s) = current_process s" "cr3 (set_pcb i q s) = cr3 s"
  "pcbs (set_pcb i q s) = (pcbs s)(i := q)" "processes (set_pcb i q s) = processes s"
  "current_active_process (set_pcb i q s) = current_active_process s"
  "current_terminal (set_pcb i q s) = current_terminal s" "text_view t (set_pcb i q s) = text_view t s"
  "fault (set_pcb i q s) = fault s" "vmem_ok (set_pcb i q s) = vmem_ok s"
  "pd_ready (set_pcb i q s) p = pd_ready s p" "vmem (set_pcb i q s) = vmem s"
proof -
  show "paging_ok (set_pcb i q s) = paging_ok s" by (rule paging_ok_cong) (simp_all add: set_pcb_def)
  then show "console_ok (set_pcb i q s) = console_ok s"
    by (simp add: console_ok_def cursor_ok_def) (simp add: set_pcb_def)
  show "pd_ready (set_pcb i q s) p = pd_ready s p" by (rule pd_ready_cong) (simp_all add: set_pcb_def)
  have "translate (set_pcb i q s) = translate s" by (rule translate_cong) (simp_all add: set_pcb_def)
  moreover have "phys (set_pcb i q s) = phys s" by (simp add: set_pcb_def)
  ultimately show "vmem (set_pcb i q s) = vmem s" by (intro ext) (simp add: vmem_def kread8_def split: option.split)
qed (simp_all add: text_view_def screen_frame_def vmem_ok_def, simp_all add: set_pcb_def)

lemma setup_new_process_eq:
  assumes "paging_ok s" and "0 < p" and "p \<le> MAX_PID" and "find_free_loop (pcbs s) 1 = p"
  shows "setup_new_process s = (spawned p s, 0)"
proof -
  let ?n = "\<lparr>esp = 0, parent = current_process s, pcb_files = (\<lambda>_. null_FILE), present = True\<rparr>"
  let ?s1 = "set_pcb p ?n s"
  let ?s2 = "?s1\<lparr>phys := wr_bytes (phys s) (pcb_cmdstring p) (replicate BUF_SIZE 0)\<rparr>"
  let ?s4 = "switch_context p (init_pd p ?s2)"
  have ff: "find_free_pcb s = (s, int p)" using assms(3,4) by (simp add: find_free_pcb_def)
  have zero: "put_vmem (wr_bytes (vmem ?s1) (pcb_cmdstring p) (replicate BUF_SIZE 0)) ?s1 = ?s2"
    using put_vmem_wr [of ?s1 "pcb_cmdstring p" "pcb_cmdstring p" "replicate BUF_SIZE 0"]
      cmdstring_mapped [OF assms(3), of ?s1] assms(1) by (simp add: BUF_SIZE_def)
  have pc: "get_current_pcb ?s4 = ?n" by (simp add: get_current_pcb_def init_pd_def)
  then have cf: "cur_files ?s4 = (\<lambda>_. null_FILE)" by (simp add: cur_files_def)
  have np: "?n\<lparr>pcb_files := std_files\<rparr> = new_pcb (current_process s)" by (simp add: new_pcb_def)
  have "setup_new_process s = (set_pcb p (new_pcb (current_process s)) ?s4, 0)"
    using open_std_files [OF cf] assms(2)
    by (simp only: setup_new_process_def ff Let_def prod.case zero nat_int pc np switch_context_simps) simp
  also have "set_pcb p (new_pcb (current_process s)) ?s4 = spawned p s"
    by (simp add: spawned_def switch_context_def init_pd_def set_pcb_def Let_def cli_def sti_def set_cr3_def set_vmem_table_def)
  finally show ?thesis .
qed

lemma spawned_fields:
  "current_process (spawned p s) = p" "cr3 (spawned p s) = p"
  "pcbs (spawned p s) = (pcbs s)(p := new_pcb (current_process s))" "processes (spawned p s) = processes s"
  "phys (spawned p s) = wr_bytes (phys s) (pcb_cmdstring p) (replicate BUF_SIZE 0)"
  "current_terminal (spawned p s) = current_terminal s" "fault (spawned p s) = fault s"
  "current_active_process (spawned p s) = current_active_process s"
  "screen_x (spawned p s) = screen_x s" "screen_y (spawned p s) = screen_y s"
  by (simp_all add: spawned_def) (simp_all add: init_pd_def set_pcb_def)

lemma spawned_wf:
  assumes wf: "tasks_wf s" and p: "0 < p" "p \<le> MAX_PID"
  shows "tasks_wf (spawned p s)" and "vmem_ok (spawned p s)"
proof -
  let ?a = "(set_pcb p (new_pcb (current_process s)) s)\<lparr>phys := wr_bytes (phys s) (pcb_cmdstring p) (replicate BUF_SIZE 0)\<rparr>"
  let ?b = "init_pd p ?a"
  note w = tasks_wfD [OF wf]
  have tl: "tables_linked ?a" using w(7) by (simp add: tables_linked_def set_pcb_def)
  have pa: "pd_ready ?a q = pd_ready s q" for q by (rule pd_ready_cong) (simp_all add: set_pcb_def)
  have pb: "pd_ready ?b p" "pd_ready s q \<Longrightarrow> pd_ready ?b q" for q
    using init_pd_ready [OF tl p] pa by blast+
  have "paging_ok ?b" using init_pd_ok [OF _ p, of ?a] w(1) by simp
  then have cb: "console_ok ?b"
    using w(5) by (simp add: console_ok_def cursor_ok_def) (simp add: init_pd_def set_pcb_def)
  have f: "current_active_process ?b = current_active_process s" "current_process ?b = current_process s"
    "processes ?b = processes s" "pcbs ?b = (pcbs s)(p := new_pcb (current_process s))" "cr3 ?b = cr3 s"
    by (simp_all add: init_pd_def)
  have "tasks_wf ?b"
    using wf cb pb unfolding tasks_wf_def f by auto
  then show "tasks_wf (spawned p s)" "vmem_ok (spawned p s)"
    unfolding spawned_def using switch_context_wf [OF _ pb(1)] by blast+
qed

lemma cmdstring_no_video:
  assumes "p \<le> MAX_PID" and "a \<in> region (vid_frame u) 4096" and "u < 4"
  shows "a \<notin> region (pcb_cmdstring p) BUF_SIZE"
proof -
  have "a \<in> video_frames" using assms(2,3) by (auto simp: video_frames_def)
  then have "unat a < 4194304 \<or> 8388608 \<le> unat a" using video_framesD by fastforce
  moreover have "unat (pcb_cmdstring p) + BUF_SIZE \<le> 8388608" "4194304 \<le> unat (pcb_cmdstring p)"
    using assms(1) by (auto simp: pcb_cmdstring_address BUF_SIZE_def MAX_PID_def)
  ultimately show ?thesis by (subst region_interval) auto
qed

lemma spawned_view:
  assumes "p \<le> MAX_PID" and "u < 3"
  shows "text_view u (spawned p s) = text_view u s"
proof -
  have f: "screen_frame (spawned p s) u = screen_frame s u" by (simp add: screen_frame_def spawned_fields)
  obtain v where v: "v < 4" "screen_frame s u = vid_frame v" using screen_frame_vid [OF assms(2)] by blast
  have "phys (spawned p s) a = phys s a" if "a \<in> region (screen_frame s u) 4096" for a
    using cmdstring_no_video [OF assms(1) _ v(1), of a] that v(2)
    by (simp add: spawned_fields wr_bytes_outside BUF_SIZE_def)
  then have "cells (phys (spawned p s)) (screen_frame s u) = cells (phys s) (screen_frame s u)" by (rule cells_cong)
  then show ?thesis by (simp add: text_view_def f spawned_fields)
qed


lemma rest_tasking:
  fixes s s' :: "'a tasking_scheme"
  assumes "rest s' = rest s"
  shows "pcbs s' = pcbs s" "processes s' = processes s" "current_process s' = current_process s"
    "esp0 s' = esp0 s" "rtc_f s' = rtc_f s" "tasking.more s' = tasking.more s"
  using restD(12) [OF assms] by (cases s; cases s'; simp)+

lemma console_tasks_wf:
  assumes "tasks_wf s" and "rest s' = rest s" and "console_ok s'"
  shows "tasks_wf s'"
proof -
  have "pd_ready s' p = pd_ready s p" for p by (rule pd_ready_cong) (simp_all add: restD [OF assms(2)])
  then show ?thesis
    using assms(1,3) by (simp add: tasks_wf_def restD [OF assms(2)] rest_tasking [OF assms(2)])
qed

lemma console_vmem_ok:
  assumes "rest s' = rest s"
  shows "vmem_ok s' = vmem_ok s"
  by (simp add: vmem_ok_def screen_frame_def restD [OF assms])

text \<open>Starting processes is an allocator of process ids.\<close>

definition start_process :: "'a tasking_scheme \<Rightarrow> 'a tasking_scheme \<times> int" where
  "start_process s = (let (s', r) = setup_new_process s in (s', if r = - 1 then - 1 else int (current_process s')))"

definition pid_used :: "'a tasking_scheme \<Rightarrow> nat \<Rightarrow> bool" where
  "pid_used s p \<longleftrightarrow> present (pcbs s p)"

interpretation pids: slot_allocator pid_used 1 "MAX_PID + 1" tasks_wf start_process
proof unfold_locales
  fix s :: "'a tasking_scheme"
  assume wf: "tasks_wf s" and u: "\<forall>i. 1 \<le> i \<and> i < MAX_PID + 1 \<longrightarrow> pid_used s i"
  define msg where "msg = str ''E: process limit reached'' @ [10]"
  have full: "\<forall>j. 0 < j \<and> j \<le> MAX_PID \<longrightarrow> present (pcbs s j)" using u by (simp add: pid_used_def)
  have st: "start_process s = (fold putc msg s, - 1)"
    using find_free_full [OF full] by (simp add: start_process_def setup_new_process_def find_free_pcb_def msg_def)
  have r: "rest (fold putc msg s) = rest s" by (rule rest_fold) simp
  show "snd (start_process s) = - 1 \<and> pid_used (fst (start_process s)) = pid_used s \<and> tasks_wf (fst (start_process s))"
    unfolding st using rest_tasking(1) [OF r] console_tasks_wf [OF wf r putc_run(3) [OF tasks_wfD(5) [OF wf] refl]]
    by (auto simp: pid_used_def fun_eq_iff)
next
  fix s :: "'a tasking_scheme" and i
  assume wf: "tasks_wf s" and i: "1 \<le> i" "i < MAX_PID + 1" "\<not> pid_used s i" "\<forall>j. 1 \<le> j \<and> j < i \<longrightarrow> pid_used s j"
  have "find_free_loop (pcbs s) 1 = i" using i by (intro find_free_least) (auto simp: pid_used_def)
  then have "start_process s = (spawned i s, int i)"
    using setup_new_process_eq [OF tasks_wfD(1) [OF wf], of i] i by (simp add: start_process_def spawned_fields)
  then show "snd (start_process s) = int i \<and> pid_used (fst (start_process s)) = (pid_used s)(i := True) \<and>
      tasks_wf (fst (start_process s))"
    using spawned_wf(1) [OF wf, of i] i by (auto simp: pid_used_def fun_eq_iff spawned_fields new_pcb_def)
qed

text \<open>
  C31. However many processes are started one after the other, their ids are the free ones among 1 to
  10 in increasing order, no id is given out twice, and once ten processes exist every further
  attempt fails.
\<close>

theorem process_ids_are_unique:
  assumes "tasks_wf s"
  shows "allocs start_process k s =
    (let free = filter (\<lambda>p. \<not> present (pcbs s p)) [1..<MAX_PID + 1]
     in map int (take k free) @ replicate (k - length free) (- 1))"
  using pids.allocs_eq [OF assms, of k] by (simp only: pids.free_slots_def pid_used_def Let_def)

section \<open>The timer\<close>

lemma send_eoi_rest [simp]: "rest (send_eoi n s) = rest s"
  by (simp add: send_eoi_def Let_def)

lemma outb_console [simp]: "console_ok (outb b q s) = console_ok s"
  by (simp add: console_ok_def cursor_ok_def) (simp add: outb_def)

lemma send_eoi_console [simp]: "console_ok (send_eoi n s) = console_ok s"
  by (simp add: send_eoi_def Let_def)

definition suspended :: "u32 \<Rightarrow> 'a tasking_scheme \<Rightarrow> 'a tasking_scheme" where
  "suspended sp s = incr_current_active_process
     (set_pcb (current_process s) ((get_current_pcb s)\<lparr>esp := sp\<rparr>) (save_queue (send_eoi 0 (cli s))))"

lemma suspended_fields:
  "current_process (suspended sp s) = current_process s" "cr3 (suspended sp s) = cr3 s"
  "pcbs (suspended sp s) = (pcbs s)(current_process s := (pcbs s (current_process s))\<lparr>esp := sp\<rparr>)"
  "processes (suspended sp s) = (processes s)(current_active_process s := current_process s)"
  "current_active_process (suspended sp s) = (current_active_process s + 1) mod 3"
  "current_terminal (suspended sp s) = current_terminal s"
proof -
  have r: "rest (send_eoi 0 (cli s)) = rest s" by simp
  note f = restD [OF r] rest_tasking [OF r]
  show "current_process (suspended sp s) = current_process s" "cr3 (suspended sp s) = cr3 s"
    "pcbs (suspended sp s) = (pcbs s)(current_process s := (pcbs s (current_process s))\<lparr>esp := sp\<rparr>)"
    "processes (suspended sp s) = (processes s)(current_active_process s := current_process s)"
    "current_active_process (suspended sp s) = (current_active_process s + 1) mod 3"
    "current_terminal (suspended sp s) = current_terminal s"
    by (simp_all add: suspended_def incr_current_active_process_def save_queue_def get_current_pcb_def
        NUM_PROCESSES_def f)
qed

lemma next_task_eq:
  assumes "current_active_process s < 3"
  shows "next_task sp s =
    (let s1 = suspended sp s; p = processes s ((current_active_process s + 1) mod 3) in
     if p = 0 then (s1, Launch_shell)
     else (switch_context p s1, Resume (esp (pcbs s1 p))))"
proof -
  have r: "rest (send_eoi 0 (cli s)) = rest s" by simp
  note f = restD [OF r] rest_tasking [OF r]
  have ne: "(current_active_process s + 1) mod 3 \<noteq> current_active_process s" using assms by presburger
  let ?s0 = "save_queue (send_eoi 0 (cli s))"
  have c: "current_process ?s0 = current_process s" "get_current_pcb ?s0 = get_current_pcb s"
    by (simp_all add: save_queue_def get_current_pcb_def f)
  have n: "get_next_task_pid (set_pcb (current_process s) ((get_current_pcb s)\<lparr>esp := sp\<rparr>) ?s0) =
      processes s ((current_active_process s + 1) mod 3)"
    using ne by (simp add: get_next_task_pid_def save_queue_def NUM_PROCESSES_def f)
  have t: "get_current_task_pid (suspended sp s) = processes s ((current_active_process s + 1) mod 3)"
    using ne by (simp add: get_current_task_pid_def suspended_fields)
  show ?thesis
    unfolding next_task_def Let_def c n suspended_def [symmetric] t by (simp add: get_current_pcb_def)
qed

lemma suspended_wf:
  assumes "tasks_wf s"
  shows "tasks_wf (suspended sp s)"
proof -
  have r: "rest (send_eoi 0 (cli s)) = rest s" by simp
  note f = restD [OF r] rest_tasking [OF r]
  note w = tasks_wfD [OF assms]
  have pd: "pd_ready (suspended sp s) p = pd_ready s p" for p
    by (rule pd_ready_cong) (simp_all add: suspended_def incr_current_active_process_def save_queue_def set_pcb_def f)
  have "paging_ok (suspended sp s) = paging_ok (send_eoi 0 (cli s))"
    by (rule paging_ok_cong) (simp_all add: suspended_def incr_current_active_process_def save_queue_def set_pcb_def)
  moreover have "console_ok (send_eoi 0 (cli s))" using w(5) by simp
  moreover have "screen_x (suspended sp s) = screen_x (send_eoi 0 (cli s))"
    "screen_y (suspended sp s) = screen_y (send_eoi 0 (cli s))"
    "current_terminal (suspended sp s) = current_terminal (send_eoi 0 (cli s))"
    by (simp_all add: suspended_def incr_current_active_process_def save_queue_def set_pcb_def)
  ultimately have "console_ok (suspended sp s)" by (simp add: console_ok_def cursor_ok_def)
  then show ?thesis
    using assms w(3) unfolding tasks_wf_def suspended_fields pd by (auto simp: fun_upd_def)
qed

text \<open>
  C12. The timer: \<open>next_task\<close> puts the running process, with its stack pointer, into the run queue entry
  of its terminal and goes on to the next terminal. If that has a process, it becomes current in its
  own address space with \<open>0xB8000\<close> leading to its own terminal's screen, and it is resumed on the stack
  it was suspended with; if not, a shell is to be started there.
\<close>

theorem next_task_switches:
  assumes "tasks_wf s" and "next_task sp s = (s', act)"
    and "t = current_active_process s" and "u = (t + 1) mod 3"
  shows "processes s' = (processes s)(t := current_process s) \<and> current_active_process s' = u \<and>
    esp (pcbs s' (current_process s)) = sp \<and> tasks_wf s' \<and>
    (if processes s u = 0 then act = Launch_shell
     else current_process s' = processes s u \<and> cr3 s' = processes s u \<and> vmem_ok s' \<and>
       act = Resume (esp (pcbs s' (processes s u))))"
proof -
  note w = tasks_wfD [OF assms(1)]
  note sw = suspended_wf [OF assms(1), of sp]
  have u3: "u < 3" using assms(4) by simp
  have ne: "u \<noteq> t" using w(4) assms(3,4) by presburger
  have pd: "pd_ready (suspended sp s) (processes s u)"
    using sw u3 ne assms(3) unfolding tasks_wf_def suspended_fields by auto
  have eq: "next_task sp s = (if processes s u = 0 then (suspended sp s, Launch_shell)
      else (switch_context (processes s u) (suspended sp s), Resume (esp (pcbs (suspended sp s) (processes s u)))))"
    using next_task_eq [OF w(4), of sp] assms(3,4) by (simp add: Let_def)
  show ?thesis
  proof (cases "processes s u = 0")
    case True
    then have "s' = suspended sp s" "act = Launch_shell" using eq assms(2) by simp_all
    then show ?thesis using sw True assms(3,4) by (simp add: suspended_fields)
  next
    case False
    then have "s' = switch_context (processes s u) (suspended sp s)"
      "act = Resume (esp (pcbs (suspended sp s) (processes s u)))" using eq assms(2) by simp_all
    then show ?thesis using switch_context_wf [OF sw pd] False assms(3,4) by (simp add: suspended_fields)
  qed
qed

lemma next_task_resume:
  assumes "tasks_wf s" and "processes s ((current_active_process s + 1) mod 3) \<noteq> 0"
  shows "current_process (fst (next_task sp s)) = processes s ((current_active_process s + 1) mod 3)"
    "processes (fst (next_task sp s)) = (processes s)(current_active_process s := current_process s)"
    "current_active_process (fst (next_task sp s)) = (current_active_process s + 1) mod 3"
    "pcbs (fst (next_task sp s)) = (pcbs s)(current_process s := (pcbs s (current_process s))\<lparr>esp := sp\<rparr>)"
    "snd (next_task sp s) = Resume (esp (pcbs (fst (next_task sp s)) (processes s ((current_active_process s + 1) mod 3))))"
    "tasks_wf (fst (next_task sp s))"
proof -
  note w = tasks_wfD [OF assms(1)]
  note sw = suspended_wf [OF assms(1), of sp]
  define u where "u = (current_active_process s + 1) mod 3"
  have u3: "u < 3" "u \<noteq> current_active_process s" using w(4) unfolding u_def by (simp, presburger)
  have pd: "pd_ready (suspended sp s) (processes s u)"
    using sw u3 unfolding tasks_wf_def suspended_fields by auto
  have eq: "next_task sp s = (switch_context (processes s u) (suspended sp s),
      Resume (esp (pcbs (suspended sp s) (processes s u))))"
    using next_task_eq [OF w(4), of sp] assms(2) by (simp add: Let_def u_def)
  show "current_process (fst (next_task sp s)) = processes s ((current_active_process s + 1) mod 3)"
    "processes (fst (next_task sp s)) = (processes s)(current_active_process s := current_process s)"
    "current_active_process (fst (next_task sp s)) = (current_active_process s + 1) mod 3"
    "pcbs (fst (next_task sp s)) = (pcbs s)(current_process s := (pcbs s (current_process s))\<lparr>esp := sp\<rparr>)"
    "snd (next_task sp s) = Resume (esp (pcbs (fst (next_task sp s)) (processes s ((current_active_process s + 1) mod 3))))"
    "tasks_wf (fst (next_task sp s))"
    unfolding u_def [symmetric] eq using switch_context_wf(1) [OF sw pd] by (simp_all add: suspended_fields u_def)
qed

text \<open>
  C29. Round robin: with a process on each of the three terminals, three timer ticks later the process
  that was running runs again, and it is resumed on exactly the stack pointer it was interrupted with.
\<close>

theorem round_robin:
  assumes "tasks_wf s" and "t = current_active_process s"
    and "p1 = processes s ((t + 1) mod 3)" and "p2 = processes s ((t + 2) mod 3)"
    and "current_process s \<noteq> 0" and "p1 \<noteq> 0" and "p2 \<noteq> 0"
    and "p1 \<noteq> current_process s" and "p2 \<noteq> current_process s"
    and "s1 = fst (next_task sp s)" and "s2 = fst (next_task sp1 s1)" and "s3 = fst (next_task sp2 s2)"
  shows "current_process s1 = p1 \<and> current_process s2 = p2 \<and> current_process s3 = current_process s \<and>
    current_active_process s3 = t \<and> snd (next_task sp2 s2) = Resume sp"
proof -
  have t: "t = 0 \<or> t = 1 \<or> t = 2" using tasks_wfD(4) [OF assms(1)] assms(2) by auto
  have n1: "processes s ((current_active_process s + 1) mod 3) \<noteq> 0" using assms(2,3,6) by simp
  note r1 = next_task_resume [OF assms(1) n1, of sp, folded assms(10)]
  have n2: "processes s1 ((current_active_process s1 + 1) mod 3) \<noteq> 0"
    "processes s1 ((current_active_process s1 + 1) mod 3) = p2"
    using t r1 assms(2,4,7) by (auto simp: numeral_2_eq_2)
  note r2 = next_task_resume [OF r1(6) n2(1), of sp1, folded assms(11)]
  have n3: "processes s2 ((current_active_process s2 + 1) mod 3) \<noteq> 0"
    "processes s2 ((current_active_process s2 + 1) mod 3) = current_process s" "(current_active_process s2 + 1) mod 3 = t"
    using t r1 r2 assms(2,5) by (auto simp: numeral_2_eq_2)
  note r3 = next_task_resume [OF r2(6) n3(1), of sp2, folded assms(12)]
  have "esp (pcbs s3 (current_process s)) = sp"
    using r1(1,4) r2(1,4) r3(4) n2(2) assms(2,3,8,9) by simp
  then show ?thesis using r1(1) r2(1) r3(1,3,5) n2(2) n3(2,3) assms(2,3) by simp
qed

section \<open>Examples\<close>

text \<open>The process table after boot, with no process yet, and the same with \<open>n\<close> processes started.\<close>

definition boot_tasks :: tasking where
  "boot_tasks = clock.extend (screen.extend boot_screen (clock.fields False))
     (tasking.fields (\<lambda>_. \<lparr>esp = 0, parent = 0, pcb_files = (\<lambda>_. null_FILE), present = False\<rparr>)
        (\<lambda>_. 0) 0 0)"

definition tasks :: "nat \<Rightarrow> tasking" where
  "tasks n = fold spawned [1..<n + 1] boot_tasks"

lemma boot_tasks_simps:
  "current_terminal boot_tasks = 0" "current_active_process boot_tasks = 0" "current_process boot_tasks = 0"
  "cr3 boot_tasks = 0" "processes boot_tasks = (\<lambda>_. 0)" "present (pcbs boot_tasks p) = False"
  "screen_x boot_tasks = (\<lambda>_. 0)" "screen_y boot_tasks = (\<lambda>_. 0)"
  by (simp_all add: boot_tasks_def clock.defs tasking.defs screen.defs machine.defs boot_screen_def
      enable_paging_def init_tables_def boot_machine_def)

lemma boot_tasks_wf: "tasks_wf boot_tasks" "vmem_ok boot_tasks"
proof -
  have "paging_ok boot_tasks = paging_ok boot_screen"
    by (rule paging_ok_cong) (simp_all add: boot_tasks_def clock.defs tasking.defs screen.defs)
  then have p: "paging_ok boot_tasks" using boot_screen_ok by (simp add: console_ok_def)
  then have c: "console_ok boot_tasks" by (simp add: console_ok_def cursor_ok_def boot_tasks_simps)
  have "pd_ready boot_tasks 0" using p by (simp add: paging_ok_def)
  with c show "tasks_wf boot_tasks" by (simp add: tasks_wf_def boot_tasks_simps)
  have "low_memory_table boot_tasks 184 = vid_frame 3 OR 7"
    by (simp add: boot_tasks_def clock.defs tasking.defs screen.defs machine.defs boot_screen_def
        enable_paging_def init_tables_def boot_machine_def paging_consts vid_frame_def)
  then show "vmem_ok boot_tasks" by (simp add: vmem_ok_def boot_tasks_simps screen_frame_def)
qed

lemma tasks_Suc: "tasks (Suc n) = spawned (Suc n) (tasks n)"
  by (simp add: tasks_def)

lemma tasks_0: "tasks 0 = boot_tasks"
  by (simp add: tasks_def)

lemma tasks_fields:
  "processes (tasks n) = (\<lambda>_. 0)" "current_active_process (tasks n) = 0" "current_terminal (tasks n) = 0"
  "current_process (tasks n) = n"
  by (induction n) (simp_all add: tasks_0 tasks_Suc boot_tasks_simps spawned_fields)

lemma tasks_present: "present (pcbs (tasks n) p) \<longleftrightarrow> 0 < p \<and> p \<le> n"
proof (induction n)
  case 0
  show ?case by (auto simp: tasks_0 boot_tasks_simps)
next
  case (Suc n)
  then show ?case by (simp add: tasks_Suc spawned_fields new_pcb_def le_Suc_eq)
qed

lemma tasks_wf_tasks: "n \<le> MAX_PID \<Longrightarrow> tasks_wf (tasks n)"
  by (induction n) (simp_all add: tasks_0 tasks_Suc boot_tasks_wf spawned_wf)

lemma tasks_props:
  assumes "n \<le> MAX_PID"
  shows "tasks_wf (tasks n)" "present (pcbs (tasks n) p) \<longleftrightarrow> 0 < p \<and> p \<le> n" "processes (tasks n) = (\<lambda>_. 0)"
    "current_process (tasks n) = n" "current_active_process (tasks n) = 0" "current_terminal (tasks n) = 0"
  using tasks_wf_tasks [OF assms] tasks_present [of n p] tasks_fields [of n] by simp_all

theorem switch_video_keeps_screens_witness:
  "tasks_wf boot_tasks \<and> current_terminal (switch_video 2 boot_tasks) = 2 \<and>
   text_view 0 (switch_video 2 boot_tasks) = text_view 0 boot_tasks"
  using switch_video_keeps_screens [OF boot_tasks_wf, of 2] boot_tasks_wf by simp


theorem process_ids_are_unique_witness:
  "tasks_wf (tasks 8) \<and> allocs start_process 4 (tasks 8) = [9, 10, - 1, - 1]"
proof -
  have m: "8 \<le> MAX_PID" by (simp add: MAX_PID_def)
  have l: "[1..<MAX_PID + 1] = [1, 2, 3, 4, 5, 6, 7, 8, 9, 10]" by (simp add: MAX_PID_def upt_rec)
  have "filter (\<lambda>p. \<not> present (pcbs (tasks 8) p)) [1..<MAX_PID + 1] = [9, 10]"
    unfolding l by (simp add: tasks_props [OF m])
  then show ?thesis
    using process_ids_are_unique [OF tasks_props(1) [OF m], of 4] tasks_props(1) [OF m]
    by (simp add: Let_def mem_eval)
qed

theorem next_task_switches_witness:
  "tasks_wf (tasks 1) \<and> snd (next_task 0x7FF000 (tasks 1)) = Launch_shell \<and>
   processes (fst (next_task 0x7FF000 (tasks 1))) 0 = 1"
proof -
  obtain s' act where e: "next_task 0x7FF000 (tasks 1) = (s', act)" by fastforce
  have m: "1 \<le> MAX_PID" by (simp add: MAX_PID_def)
  note p = tasks_props [OF m]
  from next_task_switches [OF p(1) e refl refl] p e show ?thesis by simp
qed

text \<open>Three processes, one on each terminal; the third is running on terminal 0.\<close>

definition three_tasks :: tasking where
  "three_tasks = (tasks 3)\<lparr>processes := (\<lambda>_. 0)(1 := 1, 2 := 2)\<rparr>"

lemma three_tasks_wf: "tasks_wf three_tasks"
proof -
  have m: "3 \<le> MAX_PID" by (simp add: MAX_PID_def)
  note p = tasks_props [OF m]
  have q: "pd_ready (tasks 3) 0" "pd_ready (tasks 3) 1" "pd_ready (tasks 3) 2"
    using p(1,2) tasks_wfD(8) [OF p(1)] by (auto simp: tasks_wf_def MAX_PID_def)
  have pd: "pd_ready three_tasks x = pd_ready (tasks 3) x" for x
    by (rule pd_ready_cong) (simp_all add: three_tasks_def)
  have "paging_ok three_tasks = paging_ok (tasks 3)" by (rule paging_ok_cong) (simp_all add: three_tasks_def)
  then have "console_ok three_tasks"
    using tasks_wfD(5) [OF p(1)] by (simp add: console_ok_def cursor_ok_def) (simp add: three_tasks_def)
  moreover have "\<forall>t < 3. pd_ready three_tasks (processes three_tasks t)"
    using q by (simp add: pd) (simp add: three_tasks_def)
  ultimately show ?thesis
    using p(1) by (simp add: tasks_wf_def pd) (simp add: three_tasks_def)
qed

theorem round_robin_witness:
  "let s1 = fst (next_task 0x7FA000 three_tasks); s2 = fst (next_task 0x7FC000 s1)
   in current_process s1 = 1 \<and> current_process s2 = 2 \<and> snd (next_task 0x7FE000 s2) = Resume 0x7FA000"
proof -
  have m: "3 \<le> MAX_PID" by (simp add: MAX_PID_def)
  have f: "current_active_process three_tasks = 0" "current_process three_tasks = 3"
    "processes three_tasks = (\<lambda>_. 0)(1 := 1, 2 := 2)"
    using tasks_props [OF m] by (simp_all add: three_tasks_def)
  have "((\<lambda>_ :: nat. 0)(1 := 1, 2 := 2)) ((0 + 1) mod 3) = (1 :: nat)"
    "((\<lambda>_ :: nat. 0)(1 := 1, 2 := 2)) ((0 + 2) mod 3) = (2 :: nat)" by simp_all
  note rr = round_robin [OF three_tasks_wf refl refl refl _ _ _ _ _ refl refl refl,
      where sp = "0x7FA000" and ?sp1.0 = "0x7FC000" and ?sp2.0 = "0x7FE000", unfolded f this]
  show ?thesis unfolding Let_def using rr by simp
qed

end
