(* ===== verification/Terminal.thy ===== *)
theory Terminal
  imports Processes
begin

unbundle bit_operations_syntax

text \<open>
  The terminal driver (\<^verbatim>\<open>terminal.c\<close>): the line each of the three terminals is editing, the command
  history, and output to the terminal of the running process. The blocking \<open>term_read\<close> follows in
  theory Keyboard, since keyboard interrupts arrive while it waits.
\<close>

section \<open>State\<close>

text \<open>
  The arrays of \<^verbatim>\<open>terminal.c\<close>, first index the terminal. \<open>oob\<close> records that an index outside
  \<open>buffer[t]\<close> or \<open>history[t][h]\<close> was used; from then on the C program's behaviour is not defined and
  the model only keeps the flag. \<open>write_x\<close> and \<open>write_y\<close> are in the record of theory Screen.
\<close>

record terminal = tasking +
  buffer :: "nat \<Rightarrow> nat \<Rightarrow> byte"
  history :: "nat \<Rightarrow> nat \<Rightarrow> nat \<Rightarrow> byte"
  hist_indeces :: "nat \<Rightarrow> int"
  hist_bottom_indeces :: "nat \<Rightarrow> int"
  cur_pos :: "nat \<Rightarrow> int"
  cur_size :: "nat \<Rightarrow> int"
  prev_size :: "nat \<Rightarrow> int"
  wait_for_nl :: "nat \<Rightarrow> int"
  oob :: bool

definition HIST_SIZE :: int where "HIST_SIZE = 50"

definition SCREEN_WIDTH :: int where "SCREEN_WIDTH = 80"

definition START_POS :: int where "START_POS = 10"

definition BACKSPACE :: byte where "BACKSPACE = 8"

definition KB_IRQ :: u32 where "KB_IRQ = 1"

text \<open>Assignments to one element.\<close>

definition set_buffer :: "nat \<Rightarrow> int \<Rightarrow> byte \<Rightarrow> 'a terminal_scheme \<Rightarrow> 'a terminal_scheme" where
  "set_buffer t i c s =
     (if 0 \<le> i \<and> i < int BUF_SIZE
      then s\<lparr>buffer := (buffer s)(t := (buffer s t)(nat i := c))\<rparr>
      else s\<lparr>oob := True\<rparr>)"

definition set_cur_pos :: "nat \<Rightarrow> int \<Rightarrow> 'a terminal_scheme \<Rightarrow> 'a terminal_scheme" where
  "set_cur_pos t v s = s\<lparr>cur_pos := (cur_pos s)(t := v)\<rparr>"

definition set_cur_size :: "nat \<Rightarrow> int \<Rightarrow> 'a terminal_scheme \<Rightarrow> 'a terminal_scheme" where
  "set_cur_size t v s = s\<lparr>cur_size := (cur_size s)(t := v)\<rparr>"

definition set_write :: "nat \<Rightarrow> int \<Rightarrow> int \<Rightarrow> 'a screen_scheme \<Rightarrow> 'a screen_scheme" where
  "set_write t x y s = s\<lparr>write_x := (write_x s)(t := x), write_y := (write_y s)(t := y)\<rparr>"

section \<open>The operations\<close>

subsection \<open>Set up\<close>

definition noread :: int where "noread = - 1"

definition nowrite :: int where "nowrite = - 1"

definition term_init :: "'a terminal_scheme \<Rightarrow> 'a terminal_scheme" where
  "term_init s =
     (let t = current_terminal s;
          s = fold (\<lambda>j. set_buffer t (int j) 0) [0..<BUF_SIZE] s;
          s = set_cur_pos t 0 s;
          s = set_cur_size t 0 s
      in set_write t 0 0 s)"

definition term_clear :: "'a screen_scheme \<Rightarrow> 'a screen_scheme" where
  "term_clear s = set_pos 0 0 (clear s)"

definition term_open :: "device \<Rightarrow> 'a terminal_scheme \<Rightarrow> 'a terminal_scheme" where
  "term_open dev s =
     (let s = set_buffer (current_terminal s) 0 0 s;
          s = disable_irq dev KB_IRQ s
      in term_init s)"

definition term_close :: "device \<Rightarrow> 'a terminal_scheme \<Rightarrow> 'a terminal_scheme" where
  "term_close dev s = term_clear (enable_irq dev KB_IRQ s)"

definition term_switch :: "'a screen_scheme \<Rightarrow> 'a screen_scheme" where
  "term_switch s =
     set_pos (get_screen_x (current_terminal s) s) (get_screen_y (current_terminal s) s) s"

subsection \<open>Editing the line\<close>

text \<open>The cursor is to the right of (or below) the last position a program wrote to.\<close>

definition past_output :: "nat \<Rightarrow> 'a screen_scheme \<Rightarrow> bool" where
  "past_output t s \<longleftrightarrow> get_screen_y t s > write_y s t \<or>
     get_screen_y t s = write_y s t \<and> get_screen_x t s > write_x s t"

text \<open>Moves the line from \<open>cur_pos\<close> on by one place, from the back.\<close>

definition shift_line :: "nat \<Rightarrow> 'a terminal_scheme \<Rightarrow> 'a terminal_scheme" where
  "shift_line t s =
     fold (\<lambda>i s. if 0 \<le> i - 1 \<and> i - 1 < int BUF_SIZE then set_buffer t i (buffer s t (nat (i - 1))) s
                 else s\<lparr>oob := True\<rparr>)
       (rev [cur_pos s t + 1..cur_size s t]) s"

definition term_enter :: "nat \<Rightarrow> 'a terminal_scheme \<Rightarrow> 'a terminal_scheme" where
  "term_enter t s =
     (let s = set_buffer t (cur_size s t) 10 s;
          s = set_cur_pos t 0 s;
          s = s\<lparr>prev_size := (prev_size s)(t := cur_size s t)\<rparr>;
          s = set_cur_size t 0 s;
          s = set_write t 0 0 s
      in s\<lparr>wait_for_nl := (wait_for_nl s)(t := 0)\<rparr>)"

definition term_backspace :: "nat \<Rightarrow> 'a terminal_scheme \<Rightarrow> 'a terminal_scheme" where
  "term_backspace t s =
     (let at_end = cur_pos s t \<ge> cur_size s t - 1;
          bs_char = (if at_end then 0 else 0x20 :: byte);
          s = (if at_end then set_cur_size t (cur_size s t - 1) s else s) in
      if cur_pos s t > 0
      then
        (let s = (if past_output t s then move_left (putc_kb bs_char (move_left s)) else s);
             s = set_cur_pos t (cur_pos s t - 1) s
         in set_buffer t (cur_pos s t) bs_char s)
      else
        (let s = set_buffer t (cur_pos s t) bs_char s
         in if past_output t s then move_left (putc bs_char s) else s))"

definition term_insert :: "nat \<Rightarrow> byte \<Rightarrow> 'a terminal_scheme \<Rightarrow> 'a terminal_scheme" where
  "term_insert t c s =
     (let s = (if cur_pos s t < cur_size s t then shift_line t (scoot_text s) else s);
          s = putc_kb c s;
          s = set_buffer t (cur_pos s t) c s;
          s = set_cur_pos t (cur_pos s t + 1) s
      in set_cur_size t (cur_size s t + 1) s)"

definition term_putc :: "byte \<Rightarrow> 'a terminal_scheme \<Rightarrow> 'a terminal_scheme" where
  "term_putc c s =
     (let t = current_terminal s in
      if c = 10 \<or> c = 13 then term_enter t s
      else if c = BACKSPACE then term_backspace t s
      else if cur_pos s t < int BUF_SIZE - 1 \<and> cur_size s t < int BUF_SIZE - 1 then term_insert t c s
      else s)"

definition term_move_left :: "'a terminal_scheme \<Rightarrow> 'a terminal_scheme" where
  "term_move_left s =
     (let t = current_terminal s in
      if cur_pos s t > 0 \<and> past_output t s
      then (let s = move_left s in set_cur_pos t (cur_pos s t - 1) s) else s)"

definition term_move_right :: "'a terminal_scheme \<Rightarrow> 'a terminal_scheme" where
  "term_move_right s =
     (let t = current_terminal s in
      if cur_pos s t < cur_size s t
      then (let s = move_right s in set_cur_pos t (cur_pos s t + 1) s) else s)"

text \<open>\<open>term_puts\<close> feeds a string in memory through \<open>term_putc\<close>.\<close>

function term_puts_loop :: "u32 \<Rightarrow> int \<Rightarrow> 'a terminal_scheme \<Rightarrow> 'a terminal_scheme \<times> int" where
  "term_puts_loop st i s =
     (if i < int BUF_SIZE
      then (let c = kread8 s (st + of_int i) in
            if c = 0 then (s, i) else term_puts_loop st (i + 1) (term_putc c s))
      else (s, i))"
  by pat_completeness auto
termination by (relation "measure (\<lambda>(_, i, _). nat (int BUF_SIZE - i))") auto

declare term_puts_loop.simps [simp del]

definition term_puts :: "u32 \<Rightarrow> 'a terminal_scheme \<Rightarrow> 'a terminal_scheme \<times> int" where
  "term_puts st s = (if st = 0 then (s, 0) else term_puts_loop st 0 s)"

subsection \<open>Output of a program\<close>

definition term_write :: "u32 \<Rightarrow> int \<Rightarrow> 'a screen_scheme \<Rightarrow> 'a screen_scheme \<times> int" where
  "term_write buf cnt s =
     (let s = cli s;
          s = fold (\<lambda>i s. mt_putc (kread8 s (buf + of_int i)) s) [0..cnt - 1] s;
          p = current_active_process s;
          s = set_write p (get_screen_x p s) (get_screen_y p s) s
      in (sti s, cnt))"

subsection \<open>History\<close>

text \<open>Row \<open>h\<close> of the history of terminal \<open>t\<close>; the loops below stop at the end of the row.\<close>

definition set_history :: "nat \<Rightarrow> int \<Rightarrow> int \<Rightarrow> byte \<Rightarrow> 'a terminal_scheme \<Rightarrow> 'a terminal_scheme" where
  "set_history t h i c s =
     (if 0 \<le> h \<and> h < HIST_SIZE \<and> 0 \<le> i \<and> i < int BUF_SIZE
      then s\<lparr>history := (history s)(t := (history s t)(nat h := (history s t (nat h))(nat i := c)))\<rparr>
      else s\<lparr>oob := True\<rparr>)"

definition incr_hist_bottom :: "nat \<Rightarrow> 'a terminal_scheme \<Rightarrow> 'a terminal_scheme" where
  "incr_hist_bottom t s =
     s\<lparr>hist_bottom_indeces := (hist_bottom_indeces s)(t := (hist_bottom_indeces s t + 1) mod HIST_SIZE)\<rparr>"

function save_hist_loop :: "nat \<Rightarrow> u32 \<Rightarrow> nat \<Rightarrow> 'a terminal_scheme \<Rightarrow> 'a terminal_scheme" where
  "save_hist_loop t buf i s =
     (let c = kread8 s (buf + of_nat i) in
      if c = 10 \<or> c = 0 then s
      else if i < BUF_SIZE
      then save_hist_loop t buf (i + 1) (set_history t (hist_bottom_indeces s t) (int i) c s)
      else s\<lparr>oob := True\<rparr>)"
  by pat_completeness auto
termination by (relation "measure (\<lambda>(_, _, i, _). BUF_SIZE - i)") auto

declare save_hist_loop.simps [simp del]

definition save_hist :: "u32 \<Rightarrow> 'a terminal_scheme \<Rightarrow> 'a terminal_scheme" where
  "save_hist buf s =
     (let t = current_terminal s;
          s = incr_hist_bottom t s;
          s = fold (\<lambda>i s. set_history t (hist_bottom_indeces s t) (int i) 0 s) [0..<BUF_SIZE] s;
          s = save_hist_loop t buf 0 s;
          s = incr_hist_bottom t s
      in s\<lparr>hist_indeces := (hist_indeces s)(t := hist_bottom_indeces s t)\<rparr>)"

definition hist_row :: "nat \<Rightarrow> 'a terminal_scheme \<Rightarrow> nat \<Rightarrow> byte" where
  "hist_row t s = history s t (nat (hist_indeces s t))"

definition prev_hist :: "nat \<Rightarrow> 'a terminal_scheme \<Rightarrow> 'a terminal_scheme" where
  "prev_hist t s =
     (let i = hist_indeces s t - 1
      in s\<lparr>hist_indeces := (hist_indeces s)(t := if i < 0 then HIST_SIZE - 1 else i)\<rparr>)"

definition next_hist :: "nat \<Rightarrow> 'a terminal_scheme \<Rightarrow> 'a terminal_scheme" where
  "next_hist t s =
     s\<lparr>hist_indeces := (hist_indeces s)(t := (hist_indeces s t + 1) mod HIST_SIZE)\<rparr>"

text \<open>The search for a row that is not empty: at most \<open>n\<close> further steps.\<close>

primrec skip_empty :: "(nat \<Rightarrow> 'a terminal_scheme \<Rightarrow> 'a terminal_scheme) \<Rightarrow> nat \<Rightarrow> nat \<Rightarrow>
    'a terminal_scheme \<Rightarrow> 'a terminal_scheme" where
  "skip_empty move t 0 s = s"
| "skip_empty move t (Suc n) s = (if hist_row t s 0 = 0 then skip_empty move t n (move t s) else s)"

function erase_line :: "nat \<Rightarrow> nat \<Rightarrow> 'a terminal_scheme \<Rightarrow> 'a terminal_scheme" where
  "erase_line t i s =
     (if int i < SCREEN_WIDTH - START_POS - 1 then erase_line t (i + 1) (putc 0 s)
      else if BUF_SIZE \<le> i then s\<lparr>oob := True\<rparr>
      else if hist_row t s i \<noteq> 0 then erase_line t (i + 1) (putc 0 s)
      else s)"
  by pat_completeness auto
termination by (relation "measure (\<lambda>(_, i, _). BUF_SIZE - i)") (auto simp: SCREEN_WIDTH_def START_POS_def BUF_SIZE_def)

declare erase_line.simps [simp del]

function recall_line :: "nat \<Rightarrow> nat \<Rightarrow> 'a terminal_scheme \<Rightarrow> 'a terminal_scheme" where
  "recall_line t i s =
     (if BUF_SIZE \<le> i then s\<lparr>oob := True\<rparr>
      else if hist_row t s i \<noteq> 0
      then
        (let s = set_buffer t (int i) (hist_row t s i) s;
             s = putc (buffer s t i) s;
             s = set_cur_pos t (cur_pos s t + 1) s;
             s = set_cur_size t (cur_size s t + 1) s
         in recall_line t (i + 1) s)
      else s)"
  by pat_completeness auto
termination by (relation "measure (\<lambda>(_, i, _). BUF_SIZE - i)") (auto simp: BUF_SIZE_def)

declare recall_line.simps [simp del]

definition up_hist :: "'a terminal_scheme \<Rightarrow> 'a terminal_scheme" where
  "up_hist s =
     (let t = current_terminal s;
          s = prev_hist t s;
          s = (if hist_row t s 0 = 0 then skip_empty prev_hist t (nat HIST_SIZE) s else s) in
      if hist_row t s 0 = 0 then s
      else
        (let s = set_pos (write_x s t) (write_y s t) s;
             s = set_cur_pos t 0 s;
             s = set_cur_size t 0 s;
             s = erase_line t 0 s;
             s = set_pos (write_x s t) (write_y s t) s
         in recall_line t 0 s))"

definition down_hist :: "'a terminal_scheme \<Rightarrow> 'a terminal_scheme" where
  "down_hist s =
     (let t = current_terminal s;
          s = next_hist t s;
          s = (if hist_row t s 0 = 0 then skip_empty next_hist t (nat HIST_SIZE) s else s) in
      if hist_row t s 0 = 0 then s
      else
        (let s = set_pos (write_x s t) (write_y s t) s;
             s = erase_line t 0 s;
             s = set_pos (write_x s t) (write_y s t) s
         in recall_line t 0 s))"

section \<open>The console leaves the driver's state alone\<close>

lemma rest_terminal:
  fixes s :: "'a terminal_scheme"
  assumes "rest s' = rest s"
  shows "buffer s' = buffer s" "history s' = history s" "hist_indeces s' = hist_indeces s"
    "hist_bottom_indeces s' = hist_bottom_indeces s" "cur_pos s' = cur_pos s" "cur_size s' = cur_size s"
    "prev_size s' = prev_size s" "wait_for_nl s' = wait_for_nl s" "oob s' = oob s"
    "terminal.more s' = terminal.more s" "current_terminal s' = current_terminal s"
    "current_active_process s' = current_active_process s"
proof -
  have m: "screen.more s' = screen.more s" using restD(12) [OF assms] .
  then show "buffer s' = buffer s" "history s' = history s" "hist_indeces s' = hist_indeces s"
    "hist_bottom_indeces s' = hist_bottom_indeces s" "cur_pos s' = cur_pos s" "cur_size s' = cur_size s"
    "prev_size s' = prev_size s" "wait_for_nl s' = wait_for_nl s" "oob s' = oob s"
    "terminal.more s' = terminal.more s"
    by (cases s; cases s'; simp)+
  show "current_terminal s' = current_terminal s" "current_active_process s' = current_active_process s"
    using restD [OF assms] by simp_all
qed

lemmas console_keeps_terminal [simp] =
  rest_terminal [OF rest_output(1)] rest_terminal [OF rest_output(2)] rest_terminal [OF rest_output(3)]
  rest_terminal [OF rest_console(3)] rest_terminal [OF rest_console(5)] rest_terminal [OF rest_console(6)]
  rest_terminal [OF rest_console(7)] rest_terminal [OF rest_console(8)] rest_terminal [OF rest_console(9)]
  rest_terminal [OF rest_basic(5)] rest_terminal [OF rest_basic(6)]

lemma set_fields [simp]:
  "cur_pos (set_cur_pos t v s) = (cur_pos s)(t := v)" "cur_size (set_cur_pos t v s) = cur_size s"
  "cur_size (set_cur_size t v s) = (cur_size s)(t := v)" "cur_pos (set_cur_size t v s) = cur_pos s"
  "buffer (set_cur_pos t v s) = buffer s" "buffer (set_cur_size t v s) = buffer s"
  "oob (set_cur_pos t v s) = oob s" "oob (set_cur_size t v s) = oob s"
  "history (set_cur_pos t v s) = history s" "history (set_cur_size t v s) = history s"
  "hist_indeces (set_cur_pos t v s) = hist_indeces s" "hist_indeces (set_cur_size t v s) = hist_indeces s"
  "current_terminal (set_cur_pos t v s) = current_terminal s" "current_terminal (set_cur_size t v s) = current_terminal s"
  "wait_for_nl (set_cur_pos t v s) = wait_for_nl s" "wait_for_nl (set_cur_size t v s) = wait_for_nl s"
  "cur_pos (set_buffer t i c s) = cur_pos s" "cur_size (set_buffer t i c s) = cur_size s"
  "current_terminal (set_buffer t i c s) = current_terminal s" "wait_for_nl (set_buffer t i c s) = wait_for_nl s"
  "history (set_buffer t i c s) = history s" "hist_indeces (set_buffer t i c s) = hist_indeces s"
  by (simp_all add: set_cur_pos_def set_cur_size_def set_buffer_def)

lemma set_write_fields [simp]:
  fixes s :: "'a terminal_scheme"
  shows "buffer (set_write t x y s) = buffer s" "cur_pos (set_write t x y s) = cur_pos s"
    "cur_size (set_write t x y s) = cur_size s" "oob (set_write t x y s) = oob s"
    "wait_for_nl (set_write t x y s) = wait_for_nl s" "history (set_write t x y s) = history s"
    "hist_indeces (set_write t x y s) = hist_indeces s"
    "current_terminal (set_write t x y s) = current_terminal s"
  by (simp_all add: set_write_def)

lemma set_buffer_in [simp]:
  assumes "0 \<le> i" and "i < int BUF_SIZE"
  shows "buffer (set_buffer t i c s) = (buffer s)(t := (buffer s t)(nat i := c))" "oob (set_buffer t i c s) = oob s"
  using assms by (simp_all add: set_buffer_def)

section \<open>The line editor\<close>

text \<open>
  The line under construction and the editing position in it. The specification of one typed
  character: enter starts a new line, backspace is what \<open>term_putc\<close> makes of it, any other
  character is inserted as long as the line has fewer than 127.
\<close>

type_synonym edit_line = "byte list \<times> nat"

definition line_view :: "nat \<Rightarrow> 'a terminal_scheme \<Rightarrow> edit_line" where
  "line_view t s = (map (buffer s t) [0..<nat (cur_size s t)], nat (cur_pos s t))"

definition line_ok :: "nat \<Rightarrow> 'a terminal_scheme \<Rightarrow> bool" where
  "line_ok t s \<longleftrightarrow> 0 \<le> cur_pos s t \<and> cur_pos s t \<le> cur_size s t \<and> cur_size s t < int BUF_SIZE"

definition abackspace :: "edit_line \<Rightarrow> edit_line" where
  "abackspace = (\<lambda>(l, p).
     if p = length l then (butlast l, p - 1)
     else if p = length l - 1 then ((butlast l)[p - 1 := 0], p - 1)
     else (l[p - 1 := 0x20], p - 1))"

definition aedit :: "byte \<Rightarrow> edit_line \<Rightarrow> edit_line" where
  "aedit c = (\<lambda>(l, p).
     if c = 10 \<or> c = 13 then ([], 0)
     else if c = BACKSPACE then abackspace (l, p)
     else if length l < BUF_SIZE - 1 then (take p l @ c # drop p l, p + 1)
     else (l, p))"

lemma shift_fold:
  assumes "0 \<le> p" and "p + int d < int BUF_SIZE"
  shows "fold (\<lambda>i s. if 0 \<le> i - 1 \<and> i - 1 < int BUF_SIZE then set_buffer t i (buffer s t (nat (i - 1))) s
      else s\<lparr>oob := True\<rparr>) (rev [p + 1..p + int d]) s =
    s\<lparr>buffer := (buffer s)(t := \<lambda>k. if nat p < k \<and> k \<le> nat p + d then buffer s t (k - 1) else buffer s t k)\<rparr>"
  using assms
proof (induction d arbitrary: s)
  case 0
  have "(buffer s)(t := \<lambda>k. if nat p < k \<and> k \<le> nat p + 0 then buffer s t (k - 1) else buffer s t k) = buffer s"
    by (auto simp: fun_eq_iff)
  then show ?case by simp
next
  case (Suc d)
  have l: "[p + 1..p + int (Suc d)] = [p + 1..p + int d] @ [p + int (Suc d)]"
    using upto_rec2 [of "p + 1" "p + int (Suc d)"] by (simp add: algebra_simps)
  have n: "nat (p + int (Suc d)) = nat p + Suc d" "nat (p + int d) = nat p + d" using Suc.prems(1) by simp_all
  have f: "set_buffer t (p + int (Suc d)) (buffer s t (nat (p + int (Suc d) - 1))) s =
      s\<lparr>buffer := (buffer s)(t := (buffer s t)(nat p + Suc d := buffer s t (nat p + d)))\<rparr>" (is "_ = ?s'")
    using Suc.prems n by (simp add: set_buffer_def)
  have "fold (\<lambda>i s. if 0 \<le> i - 1 \<and> i - 1 < int BUF_SIZE then set_buffer t i (buffer s t (nat (i - 1))) s
      else s\<lparr>oob := True\<rparr>) (rev [p + 1..p + int d]) ?s' =
    ?s'\<lparr>buffer := (buffer ?s')(t := \<lambda>k. if nat p < k \<and> k \<le> nat p + d then buffer ?s' t (k - 1) else buffer ?s' t k)\<rparr>"
    using Suc.prems by (intro Suc.IH) simp_all
  also have "\<dots> = s\<lparr>buffer := (buffer s)(t := \<lambda>k. if nat p < k \<and> k \<le> nat p + Suc d then buffer s t (k - 1) else buffer s t k)\<rparr>"
    by (rule trans [OF _ arg_cong [of _ _ "\<lambda>b. s\<lparr>buffer := b\<rparr>"]], simp) (auto simp: fun_eq_iff le_Suc_eq)
  finally have "fold (\<lambda>i s. if 0 \<le> i - 1 \<and> i - 1 < int BUF_SIZE then set_buffer t i (buffer s t (nat (i - 1))) s
      else s\<lparr>oob := True\<rparr>) (rev [p + 1..p + int d]) ?s' =
    s\<lparr>buffer := (buffer s)(t := \<lambda>k. if nat p < k \<and> k \<le> nat p + Suc d then buffer s t (k - 1) else buffer s t k)\<rparr>" .
  moreover have "0 \<le> p + int (Suc d) - 1" "p + int (Suc d) - 1 < int BUF_SIZE" using Suc.prems by simp_all
  ultimately show ?case by (simp only: l rev_append rev.simps append.simps fold_simps f if_True simp_thms)
qed

lemma shift_line_eq:
  assumes "line_ok t s"
  shows "shift_line t s = s\<lparr>buffer := (buffer s)(t := \<lambda>k. if nat (cur_pos s t) < k \<and> k \<le> nat (cur_size s t)
    then buffer s t (k - 1) else buffer s t k)\<rparr>"
proof -
  define d where "d = nat (cur_size s t - cur_pos s t)"
  have d: "cur_size s t = cur_pos s t + int d" "nat (cur_size s t) = nat (cur_pos s t) + d"
    using assms by (auto simp: line_ok_def d_def)
  have "0 \<le> cur_pos s t" "cur_pos s t + int d < int BUF_SIZE" using assms d(1) by (auto simp: line_ok_def)
  from shift_fold [OF this] show ?thesis unfolding shift_line_def d(2) unfolding d(1) .
qed

lemma nth_insert:
  "p \<le> length l \<Longrightarrow> k \<le> length l \<Longrightarrow> (take p l @ c # drop p l) ! k = (if k < p then l ! k else if k = p then c else l ! (k - 1))"
  by (auto simp: nth_append nth_Cons' min_def)

lemma term_insert_buffer:
  assumes ok: "line_ok t s" and full: "cur_size s t < int BUF_SIZE - 1"
  shows "cur_pos (term_insert t c s) = (cur_pos s)(t := cur_pos s t + 1)"
    "cur_size (term_insert t c s) = (cur_size s)(t := cur_size s t + 1)" "oob (term_insert t c s) = oob s"
    "buffer (term_insert t c s) = (buffer s)(t := \<lambda>k. if k = nat (cur_pos s t) then c
       else if nat (cur_pos s t) < k \<and> k \<le> nat (cur_size s t) then buffer s t (k - 1) else buffer s t k)"
    "wait_for_nl (term_insert t c s) = wait_for_nl s" "current_terminal (term_insert t c s) = current_terminal s"
proof -
  have ok': "line_ok t (scoot_text s)" using ok by (simp add: line_ok_def)
  show "cur_pos (term_insert t c s) = (cur_pos s)(t := cur_pos s t + 1)"
    "cur_size (term_insert t c s) = (cur_size s)(t := cur_size s t + 1)" "oob (term_insert t c s) = oob s"
    "buffer (term_insert t c s) = (buffer s)(t := \<lambda>k. if k = nat (cur_pos s t) then c
       else if nat (cur_pos s t) < k \<and> k \<le> nat (cur_size s t) then buffer s t (k - 1) else buffer s t k)"
    "wait_for_nl (term_insert t c s) = wait_for_nl s" "current_terminal (term_insert t c s) = current_terminal s"
    using ok full shift_line_eq [OF ok'] by (auto simp: term_insert_def Let_def line_ok_def fun_eq_iff)
qed

lemma term_insert_view:
  assumes ok: "line_ok t s" and full: "cur_size s t < int BUF_SIZE - 1"
  shows "line_view t (term_insert t c s) = (let (l, p) = line_view t s in (take p l @ c # drop p l, p + 1))"
proof -
  note b = term_insert_buffer [OF assms]
  have n: "nat (cur_size s t + 1) = Suc (nat (cur_size s t))" "nat (cur_pos s t) \<le> nat (cur_size s t)"
    using ok by (auto simp: line_ok_def)
  have "map (buffer (term_insert t c s) t) [0..<Suc (nat (cur_size s t))] =
      (let l = map (buffer s t) [0..<nat (cur_size s t)]; p = nat (cur_pos s t) in take p l @ c # drop p l)"
    unfolding Let_def
  proof (rule nth_equalityI)
    fix k assume "k < length (map (buffer (term_insert t c s) t) [0..<Suc (nat (cur_size s t))])"
    then have k: "k \<le> nat (cur_size s t)" by simp
    then have "map (buffer (term_insert t c s) t) [0..<Suc (nat (cur_size s t))] ! k = buffer (term_insert t c s) t k"
      by (simp del: upt_Suc)
    then show "map (buffer (term_insert t c s) t) [0..<Suc (nat (cur_size s t))] ! k =
        (take (nat (cur_pos s t)) (map (buffer s t) [0..<nat (cur_size s t)]) @
         c # drop (nat (cur_pos s t)) (map (buffer s t) [0..<nat (cur_size s t)])) ! k"
      using k n(2) by (subst nth_insert) (auto simp: b(4))
  qed (use n in simp)
  moreover have "nat (cur_pos s t + 1) = nat (cur_pos s t) + 1" using ok by (auto simp: line_ok_def)
  ultimately show ?thesis using n by (simp add: line_view_def b(1,2) Let_def)
qed

lemma term_backspace_buffer:
  assumes ok: "line_ok t s" and ne: "cur_size s t \<noteq> 0"
  shows "cur_pos (term_backspace t s) = (cur_pos s)(t := max 0 (cur_pos s t - 1))"
    "cur_size (term_backspace t s) = (cur_size s)(t := if cur_size s t - 1 \<le> cur_pos s t then cur_size s t - 1 else cur_size s t)"
    "buffer (term_backspace t s) = (buffer s)(t := (buffer s t)(nat (cur_pos s t - 1) :=
       if cur_size s t - 1 \<le> cur_pos s t then 0 else 0x20))"
    "oob (term_backspace t s) = oob s" "wait_for_nl (term_backspace t s) = wait_for_nl s"
    "current_terminal (term_backspace t s) = current_terminal s"
proof -
  have n: "nat (cur_pos s t - 1) = nat (cur_pos s t)" if "\<not> 0 < cur_pos s t" using that by simp
  have b: "0 \<le> cur_pos s t" "cur_pos s t < int BUF_SIZE" using ok by (auto simp: line_ok_def)
  show "cur_pos (term_backspace t s) = (cur_pos s)(t := max 0 (cur_pos s t - 1))"
    "cur_size (term_backspace t s) = (cur_size s)(t := if cur_size s t - 1 \<le> cur_pos s t then cur_size s t - 1 else cur_size s t)"
    "oob (term_backspace t s) = oob s" "wait_for_nl (term_backspace t s) = wait_for_nl s"
    "current_terminal (term_backspace t s) = current_terminal s"
    using b by (auto simp: term_backspace_def Let_def max_def)
  show "buffer (term_backspace t s) = (buffer s)(t := (buffer s t)(nat (cur_pos s t - 1) :=
       if cur_size s t - 1 \<le> cur_pos s t then 0 else 0x20))"
    using b n by (auto simp: term_backspace_def Let_def)
qed

lemma map_upd_upt: "map (f(k := x)) [0..<n] = (map f [0..<n])[k := x]"
  by (rule nth_equalityI) (auto simp: nth_list_update)

lemma term_backspace_view:
  assumes ok: "line_ok t s" and ne: "cur_size s t \<noteq> 0"
  shows "line_view t (term_backspace t s) = abackspace (line_view t s)"
proof -
  note b = term_backspace_buffer [OF assms]
  define n p where "n = nat (cur_size s t)" and "p = nat (cur_pos s t)"
  have c: "cur_size s t = int n" "cur_pos s t = int p" "p \<le> n" "0 < n"
    using ok ne by (auto simp: line_ok_def n_def p_def)
  have q: "nat (int p - 1) = p - 1" "nat (max 0 (int p - 1)) = p - 1" "nat (int n - 1) = n - 1" by auto
  have bl: "butlast (map (buffer s t) [0..<n]) = map (buffer s t) [0..<n - 1]"
    using c(4) by (cases n) simp_all
  show ?thesis
    using c(3,4)
    by (auto simp: line_view_def b c(1,2) q abackspace_def bl map_upd_upt list_update_beyond split: if_splits)
qed

definition edit_guard :: "byte \<Rightarrow> edit_line \<Rightarrow> bool" where
  "edit_guard c = (\<lambda>(l, p). \<not> (c = BACKSPACE \<and> l = []))"

lemma term_putc_step:
  assumes ok: "line_ok t s" and t: "current_terminal s = t" and g: "edit_guard c (line_view t s)"
  shows "line_view t (term_putc c s) = aedit c (line_view t s) \<and> line_ok t (term_putc c s) \<and>
    oob (term_putc c s) = oob s \<and> current_terminal (term_putc c s) = t"
proof -
  have bounds: "0 \<le> cur_pos s t" "cur_pos s t \<le> cur_size s t" "cur_size s t < int BUF_SIZE"
    using ok by (auto simp: line_ok_def)
  consider (enter) "c = 10 \<or> c = 13" | (bs) "c = BACKSPACE" "c \<noteq> 10" "c \<noteq> 13"
    | (ins) "c \<noteq> 10" "c \<noteq> 13" "c \<noteq> BACKSPACE" by blast
  then show ?thesis
  proof cases
    case enter
    then show ?thesis
      using bounds t
      by (auto simp: term_putc_def term_enter_def Let_def line_view_def line_ok_def aedit_def BUF_SIZE_def)
  next
    case bs
    have ne: "cur_size s t \<noteq> 0" using g bs bounds by (auto simp: edit_guard_def line_view_def)
    show ?thesis
      using bs t term_backspace_view [OF ok ne] term_backspace_buffer [OF ok ne] bounds ne
      by (auto simp: term_putc_def Let_def aedit_def line_ok_def split_beta)
  next
    case ins
    show ?thesis
    proof (cases "cur_size s t < int BUF_SIZE - 1")
      case True
      then show ?thesis
        using ins t bounds term_insert_view [OF ok True, of c] term_insert_buffer [OF ok True, of c]
        by (auto simp: term_putc_def Let_def aedit_def line_ok_def line_view_def)
    next
      case False
      then show ?thesis using ins t bounds ok by (auto simp: term_putc_def aedit_def line_view_def)
    qed
  qed
qed

interpretation editor: guarded_refinement term_putc "\<lambda>s. line_ok t s \<and> current_terminal s = t \<and> \<not> oob s"
    "line_view t" edit_guard aedit
  for t
  using term_putc_step by unfold_locales (blast, metis)

definition demo_terminal :: terminal where
  "demo_terminal = tasking.extend boot_tasks
     \<lparr>buffer = (\<lambda>_ _. 0), history = (\<lambda>_ _ _. 0), hist_indeces = (\<lambda>_. 0), hist_bottom_indeces = (\<lambda>_. 0),
      cur_pos = (\<lambda>_. 0), cur_size = (\<lambda>_. 0), prev_size = (\<lambda>_. 0), wait_for_nl = (\<lambda>_. 0), oob = False\<rparr>"

lemma demo_terminal_ok:
  "line_ok 0 demo_terminal" "\<not> oob demo_terminal" "current_terminal demo_terminal = 0"
  "line_view 0 demo_terminal = ([], 0)" "cur_size demo_terminal = (\<lambda>_. 0)"
  by (simp_all add: demo_terminal_def line_ok_def line_view_def BUF_SIZE_def tasking.defs boot_tasks_simps)

text \<open>
  C24. The line editor: typing any sequence of characters on the displayed terminal edits the line the
  way the specification says (a character is inserted at the cursor while the line is shorter than
  127, enter starts a new line, backspace at the end removes the last character), and no access leaves
  the buffer; the only exception is a backspace on an empty line.
\<close>

theorem typing_edits_line:
  assumes "line_ok t s" and "t = current_terminal s" and "\<not> oob s"
    and "allowed_run edit_guard aedit cs (line_view t s)"
  shows "line_view t (fold term_putc cs s) = fold aedit cs (line_view t s) \<and>
    line_ok t (fold term_putc cs s) \<and> \<not> oob (fold term_putc cs s)"
  using editor.guarded_run [of t s cs] assms by simp

theorem typing_edits_line_witness:
  "line_view 0 (fold term_putc (str ''lsx'' @ [8]) demo_terminal) = (str ''ls'', 2)"
proof -
  have e: "allowed_run edit_guard aedit (str ''lsx'' @ [8]) (line_view 0 demo_terminal)"
    "fold aedit (str ''lsx'' @ [8]) (line_view 0 demo_terminal) = (str ''ls'', 2)"
    by (simp_all add: demo_terminal_ok str_def edit_guard_def aedit_def abackspace_def BACKSPACE_def BUF_SIZE_def)
  then show ?thesis
    using typing_edits_line [OF demo_terminal_ok(1) demo_terminal_ok(3) [symmetric] demo_terminal_ok(2) e(1)]
    by simp
qed

text \<open>
  C39. Backspace on an empty line makes the size of the line -1, and the newline typed next is stored
  in front of the buffer.
\<close>

theorem backspace_on_empty_line:
  assumes "line_ok t s" and "t = current_terminal s" and "cur_size s t = 0"
  shows "cur_size (term_putc BACKSPACE s) t = - 1 \<and> oob (term_putc 10 (term_putc BACKSPACE s))"
proof -
  have "cur_pos s t = 0" using assms by (auto simp: line_ok_def)
  then have "cur_size (term_putc BACKSPACE s) t = - 1" "current_terminal (term_putc BACKSPACE s) = t"
    using assms by (simp_all add: term_putc_def BACKSPACE_def term_backspace_def Let_def)
  then show ?thesis by (simp add: term_putc_def [of 10] term_enter_def Let_def set_buffer_def)
qed

theorem backspace_on_empty_line_witness:
  "cur_size (term_putc BACKSPACE demo_terminal) 0 = - 1 \<and> oob (term_putc 10 (term_putc BACKSPACE demo_terminal))"
  using backspace_on_empty_line [OF demo_terminal_ok(1) demo_terminal_ok(3) [symmetric]]
  by (simp add: demo_terminal_ok)

section \<open>Command lines in memory\<close>

lemma kread8_history [simp]:
  "kread8 (s\<lparr>history := h\<rparr>) = kread8 s" "kread8 (s\<lparr>hist_bottom_indeces := b\<rparr>) = kread8 s"
  "kread8 (s\<lparr>hist_indeces := i\<rparr>) = kread8 s"
  using translate_cong [of "s\<lparr>history := h\<rparr>" s] translate_cong [of "s\<lparr>hist_bottom_indeces := b\<rparr>" s]
    translate_cong [of "s\<lparr>hist_indeces := i\<rparr>" s]
  by (simp_all add: fun_eq_iff kread8_def split: option.split)

lemma vmem_history [simp]:
  "vmem (s\<lparr>history := h\<rparr>) = vmem s" "vmem (s\<lparr>hist_bottom_indeces := b\<rparr>) = vmem s"
  "vmem (s\<lparr>hist_indeces := i\<rparr>) = vmem s"
  by (simp_all add: fun_eq_iff vmem_def)

text \<open>A command line in memory, as the shell passes it, and the history row that stores it.\<close>

definition cmd_line :: "'a machine_scheme \<Rightarrow> u32 \<Rightarrow> byte list \<Rightarrow> bool" where
  "cmd_line s buf l \<longleftrightarrow> rd_bytes (vmem s) buf (length l) = l \<and>
     (vmem s (buf + of_nat (length l)) = 0 \<or> vmem s (buf + of_nat (length l)) = 10) \<and>
     l \<noteq> [] \<and> 0 \<notin> set l \<and> 10 \<notin> set l \<and> length l < BUF_SIZE"

text \<open>The terminal of the first witness, with a command line in kernel memory.\<close>

definition typed_terminal :: "byte list \<Rightarrow> terminal" where
  "typed_terminal l = demo_terminal\<lparr>phys := wr_bytes (phys demo_terminal) 0x480000 (l @ [10])\<rparr>"

lemma typed_terminal_simps:
  "current_terminal (typed_terminal l) = 0" "history (typed_terminal l) = (\<lambda>_ _ _. 0)"
  "hist_bottom_indeces (typed_terminal l) = (\<lambda>_. 0)" "hist_indeces (typed_terminal l) = (\<lambda>_. 0)"
  by (simp_all add: typed_terminal_def demo_terminal_def tasking.defs boot_tasks_simps)

lemma demo_terminal_paging: "paging_ok demo_terminal"
proof -
  have "paging_ok demo_terminal = paging_ok boot_tasks"
    by (rule paging_ok_cong) (simp_all add: demo_terminal_def tasking.defs)
  then show ?thesis using boot_tasks_wf by (simp add: tasks_wf_def console_ok_def)
qed

lemma typed_terminal_cmd:
  assumes "l \<noteq> []" and "0 \<notin> set l" and "10 \<notin> set l" and "length l < BUF_SIZE"
  shows "cmd_line (typed_terminal l) 0x480000 l"
proof -
  have "paging_ok (typed_terminal l)" using demo_terminal_paging by (simp add: typed_terminal_def)
  moreover have "mapped_run (typed_terminal l) 0x480000 0x480000 (length l + 1)"
    using assms(4) by (intro mapped_kernel) (simp_all add: BUF_SIZE_def)
  ultimately have "rd_bytes (vmem (typed_terminal l)) 0x480000 (length l + 1) = l @ [10]"
    using rd_vmem [of "typed_terminal l" "0x480000" "0x480000" "length l + 1"]
      rd_wr_bytes_same [of "l @ [10]" "phys demo_terminal" "0x480000"] assms(4)
    by (simp add: typed_terminal_def BUF_SIZE_def)
  then have "rd_bytes (vmem (typed_terminal l)) 0x480000 (length l) @ [vmem (typed_terminal l) (0x480000 + of_nat (length l))] = l @ [10]"
    unfolding rd_bytes_add by simp
  then show ?thesis using assms by (simp add: cmd_line_def)
qed

end
