(* ===== verification/Term_History.thy ===== *)
theory Term_History
  imports Terminal
begin

unbundle bit_operations_syntax

text \<open>
  The command history of \<^verbatim>\<open>terminal.c\<close>: \<open>save_hist\<close> stores a command in the ring of 50 rows, \<open>up_hist\<close>
  finds it again, skipping the rows that are left empty.
\<close>

section \<open>Command history\<close>

definition row_of :: "byte list \<Rightarrow> (nat \<Rightarrow> byte) \<Rightarrow> nat \<Rightarrow> byte" where
  "row_of l old i = (if i < length l then l ! i else if i < BUF_SIZE then 0 else old i)"

lemma clear_row:
  assumes "0 \<le> h" and "h < HIST_SIZE" and "hist_bottom_indeces s t = h" and "n \<le> BUF_SIZE"
  shows "fold (\<lambda>i s. set_history t (hist_bottom_indeces s t) (int i) 0 s) [0..<n] s =
    s\<lparr>history := (history s)(t := (history s t)(nat h := \<lambda>i. if i < n then 0 else history s t (nat h) i))\<rparr>"
  using assms(4)
proof (induction n)
  case 0
  then show ?case by simp
next
  case (Suc n)
  then show ?case
    using assms(1-3)
    by (auto simp: set_history_def fun_eq_iff less_Suc_eq intro!: arg_cong [of _ _ "\<lambda>h. s\<lparr>history := h\<rparr>"])
qed

lemma save_hist_loop_eq:
  assumes "0 \<le> h" and "h < HIST_SIZE" and "hist_bottom_indeces s t = h" and "cmd_line s buf l" and "i \<le> length l"
  shows "save_hist_loop t buf i s = s\<lparr>history := (history s)(t := (history s t)(nat h :=
      \<lambda>k. if i \<le> k \<and> k < length l then l ! k else history s t (nat h) k))\<rparr>"
  using assms(3-5)
proof (induction "length l - i" arbitrary: i s)
  case 0
  then have i: "i = length l" by simp
  have "(history s)(t := (history s t)(nat h :=
      \<lambda>k. if i \<le> k \<and> k < length l then l ! k else history s t (nat h) k)) = history s"
    by (auto simp: fun_eq_iff i)
  then show ?case
    using 0 by (subst save_hist_loop.simps) (auto simp: i cmd_line_def vmem_def)
next
  case (Suc n)
  then have i: "i < length l" and len: "length l < BUF_SIZE" by (auto simp: cmd_line_def)
  have "rd_bytes (vmem s) buf (length l) = l" using Suc.prems(2) by (simp add: cmd_line_def)
  then have "rd_bytes (vmem s) buf (length l) ! i = l ! i" by simp
  then have "kread8 s (buf + of_nat i) = l ! i" using i by (simp add: vmem_def)
  moreover have "0 \<notin> set l" "10 \<notin> set l" using Suc.prems(2) by (simp_all add: cmd_line_def)
  then have "l ! i \<noteq> 0" "l ! i \<noteq> 10" using nth_mem [OF i] by metis+
  moreover define s1 where "s1 = s\<lparr>history := (history s)(t := (history s t)(nat h := (history s t (nat h))(i := l ! i)))\<rparr>"
  moreover have "set_history t h (int i) (l ! i) s = s1"
    using assms(1,2) i len by (simp add: set_history_def s1_def)
  ultimately have "save_hist_loop t buf i s = save_hist_loop t buf (i + 1) s1"
    using Suc.prems(1) i len by (subst save_hist_loop.simps) (simp add: Let_def)
  also have "\<dots> = s1\<lparr>history := (history s1)(t := (history s1 t)(nat h :=
      \<lambda>k. if i + 1 \<le> k \<and> k < length l then l ! k else history s1 t (nat h) k))\<rparr>"
    using Suc.prems Suc.hyps(2) i by (intro Suc.hyps(1)) (simp_all add: s1_def cmd_line_def)
  also have "\<dots> = s\<lparr>history := (history s)(t := (history s t)(nat h :=
      \<lambda>k. if i \<le> k \<and> k < length l then l ! k else history s t (nat h) k))\<rparr>"
    using i by (auto simp: s1_def fun_eq_iff intro!: arg_cong [of _ _ "\<lambda>h. s\<lparr>history := h\<rparr>"])
  finally show ?case .
qed

lemma save_hist_eq:
  assumes "cmd_line s buf l" and "t = current_terminal s" and "h = (hist_bottom_indeces s t + 1) mod 50"
    and "b = (h + 1) mod 50"
  shows "save_hist buf s = s\<lparr>history := (history s)(t := (history s t)(nat h := row_of l (history s t (nat h)))),
    hist_bottom_indeces := (hist_bottom_indeces s)(t := b), hist_indeces := (hist_indeces s)(t := b)\<rparr>"
proof -
  define s1 where "s1 = incr_hist_bottom t s"
  have h: "0 \<le> h" "h < HIST_SIZE" "hist_bottom_indeces s1 t = h"
    using assms(3) by (simp_all add: s1_def incr_hist_bottom_def HIST_SIZE_def)
  define s2 where "s2 = s1\<lparr>history := (history s1)(t := (history s1 t)(nat h := \<lambda>i. if i < BUF_SIZE then 0 else history s1 t (nat h) i))\<rparr>"
  have 2: "fold (\<lambda>i s. set_history t (hist_bottom_indeces s t) (int i) 0 s) [0..<BUF_SIZE] s1 = s2"
    using clear_row [OF h le_refl] by (simp add: s2_def)
  have c: "cmd_line s2 buf l" "hist_bottom_indeces s2 t = h"
    using assms(1) h(3) by (simp_all add: cmd_line_def s2_def s1_def incr_hist_bottom_def)
  have "save_hist_loop t buf 0 s2 = s2\<lparr>history := (history s2)(t := (history s2 t)(nat h :=
      \<lambda>k. if 0 \<le> k \<and> k < length l then l ! k else history s2 t (nat h) k))\<rparr>"
    using save_hist_loop_eq [OF h(1,2) c(2,1)] by simp
  also have "\<dots> = s1\<lparr>history := (history s)(t := (history s t)(nat h := row_of l (history s t (nat h))))\<rparr>"
    by (auto simp: s2_def s1_def incr_hist_bottom_def row_of_def fun_eq_iff intro!: arg_cong [of _ _ "\<lambda>h. s\<lparr>history := h, hist_bottom_indeces := b\<rparr>" for b])
  finally show ?thesis
    using h(3) assms(4) unfolding save_hist_def Let_def assms(2) [symmetric]
    by (simp add: 2 [unfolded s1_def] s1_def) (simp add: incr_hist_bottom_def HIST_SIZE_def assms(3))
qed

lemma hist_row_rest:
  assumes "rest s' = rest s"
  shows "hist_row t s' = hist_row t s"
  using rest_terminal(2,3) [OF assms] by (simp add: hist_row_def)

lemma erase_line_rest:
  assumes "hist_row t s (BUF_SIZE - 1) = 0" and "i < BUF_SIZE"
  shows "rest (erase_line t i s) = rest s"
  using assms
proof (induction "BUF_SIZE - i" arbitrary: i s)
  case 0
  then show ?case by simp
next
  case (Suc n)
  have p: "hist_row t (putc 0 s) = hist_row t s" by (rule hist_row_rest) simp
  show ?case
  proof (cases "i = BUF_SIZE - 1")
    case True
    then show ?thesis
      using Suc.prems by (subst erase_line.simps) (simp add: SCREEN_WIDTH_def START_POS_def BUF_SIZE_def)
  next
    case False
    then have "rest (erase_line t (i + 1) (putc 0 s)) = rest s"
      using Suc.hyps(1) [of "i + 1" "putc 0 s"] Suc.hyps(2) Suc.prems p by simp
    then show ?thesis using Suc.prems by (subst erase_line.simps) simp
  qed
qed

lemma recall_line_fields:
  assumes "\<forall>k < n. hist_row t s k \<noteq> 0" and "hist_row t s n = 0" and "n < BUF_SIZE" and "i \<le> n"
  shows "buffer (recall_line t i s) = (buffer s)(t := \<lambda>k. if i \<le> k \<and> k < n then hist_row t s k else buffer s t k) \<and>
    cur_pos (recall_line t i s) = (cur_pos s)(t := cur_pos s t + int (n - i)) \<and>
    cur_size (recall_line t i s) = (cur_size s)(t := cur_size s t + int (n - i)) \<and>
    oob (recall_line t i s) = oob s \<and> history (recall_line t i s) = history s \<and>
    hist_indeces (recall_line t i s) = hist_indeces s \<and>
    hist_bottom_indeces (recall_line t i s) = hist_bottom_indeces s \<and>
    current_terminal (recall_line t i s) = current_terminal s"
  using assms
proof (induction "n - i" arbitrary: i s)
  case 0
  then have "i = n" by simp
  then show ?case using 0 by (subst (1 2 3 4 5 6 7 8) recall_line.simps) (auto simp: fun_eq_iff)
next
  case (Suc d)
  define s1 where "s1 = (let s = set_buffer t (int i) (hist_row t s i) s;
      s = putc (buffer s t i) s; s = set_cur_pos t (cur_pos s t + 1) s in set_cur_size t (cur_size s t + 1) s)"
  have i: "i < n" "i < BUF_SIZE" using Suc by simp_all
  have r: "recall_line t i s = recall_line t (i + 1) s1"
    using Suc.prems i by (subst recall_line.simps) (simp add: s1_def Let_def)
  have f: "buffer s1 = (buffer s)(t := (buffer s t)(i := hist_row t s i))" "oob s1 = oob s" "history s1 = history s"
    "hist_indeces s1 = hist_indeces s" "hist_bottom_indeces s1 = hist_bottom_indeces s"
    "cur_pos s1 = (cur_pos s)(t := cur_pos s t + 1)" "cur_size s1 = (cur_size s)(t := cur_size s t + 1)"
    "current_terminal s1 = current_terminal s"
    using i by (simp_all add: s1_def Let_def) (simp_all add: set_cur_pos_def set_cur_size_def set_buffer_def)
  then have h: "hist_row t s1 = hist_row t s" by (simp add: hist_row_def)
  have n: "int (n - i) = int (n - (i + 1)) + 1" using i by simp
  show ?case
    using Suc.hyps(1) [of "i + 1" s1] Suc.hyps(2) Suc.prems i unfolding r h n
    by (auto simp: f fun_eq_iff)
qed

text \<open>
  The ring of 50 rows: \<open>save_hist\<close> fills every second row, so the even rows stay empty and the \<open>j\<close>-th
  latest line is in row \<open>bottom - 1 - 2 * j\<close>, as long as it is among the last 25.
\<close>

definition hist_wf :: "nat \<Rightarrow> byte list list \<Rightarrow> 'a terminal_scheme \<Rightarrow> bool" where
  "hist_wf t ls s \<longleftrightarrow>
     0 \<le> hist_bottom_indeces s t \<and> hist_bottom_indeces s t < 50 \<and> even (hist_bottom_indeces s t) \<and>
     (\<forall>r. history s t (2 * r) 0 = 0) \<and>
     (\<forall>j. j < 25 \<longrightarrow> j < length ls \<longrightarrow>
        ls ! j \<noteq> [] \<and> 0 \<notin> set (ls ! j) \<and> length (ls ! j) < BUF_SIZE \<and>
        (\<forall>i < BUF_SIZE. history s t (nat ((hist_bottom_indeces s t - 1 - 2 * int j) mod 50)) i = row_of (ls ! j) (\<lambda>_. 0) i))"

lemma prev_hist_eq:
  assumes "0 \<le> hist_indeces s t" and "hist_indeces s t < 50"
  shows "prev_hist t s = s\<lparr>hist_indeces := (hist_indeces s)(t := (hist_indeces s t - 1) mod 50)\<rparr>"
proof -
  have "(hist_indeces s t - 1) mod 50 = (if hist_indeces s t - 1 < 0 then 49 else hist_indeces s t - 1)"
    using assms by (cases "hist_indeces s t = 0") simp_all
  then show ?thesis by (simp add: prev_hist_def Let_def HIST_SIZE_def)
qed

lemma row_of_end:
  assumes "0 \<notin> set l" and "length l < BUF_SIZE"
  shows "\<forall>k < length l. row_of l f k \<noteq> 0" and "row_of l f (length l) = 0" and "row_of l f (BUF_SIZE - 1) = 0"
proof -
  show "\<forall>k < length l. row_of l f k \<noteq> 0" using assms(1) by (auto simp: row_of_def) (metis nth_mem)
  show "row_of l f (length l) = 0" using assms(2) by (simp add: row_of_def)
  show "row_of l f (BUF_SIZE - 1) = 0" using assms(2) by (simp add: row_of_def) (simp add: BUF_SIZE_def)
qed

text \<open>The search of \<open>up_hist\<close>, when the row before is filled or the one before that.\<close>

lemma search_prev:
  assumes i: "hist_indeces s t = i" "0 \<le> i" "i < 50"
    and r: "r = (i - 1) mod 50 \<or> r = (i - 2) mod 50 \<and> history s t (nat ((i - 1) mod 50)) 0 = 0"
    and s2: "s2 = s\<lparr>hist_indeces := (hist_indeces s)(t := r)\<rparr>" and first: "hist_row t s2 0 \<noteq> 0"
  shows "(if hist_row t (prev_hist t s) 0 = 0 then skip_empty prev_hist t (nat HIST_SIZE) (prev_hist t s)
     else prev_hist t s) = s2"
proof -
  define s1 where "s1 = prev_hist t s"
  have s1: "s1 = s\<lparr>hist_indeces := (hist_indeces s)(t := (i - 1) mod 50)\<rparr>" using prev_hist_eq [of s t] i by (simp add: s1_def)
  have "(if hist_row t s1 0 = 0 then skip_empty prev_hist t (nat HIST_SIZE) s1 else s1) = s2"
  proof (cases "r = (i - 1) mod 50")
    case True
    then have "s1 = s2" by (simp add: s1 s2)
    then show ?thesis using first by simp
  next
    case False
    then have r2: "r = (i - 2) mod 50" "hist_row t s1 0 = 0" using r by (auto simp: s1 hist_row_def)
    have "((i - 1) mod 50 - 1) mod 50 = r" unfolding r2(1) by (simp add: mod_diff_left_eq)
    then have "prev_hist t s1 = s2" using prev_hist_eq [of s1 t] by (simp add: s1 s2)
    moreover obtain n where "nat HIST_SIZE = Suc (Suc n)" using that [of 48] by (simp add: HIST_SIZE_def)
    ultimately show ?thesis using r2(2) first by simp
  qed
  then show ?thesis unfolding s1_def .
qed

text \<open>What both \<open>up_hist\<close> and \<open>down_hist\<close> do once the row is found: erase the line and enter the row.\<close>

lemma redraw_fields:
  assumes l: "l \<noteq> []" "0 \<notin> set l" "length l < BUF_SIZE"
    and row: "\<forall>k < BUF_SIZE. hist_row t s k = row_of l (\<lambda>_. 0) k"
    and s4: "s4 = erase_line t 0 s" and s5: "s5 = set_pos x y s4" and s6: "s6 = recall_line t 0 s5"
  shows "map (buffer s6 t) [0..<length l] = l" "cur_pos s6 t = cur_pos s t + int (length l)"
    "cur_size s6 t = cur_size s t + int (length l)" "history s6 = history s" "hist_indeces s6 = hist_indeces s"
    "hist_bottom_indeces s6 = hist_bottom_indeces s" "current_terminal s6 = current_terminal s" "oob s6 = oob s"
proof -
  have nz: "\<forall>k < length l. hist_row t s k \<noteq> 0" and z: "hist_row t s (length l) = 0" "hist_row t s (BUF_SIZE - 1) = 0"
    using row_of_end [OF l(2,3)] l(3) row by simp_all
  have "rest s4 = rest s" unfolding s4 using z(2) by (intro erase_line_rest) (simp_all add: BUF_SIZE_def)
  then have k: "rest s5 = rest s" by (simp add: s5)
  have h5: "hist_row t s5 = hist_row t s" by (rule hist_row_rest [OF k])
  have rl: "\<forall>k < length l. hist_row t s5 k \<noteq> 0" "hist_row t s5 (length l) = 0" using nz z(1) by (simp_all add: h5)
  note f = recall_line_fields [OF rl l(3), of 0, folded s6]
  show "map (buffer s6 t) [0..<length l] = l"
    using l(3) row by (intro nth_equalityI) (simp_all add: f h5 row_of_def)
  show "cur_pos s6 t = cur_pos s t + int (length l)" "cur_size s6 t = cur_size s t + int (length l)"
    "history s6 = history s" "hist_indeces s6 = hist_indeces s" "hist_bottom_indeces s6 = hist_bottom_indeces s"
    "current_terminal s6 = current_terminal s" "oob s6 = oob s"
    using f rest_terminal [OF k] by simp_all
qed

lemma up_hist_recall:
  assumes t: "t = current_terminal s" and i: "hist_indeces s t = i" "0 \<le> i" "i < 50"
    and r: "r = (i - 1) mod 50 \<or> r = (i - 2) mod 50 \<and> history s t (nat ((i - 1) mod 50)) 0 = 0"
    and l: "l \<noteq> []" "0 \<notin> set l" "length l < BUF_SIZE"
    and row: "\<forall>k < BUF_SIZE. history s t (nat r) k = row_of l (\<lambda>_. 0) k"
  shows "line_view t (up_hist s) = (l, length l) \<and> hist_indeces (up_hist s) = (hist_indeces s)(t := r) \<and>
    history (up_hist s) = history s \<and> hist_bottom_indeces (up_hist s) = hist_bottom_indeces s \<and>
    current_terminal (up_hist s) = t \<and> oob (up_hist s) = oob s"
proof -
  define s2 where "s2 = s\<lparr>hist_indeces := (hist_indeces s)(t := r)\<rparr>"
  have row2: "\<forall>k < BUF_SIZE. hist_row t s2 k = row_of l (\<lambda>_. 0) k"
    using row by (simp add: s2_def hist_row_def)
  then have first: "hist_row t s2 0 \<noteq> 0" using row_of_end(1) [OF l(2,3)] l(1,3) by simp
  define s3 where "s3 = set_cur_size t 0 (set_cur_pos t 0 (set_pos (write_x s2 t) (write_y s2 t) s2))"
  have 3: "cur_pos s3 t = 0" "cur_size s3 t = 0" "oob s3 = oob s"
    "history s3 = history s" "hist_indeces s3 = (hist_indeces s)(t := r)" "hist_bottom_indeces s3 = hist_bottom_indeces s"
    "current_terminal s3 = t"
    by (simp_all add: s3_def s2_def t) (simp_all add: set_cur_pos_def set_cur_size_def)
  have row3: "\<forall>k < BUF_SIZE. hist_row t s3 k = row_of l (\<lambda>_. 0) k" using row 3 by (simp add: hist_row_def)
  have up: "up_hist s = (let s4 = erase_line t 0 s3 in recall_line t 0 (set_pos (write_x s4 t) (write_y s4 t) s4))"
    unfolding up_hist_def Let_def t [symmetric] using search_prev [OF i r s2_def first] first by (simp add: s3_def)
  show ?thesis
    unfolding up Let_def using redraw_fields [OF l row3 refl refl refl] 3 by (simp add: line_view_def)
qed

lemma save_hist_wf:
  assumes wf: "hist_wf t ls s" and c: "cmd_line s buf l" and t: "t = current_terminal s"
  shows "hist_wf t (l # ls) (save_hist buf s) \<and> hist_indeces (save_hist buf s) t = hist_bottom_indeces (save_hist buf s) t \<and>
    vmem (save_hist buf s) = vmem s \<and> current_terminal (save_hist buf s) = t \<and> oob (save_hist buf s) = oob s"
proof -
  define b where "b = hist_bottom_indeces s t"
  have b: "0 \<le> b" "b < 50" "even b" using wf by (simp_all add: hist_wf_def b_def)
  then have h: "(b + 1) mod 50 = b + 1" "odd (b + 1)" "b + 1 < 50" by presburger+
  define b' where "b' = (b + 2) mod 50"
  have b': "0 \<le> b'" "b' < 50" "even b'" using b(3) by (simp_all add: b'_def) presburger
  have e: "save_hist buf s = s\<lparr>history := (history s)(t := (history s t)(nat (b + 1) := row_of l (history s t (nat (b + 1))))),
    hist_bottom_indeces := (hist_bottom_indeces s)(t := b'), hist_indeces := (hist_indeces s)(t := b')\<rparr>"
    using save_hist_eq [OF c t refl refl] h by (simp add: b_def [symmetric] b'_def add.commute)
  have m: "(b' - 1 - 2 * int j) mod 50 = (b + 1 - 2 * int j) mod 50" for j
    by (simp add: b'_def mod_diff_left_eq mod_diff_eq algebra_simps)
  have ne: "(b + 1 - 2 * int j) mod 50 \<noteq> b + 1" if "0 < j" "j < 25" for j
  proof
    assume "(b + 1 - 2 * int j) mod 50 = b + 1"
    then have "(b + 1 - 2 * int j) mod 50 = (b + 1) mod 50" using h by simp
    then have "50 dvd (b + 1 - 2 * int j) - (b + 1)" by (simp only: mod_eq_dvd_iff)
    then have "50 dvd 2 * int j" by simp
    then show False using that zdvd_not_zless [of "2 * int j" 50] by simp
  qed
  have rows: "history (save_hist buf s) t (nat ((b' - 1 - 2 * int j) mod 50)) i = row_of ((l # ls) ! j) (\<lambda>_. 0) i \<and>
      (l # ls) ! j \<noteq> [] \<and> 0 \<notin> set ((l # ls) ! j) \<and> length ((l # ls) ! j) < BUF_SIZE"
    if "j < 25" "j < length (l # ls)" "i < BUF_SIZE" for i j
  proof (cases j)
    case 0
    then show ?thesis using m [of 0] h c that(3) by (simp add: e row_of_def cmd_line_def)
  next
    case (Suc j')
    have "nat ((b + 1 - 2 * int j) mod 50) \<noteq> nat (b + 1)" using ne [of j] Suc that(1) b by (simp add: nat_eq_iff)
    moreover have "(b + 1 - 2 * int j) mod 50 = (hist_bottom_indeces s t - 1 - 2 * int j') mod 50"
      using Suc by (simp add: b_def algebra_simps)
    ultimately show ?thesis using wf Suc that m [of j] by (simp add: e hist_wf_def)
  qed
  have "nat (b + 1) \<noteq> 2 * r" for r
  proof
    assume "nat (b + 1) = 2 * r"
    then have "b + 1 = 2 * int r" using b(1) by simp
    then show False using h(2) by simp
  qed
  then have "\<forall>r. 2 * r \<noteq> nat (b + 1)" by metis
  then have "\<forall>r. history (save_hist buf s) t (2 * r) 0 = 0" using wf by (simp add: e hist_wf_def)
  moreover have "hist_bottom_indeces (save_hist buf s) t = b'" by (simp add: e)
  ultimately have "hist_wf t (l # ls) (save_hist buf s)"
    unfolding hist_wf_def using b' rows by (metis BUF_SIZE_def zero_less_numeral)
  then show ?thesis using t by (simp add: e)
qed

lemma saves_wf:
  assumes "hist_wf t xs s" and "list_all2 (cmd_line s) bufs ls" and "t = current_terminal s"
    and "hist_indeces s t = hist_bottom_indeces s t"
  shows "hist_wf t (rev ls @ xs) (fold save_hist bufs s) \<and>
    hist_indeces (fold save_hist bufs s) t = hist_bottom_indeces (fold save_hist bufs s) t \<and>
    current_terminal (fold save_hist bufs s) = t \<and> oob (fold save_hist bufs s) = oob s"
  using assms
proof (induction bufs arbitrary: ls xs s)
  case Nil
  then show ?case by simp
next
  case (Cons b bufs)
  then obtain l ls' where ls: "ls = l # ls'" "cmd_line s b l" "list_all2 (cmd_line s) bufs ls'"
    by (auto simp: list_all2_Cons1)
  note sw = save_hist_wf [OF Cons.prems(1) ls(2) Cons.prems(3)]
  have "vmem (save_hist b s) = vmem s" using sw by blast
  then have "cmd_line (save_hist b s) = cmd_line s" by (intro ext) (simp add: cmd_line_def)
  then have c: "list_all2 (cmd_line (save_hist b s)) bufs ls'" using ls(3) by simp
  have "hist_wf t (l # xs) (save_hist b s)" "t = current_terminal (save_hist b s)"
    "hist_indeces (save_hist b s) t = hist_bottom_indeces (save_hist b s) t" "oob (save_hist b s) = oob s"
    using sw by blast+
  note ih = Cons.IH [OF this(1) c this(2,3)] this(4)
  have "rev ls @ xs = rev ls' @ l # xs" by (simp add: ls(1))
  then show ?case using ih by (simp only: fold_simps simp_thms)
qed

lemma hist_wfD:
  assumes "hist_wf t ls s" and "j < 25" and "j < length ls"
  shows "0 \<le> hist_bottom_indeces s t" "hist_bottom_indeces s t < 50" "ls ! j \<noteq> []" "0 \<notin> set (ls ! j)"
    "length (ls ! j) < BUF_SIZE"
    "\<forall>i < BUF_SIZE. history s t (nat ((hist_bottom_indeces s t - 1 - 2 * int j) mod 50)) i = row_of (ls ! j) (\<lambda>_. 0) i"
  using assms by (simp_all add: hist_wf_def)

lemma ups_recall:
  assumes wf: "hist_wf t ls s" and t: "t = current_terminal s" and i: "hist_indeces s t = hist_bottom_indeces s t"
    and k: "k < 25" "k < length ls"
  shows "line_view t ((up_hist ^^ Suc k) s) = (ls ! k, length (ls ! k)) \<and>
    hist_indeces ((up_hist ^^ Suc k) s) t = (hist_bottom_indeces s t - 1 - 2 * int k) mod 50 \<and>
    history ((up_hist ^^ Suc k) s) = history s \<and> current_terminal ((up_hist ^^ Suc k) s) = t \<and>
    oob ((up_hist ^^ Suc k) s) = oob s"
  using k
proof (induction k)
  case 0
  then show ?case
    using up_hist_recall [OF t i, of "(hist_bottom_indeces s t - 1) mod 50" "ls ! 0"] hist_wfD [OF wf, of 0] by simp
next
  case (Suc k)
  define u where "u = (up_hist ^^ Suc k) s"
  let ?b = "hist_bottom_indeces s t"
  note d = hist_wfD [OF wf Suc.prems]
  define idx where "idx = (?b - 1 - 2 * int k) mod 50"
  have u: "hist_indeces u t = idx" "history u = history s" "t = current_terminal u" "oob u = oob s"
    using Suc by (simp_all add: u_def idx_def)
  have e: "(idx - 1) mod 50 = (?b - 2 - 2 * int k) mod 50" "(idx - 2) mod 50 = (?b - 1 - 2 * int (Suc k)) mod 50"
    by (simp_all add: idx_def mod_diff_left_eq algebra_simps)
  have "even ?b" using wf unfolding hist_wf_def by blast
  then have "even ((?b - 2 - 2 * int k) mod 50)" by (intro dvd_mod) simp_all
  then have "even (nat ((idx - 1) mod 50))" unfolding e(1) by (subst even_nat_iff) simp_all
  then obtain r where "nat ((idx - 1) mod 50) = 2 * r" by (elim evenE)
  then have z: "history u t (nat ((idx - 1) mod 50)) 0 = 0" using wf u(2) by (simp add: hist_wf_def)
  have i: "0 \<le> idx" "idx < 50" by (simp_all add: idx_def)
  have r: "(?b - 1 - 2 * int (Suc k)) mod 50 = (idx - 1) mod 50 \<or>
      (?b - 1 - 2 * int (Suc k)) mod 50 = (idx - 2) mod 50 \<and> history u t (nat ((idx - 1) mod 50)) 0 = 0"
    using z unfolding e(2) by blast
  note up = up_hist_recall [OF u(3,1) i r d(3-5) d(6) [folded u(2)]]
  have "(up_hist ^^ Suc (Suc k)) s = up_hist u" by (simp add: u_def)
  then show ?case using up u(2,4) by (simp only: fun_upd_same simp_thms)
qed

text \<open>
  C25. The command history: after any number of commands was saved, pressing the up arrow \<open>k + 1\<close> times
  puts the command before the last \<open>k\<close> ones into the edited line, for each of the last 25 commands,
  and no access leaves the history or the line buffer.
\<close>

theorem history_recalls_commands:
  assumes "t = current_terminal s" and "\<forall>r. history s t r = (\<lambda>_. 0)"
    and "hist_bottom_indeces s t = 0" and "hist_indeces s t = 0"
    and "list_all2 (cmd_line s) bufs ls" and "k < 25" and "k < length ls"
  shows "line_view t ((up_hist ^^ Suc k) (fold save_hist bufs s)) = (rev ls ! k, length (rev ls ! k)) \<and>
    oob ((up_hist ^^ Suc k) (fold save_hist bufs s)) = oob s"
proof -
  have "hist_wf t [] s" using assms(2,3) by (simp add: hist_wf_def)
  then have "hist_wf t (rev ls) (fold save_hist bufs s)"
    "hist_indeces (fold save_hist bufs s) t = hist_bottom_indeces (fold save_hist bufs s) t"
    "t = current_terminal (fold save_hist bufs s)" "oob (fold save_hist bufs s) = oob s"
    using saves_wf [of t "[]" s bufs ls] assms(1,3-5) by simp_all
  then show ?thesis using ups_recall [of t "rev ls" "fold save_hist bufs s" k] assms(6,7) by simp
qed

theorem history_recalls_commands_witness:
  "line_view 0 ((up_hist ^^ Suc 1) (fold save_hist [0x480000, 0x480000] (typed_terminal (str ''ls'')))) = (str ''ls'', 2)"
proof -
  have "cmd_line (typed_terminal (str ''ls'')) 0x480000 (str ''ls'')"
    by (rule typed_terminal_cmd) (simp_all add: str_def BUF_SIZE_def)
  then have "list_all2 (cmd_line (typed_terminal (str ''ls''))) [0x480000, 0x480000] [str ''ls'', str ''ls'']"
    by simp
  from history_recalls_commands [OF _ _ _ _ this, of 0 1] show ?thesis
    by (simp add: typed_terminal_simps) (simp add: str_def)
qed

text \<open>
  \<open>down_hist\<close> enters the next command into the buffer but does not reset the position and the size
  of the line first, as \<open>up_hist\<close> does: the line becomes longer by the length of the command and ends
  in what the buffer held before.
\<close>

lemma down_hist_keeps_old_size:
  assumes "t = current_terminal s" and "r = (hist_indeces s t + 1) mod 50"
    and "l \<noteq> []" and "0 \<notin> set l" and "length l < BUF_SIZE"
    and "\<forall>k < BUF_SIZE. history s t (nat r) k = row_of l (\<lambda>_. 0) k"
  shows "map (buffer (down_hist s) t) [0..<length l] = l \<and>
    cur_pos (down_hist s) t = cur_pos s t + int (length l) \<and>
    cur_size (down_hist s) t = cur_size s t + int (length l)"
proof -
  define s1 where "s1 = next_hist t s"
  define s3 where "s3 = set_pos (write_x s1 t) (write_y s1 t) s1"
  have 3: "history s3 = history s" "hist_indeces s3 = (hist_indeces s)(t := r)" "cur_pos s3 = cur_pos s" "cur_size s3 = cur_size s"
    using assms(2) by (simp_all add: s3_def s1_def next_hist_def HIST_SIZE_def)
  have row: "\<forall>k < BUF_SIZE. hist_row t s3 k = row_of l (\<lambda>_. 0) k" using assms(6) 3 by (simp add: hist_row_def)
  then have "hist_row t s3 0 \<noteq> 0" using row_of_end(1) [OF assms(4,5)] assms(3,5) by simp
  then have "hist_row t s1 0 \<noteq> 0" by (simp add: s3_def hist_row_def)
  then have down: "down_hist s = (let s4 = erase_line t 0 s3 in recall_line t 0 (set_pos (write_x s4 t) (write_y s4 t) s4))"
    unfolding down_hist_def Let_def assms(1) [symmetric] by (simp add: s1_def s3_def)
  show ?thesis unfolding down Let_def using redraw_fields [OF assms(3-5) row refl refl refl] 3 by simp
qed

end
