(* ===== verification/Term_Output.thy ===== *)
theory Term_Output
  imports Terminal
begin

unbundle bit_operations_syntax

text \<open>
  \<open>term_write\<close>: a program's output reaches the screen of its own terminal and no other.
\<close>

section \<open>Output of a program\<close>

text \<open>Bytes outside the video pages: printing does not change them while it reads them.\<close>

definition stable_run :: "'a machine_scheme \<Rightarrow> u32 \<Rightarrow> nat \<Rightarrow> bool" where
  "stable_run s v n \<longleftrightarrow> (\<forall>i < n. \<exists>a. translate s False False (v + of_nat i) = Some a \<and> a \<notin> video_frames)"

lemma mt_putc_phys:
  assumes "out_ok (Suc n) s" and "a \<notin> video_frames"
  shows "phys (mt_putc c s) a = phys s a"
proof -
  define p where "p = current_active_process s"
  have ok: "console_ok s" "vmem_ok s" "screen_x s (current_terminal s) < 80" using assms(1) by (simp_all add: out_ok_def)
  have out: "a \<notin> region (vid_frame t) 4096" if "t < 4" for t using assms(2) that by (auto simp: video_frames_def)
  have p3: "p < 3" using ok(2) by (simp add: vmem_ok_def p_def)
  have c: "0 \<le> screen_x s t" "0 \<le> screen_y s t" "screen_y s t < 25" if "t < 3" for t
    using ok(1) that by (auto simp: console_ok_def cursor_ok_def)
  show ?thesis
  proof (cases "p = current_terminal s")
    case True
    then have m: "mt_putc c s = putc c (cli s)" by (simp add: mt_putc_def Let_def p_def)
    have "console_ok (cli s)" "p = current_terminal (cli s)" using ok True by simp_all
    from putc_cases(1) [OF this, of c] show ?thesis
      unfolding m using out [of 3] c [OF p3] by (simp add: scroll_mem_outside place_outside)
  next
    case False
    from mt_putc_cases(1) [OF ok p_def False, of c] show ?thesis
      using out [of p] p3 c [OF p3] by (simp add: scroll_mem_outside place_outside)
  qed
qed

lemma rest_translate:
  assumes "rest s' = rest s"
  shows "translate s' = translate s"
  using restD [OF assms] by (intro translate_cong) simp_all

lemma mt_putc_kread8:
  assumes "out_ok (Suc n) s" and "translate s False False v = Some a" and "a \<notin> video_frames"
  shows "kread8 (mt_putc c s) v = kread8 s v"
  using assms mt_putc_phys [OF assms(1,3)] rest_translate [OF rest_output(2), of c s] by (simp add: kread8_def)

lemma print_run:
  assumes "out_ok (length vs) s" and "\<forall>v \<in> set vs. \<exists>a. translate s False False v = Some a \<and> a \<notin> video_frames"
  shows "fold (\<lambda>v s. mt_putc (kread8 s v) s) vs s = fold mt_putc (map (kread8 s) vs) s"
  using assms
proof (induction vs arbitrary: s)
  case Nil
  then show ?case by simp
next
  case (Cons v vs)
  define s1 where "s1 = mt_putc (kread8 s v) s"
  have o: "out_ok (Suc (length vs)) s" using Cons.prems by simp
  have "out_ok (length vs) s1" unfolding s1_def using mt_putc_step [OF o refl] by blast
  moreover have "translate s1 = translate s" unfolding s1_def by (rule rest_translate) simp
  moreover have "kread8 s1 w = kread8 s w" if "w \<in> set vs" for w
    using Cons.prems(2) that mt_putc_kread8 [OF o] by (auto simp: s1_def)
  then have "map (kread8 s1) vs = map (kread8 s) vs" by simp
  ultimately have "fold (\<lambda>v s. mt_putc (kread8 s v) s) vs s1 = fold mt_putc (map (kread8 s) vs) s1"
    using Cons.IH [of s1] Cons.prems(2) by (metis list.set_intros(2))
  then show ?case by (simp flip: s1_def)
qed

lemma upto_of_nat: "0 \<le> cnt \<Longrightarrow> [0..cnt - 1] = map int [0..<nat cnt]"
  by (rule nth_equalityI) auto

lemma term_write_fold:
  assumes "out_ok (nat cnt) s" and "0 \<le> cnt" and "stable_run s buf (nat cnt)"
  shows "fold (\<lambda>i s. mt_putc (kread8 s (buf + of_int i)) s) [0..cnt - 1] s = fold mt_putc (rd_bytes (vmem s) buf (nat cnt)) s"
proof -
  let ?vs = "map (\<lambda>i. buf + of_nat i) [0..<nat cnt]"
  have "fold (\<lambda>i s. mt_putc (kread8 s (buf + of_int i)) s) [0..cnt - 1] s = fold (\<lambda>v s. mt_putc (kread8 s v) s) ?vs s"
    unfolding upto_of_nat [OF assms(2)] by (simp add: fold_map comp_def)
  also have "\<dots> = fold mt_putc (map (kread8 s) ?vs) s"
    using assms(1,3) by (intro print_run) (auto simp: stable_run_def)
  also have "map (kread8 s) ?vs = rd_bytes (vmem s) buf (nat cnt)" by (simp add: rd_bytes_conv vmem_def comp_def)
  finally show ?thesis .
qed

lemma mt_putc_run_phys:
  assumes "out_ok (length cs + k) s" and "a \<notin> video_frames"
  shows "phys (fold mt_putc cs s) a = phys s a"
  using assms(1)
proof (induction cs arbitrary: s)
  case (Cons c cs)
  then have o: "out_ok (Suc (length cs + k)) s" by simp
  have "out_ok (length cs + k) (mt_putc c s)" using mt_putc_step [OF o refl] by blast
  from Cons.IH [OF this] show ?case using mt_putc_phys [OF o assms(2)] by simp
qed simp

lemma out_ok_less: "out_ok (n + k) s \<Longrightarrow> out_ok n s"
  by (simp add: out_ok_def)

text \<open>
  Everything but the screens and the backspace limit is as before, and the room for \<open>k\<close> further
  characters remains.
\<close>

lemma term_write_eq:
  assumes "out_ok (nat cnt + k) s" and "0 \<le> cnt" and "stable_run s buf (nat cnt)" and "p = current_active_process s"
  obtains s' where "term_write buf cnt s = (s', cnt)" "fault s' = fault s"
    "text_view p s' = fold (printc s (attribs p)) (rd_bytes (vmem s) buf (nat cnt)) (text_view p s)"
    "\<forall>u < 3. u \<noteq> p \<longrightarrow> text_view u s' = text_view u s"
    "write_x s' p = screen_x s' p" "write_y s' p = screen_y s' p"
    "out_ok k s'" "\<forall>a. a \<notin> video_frames \<longrightarrow> phys s' a = phys s a" "rest (s'\<lparr>write_x := write_x s\<rparr>) = rest s"
proof -
  have o: "out_ok (nat cnt + k) (cli s)" "p = current_active_process (cli s)" "stable_run (cli s) buf (nat cnt)"
    using assms(1,3,4) rest_translate [OF rest_basic(5), of s]
    by (simp_all add: out_ok_def vmem_ok_def screen_frame_def stable_run_def)
  have v: "vmem (cli s) = vmem s" using rest_translate [OF rest_basic(5), of s] by (simp add: fun_eq_iff vmem_def kread8_def split: option.split)
  define xs where "xs = rd_bytes (vmem s) buf (nat cnt)"
  define u where "u = fold mt_putc xs (cli s)"
  note f = term_write_fold [OF out_ok_less [OF o(1)] assms(2) o(3), unfolded v, folded xs_def, folded u_def]
  have "length xs = nat cnt" by (simp add: xs_def)
  then have o': "out_ok (length xs + k) (cli s)" using o(1) by simp
  note m = mt_putc_run [OF o' o(2), folded u_def]
  define s' where "s' = sti (set_write p (screen_x u p) (screen_y u p) u)"
  have tw: "term_write buf cnt s = (s', cnt)"
    using m by (simp add: s'_def term_write_def Let_def f get_screen_x_def get_screen_y_def)
  have pg: "paging_ok s' = paging_ok u" by (rule paging_ok_cong) (simp_all add: s'_def set_write_def sti_def)
  have "printc (cli s) = printc s" by (simp add: printc_def)
  moreover have "text_view t s' = text_view t u" "fault s' = fault u" "screen_x s' = screen_x u" "screen_y s' = screen_y u"
    "write_x s' p = screen_x u p" "write_y s' p = screen_y u p" "out_ok k s' = out_ok k u" "phys s' = phys u" for t
    using pg by (simp_all add: s'_def text_view_def screen_frame_def set_write_def sti_def out_ok_def vmem_ok_def console_ok_def cursor_ok_def)
  moreover have "rest u = rest s" unfolding u_def by (simp add: rest_fold)
  then have "rest (s'\<lparr>write_x := write_x s\<rparr>) = rest s" by (simp add: rest_def s'_def set_write_def sti_def)
  moreover have "phys u a = phys s a" if "a \<notin> video_frames" for a
    using mt_putc_run_phys [OF o' that] by (simp add: u_def cli_def)
  ultimately show thesis using that [OF tw] m by (simp add: xs_def)
qed

text \<open>
  C23. A program's output appears on its own terminal, displayed or not: \<open>term_write\<close> prints exactly the
  \<open>cnt\<close> bytes at \<open>buf\<close> there, returns \<open>cnt\<close>, leaves the other two screens alone, faults nowhere and
  marks the end of the output as the position up to which backspace may go.
\<close>

theorem term_write_prints:
  assumes "out_ok (nat cnt) s" and "0 \<le> cnt" and "stable_run s buf (nat cnt)"
    and "p = current_active_process s" and "term_write buf cnt s = (s', r)"
  shows "r = cnt \<and> fault s' = fault s \<and>
    text_view p s' = fold (printc s (attribs p)) (rd_bytes (vmem s) buf (nat cnt)) (text_view p s) \<and>
    (\<forall>u < 3. u \<noteq> p \<longrightarrow> text_view u s' = text_view u s) \<and>
    write_x s' p = screen_x s' p \<and> write_y s' p = screen_y s' p"
proof -
  have o: "out_ok (nat cnt + 0) s" using assms(1) by simp
  show ?thesis by (rule term_write_eq [OF o assms(2-4)]) (use assms(5) in simp)
qed

lemma typed_terminal_out: "out_ok 3 (typed_terminal l)"
proof -
  have "paging_ok (typed_terminal l)" using demo_terminal_paging by (simp add: typed_terminal_def)
  moreover have "screen_x (typed_terminal l) = (\<lambda>_. 0)" "screen_y (typed_terminal l) = (\<lambda>_. 0)"
    "current_active_process (typed_terminal l) = 0" "low_memory_table (typed_terminal l) = low_memory_table boot_tasks"
    by (simp_all add: typed_terminal_def demo_terminal_def tasking.defs boot_tasks_simps)
  ultimately show ?thesis
    using boot_tasks_wf(2)
    by (simp add: out_ok_def console_ok_def cursor_ok_def vmem_ok_def typed_terminal_simps screen_frame_def boot_tasks_simps)
qed

lemma kernel_stable:
  assumes "paging_ok s" and "4194304 \<le> unat v" and "unat v + n \<le> 8388608"
  shows "stable_run s v n"
  unfolding stable_run_def
proof (intro allI impI exI conjI)
  fix i assume "i < n"
  then have u: "unat (v + of_nat i) = unat v + i" using assms by (simp add: unat_plus_if' unat_of_nat_less)
  then show "translate s False False (v + of_nat i) = Some (v + of_nat i)"
    using assms \<open>i < n\<close> by (intro translate_kernel) (simp_all add: word_le_nat_alt word_less_nat_alt)
  have "v + of_nat i \<in> kernel_frame" using u assms \<open>i < n\<close> by (simp add: kernel_frame_interval)
  then show "v + of_nat i \<notin> video_frames" using kernel_frame_video by blast
qed

theorem term_write_prints_witness:
  "text_view 0 (fst (term_write 0x480000 3 (typed_terminal (str ''ls'')))) =
     fold (aputc (attribs 0)) (str ''ls'' @ [10]) (text_view 0 (typed_terminal (str ''ls'')))"
proof -
  let ?s = "typed_terminal (str ''ls'')"
  have c: "cmd_line ?s 0x480000 (str ''ls'')" by (rule typed_terminal_cmd) (simp_all add: str_def BUF_SIZE_def)
  have p: "paging_ok ?s" using demo_terminal_paging by (simp add: typed_terminal_def)
  have st: "stable_run ?s 0x480000 (nat 3)" using p by (rule kernel_stable) simp_all
  have a: "current_active_process ?s = 0" by (simp add: typed_terminal_def demo_terminal_def tasking.defs boot_tasks_simps)
  have "rd_bytes (vmem ?s) 0x480000 (length (str ''ls'' @ [10])) = str ''ls'' @ [10]"
    using p rd_vmem [OF p mapped_kernel, of "0x480000" "length (str ''ls'' @ [10])"]
      rd_wr_bytes_same [of "str ''ls'' @ [10]" "phys demo_terminal" "0x480000"]
    by (simp add: typed_terminal_def str_def)
  moreover have "length (str ''ls'' @ [10 :: byte]) = nat 3" by (simp add: str_def)
  ultimately have r: "rd_bytes (vmem ?s) 0x480000 (nat 3) = str ''ls'' @ [10]" by metis
  then have r: "rd_bytes (vmem ?s) 0x480000 3 = str ''ls'' @ [10]" by simp
  have o: "out_ok (nat 3) ?s" using typed_terminal_out by simp
  from term_write_prints [OF o _ st refl, of "fst (term_write 0x480000 3 ?s)" "snd (term_write 0x480000 3 ?s)"]
  show ?thesis by (simp add: r a printc_def typed_terminal_simps)
qed

end
