(* ===== verification/Keyboard.thy ===== *)
theory Keyboard
  imports Term_History Term_Output
begin

unbundle bit_operations_syntax

text \<open>
  The keyboard interrupt (\<^verbatim>\<open>idt_funcs.c\<close>) and the blocking read of a line (\<open>term_read\<close> in
  \<^verbatim>\<open>terminal.c\<close>), which waits for keyboard interrupts.
\<close>

section \<open>State and tables\<close>

record keyboard = terminal +
  shift_l_flag :: "nat \<Rightarrow> bool"
  shift_r_flag :: "nat \<Rightarrow> bool"
  ctrl_flag :: "nat \<Rightarrow> bool"
  caps_lock_flag :: bool
  alt_flag :: bool

text \<open>The tables have 256 entries in the source, zero after the ones listed.\<close>

definition scan2ASCII_init :: "byte list" where
  "scan2ASCII_init =
    [0x00, 0x00, 0x31, 0x32, 0x33, 0x34,
     0x35, 0x36, 0x37, 0x38, 0x39, 0x30,
     0x2D, 0x3D, 0x08, 0x09, 0x71, 0x77,
     0x65, 0x72, 0x74, 0x79, 0x75, 0x69,
     0x6F, 0x70, 0x5B, 0x5D, 0x0A, 0xFF,
     0x61, 0x73, 0x64, 0x66, 0x67, 0x68,
     0x6A, 0x6B, 0x6C, 0x3B, 0x27, 0x60,
     0xFF, 0x5C, 0x7A, 0x78, 0x63, 0x76,
     0x62, 0x6E, 0x6D, 0x2C, 0x2E, 0x2F,
     0xFF, 0x2A, 0xFF, 0x20, 0xFF]"

definition shift2ASCII_init :: "byte list" where
  "shift2ASCII_init =
    [0x00, 0x00, 0x21, 0x40, 0x23, 0x24,
     0x25, 0x5E, 0x26, 0x2A, 0x28, 0x29,
     0x5F, 0x2B, 0x08, 0x09, 0x71, 0x77,
     0x65, 0x72, 0x74, 0x79, 0x75, 0x69,
     0x6F, 0x70, 0x7B, 0x7D, 0x0A, 0xFF,
     0x61, 0x73, 0x64, 0x66, 0x67, 0x68,
     0x6A, 0x6B, 0x6C, 0x3A, 0x22, 0x7E,
     0xFF, 0x7C, 0x7A, 0x78, 0x63, 0x76,
     0x62, 0x6E, 0x6D, 0x3C, 0x3E, 0x3F,
     0xFF, 0x2A, 0xFF, 0x20, 0xFF]"

definition table_at :: "byte list \<Rightarrow> nat \<Rightarrow> byte" where
  "table_at xs i = (if i < length xs then xs ! i else 0)"

definition scan2ASCII :: "nat \<Rightarrow> byte" where
  "scan2ASCII = table_at scan2ASCII_init"

definition shift2ASCII :: "nat \<Rightarrow> byte" where
  "shift2ASCII = table_at shift2ASCII_init"

definition notPrintableArray :: "nat \<Rightarrow> byte" where
  "notPrintableArray = table_at
    [0x0F, 0x37, 0x3E, 0x3F, 0x40, 0x41,
     0x42, 0x43, 0x44, 0x46, 0x47, 0x49,
     0x4A, 0x4E, 0x4F, 0x52, 0x51, 0x71,
     0x52, 0x53, 0x57, 0x58]"

definition KEY_PORT :: u16 where "KEY_PORT = 0x60"

definition KEY_LINE :: u32 where "KEY_LINE = 1"

section \<open>The interrupt handler\<close>

text \<open>
  \<open>in\<close> is a signed character. The source reads \<open>scan2ASCII[(int)in]\<close> also for the release codes, whose
  index is negative, but uses the result only in the branch where \<open>in\<close> is positive.
\<close>

definition isALetter :: "byte \<Rightarrow> bool" where
  "isALetter inp \<longleftrightarrow> sint inp \<ge> 0 \<and> sint (scan2ASCII (unat inp)) > 96 \<and> sint (scan2ASCII (unat inp)) < 123"

definition isPrintable :: "byte \<Rightarrow> bool" where
  "isPrintable inp \<longleftrightarrow> sint inp > 1 \<and> sint inp < 123"

definition notPrintable :: "byte \<Rightarrow> bool" where
  "notPrintable inp \<longleftrightarrow> (\<exists>i \<in> set [0..<128]. inp = notPrintableArray i)"

definition shifted :: "'a keyboard_scheme \<Rightarrow> bool" where
  "shifted s \<longleftrightarrow> shift_r_flag s (current_terminal s) \<or> shift_l_flag s (current_terminal s)"

definition switch_to :: "nat \<Rightarrow> 'a keyboard_scheme \<Rightarrow> 'a keyboard_scheme" where
  "switch_to n s = term_switch (switch_video n s)"

definition printable_key :: "byte \<Rightarrow> 'a keyboard_scheme \<Rightarrow> 'a keyboard_scheme" where
  "printable_key inp s =
     (if inp = 0x3B \<and> alt_flag s then switch_to 0 s
      else if inp = 0x3C \<and> alt_flag s then switch_to 1 s
      else if inp = 0x3D \<and> alt_flag s then switch_to 2 s
      else if scan2ASCII (unat inp) = 0x6C \<and> ctrl_flag s (current_terminal s) then term_init (term_clear s)
      else if isALetter inp \<and> shifted s \<noteq> caps_lock_flag s then term_putc (scan2ASCII (unat inp) - 32) s
      else if shifted s then term_putc (shift2ASCII (unat inp)) s
      else term_putc (scan2ASCII (unat inp)) s)"

definition key_action :: "byte \<Rightarrow> 'a keyboard_scheme \<Rightarrow> 'a keyboard_scheme" where
  "key_action inp s =
     (let t = current_terminal s in
      if notPrintable inp then s
      else if inp = 0x50 then down_hist s
      else if inp = 0x48 then up_hist s
      else if inp = 0x4B then term_move_left s
      else if inp = 0x4D then term_move_right s
      else if inp = 0x38 then s\<lparr>alt_flag := True\<rparr>
      else if inp = 0x1D then s\<lparr>ctrl_flag := (ctrl_flag s)(t := True)\<rparr>
      else if inp = 0x2A then s\<lparr>shift_l_flag := (shift_l_flag s)(t := True)\<rparr>
      else if inp = 0x36 then s\<lparr>shift_r_flag := (shift_r_flag s)(t := True)\<rparr>
      else if inp = 0x3A then s\<lparr>caps_lock_flag := \<not> caps_lock_flag s\<rparr>
      else if inp = 0x9D then s\<lparr>ctrl_flag := (ctrl_flag s)(t := False)\<rparr>
      else if inp = 0xAA then s\<lparr>shift_l_flag := (shift_l_flag s)(t := False)\<rparr>
      else if inp = 0xB6 then s\<lparr>shift_r_flag := (shift_r_flag s)(t := False)\<rparr>
      else if inp = 0xB8 then s\<lparr>alt_flag := False\<rparr>
      else if isPrintable inp then printable_key inp s
      else s)"

definition key_handler :: "device \<Rightarrow> 'a keyboard_scheme \<Rightarrow> 'a keyboard_scheme" where
  "key_handler dev s =
     (let s = cli s;
          (s, inp) = inb dev KEY_PORT s;
          s = key_action inp s;
          s = sti s
      in send_eoi KEY_LINE s)"

section \<open>Reading a line\<close>

text \<open>
  While \<open>term_read\<close> spins on \<open>wait_for_nl\<close>, keyboard interrupts are taken; \<open>keys\<close> lists the scan codes that
  the controller holds when they arrive. \<open>None\<close> means that the read is still waiting after them.
\<close>

definition key_press :: "byte \<Rightarrow> 'a keyboard_scheme \<Rightarrow> 'a keyboard_scheme" where
  "key_press code = key_handler (\<lambda>_ _. code)"

primrec term_wait :: "nat \<Rightarrow> byte list \<Rightarrow> 'a keyboard_scheme \<Rightarrow> 'a keyboard_scheme option" where
  "term_wait t [] s = (if wait_for_nl s t = 0 then Some s else None)"
| "term_wait t (k # ks) s = (if wait_for_nl s t = 0 then Some s else term_wait t ks (key_press k s))"

function term_copy :: "u32 \<Rightarrow> int \<Rightarrow> int \<Rightarrow> 'a keyboard_scheme \<Rightarrow> 'a keyboard_scheme \<times> int" where
  "term_copy buf numbytes i s =
     (if i < numbytes
      then
        (let t = current_terminal s;
             s = (if 0 \<le> i \<and> i < int BUF_SIZE then kwrite8 (buf + of_int i) (buffer s t (nat i)) s
                  else s\<lparr>oob := True\<rparr>);
             s = set_buffer t i 0 s;
             c = kread8 s (buf + of_int i) in
         if c = 10 \<or> c = 0
         then (sti (kwrite8 (buf + of_int (i + 1)) 0 (kwrite8 (buf + of_int i) 10 s)), i + 1)
         else term_copy buf numbytes (i + 1) s)
      else (sti s, i))"
  by pat_completeness auto
termination by (relation "measure (\<lambda>(_, n, i, _). nat (n - i))") auto

declare term_copy.simps [simp del]

definition term_read :: "u32 \<Rightarrow> int \<Rightarrow> byte list \<Rightarrow> 'a keyboard_scheme \<Rightarrow> ('a keyboard_scheme \<times> int) option" where
  "term_read buf numbytes keys s =
     (let t = current_active_process s;
          s = s\<lparr>wait_for_nl := (wait_for_nl s)(t := 1)\<rparr> in
      case term_wait t keys s of
        None \<Rightarrow> None
      | Some s \<Rightarrow> Some (term_copy buf numbytes 0 (putc 10 (set_x START_POS (cli s)))))"

section \<open>What typing leaves alone\<close>

text \<open>The page tables and registers, the running process and the keyboard flags.\<close>

definition tbase :: "'a terminal_scheme \<Rightarrow> ((nat \<Rightarrow> nat \<Rightarrow> u32) \<times> (nat \<Rightarrow> u32) \<times> (nat \<Rightarrow> u32) \<times> u32 \<times> u32) \<times>
    (u32 \<times> nat \<times> u32) \<times> (nat \<times> nat) \<times> 'a" where
  "tbase s = ((page_directories s, low_memory_table s, video_table s, low_memory_at s, video_table_at s),
     (cr0 s, cr3 s, cr4 s), (current_terminal s, current_active_process s), terminal.more s)"

lemma tbase_rest:
  assumes "rest s' = rest s"
  shows "tbase s' = tbase s"
  using restD [OF assms] rest_terminal(10) [OF assms] by (simp add: tbase_def)

lemmas tbase_console [simp] =
  tbase_rest [OF rest_output(1)] tbase_rest [OF rest_output(3)] tbase_rest [OF rest_console(5)]
  tbase_rest [OF rest_console(6)] tbase_rest [OF rest_console(9)] tbase_rest [OF rest_basic(1)]
  tbase_rest [OF rest_basic(5)] tbase_rest [OF rest_basic(6)] tbase_rest [OF rest_basic(7)]

lemma tbase_set [simp]:
  "tbase (set_buffer t i c s) = tbase s" "tbase (set_cur_pos t v s) = tbase s" "tbase (set_cur_size t v s) = tbase s"
  "tbase (set_write t x y s) = tbase s" "tbase (s\<lparr>prev_size := ps\<rparr>) = tbase s" "tbase (s\<lparr>wait_for_nl := w\<rparr>) = tbase s"
  "tbase (s\<lparr>oob := b\<rparr>) = tbase s"
  by (simp_all add: tbase_def set_buffer_def set_cur_pos_def set_cur_size_def set_write_def)

lemma tbase_fold: "(\<And>x s. tbase (f x s) = tbase s) \<Longrightarrow> tbase (fold f xs s) = tbase s"
  by (induction xs arbitrary: s) simp_all

lemma tbase_term_putc [simp]: "tbase (term_putc c s) = tbase s"
  by (simp add: term_putc_def term_enter_def term_backspace_def term_insert_def shift_line_def Let_def tbase_fold)

lemma tbaseD:
  assumes "tbase s' = tbase s"
  shows "current_terminal s' = current_terminal s" "current_active_process s' = current_active_process s"
    "terminal.more s' = terminal.more s" "translate s' = translate s" "cr3 s' = cr3 s"
  using assms by (simp_all add: tbase_def) (intro translate_cong; simp)

lemma tbase_flags:
  fixes s :: "'a keyboard_scheme"
  assumes "tbase s' = tbase s"
  shows "shift_l_flag s' = shift_l_flag s" "shift_r_flag s' = shift_r_flag s" "ctrl_flag s' = ctrl_flag s"
    "caps_lock_flag s' = caps_lock_flag s" "alt_flag s' = alt_flag s"
  using tbaseD(3) [OF assms] by (cases s; cases s'; simp)+

lemma wait_term_putc:
  "wait_for_nl (term_putc c s) = (if c = 10 \<or> c = 13 then (wait_for_nl s)(current_terminal s := 0) else wait_for_nl s)"
proof -
  have w: "wait_for_nl (shift_line t u) = wait_for_nl u" for t and u :: "'a terminal_scheme"
  proof -
    have "wait_for_nl (fold (\<lambda>i s. if 0 \<le> i - 1 \<and> i - 1 < int BUF_SIZE then set_buffer t i (buffer s t (nat (i - 1))) s
        else s\<lparr>oob := True\<rparr>) is u) = wait_for_nl u" for "is"
      by (induction "is" arbitrary: u) simp_all
    then show ?thesis by (simp add: shift_line_def)
  qed
  show ?thesis by (simp add: term_putc_def term_enter_def term_backspace_def term_insert_def Let_def w)
qed

section \<open>Typing text\<close>

text \<open>
  A key that types a character, the character it types under the modifiers, and the text a sequence
  of keys types: shift holds while its key is down, caps lock toggles.
\<close>

definition text_key :: "byte \<Rightarrow> bool" where
  "text_key k \<longleftrightarrow> isPrintable k \<and> \<not> notPrintable k \<and>
     k \<notin> {0x50, 0x48, 0x4B, 0x4D, 0x38, 0x1D, 0x2A, 0x36, 0x3A, 0x3B, 0x3C, 0x3D}"

definition key_char :: "bool \<Rightarrow> bool \<Rightarrow> byte \<Rightarrow> byte" where
  "key_char shift caps k =
     (if isALetter k \<and> shift \<noteq> caps then scan2ASCII (unat k) - 32
      else if shift then shift2ASCII (unat k) else scan2ASCII (unat k))"

fun typed :: "bool \<times> bool \<times> bool \<Rightarrow> byte list \<Rightarrow> byte list" where
  "typed m [] = []"
| "typed (sl, sr, caps) (k # ks) =
     (if k = 0x2A then typed (True, sr, caps) ks
      else if k = 0x36 then typed (sl, True, caps) ks
      else if k = 0xAA then typed (False, sr, caps) ks
      else if k = 0xB6 then typed (sl, False, caps) ks
      else if k = 0x3A then typed (sl, sr, \<not> caps) ks
      else key_char (sl \<or> sr) caps k # typed (sl, sr, caps) ks)"

definition typing_key :: "byte \<Rightarrow> bool" where
  "typing_key k \<longleftrightarrow> text_key k \<or> k = 0x2A \<or> k = 0x36 \<or> k = 0xAA \<or> k = 0xB6 \<or> k = 0x3A"

definition mods :: "'a keyboard_scheme \<Rightarrow> bool \<times> bool \<times> bool" where
  "mods s = (shift_l_flag s (current_terminal s), shift_r_flag s (current_terminal s), caps_lock_flag s)"

definition mods_after :: "bool \<times> bool \<times> bool \<Rightarrow> byte \<Rightarrow> bool \<times> bool \<times> bool" where
  "mods_after = (\<lambda>(sl, sr, caps) k.
     if k = 0x2A then (True, sr, caps) else if k = 0x36 then (sl, True, caps)
     else if k = 0xAA then (False, sr, caps) else if k = 0xB6 then (sl, False, caps)
     else if k = 0x3A then (sl, sr, \<not> caps) else (sl, sr, caps))"

lemma typed_Cons: "typed m (k # ks) = typed m [k] @ typed (mods_after m k) ks"
  by (cases m) (simp add: mods_after_def)

definition pbase :: "'a terminal_scheme \<Rightarrow> ((nat \<Rightarrow> nat \<Rightarrow> u32) \<times> (nat \<Rightarrow> u32) \<times> (nat \<Rightarrow> u32) \<times> u32 \<times> u32) \<times>
    (u32 \<times> nat \<times> u32) \<times> (nat \<times> nat)" where
  "pbase s = (case tbase s of (a, b, c, _) \<Rightarrow> (a, b, c))"

definition typing_ok :: "nat \<Rightarrow> 'a keyboard_scheme \<Rightarrow> bool" where
  "typing_ok t s \<longleftrightarrow> line_ok t s \<and> current_terminal s = t \<and> \<not> oob s \<and> \<not> ctrl_flag s t"

text \<open>What an interrupt handler adds around the action itself does not matter to the driver.\<close>

definition typing_view :: "nat \<Rightarrow> 'a keyboard_scheme \<Rightarrow> (edit_line \<times> bool \<times> (nat \<Rightarrow> int)) \<times> (bool \<times> bool \<times> bool) \<times>
    ((nat \<Rightarrow> nat \<Rightarrow> u32) \<times> (nat \<Rightarrow> u32) \<times> (nat \<Rightarrow> u32) \<times> u32 \<times> u32) \<times> (u32 \<times> nat \<times> u32) \<times> (nat \<times> nat)" where
  "typing_view t s = ((line_view t s, typing_ok t s, wait_for_nl s), mods s, pbase s)"

lemma typing_view_rest:
  assumes "rest s' = rest s"
  shows "typing_view t s' = typing_view t s"
  using rest_terminal [OF assms] tbase_rest [OF assms] tbase_flags [OF tbase_rest [OF assms]]
  by (simp add: typing_view_def typing_ok_def line_ok_def line_view_def mods_def pbase_def)

lemma inb_rest [simp]: "rest (fst (inb dev q s)) = rest s"
  by (simp add: inb_def rest_def)

lemma key_press_eq: "\<exists>u. rest u = rest s \<and> rest (key_press k s) = rest (key_action k u)"
proof
  let ?u = "fst (inb (\<lambda>_ _. k) KEY_PORT (cli s))"
  show "rest ?u = rest s \<and> rest (key_press k s) = rest (key_action k ?u)"
    by (simp add: key_press_def key_handler_def inb_def Let_def) (simp add: rest_def cli_def)
qed

lemma shift_keys_differ: "\<not> notPrintable 0x2A" "\<not> notPrintable 0x36" "\<not> notPrintable 0xAA" "\<not> notPrintable 0xB6"
  "\<not> notPrintable 0x3A" "\<not> notPrintable 0x1C"
  by code_simp+

lemma key_action_mod:
  assumes "k = 0x2A \<or> k = 0x36 \<or> k = 0xAA \<or> k = 0xB6 \<or> k = 0x3A"
  shows "typing_view t (key_action k s) = ((line_view t s, typing_ok t s, wait_for_nl s), mods_after (mods s) k, pbase s)"
  using assms
  by (elim disjE) (simp_all add: shift_keys_differ key_action_def Let_def typing_view_def typing_ok_def line_ok_def
      line_view_def mods_def mods_after_def pbase_def tbase_def)

lemma key_action_text:
  assumes "text_key k" and "\<not> ctrl_flag s (current_terminal s)"
  shows "key_action k s = term_putc (key_char (shift_l_flag s (current_terminal s) \<or> shift_r_flag s (current_terminal s)) (caps_lock_flag s) k) s"
proof -
  have "k \<notin> {0x9D, 0xAA, 0xB6, 0xB8}"
    using assms(1) by (auto simp: text_key_def isPrintable_def)
  then show ?thesis
    using assms
    by (auto simp: text_key_def key_action_def printable_key_def key_char_def shifted_def Let_def)
qed

lemma key_press_step:
  assumes ok: "typing_ok t s" and k: "typing_key k" and cs: "cs = typed (mods s) [k]" "10 \<notin> set cs" "13 \<notin> set cs" "BACKSPACE \<notin> set cs"
  shows "typing_view t (key_press k s) = ((fold aedit cs (line_view t s), True, wait_for_nl s), mods_after (mods s) k, pbase s)"
proof -
  obtain u where u: "rest u = rest s" "rest (key_press k s) = rest (key_action k u)" using key_press_eq by blast
  have vu: "line_view t u = line_view t s" "typing_ok t u" "wait_for_nl u = wait_for_nl s" "mods u = mods s" "pbase u = pbase s"
    using typing_view_rest [OF u(1), of t] ok by (simp_all add: typing_view_def)
  have "typing_view t (key_action k u) = ((fold aedit cs (line_view t s), True, wait_for_nl s), mods_after (mods s) k, pbase s)"
  proof (cases "k = 0x2A \<or> k = 0x36 \<or> k = 0xAA \<or> k = 0xB6 \<or> k = 0x3A")
    case True
    moreover from this have "cs = []" using cs(1) by (cases "mods s") auto
    ultimately show ?thesis using key_action_mod [OF True, of t u] vu by simp
  next
    case False
    define c where "c = key_char (shift_l_flag u t \<or> shift_r_flag u t) (caps_lock_flag u) k"
    have t: "current_terminal u = t" and tk: "text_key k" using vu(2) k False by (auto simp: typing_ok_def typing_key_def)
    have m: "mods u = (shift_l_flag u t, shift_r_flag u t, caps_lock_flag u)" by (simp add: mods_def t)
    then have "cs = [c]" using cs(1) False vu(4) by (simp add: c_def)
    then have c: "c \<noteq> 10" "c \<noteq> 13" "c \<noteq> BACKSPACE" using cs(2-4) by auto
    have ka: "key_action k u = term_putc c u"
      using key_action_text [OF tk, of u] vu(2) by (simp add: typing_ok_def t c_def)
    have "edit_guard c (line_view t u)" using c(3) by (simp add: edit_guard_def split_beta)
    then have st: "line_view t (term_putc c u) = aedit c (line_view t u)" "line_ok t (term_putc c u)" "oob (term_putc c u) = oob u"
      using term_putc_step [of t u c] vu(2) t by (simp_all add: typing_ok_def)
    have fl: "tbase (term_putc c u) = tbase u" by simp
    have "mods_after (mods s) k = mods s" using False by (cases "mods s") (simp add: mods_after_def)
    then show ?thesis
      using st vu t c tbaseD(1) [OF fl] tbase_flags [OF fl] \<open>cs = [c]\<close>
      by (simp add: ka typing_view_def typing_ok_def wait_term_putc mods_def pbase_def)
  qed
  then show ?thesis using typing_view_rest [OF u(2)] by simp
qed

lemma keys_run:
  assumes "typing_ok t s" and "\<forall>k \<in> set ks. typing_key k"
    and "10 \<notin> set (typed (mods s) ks)" "13 \<notin> set (typed (mods s) ks)" "BACKSPACE \<notin> set (typed (mods s) ks)"
  shows "\<exists>m. typing_view t (fold key_press ks s) =
    ((fold aedit (typed (mods s) ks) (line_view t s), True, wait_for_nl s), m, pbase s)"
  using assms
proof (induction ks arbitrary: s)
  case Nil
  then show ?case by (cases "mods s") (simp add: typing_view_def)
next
  case (Cons k ks)
  have e: "typed (mods s) (k # ks) = typed (mods s) [k] @ typed (mods_after (mods s) k) ks" by (rule typed_Cons)
  have k: "typing_view t (key_press k s) =
      ((fold aedit (typed (mods s) [k]) (line_view t s), True, wait_for_nl s), mods_after (mods s) k, pbase s)"
    using Cons.prems unfolding e by (intro key_press_step) simp_all
  then have "typing_ok t (key_press k s)" "mods (key_press k s) = mods_after (mods s) k"
    by (simp_all add: typing_view_def)
  moreover have "\<forall>k \<in> set ks. typing_key k" using Cons.prems by simp
  ultimately have "\<exists>m. typing_view t (fold key_press ks (key_press k s)) =
    ((fold aedit (typed (mods_after (mods s) k) ks) (line_view t (key_press k s)), True, wait_for_nl (key_press k s)), m,
     pbase (key_press k s))"
    using Cons.IH [of "key_press k s"] Cons.prems unfolding e by simp
  then show ?case unfolding e using k by (simp add: typing_view_def)
qed

lemma aedit_run:
  assumes "10 \<notin> set xs" "13 \<notin> set xs" "BACKSPACE \<notin> set xs" and "length l < BUF_SIZE"
  shows "fold aedit xs (l, length l) = (take (BUF_SIZE - 1) (l @ xs), min (BUF_SIZE - 1) (length l + length xs))"
  using assms
proof (induction xs arbitrary: l)
  case Nil
  then show ?case by (auto simp: min_def)
next
  case (Cons x xs)
  show ?case
  proof (cases "length l < BUF_SIZE - 1")
    case True
    then have "aedit x (l, length l) = (l @ [x], length (l @ [x]))" using Cons.prems by (auto simp: aedit_def)
    then show ?thesis using Cons.IH [of "l @ [x]"] Cons.prems True by simp
  next
    case False
    then have "aedit x (l, length l) = (l, length l)" using Cons.prems by (auto simp: aedit_def)
    then show ?thesis using Cons.IH [of l] Cons.prems False by simp
  qed
qed

lemma enter_key: "text_key 0x1C" "key_char sh caps 0x1C = 10"
proof -
  show "text_key 0x1C" by (simp add: text_key_def shift_keys_differ isPrintable_def)
  have "\<not> isALetter 0x1C" "scan2ASCII 28 = 10" "shift2ASCII 28 = 10" by code_simp+
  then show "key_char sh caps 0x1C = 10" by (simp add: key_char_def)
qed

text \<open>Pressing enter: the line and its newline are in the buffer, and the reader is released.\<close>

lemma press_enter:
  assumes ok: "typing_ok t s"
  shows "wait_for_nl (key_press 0x1C s) t = 0 \<and> typing_ok t (key_press 0x1C s) \<and> pbase (key_press 0x1C s) = pbase s \<and>
    map (buffer (key_press 0x1C s) t) [0..<length (fst (line_view t s)) + 1] = fst (line_view t s) @ [10]"
proof -
  obtain u where u: "rest u = rest s" "rest (key_press 0x1C s) = rest (key_action 0x1C u)" using key_press_eq by blast
  have vu: "line_view t u = line_view t s" "typing_ok t u" "pbase u = pbase s"
    using typing_view_rest [OF u(1), of t] ok by (simp_all add: typing_view_def)
  have t: "current_terminal u = t" using vu(2) by (simp add: typing_ok_def)
  have ka: "key_action 0x1C u = term_enter t u"
    using key_action_text [OF enter_key(1), of u] vu(2) by (simp add: typing_ok_def t enter_key(2) term_putc_def)
  have b: "0 \<le> cur_size u t" "cur_size u t < int BUF_SIZE" using vu(2) by (auto simp: typing_ok_def line_ok_def)
  have fl: "tbase (term_enter t u) = tbase u" by (simp add: term_enter_def Let_def)
  have w: "wait_for_nl (term_enter t u) t = 0" "line_ok t (term_enter t u)" "oob (term_enter t u) = oob u"
    "buffer (term_enter t u) t = (buffer u t)(nat (cur_size u t) := 10)"
    using b by (simp_all add: term_enter_def Let_def line_ok_def BUF_SIZE_def)
  have "typing_ok t (term_enter t u)"
    using vu(2) w tbaseD(1) [OF fl] tbase_flags [OF fl] by (simp add: typing_ok_def)
  moreover have "map (buffer (term_enter t u) t) [0..<length (fst (line_view t u)) + 1] = fst (line_view t u) @ [10]"
    by (simp add: w line_view_def map_upd_upt list_update_beyond)
  moreover have "typing_view t (key_press 0x1C s) = typing_view t (term_enter t u)"
    using typing_view_rest [OF u(2)] by (simp add: ka)
  moreover have "buffer (key_press 0x1C s) = buffer (term_enter t u)"
    using rest_terminal(1) [OF u(2)] by (simp add: ka)
  ultimately show ?thesis using w(1) fl vu by (simp add: typing_view_def pbase_def)
qed

section \<open>Reading the line\<close>

lemma kwrite8_mapped:
  assumes "paging_ok s" and "mapped_run s v p n" and "i < n"
  shows "kwrite8 (v + of_nat i) c s = s\<lparr>phys := (phys s)(p + of_nat i := c)\<rparr>"
  using assms translate_vaddr [of s "p + of_nat i" "v + of_nat i" True] by (simp add: kwrite8_def mapped_run_def)

lemma kread8_mapped:
  assumes "paging_ok s" and "mapped_run s v p n" and "i < n"
  shows "kread8 s (v + of_nat i) = phys s (p + of_nat i)"
  using assms translate_vaddr [of s "p + of_nat i" "v + of_nat i" False] by (simp add: kread8_def mapped_run_def)

lemma mapped_pbase:
  assumes "pbase s' = pbase s"
  shows "mapped_run s' v p n = mapped_run s v p n" "paging_ok s' = paging_ok s"
    "current_terminal s' = current_terminal s" "current_active_process s' = current_active_process s"
proof -
  have e: "page_directories s' = page_directories s" "low_memory_table s' = low_memory_table s"
    "video_table s' = video_table s" "low_memory_at s' = low_memory_at s" "video_table_at s' = video_table_at s"
    "cr0 s' = cr0 s" "cr3 s' = cr3 s" "cr4 s' = cr4 s"
    using assms by (simp_all add: pbase_def tbase_def)
  then show "paging_ok s' = paging_ok s" by (intro paging_ok_cong) simp_all
  have "vaddr_of s' = vaddr_of s" by (intro ext) (simp only: vaddr_of_def e)
  then show "mapped_run s' v p n = mapped_run s v p n" by (simp only: mapped_run_def)
  show "current_terminal s' = current_terminal s" "current_active_process s' = current_active_process s"
    using assms by (simp_all add: pbase_def tbase_def)
qed

text \<open>One turn of the copy loop.\<close>

lemma term_copy_step:
  assumes ok: "paging_ok s" "mapped_run s buf p n" "t = current_terminal s" "i < n" "i < BUF_SIZE" "int i < numbytes"
    and u: "u = set_buffer t (int i) 0 (s\<lparr>phys := (phys s)(p + of_nat i := buffer s t i)\<rparr>)"
  shows "term_copy buf numbytes (int i) s =
      (if buffer s t i = 10 \<or> buffer s t i = 0
       then (sti (kwrite8 (buf + of_nat (i + 1)) 0 (kwrite8 (buf + of_nat i) 10 u)), int i + 1)
       else term_copy buf numbytes (int (i + 1)) u)"
    and "paging_ok u" and "mapped_run u buf p n" and "phys u = (phys s)(p + of_nat i := buffer s t i)"
    and "oob u = oob s" and "current_terminal u = t" and "\<forall>k. k \<noteq> i \<longrightarrow> buffer u t k = buffer s t k"
proof -
  have w: "kwrite8 (buf + of_nat i) (buffer s t i) s = s\<lparr>phys := (phys s)(p + of_nat i := buffer s t i)\<rparr>"
    by (rule kwrite8_mapped [OF ok(1,2,4)])
  have "pbase u = pbase s" by (simp add: u pbase_def) (simp add: tbase_def)
  note pb = mapped_pbase [OF this]
  then show q: "paging_ok u" "mapped_run u buf p n" using ok by simp_all
  show ph: "phys u = (phys s)(p + of_nat i := buffer s t i)" using ok(5) by (simp add: u set_buffer_def)
  show "oob u = oob s" "\<forall>k. k \<noteq> i \<longrightarrow> buffer u t k = buffer s t k" using ok(5) by (simp_all add: u)
  show "current_terminal u = t" using pb ok(3) by simp
  have r: "kread8 u (buf + of_nat i) = buffer s t i" using kread8_mapped [OF q ok(4)] by (simp add: ph)
  have i: "of_int (int i) = (of_nat i :: u32)" "of_int (int i + 1) = (of_nat (i + 1) :: u32)" "int i + 1 = int (i + 1)"
    by (simp_all add: add.commute)
  have g: "0 \<le> int i \<and> int i < int BUF_SIZE" "nat (int i) = i" using ok(5) by simp_all
  show "term_copy buf numbytes (int i) s =
      (if buffer s t i = 10 \<or> buffer s t i = 0
       then (sti (kwrite8 (buf + of_nat (i + 1)) 0 (kwrite8 (buf + of_nat i) 10 u)), int i + 1)
       else term_copy buf numbytes (int (i + 1)) u)"
    by (subst term_copy.simps)
      (simp only: ok(6) if_True g simp_thms Let_def ok(3) [symmetric] i(1,2) w u [symmetric] r, simp only: i(3))
qed

lemma term_copy_line:
  assumes "paging_ok s" and "mapped_run s buf p (length l + 2)" and "t = current_terminal s"
    and "\<forall>k < length l. i \<le> k \<longrightarrow> buffer s t k = l ! k" and "buffer s t (length l) = 10"
    and "length l < BUF_SIZE" and "0 \<notin> set l" and "10 \<notin> set l" and "int (length l) < numbytes" and "i \<le> length l"
  shows "phys (fst (term_copy buf numbytes (int i) s)) = wr_bytes (phys s) (p + of_nat i) (drop i l @ [10, 0]) \<and>
    snd (term_copy buf numbytes (int i) s) = int (length l) + 1 \<and> oob (fst (term_copy buf numbytes (int i) s)) = oob s"
  using assms(1-5,10)
proof (induction "length l - i" arbitrary: i s)
  case 0
  then have i: "i = length l" by simp
  define u where "u = set_buffer t (int i) 0 (s\<lparr>phys := (phys s)(p + of_nat i := buffer s t i)\<rparr>)"
  note st = term_copy_step [OF "0.prems"(1-3) _ _ _ u_def, of numbytes]
  have u: "paging_ok u" "mapped_run u buf p (length l + 2)" "phys u = (phys s)(p + of_nat i := 10)" "oob u = oob s"
    using st(2-5) assms(6,9) "0.prems"(5) i by simp_all
  have "kwrite8 (buf + of_nat i) 10 u = u" using kwrite8_mapped [OF u(1,2), of i 10] i u(3) by (simp add: fun_upd_idem)
  moreover have "kwrite8 (buf + of_nat (i + 1)) 0 u = u\<lparr>phys := (phys u)(p + of_nat (i + 1) := 0)\<rparr>"
    using i by (intro kwrite8_mapped [OF u(1,2)]) simp
  ultimately have "term_copy buf numbytes (int i) s = (sti (u\<lparr>phys := (phys u)(p + of_nat (i + 1) := 0)\<rparr>), int i + 1)"
    using st(1) assms(6,9) "0.prems"(5) i by simp
  then show ?case using u i by (simp add: sti_def algebra_simps)
next
  case (Suc n)
  then have i: "i < length l" by simp
  have b: "buffer s t i = l ! i" using Suc.prems(4) i by simp
  have c: "l ! i \<noteq> 0" "l ! i \<noteq> 10" using assms(7,8) nth_mem [OF i] by metis+
  define u where "u = set_buffer t (int i) 0 (s\<lparr>phys := (phys s)(p + of_nat i := buffer s t i)\<rparr>)"
  note st = term_copy_step [OF Suc.prems(1-3) _ _ _ u_def, of numbytes]
  have bu: "\<forall>k < length l. i + 1 \<le> k \<longrightarrow> buffer u t k = l ! k" "buffer u t (length l) = 10"
    using st(7) assms(6,9) i Suc.prems(4,5) by simp_all
  have r: "term_copy buf numbytes (int i) s = term_copy buf numbytes (int (i + 1)) u"
    using st(1) assms(6,9) i b c by simp
  have d: "drop i l = l ! i # drop (i + 1) l" using i by (simp add: Cons_nth_drop_Suc)
  have "t = current_terminal u" using st(6) assms(6,9) i by simp
  then have "phys (fst (term_copy buf numbytes (int (i + 1)) u)) = wr_bytes (phys u) (p + of_nat (i + 1)) (drop (i + 1) l @ [10, 0]) \<and>
    snd (term_copy buf numbytes (int (i + 1)) u) = int (length l) + 1 \<and> oob (fst (term_copy buf numbytes (int (i + 1)) u)) = oob u"
    using Suc.hyps(1) [of "i + 1" u] Suc.hyps(2) bu st(2,3) assms(6,9) i by simp
  then show ?case unfolding r d using st(4,5) assms(6,9) i b by (simp add: algebra_simps)
qed

lemma term_wait_keys:
  assumes "typing_ok t s" and "\<forall>k \<in> set ks. typing_key k" and "wait_for_nl s t \<noteq> 0"
    and "10 \<notin> set (typed (mods s) ks)" "13 \<notin> set (typed (mods s) ks)" "BACKSPACE \<notin> set (typed (mods s) ks)"
  shows "term_wait t ks s = None \<and> term_wait t (ks @ [0x1C]) s = Some (key_press 0x1C (fold key_press ks s))"
  using assms
proof (induction ks arbitrary: s)
  case Nil
  then show ?case using press_enter [OF Nil(1)] by simp
next
  case (Cons k ks)
  have e: "typed (mods s) (k # ks) = typed (mods s) [k] @ typed (mods_after (mods s) k) ks" by (rule typed_Cons)
  have "typing_view t (key_press k s) =
      ((fold aedit (typed (mods s) [k]) (line_view t s), True, wait_for_nl s), mods_after (mods s) k, pbase s)"
    using Cons.prems unfolding e by (intro key_press_step) simp_all
  then have "typing_ok t (key_press k s)" "mods (key_press k s) = mods_after (mods s) k" "wait_for_nl (key_press k s) = wait_for_nl s"
    by (simp_all add: typing_view_def)
  then show ?case using Cons.IH [of "key_press k s"] Cons.prems unfolding e by simp
qed

lemma typing_set_wait [simp]:
  "typing_ok t (s\<lparr>wait_for_nl := w\<rparr>) = typing_ok t s" "mods (s\<lparr>wait_for_nl := w\<rparr>) = mods s"
  "line_view t (s\<lparr>wait_for_nl := w\<rparr>) = line_view t s" "pbase (s\<lparr>wait_for_nl := w\<rparr>) = pbase s"
  by (simp_all add: typing_ok_def line_ok_def mods_def line_view_def pbase_def)

text \<open>The state in which the reader is released: the typed line and a newline are in the buffer.\<close>

lemma typed_line_ready:
  assumes "typing_ok t s" and "line_view t s = ([], 0)" and "wait_for_nl s t \<noteq> 0"
    and "\<forall>k \<in> set ks. typing_key k" and "xs = typed (mods s) ks" and "set xs \<inter> {0, 10, 13, BACKSPACE} = {}"
    and "l = take (BUF_SIZE - 1) xs"
  shows "term_wait t ks s = None" and "\<exists>u. term_wait t (ks @ [0x1C]) s = Some u \<and> typing_ok t u \<and> pbase u = pbase s \<and>
    (\<forall>k < length l. buffer u t k = l ! k) \<and> buffer u t (length l) = 10"
    and "length l < BUF_SIZE" and "0 \<notin> set l" and "10 \<notin> set l"
proof -
  have xs: "10 \<notin> set (typed (mods s) ks)" "13 \<notin> set (typed (mods s) ks)" "BACKSPACE \<notin> set (typed (mods s) ks)"
    using assms(5,6) by auto
  define s2 where "s2 = fold key_press ks s"
  obtain m where "typing_view t s2 = ((fold aedit xs ([], 0), True, wait_for_nl s), m, pbase s)"
    using keys_run [OF assms(1,4) xs] unfolding s2_def assms(2,5) by blast
  then have 2: "line_view t s2 = fold aedit xs ([], 0)" "typing_ok t s2" "pbase s2 = pbase s" by (simp_all add: typing_view_def)
  have l: "fst (line_view t s2) = l" using aedit_run [of xs "[]"] xs assms(5,7) 2(1) by (simp add: BUF_SIZE_def)
  show "length l < BUF_SIZE" using assms(7) by (simp add: BUF_SIZE_def)
  show "0 \<notin> set l" "10 \<notin> set l" using assms(6,7) by (auto dest: in_set_takeD)
  define u where "u = key_press 0x1C s2"
  have 3: "typing_ok t u" "pbase u = pbase s" "map (buffer u t) [0..<length l + 1] = l @ [10]"
    using press_enter [OF 2(2)] l 2(3) by (simp_all add: u_def)
  have b: "buffer u t k = (l @ [10]) ! k" if "k < length l + 1" for k
    using arg_cong [OF 3(3), of "\<lambda>xs. xs ! k"] that by (simp del: upt_Suc)
  then have "(\<forall>k < length l. buffer u t k = l ! k) \<and> buffer u t (length l) = 10" by (simp add: nth_append)
  moreover have w: "term_wait t ks s = None" "term_wait t (ks @ [0x1C]) s = Some u"
    using term_wait_keys [OF assms(1,4,3) xs] by (simp_all add: u_def s2_def)
  ultimately show "\<exists>u. term_wait t (ks @ [0x1C]) s = Some u \<and> typing_ok t u \<and> pbase u = pbase s \<and>
    (\<forall>k < length l. buffer u t k = l ! k) \<and> buffer u t (length l) = 10"
    using 3 by blast
  show "term_wait t ks s = None" by (rule w(1))
qed

text \<open>
  C11. From the keyboard to the program: a program that reads from its displayed terminal blocks while
  text keys and shift and caps lock keys are pressed, and returns when enter is pressed. It then gets
  the text those keys type on a US keyboard, cut at 127 characters, with a newline and a zero byte, and
  the length of the line with its newline as the result.
\<close>

theorem read_returns_typed_line:
  assumes "typing_ok t s" and "current_active_process s = t" and "line_view t s = ([], 0)" and "paging_ok s"
    and "\<forall>k \<in> set ks. typing_key k" and "xs = typed (mods s) ks" and "set xs \<inter> {0, 10, 13, BACKSPACE} = {}"
    and "l = take (BUF_SIZE - 1) xs" and "mapped_run s buf p (length l + 2)" and "int (length l) < numbytes"
  shows "term_read buf numbytes ks s = None \<and>
    (\<exists>s'. term_read buf numbytes (ks @ [0x1C]) s = Some (s', int (length l) + 1) \<and>
      rd_bytes (phys s') p (length l + 2) = l @ [10, 0] \<and> \<not> oob s')"
proof -
  define s1 where "s1 = s\<lparr>wait_for_nl := (wait_for_nl s)(t := 1)\<rparr>"
  have 1: "typing_ok t s1" "line_view t s1 = ([], 0)" "wait_for_nl s1 t \<noteq> 0" "xs = typed (mods s1) ks" "pbase s1 = pbase s"
    using assms(1,3,6) by (simp_all add: s1_def)
  note ready = typed_line_ready [OF 1(1-3) assms(5) 1(4) assms(7,8)]
  obtain s3 where w: "term_wait t (ks @ [0x1C]) s1 = Some s3" and 3: "typing_ok t s3" "pbase s3 = pbase s"
      "\<forall>k < length l. buffer s3 t k = l ! k" "buffer s3 t (length l) = 10"
    using ready(2) 1(5) by auto
  define s4 where "s4 = putc 10 (set_x START_POS (cli s3))"
  have "rest s4 = rest s3" by (simp add: s4_def)
  then have 4: "buffer s4 = buffer s3" "pbase s4 = pbase s" "oob s4 = oob s3" "current_terminal s4 = t"
    using rest_terminal [of s4 s3] tbase_rest [of s4 s3] 3(1,2) by (simp_all add: pbase_def typing_ok_def)
  have q: "paging_ok s4" "mapped_run s4 buf p (length l + 2)" "t = current_terminal s4"
    using mapped_pbase [OF 4(2)] assms(4,9) 4(4) by simp_all
  have tc: "phys (fst (term_copy buf numbytes (int 0) s4)) = wr_bytes (phys s4) (p + of_nat 0) (drop 0 l @ [10, 0]) \<and>
    snd (term_copy buf numbytes (int 0) s4) = int (length l) + 1 \<and> oob (fst (term_copy buf numbytes (int 0) s4)) = oob s4"
    using q 3(3,4) 4(1) ready(3-5) assms(10) by (intro term_copy_line) simp_all
  have "length (l @ [10, 0]) \<le> 2 ^ 32" using ready(3) by (simp add: BUF_SIZE_def)
  then have "rd_bytes (wr_bytes (phys s4) p (l @ [10, 0])) p (length l + 2) = l @ [10, 0]"
    using rd_wr_bytes_same [of "l @ [10, 0]" "phys s4" p] by simp
  then show ?thesis
    using w ready(1) tc 3(1) 4(3) assms(2) unfolding term_read_def Let_def
    by (simp add: s1_def [symmetric] s4_def [symmetric] typing_ok_def) (metis prod.collapse)
qed

definition demo_keyboard :: keyboard where
  "demo_keyboard = terminal.extend demo_terminal (keyboard.fields (\<lambda>_. False) (\<lambda>_. False) (\<lambda>_. False) False False)"

lemma demo_keyboard_simps:
  "current_terminal demo_keyboard = 0" "current_active_process demo_keyboard = 0" "mods demo_keyboard = (False, False, False)"
  "line_view 0 demo_keyboard = ([], 0)" "typing_ok 0 demo_keyboard" "paging_ok demo_keyboard"
proof -
  show "current_terminal demo_keyboard = 0" "current_active_process demo_keyboard = 0" "mods demo_keyboard = (False, False, False)"
    "line_view 0 demo_keyboard = ([], 0)" "typing_ok 0 demo_keyboard"
    by (simp_all add: demo_keyboard_def demo_terminal_def terminal.defs keyboard.defs tasking.defs boot_tasks_simps mods_def
        line_view_def typing_ok_def line_ok_def BUF_SIZE_def)
  have "paging_ok demo_keyboard = paging_ok demo_terminal"
    by (rule paging_ok_cong) (simp_all add: demo_keyboard_def terminal.defs)
  then show "paging_ok demo_keyboard" using demo_terminal_paging by simp
qed

theorem read_returns_typed_line_witness:
  "\<exists>s'. term_read 0x480000 100 ([0x2A, 0x26, 0xAA, 0x1F] @ [0x1C]) demo_keyboard = Some (s', 3) \<and>
     rd_bytes (phys s') 0x480000 4 = str ''Ls'' @ [10, 0]"
proof -
  let ?ks = "[0x2A, 0x26, 0xAA, 0x1F] :: byte list"
  have k: "\<forall>k \<in> set ?ks. typing_key k" by code_simp
  have x: "str ''Ls'' = typed (mods demo_keyboard) ?ks" unfolding demo_keyboard_simps(3) by code_simp
  have n: "set (str ''Ls'') \<inter> {0, 10, 13, BACKSPACE} = {}" by code_simp
  have l: "str ''Ls'' = take (BUF_SIZE - 1) (str ''Ls'')" by code_simp
  have len: "length (str ''Ls'') = 2" by code_simp
  have m: "mapped_run demo_keyboard 0x480000 0x480000 (length (str ''Ls'') + 2)"
    by (rule mapped_kernel) (simp_all add: len)
  have "int (length (str ''Ls'')) < 100" by (simp add: len)
  from read_returns_typed_line [OF demo_keyboard_simps(5,2,4,6) k x n l m this]
  show ?thesis by (auto simp: len simp del: rd_bytes.simps)
qed

end
