(* ===== verification/Syscalls.thy ===== *)
theory Syscalls
  imports Keyboard
begin

unbundle bit_operations_syntax

text \<open>
  The file interface and the system calls: \<open>kopen\<close>, \<open>kread\<close>, \<open>kwrite\<close> (\<^verbatim>\<open>zbigfs.c\<close>), which dispatch on
  the operations of a file, the helpers of \<^verbatim>\<open>syscall_funcs.c\<close>, and the handlers of \<^verbatim>\<open>syscall.S\<close>.
\<close>

section \<open>State\<close>

record kernel = keyboard +
  zbigfs_start :: u32

definition zbigfs_mount :: "u32 \<Rightarrow> 'a kernel_scheme \<Rightarrow> 'a kernel_scheme" where
  "zbigfs_mount base_addr s = s\<lparr>zbigfs_start := base_addr\<rparr>"

text \<open>
  What the outside world does during a call: the answers of the devices, whether a clock interrupt
  is taken at each turn of a waiting loop, and the scan codes of the keyboard interrupts.
\<close>

record world =
  dev :: device
  ticks :: "bool list"
  keys :: "byte list"

section \<open>Files\<close>

text \<open>
  The call through \<open>f->optable\<close>. A file without operations has a null table; calling through it is
  recorded as a fault.
\<close>

definition file_open :: "device \<Rightarrow> FILE \<Rightarrow> 'a kernel_scheme \<Rightarrow> 'a kernel_scheme \<times> FILE \<times> int" where
  "file_open d f s =
     (case optable f of
        Ops_regular \<Rightarrow> (s, f, regular_open f)
      | Ops_directory \<Rightarrow> (s, f, directory_open f)
      | Ops_rtc \<Rightarrow> (let (s, r) = rtc_open d s in (s, f, r))
      | Ops_stdin \<Rightarrow> (let (f, r) = stdin_open f in (s, f, r))
      | Ops_stdout \<Rightarrow> (let (f, r) = stdout_open f in (s, f, r))
      | Ops_null \<Rightarrow> (s\<lparr>fault := True\<rparr>, f, - 1))"

text \<open>\<open>dentry\<close> is the address of the local \<open>dentry_t\<close>.\<close>

definition kopen :: "device \<Rightarrow> u32 \<Rightarrow> FILE \<Rightarrow> u32 \<Rightarrow> 'a kernel_scheme \<Rightarrow> 'a kernel_scheme \<times> FILE \<times> int" where
  "kopen d dentry f name s =
     (let (m, r) = read_dentry_by_name (vmem s) (zbigfs_start s) name dentry;
          s = put_vmem m s in
      if r \<noteq> 0 then (s, f, - 1)
      else
        (let f = f\<lparr>pos := 0\<rparr>;
             ftype = rd32 (vmem s) (d_ftype dentry);
             f = (if ftype = FTYPE_REGULAR
                  then f\<lparr>inode := rd32 (vmem s) (d_inode_num dentry), optable := Ops_regular\<rparr>
                  else if ftype = FTYPE_SPECIAL then f\<lparr>optable := Ops_rtc\<rparr>
                  else if ftype = FTYPE_DIRECTORY then f\<lparr>optable := Ops_directory\<rparr>
                  else f)
         in file_open d f s))"

definition kread :: "world \<Rightarrow> u32 \<Rightarrow> FILE \<Rightarrow> u32 \<Rightarrow> u32 \<Rightarrow> 'a kernel_scheme \<Rightarrow> ('a kernel_scheme \<times> FILE \<times> int) option" where
  "kread w dentry f buf numbytes s =
     (case optable f of
        Ops_regular \<Rightarrow>
          (let (m, f, r) = regular_read (vmem s) (zbigfs_start s) f buf numbytes
           in Some (put_vmem m s, f, r))
      | Ops_directory \<Rightarrow>
          (let (m, f, r) = directory_read (vmem s) (zbigfs_start s) dentry f buf numbytes
           in Some (put_vmem m s, f, r))
      | Ops_rtc \<Rightarrow> map_option (\<lambda>(s, r). (s, f, r)) (rtc_read (dev w) (ticks w) s)
      | Ops_stdin \<Rightarrow> map_option (\<lambda>(s, r). (s, f, r)) (term_read buf (sint numbytes) (keys w) s)
      | Ops_stdout \<Rightarrow> Some (s, f, noread)
      | Ops_null \<Rightarrow> Some (s\<lparr>fault := True\<rparr>, f, - 1))"

definition kwrite :: "world \<Rightarrow> FILE \<Rightarrow> u32 \<Rightarrow> u32 \<Rightarrow> 'a kernel_scheme \<Rightarrow> 'a kernel_scheme \<times> int" where
  "kwrite w f buf numbytes s =
     (case optable f of
        Ops_regular \<Rightarrow> (s, readonly_write f)
      | Ops_directory \<Rightarrow> (s, readonly_write f)
      | Ops_rtc \<Rightarrow> rtc_write (dev w) buf (sint numbytes) s
      | Ops_stdin \<Rightarrow> (s, nowrite)
      | Ops_stdout \<Rightarrow> term_write buf (sint numbytes) s
      | Ops_null \<Rightarrow> (s\<lparr>fault := True\<rparr>, - 1))"

section \<open>Helpers of the system calls\<close>

definition OFFSET_128M :: u32 where "OFFSET_128M = OFFSET_4M * 32"

definition OFFSET_132M :: u32 where "OFFSET_132M = OFFSET_4M * 33"

definition LOAD_ADDR :: u32 where "LOAD_ADDR = 0x08048000"

definition EXE_HEADER_SZ :: u32 where "EXE_HEADER_SZ = 28"

definition EXE_LOAD_SZ :: u32 where "EXE_LOAD_SZ = OFFSET_4M * 33 - LOAD_ADDR"

definition MAGIC_NUM :: u32 where "MAGIC_NUM = 0x464c457f"

text \<open>The first comparison is between signed numbers, the second between unsigned ones.\<close>

definition usr_ptr_ok :: "u32 \<Rightarrow> u32 \<Rightarrow> bool" where
  "usr_ptr_ok p s \<longleftrightarrow> sint p \<ge> sint OFFSET_128M \<and> p + s \<le> OFFSET_132M"

definition min_int :: "int \<Rightarrow> int \<Rightarrow> int" where
  "min_int a b = (if a < b then a else b)"

definition syscall_open :: "device \<Rightarrow> u32 \<Rightarrow> u32 \<Rightarrow> 'a kernel_scheme \<Rightarrow> ('a kernel_scheme \<times> int) option" where
  "syscall_open d dentry name s =
     (case strlen (vmem s) name of
        None \<Rightarrow> None
      | Some n \<Rightarrow> Some
          (if \<not> usr_ptr_ok name n then (s, - 1)
           else
             (let (s, fd) = get_new_fd s in
              if fd = - 1 then (s, - 1)
              else
                (case get_file fd s of
                   None \<Rightarrow> (s\<lparr>fault := True\<rparr>, - 1)
                 | Some k \<Rightarrow>
                     (let (s, f, ret) = kopen d dentry (cur_files s k) name s;
                          s = set_file k f s in
                      if ret \<noteq> 0 then (fst (free_fd fd s), ret) else (s, fd))))))"

definition syscall_getargs :: "u32 \<Rightarrow> int \<Rightarrow> 'a kernel_scheme \<Rightarrow> 'a kernel_scheme \<times> int" where
  "syscall_getargs buf nbytes s =
     (if \<not> usr_ptr_ok buf (of_int nbytes) then (s, - 1)
      else
        (let s = put_vmem (strncpy (vmem s) buf (pcb_cmdstring (current_process s))
               (of_int (min_int nbytes (int BUF_SIZE)))) s;
             bytes_copied = sint buf
         in if bytes_copied < nbytes then (s, - 1) else (s, 0)))"

definition syscall_vidmap :: "u32 \<Rightarrow> 'a kernel_scheme \<Rightarrow> 'a kernel_scheme \<times> int" where
  "syscall_vidmap vid_ptr s =
     (if \<not> usr_ptr_ok vid_ptr 4 then (s, - 1)
      else (put_vmem (wr32 (vmem s) vid_ptr (OFFSET_132M + OFFSET_VIDEO)) s, 0))"

subsection \<open>Command lines\<close>

text \<open>The loop over spaces has no bound in the source; \<open>None\<close> means that it does not end.\<close>

partial_function (option) skip_spaces :: "memory \<Rightarrow> u32 \<Rightarrow> int \<Rightarrow> int option" where
  "skip_spaces m inp i = (if m (inp + of_int i) = 0x20 then skip_spaces m inp (i + 1) else Some i)"

text \<open>Copies up to the end of the line, and for the first word also up to a space.\<close>

function copy_input :: "bool \<Rightarrow> memory \<Rightarrow> u32 \<Rightarrow> u32 \<Rightarrow> int \<Rightarrow> int \<Rightarrow> int \<Rightarrow> memory \<times> int \<times> int" where
  "copy_input word m inp out sz in_i out_i =
     (if in_i < sz \<and> m (inp + of_int in_i) \<noteq> 0 \<and> m (inp + of_int in_i) \<noteq> 10
      then
        (if word \<and> m (inp + of_int in_i) = 0x20 then (m, in_i, out_i)
         else copy_input word (m(out + of_int out_i := m (inp + of_int in_i))) inp out sz (in_i + 1) (out_i + 1))
      else (m, in_i, out_i))"
  by pat_completeness auto
termination by (relation "measure (\<lambda>(_, _, _, _, sz, in_i, _). nat (sz - in_i))") auto

declare copy_input.simps [simp del]

definition parse_input :: "memory \<Rightarrow> u32 \<Rightarrow> u32 \<Rightarrow> u32 \<Rightarrow> int \<Rightarrow> memory option" where
  "parse_input m inp exec_buf args_buf sz =
     (let m = m(args_buf := 0) in
      if inp = 0 then Some m
      else
        (case skip_spaces m inp 0 of
           None \<Rightarrow> None
         | Some in_i \<Rightarrow>
             (let (m, in_i, out_i) = copy_input True m inp exec_buf sz in_i 0;
                  m = m(exec_buf + of_int out_i := 0) in
              case skip_spaces m inp in_i of
                None \<Rightarrow> None
              | Some in_i \<Rightarrow>
                  (let (m, in_i, out_i) = copy_input False m inp args_buf sz in_i 0
                   in Some (m(args_buf + of_int out_i := 0))))))"

subsection \<open>Loading a program\<close>

text \<open>The addresses of the local variables of \<open>load_exec_to_mem\<close> and of \<open>kopen\<close> and the contents of \<open>f\<close>.\<close>

record load_frame =
  exec_at :: u32
  args_at :: u32
  buf_at :: u32
  d_at :: u32
  dentry_at :: u32
  file0 :: FILE

definition start_program :: "world \<Rightarrow> load_frame \<Rightarrow> FILE \<Rightarrow> 'a kernel_scheme \<Rightarrow> ('a kernel_scheme \<times> u32) option" where
  "start_program w fr f s =
     (let (s, r) = setup_new_process s in
      if r \<noteq> 0 then Some (s, 1)
      else
        (let mem = LOAD_ADDR;
             s = put_vmem (memcpy (vmem s) mem (buf_at fr) EXE_HEADER_SZ) s in
         case kread w (dentry_at fr) f (mem + EXE_HEADER_SZ) EXE_LOAD_SZ s of
           None \<Rightarrow> None
         | Some (s, f, _) \<Rightarrow>
             (let entry = rd32 (vmem s) (mem + 24);
                  s = put_vmem (strncpy (vmem s) (pcb_cmdstring (current_process s)) (args_at fr) 128) s
              in Some (s, entry))))"

definition kload_exec_to_mem :: "world \<Rightarrow> load_frame \<Rightarrow> u32 \<Rightarrow> 'a kernel_scheme \<Rightarrow> ('a kernel_scheme \<times> u32) option" where
  "kload_exec_to_mem w fr fname s =
     (case parse_input (vmem s) fname (exec_at fr) (args_at fr) (int BUF_SIZE) of
        None \<Rightarrow> None
      | Some m \<Rightarrow>
          (let s = put_vmem m s;
               (m, _) = read_dentry_by_name (vmem s) (zbigfs_start s) (exec_at fr) (d_at fr);
               s = put_vmem m s in
           if rd32 (vmem s) (d_ftype (d_at fr)) \<noteq> FTYPE_REGULAR then Some (s, - 1)
           else
             (let (s, f, r) = kopen (dev w) (dentry_at fr) (file0 fr) (exec_at fr) s in
              if r \<noteq> 0 then Some (s, - 1)
              else
                (case kread w (dentry_at fr) f (buf_at fr) EXE_HEADER_SZ s of
                   None \<Rightarrow> None
                 | Some (s, f, _) \<Rightarrow>
                     if rd32 (vmem s) (buf_at fr) \<noteq> MAGIC_NUM then Some (s, - 1)
                     else start_program w fr f s))))"

text \<open>\<open>load_exec_to_mem\<close> has the same body after saving the line in the history.\<close>

definition load_exec_to_mem :: "world \<Rightarrow> load_frame \<Rightarrow> u32 \<Rightarrow> 'a kernel_scheme \<Rightarrow> ('a kernel_scheme \<times> u32) option" where
  "load_exec_to_mem w fr fname s = kload_exec_to_mem w fr fname (save_hist fname s)"

section \<open>System call handlers\<close>

definition sys_read :: "world \<Rightarrow> u32 \<Rightarrow> int \<Rightarrow> u32 \<Rightarrow> u32 \<Rightarrow> 'a kernel_scheme \<Rightarrow> ('a kernel_scheme \<times> int) option" where
  "sys_read w dentry fd buf nbytes s =
     (if \<not> usr_ptr_ok buf nbytes then Some (s, - 1)
      else
        (case get_file fd s of
           None \<Rightarrow> Some (s, - 1)
         | Some k \<Rightarrow>
             map_option (\<lambda>(s, f, r). (set_file k f s, r)) (kread w dentry (cur_files s k) buf nbytes s)))"

definition sys_write :: "world \<Rightarrow> int \<Rightarrow> u32 \<Rightarrow> u32 \<Rightarrow> 'a kernel_scheme \<Rightarrow> 'a kernel_scheme \<times> int" where
  "sys_write w fd buf nbytes s =
     (if \<not> usr_ptr_ok buf nbytes then (s, - 1)
      else
        (case get_file fd s of
           None \<Rightarrow> (s, - 1)
         | Some k \<Rightarrow> kwrite w (cur_files s k) buf nbytes s))"

text \<open>
  \<open>execute\<close> called with stack pointer \<open>sp\<close> either fails or goes to the entry point of the new program in
  user mode; \<open>halt\<close> resumes the parent on its stack with the exit code, or starts a new shell when it was
  one of the first three processes.
\<close>

datatype exec_result = Exec_fail | Enter u32

definition enter_program :: "u32 \<Rightarrow> nat \<Rightarrow> ('a kernel_scheme \<times> u32) option \<Rightarrow> ('a kernel_scheme \<times> exec_result) option" where
  "enter_program sp parent_pid loaded =
     (case loaded of
        None \<Rightarrow> None
      | Some (s, entry) \<Rightarrow>
          if entry = - 1 then Some (s, Exec_fail)
          else if entry = 1 then Some (s, Exec_fail)
          else Some (set_pcb parent_pid ((pcbs s parent_pid)\<lparr>esp := sp\<rparr>) s, Enter entry))"

definition execute :: "world \<Rightarrow> load_frame \<Rightarrow> u32 \<Rightarrow> u32 \<Rightarrow> 'a kernel_scheme \<Rightarrow> ('a kernel_scheme \<times> exec_result) option" where
  "execute w fr sp fname s =
     (case strlen (vmem s) fname of
        None \<Rightarrow> None
      | Some n \<Rightarrow>
          if \<not> usr_ptr_ok fname n then Some (s, Exec_fail)
          else enter_program sp (current_process s) (load_exec_to_mem w fr fname s))"

definition kexecute :: "world \<Rightarrow> load_frame \<Rightarrow> u32 \<Rightarrow> u32 \<Rightarrow> 'a kernel_scheme \<Rightarrow> ('a kernel_scheme \<times> exec_result) option" where
  "kexecute w fr sp fname s = enter_program sp (current_process s) (kload_exec_to_mem w fr fname s)"

datatype halt_result = Return_to u32 u32 | New_shell

definition halt :: "u32 \<Rightarrow> 'a kernel_scheme \<Rightarrow> 'a kernel_scheme \<times> halt_result" where
  "halt code s =
     (let s = free_current_pcb s in
      if get_current_pid s < 4 then (s, New_shell)
      else
        (let par = parent (get_current_pcb s);
             s = switch_context par s
         in (s, Return_to (esp (pcbs s par)) code)))"

end
