(* ===== verification/Sys_Files.thy ===== *)
theory Sys_Files
  imports Syscalls
begin

unbundle bit_operations_syntax

text \<open>
  Files through the system calls: the check of user pointers, opening by name, and reading a file into
  the memory of a program.
\<close>

section \<open>User pointers\<close>

lemma sint_u32: "n < 2 ^ 32 \<Longrightarrow> sint (of_nat n :: u32) = (if n < 2 ^ 31 then int n else int n - 2 ^ 32)"
proof -
  assume n: "n < 2 ^ 32"
  have "sint (of_nat n :: u32) = signed_take_bit 31 (int n)" by (simp add: signed_of_nat)
  also have "\<dots> = (int n + 2 ^ 31) mod 2 ^ 32 - 2 ^ 31"
    by (simp add: signed_take_bit_eq_take_bit_shift take_bit_eq_mod)
  also have "(int n + 2 ^ 31) mod 2 ^ 32 = (if n < 2 ^ 31 then int n + 2 ^ 31 else int n - 2 ^ 31)"
    using n by (simp add: mod_pos_geq)
  finally show ?thesis by simp
qed

lemma usr_ptr_ok_unat:
  "usr_ptr_ok p s \<longleftrightarrow> 0x8000000 \<le> unat p \<and> unat p < 2 ^ 31 \<and> (unat p + unat s) mod 2 ^ 32 \<le> 0x8400000"
proof -
  have c: "OFFSET_128M = 0x8000000" "OFFSET_132M = 0x8400000" by (simp_all add: OFFSET_128M_def OFFSET_132M_def OFFSET_4M_def)
  define n where "n = unat p"
  have n: "n < 2 ^ 32" "p = of_nat n" using unat_lt32 [of p] by (simp_all add: n_def)
  have "sint (0x8000000 :: u32) = 0x8000000" using sint_u32 [of "0x8000000"] by simp
  then have "sint OFFSET_128M \<le> sint p \<longleftrightarrow> 0x8000000 \<le> n \<and> n < 2 ^ 31"
    unfolding c n(2) sint_u32 [OF n(1)] using n(1) by auto
  moreover have "unat (p + s) = (n + unat s) mod 2 ^ 32" by (simp add: unat_word_ariths n_def)
  ultimately show ?thesis unfolding usr_ptr_ok_def word_le_nat_alt c(2) n_def by simp
qed

text \<open>
  C20. The pointer check accepts exactly the runs of bytes inside the 4 MB of the program, and those
  whose end wraps around the address space to an address below the end of the program's memory: with
  a size of nearly 4 GB a run that covers the whole kernel passes.
\<close>

theorem usr_ptr_ok_accepts:
  "usr_ptr_ok p s \<longleftrightarrow> 0x8000000 \<le> unat p \<and>
     (unat p + unat s \<le> 0x8400000 \<or> unat p < 2 ^ 31 \<and> 2 ^ 32 \<le> unat p + unat s \<and> unat p + unat s \<le> 2 ^ 32 + 0x8400000)"
proof -
  have "(unat p + unat s) mod 2 ^ 32 = (if unat p + unat s < 2 ^ 32 then unat p + unat s else unat p + unat s - 2 ^ 32)"
    using unat_lt32 [of p] unat_lt32 [of s] by (simp add: mod_if)
  then show ?thesis unfolding usr_ptr_ok_unat using unat_lt32 [of p] unat_lt32 [of s] by auto
qed

section \<open>Kernel and user memory\<close>

lemma kernel_vmem:
  assumes "paging_ok s" and "4194304 \<le> unat a" and "unat a < 8388608"
  shows "vmem s a = phys s a"
  using translate_kernel [OF assms(1), of a False] assms(2,3)
  by (simp add: vmem_def kread8_def word_le_nat_alt word_less_nat_alt)

lemma kernel_rd:
  assumes "paging_ok s" and "4194304 \<le> unat a" and "unat a + n \<le> 8388608"
  shows "rd_bytes (vmem s) a n = rd_bytes (phys s) a n"
  by (rule rd_vmem [OF assms(1) mapped_kernel [OF assms(2,3)]])

lemma put_kernel:
  assumes "paging_ok s" and "4194304 \<le> unat a" and "unat a + length xs \<le> 8388608"
  shows "put_vmem (wr_bytes (vmem s) a xs) s = s\<lparr>phys := wr_bytes (phys s) a xs\<rparr>"
  using assms by (intro put_vmem_wr mapped_kernel) simp_all

text \<open>The physical address behind a user address of the running process.\<close>

definition user_phys :: "'a machine_scheme \<Rightarrow> u32 \<Rightarrow> u32" where
  "user_phys s v = of_nat (cr3 s + 1) * 0x400000 + (v - 0x8000000)"

lemma mapped_user:
  assumes "paging_ok s" and "cr3 s \<noteq> 0" and "0x8000000 \<le> unat v" and "unat v + n \<le> 0x8400000"
  shows "mapped_run s v (user_phys s v) n"
  unfolding mapped_run_def
proof (intro allI impI)
  fix i assume i: "i < n"
  have p10: "cr3 s \<le> 10" using assms(1) by (simp add: paging_ok_def pd_ready_def paging_consts)
  define b :: u32 where "b = of_nat (cr3 s + 1) * 0x400000"
  define k where "k = v + of_nat i - 0x8000000"
  have "unat (v + of_nat i) = unat v + i" using assms(3,4) i by (simp add: unat_plus_if' unat_of_nat_less)
  then have k: "k < 0x400000" using assms(3,4) i by (simp add: k_def word_less_nat_alt unat_sub_if_size word_size)
  have q: "user_phys s v + of_nat i = b + k" by (simp add: user_phys_def b_def k_def)
  have "b + k \<in> user_frame (cr3 s)"
    unfolding user_frame_def b_def [symmetric] using k by (simp add: region_def word_less_nat_alt)
  then have "b + k \<notin> kernel_frame" using kernel_frame_user_frame [OF _ p10] assms(2) by fastforce
  then have "\<not> (0x400000 \<le> b + k \<and> b + k < 0x800000)"
    by (simp add: kernel_frame_interval word_le_nat_alt word_less_nat_alt)
  then have "vaddr_of s (b + k) = Some (0x8000000 + k)"
    using assms(2) k unfolding vaddr_paged [OF assms(1)] b_def [symmetric] by auto
  then show "vaddr_of s (user_phys s v + of_nat i) = Some (v + of_nat i)" unfolding q by (simp add: k_def)
qed

section \<open>Opening a file\<close>

text \<open>The file system lies in kernel memory; a local variable lies there too, outside the image.\<close>

definition fs_mounted :: "'a kernel_scheme \<Rightarrow> bool" where
  "fs_mounted s \<longleftrightarrow> paging_ok s \<and> wf_fs (vmem s) (zbigfs_start s) \<and> 4194304 \<le> unat (zbigfs_start s) \<and>
     unat (zbigfs_start s) + fs_size (vmem s) (zbigfs_start s) \<le> 8388608"

definition klocal :: "'a kernel_scheme \<Rightarrow> u32 \<Rightarrow> nat \<Rightarrow> bool" where
  "klocal s a n \<longleftrightarrow> 4194304 \<le> unat a \<and> unat a + n \<le> 8388608 \<and>
     disjoint_regions a n (zbigfs_start s) (fs_size (vmem s) (zbigfs_start s))"

lemma rd_wr_inner:
  assumes "i + n \<le> length xs" and "length xs \<le> 2 ^ 32"
  shows "rd_bytes (wr_bytes m a xs) (a + of_nat i) n = take n (drop i xs)"
proof (rule nth_equalityI)
  fix j assume "j < length (rd_bytes (wr_bytes m a xs) (a + of_nat i) n)"
  then have j: "j < n" by simp
  then have "rd_bytes (wr_bytes m a xs) (a + of_nat i) n ! j = wr_bytes m a xs (a + of_nat (i + j))"
    by (simp add: add.assoc)
  then show "rd_bytes (wr_bytes m a xs) (a + of_nat i) n ! j = take n (drop i xs) ! j"
    using j assms wr_bytes_inside [of "i + j" xs m a] by simp
qed (use assms in simp)

text \<open>The type and inode number of a directory entry, and the \<open>FILE\<close> that \<open>kopen\<close> makes of it.\<close>

definition entry_type :: "memory \<Rightarrow> u32 \<Rightarrow> nat \<Rightarrow> u32" where
  "entry_type m zb k = rd32 m (d_ftype (dentries zb (of_nat k)))"

definition entry_inode :: "memory \<Rightarrow> u32 \<Rightarrow> nat \<Rightarrow> u32" where
  "entry_inode m zb k = rd32 m (d_inode_num (dentries zb (of_nat k)))"

definition opened_file :: "u32 \<Rightarrow> u32 \<Rightarrow> FILE \<Rightarrow> FILE" where
  "opened_file ty ino f =
     (if ty = FTYPE_REGULAR then f\<lparr>pos := 0, inode := ino, optable := Ops_regular\<rparr>
      else if ty = FTYPE_SPECIAL then f\<lparr>pos := 0, optable := Ops_rtc\<rparr>
      else if ty = FTYPE_DIRECTORY then f\<lparr>pos := 0, optable := Ops_directory\<rparr>
      else f\<lparr>pos := 0\<rparr>)"

lemma entry_image_fields:
  assumes "k < unat (num_dentry m zb)"
  shows "le32 (take 4 (drop 32 (entry_image m zb (of_nat k)))) = entry_type m zb k"
    and "is_regular m zb (of_nat k) \<Longrightarrow> le32 (take 4 (drop 36 (entry_image m zb (of_nat k)))) = entry_inode m zb k"
proof -
  let ?e = "dentries zb (of_nat k)"
  have r8: "rd_bytes m (d_ftype ?e) 8 = rd_bytes m (d_ftype ?e) 4 @ rd_bytes m (d_inode_num ?e) 4"
    using rd_bytes_add [of m "d_ftype ?e" 4 4] by (simp add: d_ftype_def d_inode_num_def add.assoc)
  have e: "entry_image m zb (of_nat k) = pad_nul 32 (entry_name m zb (of_nat k)) @ rd_bytes m (d_ftype ?e) 4 @
      (if is_regular m zb (of_nat k) then rd_bytes m (d_inode_num ?e) 4 else [])"
    using r8 by (simp add: entry_image_def)
  show "le32 (take 4 (drop 32 (entry_image m zb (of_nat k)))) = entry_type m zb k"
    unfolding e by (simp add: entry_type_def rd32_def)
  show "le32 (take 4 (drop 36 (entry_image m zb (of_nat k)))) = entry_inode m zb k" if "is_regular m zb (of_nat k)"
    unfolding e using that by (simp add: entry_inode_def rd32_def)
qed

lemma dentry_fields:
  assumes ok: "paging_ok s" and d: "klocal s dentry 40" and k: "k < unat (num_dentry m zb)"
    and s': "s' = s\<lparr>phys := wr_bytes (phys s) dentry (entry_image m zb (of_nat k))\<rparr>"
  shows "put_vmem (wr_bytes (vmem s) dentry (entry_image m zb (of_nat k))) s = s'"
    and "rd32 (vmem s') (d_ftype dentry) = entry_type m zb k"
    and "entry_type m zb k = FTYPE_REGULAR \<Longrightarrow> rd32 (vmem s') (d_inode_num dentry) = entry_inode m zb k"
proof -
  define E where "E = entry_image m zb (of_nat k)"
  have len: "length E = (if is_regular m zb (of_nat k) then 40 else 36)" by (simp add: E_def length_entry_image)
  have dl: "4194304 \<le> unat dentry" "unat dentry + 40 \<le> 8388608" using d by (simp_all add: klocal_def)
  have ok': "paging_ok s'" using ok by (simp add: s')
  show "put_vmem (wr_bytes (vmem s) dentry (entry_image m zb (of_nat k))) s = s'"
    unfolding s' E_def [symmetric] using dl len by (intro put_kernel ok) (simp_all split: if_splits)
  have rd: "rd_bytes (vmem s') (dentry + of_nat i) 4 = take 4 (drop i E)" if "i + 4 \<le> length E" for i
  proof -
    have i: "i \<le> 36" using that len by (simp split: if_splits)
    then have "unat (dentry + of_nat i) = unat dentry + i" using dl by (simp add: unat_plus_if' unat_of_nat_less)
    then have "rd_bytes (vmem s') (dentry + of_nat i) 4 = rd_bytes (phys s') (dentry + of_nat i) 4"
      using dl i by (intro kernel_rd ok') simp_all
    also have "\<dots> = take 4 (drop i E)" using that len by (simp add: s' E_def [symmetric] rd_wr_inner split: if_splits)
    finally show ?thesis .
  qed
  show "rd32 (vmem s') (d_ftype dentry) = entry_type m zb k"
    using rd [of 32] entry_image_fields(1) [OF k] len by (simp add: rd32_def d_ftype_def E_def split: if_splits)
  assume "entry_type m zb k = FTYPE_REGULAR"
  then have "is_regular m zb (of_nat k)" by (simp add: is_regular_def entry_type_def)
  then show "rd32 (vmem s') (d_inode_num dentry) = entry_inode m zb k"
    using rd [of 36] entry_image_fields(2) [OF k] len by (simp add: rd32_def d_inode_num_def E_def)
qed

lemma kopen_eq:
  assumes fs: "fs_mounted s" and d: "klocal s dentry 40"
  shows "kopen dv dentry f name s =
    (case find (name_matches (vmem s) (zbigfs_start s) name) [0..<unat (num_dentry (vmem s) (zbigfs_start s))] of
       None \<Rightarrow> (s, f, - 1)
     | Some k \<Rightarrow> file_open dv (opened_file (entry_type (vmem s) (zbigfs_start s) k) (entry_inode (vmem s) (zbigfs_start s) k) f)
         (s\<lparr>phys := wr_bytes (phys s) dentry (entry_image (vmem s) (zbigfs_start s) (of_nat k))\<rparr>))"
proof -
  have ok: "paging_ok s" "wf_fs (vmem s) (zbigfs_start s)" using fs by (simp_all add: fs_mounted_def)
  have rn: "read_dentry_by_name (vmem s) (zbigfs_start s) name dentry =
      (case find (name_matches (vmem s) (zbigfs_start s) name) [0..<unat (num_dentry (vmem s) (zbigfs_start s))] of
         None \<Rightarrow> (vmem s, - 1) | Some k \<Rightarrow> (wr_bytes (vmem s) dentry (entry_image (vmem s) (zbigfs_start s) (of_nat k)), 0))"
    using d by (intro read_dentry_by_name_eq ok) (simp add: klocal_def)
  show ?thesis
  proof (cases "find (name_matches (vmem s) (zbigfs_start s) name) [0..<unat (num_dentry (vmem s) (zbigfs_start s))]")
    case None
    then show ?thesis using rn ok by (simp add: kopen_def put_vmem_id)
  next
    case (Some k)
    then have k: "k < unat (num_dentry (vmem s) (zbigfs_start s))" by (auto simp: find_Some_iff)
    note fields = dentry_fields [OF ok(1) d k refl]
    show ?thesis unfolding kopen_def rn Let_def using Some fields by (auto simp: opened_file_def)
  qed
qed

lemma rtc_open_frame: "rest (fst (rtc_open d s)) = rest s" "snd (rtc_open d s) = 0"
  by (simp_all add: rtc_open_def change_rtc_freq_def inb_def Let_def) (simp add: rest_def outb_def cli_def sti_def)

lemma file_open_frame:
  assumes "optable f \<noteq> Ops_null" and "optable f \<noteq> Ops_stdin" and "optable f \<noteq> Ops_stdout"
  shows "rest (fst (file_open d f s)) = rest s" "snd (file_open d f s) = (f, 0)"
  using assms rtc_open_frame [of d s]
  by (cases "optable f"; simp add: file_open_def regular_open_def directory_open_def split_beta)+

lemma rest_phys [simp]: "rest (s\<lparr>phys := m\<rparr>) = rest s"
  by (simp add: rest_def)

lemma cur_files_rest:
  assumes "rest s' = rest s"
  shows "cur_files s' = cur_files s" "current_process s' = current_process s" "get_file fd s' = get_file fd s"
  using rest_tasking [OF assms] by (simp_all add: cur_files_def get_current_pcb_def get_file_def)

lemma vmem_set_file [simp]:
  fixes s :: "'a kernel_scheme"
  shows "vmem (set_file k f s) = vmem s" "zbigfs_start (set_file k f s) = zbigfs_start s" "phys (set_file k f s) = phys s"
    "paging_ok (set_file k f s) = paging_ok s" "cr3 (set_file k f s) = cr3 s"
  by (simp_all add: set_file_def) (simp add: set_pcb_def)

lemma mounted_set_file [simp]: "fs_mounted (set_file k f s) = fs_mounted s" "klocal (set_file k f s) a n = klocal s a n"
  by (simp_all add: fs_mounted_def klocal_def)

lemma flags_reset: "\<not> in_use f \<Longrightarrow> f\<lparr>flags := (flags f OR FILE_FLAG_IN_USE) AND NOT FILE_FLAG_IN_USE\<rparr> = f"
proof -
  assume "\<not> in_use f"
  then have "flags f AND 1 = 0" by (simp add: in_use_def FILE_FLAG_IN_USE_def)
  then have z: "\<not> bit (flags f) 0" by (simp add: and_one_eq even_iff_mod_2_eq_zero bit_0)
  have "(flags f OR 1) AND NOT 1 = flags f"
  proof (rule bit_word_eqI)
    fix n assume "n < LENGTH(32)"
    then show "bit ((flags f OR 1) AND NOT 1) n = bit (flags f) n" using z by (cases n) (auto simp: bit_simps)
  qed
  then show ?thesis by (simp add: FILE_FLAG_IN_USE_def)
qed

lemma syscall_open_eq:
  assumes fs: "fs_mounted s" "klocal s dentry 40" and name: "strlen (vmem s) name = Some n" "usr_ptr_ok name n"
    and k: "2 \<le> k" "k < MAX_FILES" "\<not> in_use (cur_files s k)" "\<forall>j < k. in_use (cur_files s j)"
    and f: "f = (cur_files s k)\<lparr>flags := flags (cur_files s k) OR FILE_FLAG_IN_USE\<rparr>"
  shows "syscall_open dv dentry name s =
    (case find (name_matches (vmem s) (zbigfs_start s) name) [0..<unat (num_dentry (vmem s) (zbigfs_start s))] of
       None \<Rightarrow> Some (fst (free_fd (int k) (set_file k f s)), - 1)
     | Some e \<Rightarrow>
         (let (s', f', r) = file_open dv (opened_file (entry_type (vmem s) (zbigfs_start s) e) (entry_inode (vmem s) (zbigfs_start s) e) f)
            ((set_file k f s)\<lparr>phys := wr_bytes (phys s) dentry (entry_image (vmem s) (zbigfs_start s) (of_nat e))\<rparr>);
            s' = set_file k f' s' in Some (if r \<noteq> 0 then (fst (free_fd (int k) s'), r) else (s', int k))))"
proof -
  have g: "get_new_fd s = (set_file k f s, int k)" using get_new_fd_first [OF k(3,4,2)] f by simp
  have "in_use f" using f by (simp add: in_use_def FILE_FLAG_IN_USE_def)
  then have gf: "get_file (int k) (set_file k f s) = Some k" using k(2) by (simp add: get_file_def)
  have fs': "fs_mounted (set_file k f s)" "klocal (set_file k f s) dentry 40" using fs by simp_all
  show ?thesis
    unfolding syscall_open_def name(1) using name(2) kopen_eq [OF fs', of dv f name]
    by (simp add: g gf Let_def split: option.split prod.split)
qed

definition known_type :: "u32 \<Rightarrow> bool" where
  "known_type ty \<longleftrightarrow> ty = FTYPE_REGULAR \<or> ty = FTYPE_SPECIAL \<or> ty = FTYPE_DIRECTORY"

lemma opened_file_ops:
  "known_type ty \<Longrightarrow> optable (opened_file ty ino f) \<notin> {Ops_null, Ops_stdin, Ops_stdout}"
  by (auto simp: known_type_def opened_file_def)

lemma syscall_open_cases:
  assumes fs: "fs_mounted s" "klocal s dentry 40" and name: "strlen (vmem s) name = Some n" "usr_ptr_ok name n"
    and k: "2 \<le> k" "k < MAX_FILES" "\<not> in_use (cur_files s k)" "\<forall>j < k. in_use (cur_files s j)"
    and f: "f = (cur_files s k)\<lparr>flags := flags (cur_files s k) OR FILE_FLAG_IN_USE\<rparr>"
  shows "find (name_matches (vmem s) (zbigfs_start s) name) [0..<unat (num_dentry (vmem s) (zbigfs_start s))] = None \<Longrightarrow>
      \<exists>s'. syscall_open dv dentry name s = Some (s', - 1) \<and> cur_files s' = cur_files s"
    and "find (name_matches (vmem s) (zbigfs_start s) name) [0..<unat (num_dentry (vmem s) (zbigfs_start s))] = Some e \<Longrightarrow>
      known_type (entry_type (vmem s) (zbigfs_start s) e) \<Longrightarrow>
      \<exists>s' s1. syscall_open dv dentry name s = Some (s', int k) \<and>
        s' = set_file k (opened_file (entry_type (vmem s) (zbigfs_start s) e) (entry_inode (vmem s) (zbigfs_start s) e) f) s1 \<and>
        rest s1 = rest (set_file k f s) \<and>
        (entry_type (vmem s) (zbigfs_start s) e \<noteq> FTYPE_SPECIAL \<longrightarrow>
          s1 = (set_file k f s)\<lparr>phys := wr_bytes (phys s) dentry (entry_image (vmem s) (zbigfs_start s) (of_nat e))\<rparr>)"
proof -
  note eq = syscall_open_eq [OF assms, of dv]
  { assume N: "find (name_matches (vmem s) (zbigfs_start s) name) [0..<unat (num_dentry (vmem s) (zbigfs_start s))] = None"
    have "in_use f" using f by (simp add: in_use_def FILE_FLAG_IN_USE_def)
    then have "cur_files (fst (free_fd (int k) (set_file k f s))) = (cur_files s)(k := f\<lparr>flags := flags f AND NOT FILE_FLAG_IN_USE\<rparr>)"
      using k(1,2) by (simp add: free_fd_def)
    also have "f\<lparr>flags := flags f AND NOT FILE_FLAG_IN_USE\<rparr> = cur_files s k" using flags_reset [OF k(3)] by (simp add: f)
    finally have "cur_files (fst (free_fd (int k) (set_file k f s))) = cur_files s" by simp
    then show "\<exists>s'. syscall_open dv dentry name s = Some (s', - 1) \<and> cur_files s' = cur_files s" using eq N by auto }
  { assume S: "find (name_matches (vmem s) (zbigfs_start s) name) [0..<unat (num_dentry (vmem s) (zbigfs_start s))] = Some e"
      and ty: "known_type (entry_type (vmem s) (zbigfs_start s) e)"
    define g where "g = opened_file (entry_type (vmem s) (zbigfs_start s) e) (entry_inode (vmem s) (zbigfs_start s) e) f"
    define u where "u = (set_file k f s)\<lparr>phys := wr_bytes (phys s) dentry (entry_image (vmem s) (zbigfs_start s) (of_nat e))\<rparr>"
    have ops: "optable g \<noteq> Ops_null" "optable g \<noteq> Ops_stdin" "optable g \<noteq> Ops_stdout"
      using opened_file_ops [OF ty] by (auto simp: g_def)
    note fo = file_open_frame [OF ops, of dv u]
    define s1 where "s1 = fst (file_open dv g u)"
    have o: "file_open dv g u = (s1, g, 0)" using fo(2) by (simp add: s1_def prod_eq_iff)
    have "rest s1 = rest (set_file k f s)" using fo(1) by (simp add: s1_def u_def)
    moreover have "s1 = u" if "entry_type (vmem s) (zbigfs_start s) e \<noteq> FTYPE_SPECIAL"
      using that ty unfolding s1_def
      by (auto simp: g_def opened_file_def known_type_def file_open_def)
    moreover have "syscall_open dv dentry name s = Some (set_file k g s1, int k)"
      using eq S o by (simp add: g_def [symmetric] u_def [symmetric])
    ultimately show "\<exists>s' s1. syscall_open dv dentry name s = Some (s', int k) \<and>
        s' = set_file k (opened_file (entry_type (vmem s) (zbigfs_start s) e) (entry_inode (vmem s) (zbigfs_start s) e) f) s1 \<and>
        rest s1 = rest (set_file k f s) \<and>
        (entry_type (vmem s) (zbigfs_start s) e \<noteq> FTYPE_SPECIAL \<longrightarrow>
          s1 = (set_file k f s)\<lparr>phys := wr_bytes (phys s) dentry (entry_image (vmem s) (zbigfs_start s) (of_nat e))\<rparr>)"
      unfolding g_def u_def by blast }
qed

text \<open>
  C18. Opening a file through the system call: the call returns whenever the name ends, and then the
  lowest free descriptor refers to the first directory entry with that name, at position 0 and with
  the operations of its type; when there is no such entry the call returns -1 and every descriptor is
  as before.
\<close>

theorem syscall_open_finds_file:
  assumes "fs_mounted s" and "klocal s dentry 40" and "strlen (vmem s) name = Some n" and "usr_ptr_ok name n"
    and "2 \<le> k" and "k < MAX_FILES" and "\<not> in_use (cur_files s k)" and "\<forall>j < k. in_use (cur_files s j)"
    and "m = vmem s" and "zb = zbigfs_start s"
  shows "case find (name_matches m zb name) [0..<unat (num_dentry m zb)] of
      None \<Rightarrow> \<exists>s'. syscall_open dv dentry name s = Some (s', - 1) \<and> cur_files s' = cur_files s
    | Some e \<Rightarrow> known_type (entry_type m zb e) \<longrightarrow>
        (\<exists>s'. syscall_open dv dentry name s = Some (s', int k) \<and>
          cur_files s' = (cur_files s)(k := opened_file (entry_type m zb e) (entry_inode m zb e)
            ((cur_files s k)\<lparr>flags := flags (cur_files s k) OR FILE_FLAG_IN_USE\<rparr>)))"
proof (cases "find (name_matches m zb name) [0..<unat (num_dentry m zb)]")
  case None
  then show ?thesis using syscall_open_cases(1) [OF assms(1-8) refl, of dv] assms(9,10) by simp
next
  case (Some e)
  show ?thesis
  proof (cases "known_type (entry_type m zb e)")
    case True
    then obtain s' s1 where s': "syscall_open dv dentry name s = Some (s', int k)"
      "s' = set_file k (opened_file (entry_type m zb e) (entry_inode m zb e)
          ((cur_files s k)\<lparr>flags := flags (cur_files s k) OR FILE_FLAG_IN_USE\<rparr>)) s1"
      "rest s1 = rest (set_file k ((cur_files s k)\<lparr>flags := flags (cur_files s k) OR FILE_FLAG_IN_USE\<rparr>) s)"
      using syscall_open_cases(2) [OF assms(1-8) refl, of e dv] Some assms(9,10) by blast
    have "cur_files s1 = (cur_files s)(k := (cur_files s k)\<lparr>flags := flags (cur_files s k) OR FILE_FLAG_IN_USE\<rparr>)"
      using cur_files_rest(1) [OF s'(3)] by simp
    then show ?thesis using Some s'(1,2) by simp
  qed (simp add: Some)
qed

section \<open>Reading a file into user memory\<close>

lemma readable_same_fs:
  assumes "same_fs zb m m'" and "wf_fs m zb" and "inode f < num_inode m zb"
  shows "readable zb buf nb (m', f) = readable zb buf nb (m, f)" and "rest_of_file zb (m', f) = rest_of_file zb (m, f)"
  using same_fs_header [OF assms(1,2)] same_fs_size [OF assms(1,2)] same_fs_wf [OF assms(1,2)] assms(2)
    same_fs_file_len [OF assms] same_fs_file_contents [OF assms]
  by (simp_all add: readable_def rest_of_file_def)

lemma user_write_kernel:
  assumes "paging_ok s" and "cr3 s \<noteq> 0" and "0x8000000 \<le> unat v" and "unat v + length xs \<le> 0x8400000"
    and "4194304 \<le> unat a" and "unat a < 8388608"
  shows "wr_bytes (phys s) (user_phys s v) xs a = phys s a"
proof (rule wr_bytes_outside)
  have p10: "cr3 s \<le> 10" using assms(1) by (simp add: paging_ok_def pd_ready_def paging_consts)
  define k where "k = unat (v - 0x8000000)"
  have k: "k + length xs \<le> 4194304" using assms(3,4) by (simp add: k_def unat_sub_if_size word_size)
  have "region (user_phys s v) (length xs) \<subseteq> user_frame (cr3 s)"
    using region_sub [OF k, of "of_nat (cr3 s + 1) * 0x400000"] by (simp add: user_frame_def user_phys_def k_def)
  moreover have "a \<in> kernel_frame" using assms(5,6) by (simp add: kernel_frame_interval)
  ultimately show "a \<notin> region (user_phys s v) (length xs)"
    using kernel_frame_user_frame [OF _ p10] assms(2) by fastforce
  show "length xs \<le> 2 ^ 32" using assms(4) by simp
qed

lemma put_user:
  assumes "paging_ok s" and "cr3 s \<noteq> 0" and "0x8000000 \<le> unat v" and "unat v + length xs \<le> 0x8400000"
  shows "put_vmem (wr_bytes (vmem s) v xs) s = s\<lparr>phys := wr_bytes (phys s) (user_phys s v) xs\<rparr>"
  using assms by (intro put_vmem_wr mapped_user) simp_all

lemma fs_untouched:
  assumes fs: "fs_mounted s" and s': "paging_ok s'"
    and same: "\<And>a. a \<in> region (zbigfs_start s) (fs_size (vmem s) (zbigfs_start s)) \<Longrightarrow> phys s' a = phys s a"
  shows "same_fs (zbigfs_start s) (vmem s) (vmem s')"
  unfolding same_fs_def
proof
  fix a assume a: "a \<in> region (zbigfs_start s) (fs_size (vmem s) (zbigfs_start s))"
  have "region (zbigfs_start s) (fs_size (vmem s) (zbigfs_start s)) = {b. unat (zbigfs_start s) \<le> unat b \<and>
      unat b < unat (zbigfs_start s) + fs_size (vmem s) (zbigfs_start s)}"
    using fs by (intro region_interval) (simp add: fs_mounted_def)
  then have "4194304 \<le> unat a" "unat a < 8388608" using a fs by (auto simp: fs_mounted_def)
  then show "vmem s' a = vmem s a" using kernel_vmem [OF s'] kernel_vmem [of s a] fs same [OF a] by (simp add: fs_mounted_def)
qed

definition sys_readable :: "int \<Rightarrow> u32 \<Rightarrow> u32 \<Rightarrow> 'a kernel_scheme \<Rightarrow> bool" where
  "sys_readable fd buf nb s \<longleftrightarrow> fs_mounted s \<and> cr3 s \<noteq> 0 \<and> get_file fd s = Some (nat fd) \<and>
     optable (cur_files s (nat fd)) = Ops_regular \<and> 0x8000000 \<le> unat buf \<and> unat buf + unat nb \<le> 0x8400000 \<and>
     readable (zbigfs_start s) buf nb (vmem s, cur_files s (nat fd))"

definition sys_chunk :: "world \<Rightarrow> u32 \<Rightarrow> int \<Rightarrow> u32 \<Rightarrow> u32 \<Rightarrow> 'a kernel_scheme \<Rightarrow> 'a kernel_scheme \<times> byte list" where
  "sys_chunk w dentry fd buf nb s =
     (case sys_read w dentry fd buf nb s of
        None \<Rightarrow> (s, [])
      | Some (s', r) \<Rightarrow> (s', rd_bytes (vmem s') buf (nat r)))"

definition sys_rest :: "int \<Rightarrow> 'a kernel_scheme \<Rightarrow> byte list" where
  "sys_rest fd s = rest_of_file (zbigfs_start s) (vmem s, cur_files s (nat fd))"

lemma sys_read_regular:
  assumes ok: "sys_readable fd buf nb s" and xs: "xs = take (unat nb) (sys_rest fd s)"
    and f': "f' = (cur_files s (nat fd))\<lparr>pos := pos (cur_files s (nat fd)) + of_nat (length xs)\<rparr>"
    and s': "s' = set_file (nat fd) f' (s\<lparr>phys := wr_bytes (phys s) (user_phys s buf) xs\<rparr>)"
  shows "sys_read w dentry fd buf nb s = Some (s', int (length xs))"
    and "rd_bytes (vmem s') buf (length xs) = xs" and "sys_readable fd buf nb s'" and "sys_rest fd s = xs @ sys_rest fd s'"
proof -
  let ?zb = "zbigfs_start s" and ?k = "nat fd"
  have o: "fs_mounted s" "cr3 s \<noteq> 0" "get_file fd s = Some ?k" "optable (cur_files s ?k) = Ops_regular"
    "0x8000000 \<le> unat buf" "unat buf + unat nb \<le> 0x8400000" "readable ?zb buf nb (vmem s, cur_files s ?k)"
    using ok by (simp_all add: sys_readable_def)
  have p: "paging_ok s" using o(1) by (simp add: fs_mounted_def)
  have len: "length xs \<le> unat nb" by (simp add: xs)
  have rr: "regular_read (vmem s) ?zb (cur_files s ?k) buf nb = (wr_bytes (vmem s) buf xs, f', int (length xs))"
    using regular_read_eq [OF o(7)] by (simp add: Let_def xs f' sys_rest_def)
  define u where "u = s\<lparr>phys := wr_bytes (phys s) (user_phys s buf) xs\<rparr>"
  have pu: "put_vmem (wr_bytes (vmem s) buf xs) s = u" unfolding u_def using p o len by (intro put_user) simp_all
  have "usr_ptr_ok buf nb" unfolding usr_ptr_ok_unat using o(5,6) by simp
  then show "sys_read w dentry fd buf nb s = Some (s', int (length xs))"
    by (simp add: sys_read_def o kread_def rr pu s' flip: u_def)
  have uok: "paging_ok u" "cr3 u = cr3 s" "user_phys u = user_phys s" "zbigfs_start u = ?zb"
    using p by (simp_all add: u_def user_phys_def fun_eq_iff)
  have "rd_bytes (vmem u) buf (length xs) = rd_bytes (phys u) (user_phys s buf) (length xs)"
    using rd_vmem [OF uok(1) mapped_user [OF uok(1)], of buf "length xs"] uok(2,3) o len by simp
  also have "\<dots> = xs" using len o(6) by (simp add: u_def rd_wr_bytes_same)
  finally show "rd_bytes (vmem s') buf (length xs) = xs" by (simp add: s' flip: u_def)
  have ru: "region ?zb (fs_size (vmem s) ?zb) = {b. unat ?zb \<le> unat b \<and> unat b < unat ?zb + fs_size (vmem s) ?zb}"
    using o(1) by (intro region_interval) (simp add: fs_mounted_def)
  have same: "same_fs ?zb (vmem s) (vmem u)"
    using o(1) ru user_write_kernel [OF p o(2,5), of xs] o(6) len
    by (intro fs_untouched [OF o(1) uok(1)]) (auto simp: u_def fs_mounted_def)
  have wf: "wf_fs (vmem s) ?zb" "inode f' < num_inode (vmem s) ?zb" "disjoint_regions buf (unat nb) ?zb (fs_size (vmem s) ?zb)"
    using o(7) by (simp_all add: readable_def f')
  have "disjoint_regions buf (length xs) ?zb (fs_size (vmem s) ?zb)"
    using disjoint_regions_sub [OF wf(3), of 0 "length xs" 0] len wf_fs_size(2) [OF wf(1)] unat_lt32 [of nb] by simp
  then have same': "same_fs ?zb (vmem s) (wr_bytes (vmem s) buf xs)"
    using len unat_lt32 [of nb] by (intro same_fs_wr_bytes) simp_all
  have m: "readable ?zb buf nb (vmem u, f')"
    "rest_of_file ?zb (vmem s, cur_files s ?k) = xs @ rest_of_file ?zb (vmem u, f')"
    using read_chunk_step [OF o(7) _ f'] readable_same_fs [OF same wf(1,2)] readable_same_fs [OF same' wf(1,2)]
    by (simp_all add: xs sys_rest_def)
  have iu: "in_use f'" "?k < MAX_FILES" "0 \<le> fd" "optable f' = Ops_regular"
    using o(3,4) by (auto simp: get_file_def f' in_use_def split: if_splits)
  have "get_file fd (set_file ?k f' u) = Some ?k" using iu by (simp add: get_file_def)
  moreover have "fs_mounted u" using o(1) uok same_fs_size [OF same wf(1)] same_fs_wf [OF same wf(1)] by (simp add: fs_mounted_def)
  ultimately show "sys_readable fd buf nb s'" using m(1) iu o uok by (simp add: sys_readable_def s' flip: u_def)
  show "sys_rest fd s = xs @ sys_rest fd s'" using m(2) uok by (simp add: sys_rest_def s' flip: u_def)
qed

interpretation sysfile: sequential_reader "sys_chunk w dentry fd buf nb" "sys_rest fd" "sys_readable fd buf nb"
  for w dentry fd buf nb
proof unfold_locales
  fix s s' :: "'a kernel_scheme" and xs
  assume ok: "sys_readable fd buf nb s"
  note step = sys_read_regular [OF ok refl refl refl]
  have eq: "sys_chunk w dentry fd buf nb s = (s', xs) \<Longrightarrow>
      xs = take (unat nb) (sys_rest fd s) \<and> sys_readable fd buf nb s' \<and> sys_rest fd s = xs @ sys_rest fd s'" for s' xs
    using step unfolding sys_chunk_def step(1) by (auto simp del: append_take_drop_id)
  { assume "sys_chunk w dentry fd buf nb s = (s', xs)"
    then show "sys_readable fd buf nb s'" using eq by blast }
  { assume "sys_chunk w dentry fd buf nb s = (s', xs)"
    then show "sys_rest fd s = xs @ sys_rest fd s'" using eq by blast }
  { assume "sys_chunk w dentry fd buf nb s = (s', [])"
    then have "take (unat nb) (sys_rest fd s) = []" using eq by metis
    then show "sys_rest fd s = []" using ok by (auto simp: sys_readable_def readable_def unat_eq_0) }
qed

lemma user_kernel_disjoint:
  assumes "fs_mounted s" and "0x8000000 \<le> unat buf" and "unat buf + n \<le> 0x8400000"
  shows "disjoint_regions buf n (zbigfs_start s) (fs_size (vmem s) (zbigfs_start s))"
proof -
  have "region (zbigfs_start s) (fs_size (vmem s) (zbigfs_start s)) = {b. unat (zbigfs_start s) \<le> unat b \<and>
      unat b < unat (zbigfs_start s) + fs_size (vmem s) (zbigfs_start s)}"
    using assms(1) by (intro region_interval) (simp add: fs_mounted_def)
  moreover have "region buf n = {b. unat buf \<le> unat b \<and> unat b < unat buf + n}"
    using assms(3) by (intro region_interval) simp
  ultimately show ?thesis using assms by (auto simp: disjoint_regions_def fs_mounted_def)
qed

lemma local_same_fs:
  assumes fs: "fs_mounted s" and d: "klocal s a n" and xs: "length xs \<le> n"
  shows "same_fs (zbigfs_start s) (vmem s) (vmem (s\<lparr>phys := wr_bytes (phys s) a xs\<rparr>))"
proof (rule fs_untouched [OF fs])
  show "paging_ok (s\<lparr>phys := wr_bytes (phys s) a xs\<rparr>)" using fs by (simp add: fs_mounted_def)
next
  fix b assume b: "b \<in> region (zbigfs_start s) (fs_size (vmem s) (zbigfs_start s))"
  have n: "n \<le> 2 ^ 32" using d by (simp add: klocal_def)
  have "region a (length xs) \<subseteq> region a n" using region_sub [of 0 "length xs" n a] xs n by simp
  then have "b \<notin> region a (length xs)" using b d by (auto simp: klocal_def disjoint_regions_def)
  then show "phys (s\<lparr>phys := wr_bytes (phys s) a xs\<rparr>) b = phys s b" using xs n by (simp add: wr_bytes_outside)
qed

lemma mounted_same_fs:
  assumes "fs_mounted s" and "paging_ok s'" and "zbigfs_start s' = zbigfs_start s" and "same_fs (zbigfs_start s) (vmem s) (vmem s')"
  shows "fs_mounted s'"
  using assms same_fs_size [OF assms(4)] same_fs_wf [OF assms(4)] by (simp add: fs_mounted_def)

text \<open>A regular file that has just been opened is ready to be read from its start.\<close>

lemma open_ready:
  assumes fs: "fs_mounted s" "klocal s dentry 40" and name: "strlen (vmem s) name = Some n" "usr_ptr_ok name n"
    and k: "2 \<le> k" "k < MAX_FILES" "\<not> in_use (cur_files s k)" "\<forall>j < k. in_use (cur_files s j)"
    and m: "m = vmem s" "zb = zbigfs_start s"
    and e: "find (name_matches m zb name) [0..<unat (num_dentry m zb)] = Some e" "entry_type m zb e = FTYPE_REGULAR"
      "entry_inode m zb e < num_inode m zb"
    and buf: "cr3 s \<noteq> 0" "0x8000000 \<le> unat buf" "unat buf + unat nb \<le> 0x8400000" "0 < nb"
  obtains f g E where "length E \<le> 40"
    "syscall_open dv dentry name s = Some (set_file k g ((set_file k f s)\<lparr>phys := wr_bytes (phys s) dentry E\<rparr>), int k)"
    "sys_readable (int k) buf nb (set_file k g ((set_file k f s)\<lparr>phys := wr_bytes (phys s) dentry E\<rparr>))"
    "sys_rest (int k) (set_file k g ((set_file k f s)\<lparr>phys := wr_bytes (phys s) dentry E\<rparr>)) = file_contents m zb (entry_inode m zb e)"
proof -
  define f where "f = (cur_files s k)\<lparr>flags := flags (cur_files s k) OR FILE_FLAG_IN_USE\<rparr>"
  define g where "g = opened_file FTYPE_REGULAR (entry_inode m zb e) f"
  define E where "E = entry_image m zb (of_nat e)"
  define u where "u = (set_file k f s)\<lparr>phys := wr_bytes (phys s) dentry E\<rparr>"
  have opn: "syscall_open dv dentry name s = Some (set_file k g u, int k)"
    using syscall_open_cases(2) [OF fs name k refl, of e dv] e(1,2)
    by (auto simp: m known_type_def FTYPE_REGULAR_def FTYPE_SPECIAL_def g_def f_def u_def E_def)
  have fk: "fs_mounted (set_file k f s)" "klocal (set_file k f s) dentry 40" using fs by simp_all
  have E: "length E \<le> 40" by (simp add: E_def length_entry_image)
  from local_same_fs [OF fk this] have same: "same_fs zb m (vmem u)" by (simp add: u_def m)
  have u: "paging_ok u" "zbigfs_start u = zb" "cr3 u = cr3 s" using fs(1) by (simp_all add: u_def fs_mounted_def m)
  have mu: "fs_mounted u" using mounted_same_fs [OF fk(1) u(1)] u(2) same m by simp
  have g: "in_use g" "optable g = Ops_regular" "inode g = entry_inode m zb e" "pos g = 0"
    by (simp_all add: g_def opened_file_def f_def in_use_def FILE_FLAG_IN_USE_def)
  have wf: "wf_fs m zb" using fs(1) m by (simp add: fs_mounted_def)
  have rm: "readable zb buf nb (m, g)"
    using e(3) g(3,4) wf buf user_kernel_disjoint [OF fs(1) buf(2,3)] by (simp add: readable_def m)
  have r: "readable zb buf nb (vmem u, g)" "rest_of_file zb (vmem u, g) = file_contents m zb (inode g)"
    using readable_same_fs [OF same wf, of g] rm e(3) g(3,4) by (simp_all add: rest_of_file_def)
  have "get_file (int k) (set_file k g u) = Some k" using g(1) k(2) by (simp add: get_file_def)
  then have "sys_readable (int k) buf nb (set_file k g u)"
    using mu u g buf r(1) by (simp add: sys_readable_def)
  moreover have "sys_rest (int k) (set_file k g u) = file_contents m zb (entry_inode m zb e)"
    using r(2) g(3) u(2) by (simp add: sys_rest_def)
  ultimately show thesis using that [OF E] opn unfolding u_def by blast
qed

text \<open>
  C10. Opening a regular file by its name and reading from the returned descriptor in a loop, with any
  buffer in the memory of the program, delivers exactly the contents of the first file with that name.
\<close>

theorem open_read_delivers_file:
  assumes fs: "fs_mounted s" "klocal s dentry 40" and name: "strlen (vmem s) name = Some n" "usr_ptr_ok name n"
    and k: "2 \<le> k" "k < MAX_FILES" "\<not> in_use (cur_files s k)" "\<forall>j < k. in_use (cur_files s j)"
    and m: "m = vmem s" "zb = zbigfs_start s"
    and e: "find (name_matches m zb name) [0..<unat (num_dentry m zb)] = Some e" "entry_type m zb e = FTYPE_REGULAR"
      "entry_inode m zb e < num_inode m zb"
    and buf: "cr3 s \<noteq> 0" "0x8000000 \<le> unat buf" "unat buf + unat nb \<le> 0x8400000" "0 < nb"
    and N: "file_len m zb (entry_inode m zb e) < N"
  shows "\<exists>s'. syscall_open dv dentry name s = Some (s', int k) \<and>
    drain (sys_chunk w dentry (int k) buf nb) N s' = file_contents m zb (entry_inode m zb e)"
proof -
  obtain s' where s': "syscall_open dv dentry name s = Some (s', int k)" "sys_readable (int k) buf nb s'"
    "sys_rest (int k) s' = file_contents m zb (entry_inode m zb e)"
    by (rule open_ready [OF fs name k m e buf])
  have "drain (sys_chunk w dentry (int k) buf nb) N s' = file_contents m zb (entry_inode m zb e)"
    using sysfile.drain_rest [OF s'(2), of N] N by (simp add: s'(3))
  with s'(1) show ?thesis by blast
qed

section \<open>Examples\<close>

text \<open>
  A kernel with \<open>n\<close> processes, the last one running, and given memory; and the one that runs process 1,
  which has the name \<open>f\<close> at the start of its memory, over the small image of \<^verbatim>\<open>Zbigfs\<close>.
\<close>

definition kernel_of :: "nat \<Rightarrow> memory \<Rightarrow> kernel" where
  "kernel_of n m = keyboard.extend (terminal.extend (tasking.extend ((tasks n)\<lparr>phys := m\<rparr>) (tasking.more demo_terminal))
     (keyboard.fields (\<lambda>_. False) (\<lambda>_. False) (\<lambda>_. False) False False)) (kernel.fields 0x500000)"

definition demo_kernel :: kernel where
  "demo_kernel = kernel_of 1 (demo_fs(0x800000 := 0x66))"

lemma kernel_of_fields:
  "phys (kernel_of n m) = m" "zbigfs_start (kernel_of n m) = 0x500000" "current_process (kernel_of n m) = n"
  "pcbs (kernel_of n m) = pcbs (tasks n)" "cr3 (kernel_of n m) = cr3 (tasks n)" "current_active_process (kernel_of n m) = 0"
  "current_terminal (kernel_of n m) = 0" "processes (kernel_of n m) = (\<lambda>_. 0)"
  by (simp_all add: kernel_of_def kernel.defs keyboard.defs terminal.defs tasking.defs tasks_fields)

lemma kernel_of_ok:
  assumes "n \<le> MAX_PID"
  shows "paging_ok (kernel_of n m)"
proof -
  have "paging_ok (kernel_of n m) = paging_ok ((tasks n)\<lparr>phys := m\<rparr>)"
    by (rule paging_ok_cong) (simp_all add: kernel_of_def kernel.defs keyboard.defs terminal.defs tasking.defs)
  then show ?thesis using tasks_wfD(1) [OF tasks_wf_tasks [OF assms]] by simp
qed

lemma tasks_cr3: "cr3 (tasks n) = n" "0 < n \<Longrightarrow> pcb_files (pcbs (tasks n) n) = std_files"
  by (induction n) (simp_all add: tasks_0 tasks_Suc boot_tasks_simps spawned_fields new_pcb_def)

lemma kernel_of_files: "0 < n \<Longrightarrow> cur_files (kernel_of n m) = std_files"
  by (simp add: cur_files_def get_current_pcb_def kernel_of_fields tasks_cr3)

lemma kernel_of_mounted:
  assumes n: "n \<le> MAX_PID" and m: "same_fs 0x500000 fs m" and wf: "wf_fs fs 0x500000"
    and sz: "0x500000 + fs_size fs 0x500000 \<le> 0x800000"
  shows "same_fs 0x500000 fs (vmem (kernel_of n m))" and "fs_mounted (kernel_of n m)"
proof -
  have v: "vmem (kernel_of n m) a = m a" if "4194304 \<le> unat a" "unat a < 8388608" for a
    using kernel_vmem [OF kernel_of_ok [OF n] that, of m] by (simp add: kernel_of_fields)
  have "region 0x500000 (fs_size fs 0x500000) = {b. unat (0x500000 :: u32) \<le> unat b \<and> unat b < unat (0x500000 :: u32) + fs_size fs 0x500000}"
    using sz by (intro region_interval) simp
  then have "4194304 \<le> unat a \<and> unat a < 8388608" if "a \<in> region 0x500000 (fs_size fs 0x500000)" for a
    using that sz by auto
  with v m show same: "same_fs 0x500000 fs (vmem (kernel_of n m))" by (simp add: same_fs_def)
  show "fs_mounted (kernel_of n m)"
    using kernel_of_ok [OF n] same_fs_wf [OF same wf] same_fs_size [OF same wf] sz by (simp add: fs_mounted_def kernel_of_fields)
qed

lemma kernel_of_user:
  assumes "0 < n" and "n \<le> MAX_PID" and "0x8000000 \<le> unat v" and "unat v + k \<le> 0x8400000"
  shows "rd_bytes (vmem (kernel_of n m)) v k = rd_bytes m (of_nat (n + 1) * 0x400000 + (v - 0x8000000)) k"
  using rd_vmem [OF kernel_of_ok [OF assms(2)] mapped_user [OF kernel_of_ok [OF assms(2)] _ assms(3,4)], of m] assms(1)
  by (simp add: kernel_of_fields tasks_cr3 user_phys_def)

lemma demo_kernel_mounted:
  "same_fs 0x500000 demo_fs (vmem demo_kernel)" "fs_mounted demo_kernel" "cr3 demo_kernel = 1"
  "cur_files demo_kernel = std_files" "zbigfs_start demo_kernel = 0x500000"
proof -
  have "same_fs 0x500000 demo_fs (demo_fs(0x800000 := 0x66))"
    by (auto simp: same_fs_def demo_fs_file region_def)
  from kernel_of_mounted [OF _ this demo_fs_wf, of 1]
  show "same_fs 0x500000 demo_fs (vmem demo_kernel)" "fs_mounted demo_kernel"
    by (simp_all add: demo_kernel_def demo_fs_file MAX_PID_def)
  show "cr3 demo_kernel = 1" "cur_files demo_kernel = std_files" "zbigfs_start demo_kernel = 0x500000"
    by (simp_all add: demo_kernel_def kernel_of_fields tasks_cr3 kernel_of_files)
qed

lemma demo_kernel_name:
  "strlen (vmem demo_kernel) 0x8000000 = Some 1" "usr_ptr_ok 0x8000000 1"
  "find (name_matches (vmem demo_kernel) 0x500000 0x8000000) [0..<unat (num_dentry (vmem demo_kernel) 0x500000)] = Some 0"
proof -
  note same = demo_kernel_mounted(1)
  have rd: "rd_bytes (vmem demo_kernel) 0x8000000 31 = rd_bytes (demo_fs(0x800000 := 0x66)) 0x800000 31"
    using kernel_of_user [of 1 "0x8000000" 31 "demo_fs(0x800000 := 0x66)"] by (simp add: demo_kernel_def MAX_PID_def)
  also have "\<dots> = 0x66 # replicate 30 0" by (simp add: demo_eval)
  finally have u: "rd_bytes (vmem demo_kernel) 0x8000000 31 = 0x66 # replicate 30 0" .
  then have "vmem demo_kernel 0x8000000 = 0x66" "vmem demo_kernel 0x8000001 = 0" by (simp_all add: mem_eval)
  then have "cstring (vmem demo_kernel) 0x8000000 [0x66]" by (simp add: cstring_Cons cstring_Nil)
  from strlen_cstring [OF this] show "strlen (vmem demo_kernel) 0x8000000 = Some 1" by simp
  show "usr_ptr_ok 0x8000000 1" by (simp add: usr_ptr_ok_unat)
  have e: "rd_bytes (vmem demo_kernel) (dentries 0x500000 0) 31 = rd_bytes demo_fs (dentries 0x500000 0) 31"
    using same_fs_entry_bytes [OF same demo_fs_wf, of 0 0 31] by (simp add: demo_fs_header)
  have "rd_bytes demo_fs (dentries 0x500000 0) 31 = 0x66 # replicate 30 0" by (simp add: demo_eval)
  with u e have "name_matches (vmem demo_kernel) 0x500000 0x8000000 0" by (simp add: name_matches_def)
  then show "find (name_matches (vmem demo_kernel) 0x500000 0x8000000) [0..<unat (num_dentry (vmem demo_kernel) 0x500000)] = Some 0"
    using same_fs_header(1) [OF same demo_fs_wf] by (simp add: demo_fs_header)
qed

lemma demo_kernel_entry:
  "entry_type (vmem demo_kernel) 0x500000 0 = FTYPE_REGULAR" "entry_inode (vmem demo_kernel) 0x500000 0 = 0"
  "num_inode (vmem demo_kernel) 0x500000 = 1" "file_len (vmem demo_kernel) 0x500000 0 = 3"
  "file_contents (vmem demo_kernel) 0x500000 0 = [0x61, 0x62, 0x63]" "klocal demo_kernel 0x7F0000 40"
proof -
  note same = demo_kernel_mounted(1)
  show "num_inode (vmem demo_kernel) 0x500000 = 1" "file_len (vmem demo_kernel) 0x500000 0 = 3"
    "file_contents (vmem demo_kernel) 0x500000 0 = [0x61, 0x62, 0x63]"
    using same_fs_header(2) [OF same demo_fs_wf] same_fs_file_len [OF same demo_fs_wf, of 0]
      same_fs_file_contents [OF same demo_fs_wf, of 0] by (simp_all add: demo_fs_header demo_fs_file demo_fs_contents)
  have "entry_type (vmem demo_kernel) 0x500000 0 = entry_type demo_fs 0x500000 0" "entry_inode (vmem demo_kernel) 0x500000 0 = entry_inode demo_fs 0x500000 0"
    using same_fs_entry_bytes [OF same demo_fs_wf, of 0 32 4] same_fs_entry_bytes [OF same demo_fs_wf, of 0 36 4]
    by (simp_all add: demo_fs_header entry_type_def entry_inode_def rd32_def d_ftype_def d_inode_num_def)
  then show "entry_type (vmem demo_kernel) 0x500000 0 = FTYPE_REGULAR" "entry_inode (vmem demo_kernel) 0x500000 0 = 0"
    by (simp_all add: entry_type_def entry_inode_def demo_eval FTYPE_REGULAR_def)
  have "disjoint_regions 0x7F0000 40 0x500000 12288" by (rule disjoint_regions_intervalI) simp_all
  then show "klocal demo_kernel 0x7F0000 40"
    using same_fs_size [OF same demo_fs_wf] by (simp add: klocal_def demo_kernel_mounted demo_fs_file)
qed

definition idle_world :: world where
  "idle_world = \<lparr>dev = (\<lambda>_ _. 0), ticks = [], keys = []\<rparr>"

lemma std_files_fd2: "\<not> in_use (std_files 2)" "\<forall>j < 2. in_use (std_files j)" "2 < MAX_FILES"
  by (auto simp: std_files_def in_use_def null_FILE_def FILE_FLAG_IN_USE_def less_2_cases_iff MAX_FILES_def)

theorem syscall_open_finds_file_witness:
  "\<exists>s'. syscall_open (dev idle_world) 0x7F0000 0x8000000 demo_kernel = Some (s', 2) \<and> pos (cur_files s' 2) = 0 \<and> inode (cur_files s' 2) = 0"
  using syscall_open_finds_file [OF demo_kernel_mounted(2) demo_kernel_entry(6) demo_kernel_name(1,2), of 2 _ _ "dev idle_world", OF _ _ _ _ refl refl]
    demo_kernel_name(3) std_files_fd2 demo_kernel_entry
  by (auto simp: demo_kernel_mounted opened_file_def known_type_def)

theorem open_read_delivers_file_witness:
  "\<exists>s'. syscall_open (dev idle_world) 0x7F0000 0x8000000 demo_kernel = Some (s', 2) \<and>
     drain (sys_chunk idle_world 0x7F0000 2 0x8000100 2) 4 s' = [0x61, 0x62, 0x63]"
  using open_read_delivers_file [OF demo_kernel_mounted(2) demo_kernel_entry(6) demo_kernel_name(1,2), of 2 _ _ 0 "0x8000100" 2 4 "dev idle_world" idle_world,
      OF _ _ _ _ refl refl] demo_kernel_name(3) std_files_fd2 demo_kernel_entry
  by (simp add: demo_kernel_mounted)

end
