(* ===== verification/Command_Line.thy ===== *)
theory Command_Line
  imports Syscalls
begin

unbundle bit_operations_syntax

text \<open>
  What \<open>parse_input\<close> (\<^verbatim>\<open>syscall_funcs.c\<close>) makes of a command line: its word and its arguments.
\<close>

section \<open>Command lines\<close>

text \<open>
  A line of text in memory, ended by a zero byte or a newline; the command word and the arguments it
  consists of.
\<close>

definition line_at :: "memory \<Rightarrow> u32 \<Rightarrow> byte list \<Rightarrow> bool" where
  "line_at m a l \<longleftrightarrow> (\<forall>i < length l. m (a + of_nat i) = l ! i) \<and> 0 \<notin> set l \<and> 10 \<notin> set l \<and>
     m (a + of_nat (length l)) \<in> {0, 10}"

definition word_of :: "byte list \<Rightarrow> byte list" where
  "word_of l = takeWhile (\<lambda>b. b \<noteq> 0x20) (dropWhile (\<lambda>b. b = 0x20) l)"

definition args_of :: "byte list \<Rightarrow> byte list" where
  "args_of l = dropWhile (\<lambda>b. b = 0x20) (dropWhile (\<lambda>b. b \<noteq> 0x20) (dropWhile (\<lambda>b. b = 0x20) l))"

lemma line_at_nth: "line_at m a l \<Longrightarrow> i < length l \<Longrightarrow> m (a + of_nat i) = l ! i \<and> l ! i \<noteq> 0 \<and> l ! i \<noteq> 10"
  by (auto simp: line_at_def in_set_conv_nth)

lemma line_at_upd:
  assumes "line_at m a l" and "b \<notin> region a (length l + 1)" and "length l < 2 ^ 32"
  shows "line_at (m(b := x)) a l"
proof -
  have "a + of_nat i \<noteq> b" if "i \<le> length l" for i
    using add_in_region [of i "length l + 1" a] assms(2,3) that by auto
  then show ?thesis using assms(1) by (auto simp: line_at_def)
qed

lemma line_at_wr:
  assumes "line_at m a l" and "disjoint_regions b (length xs) a (length l + 1)" and "length l < 2 ^ 32" "length xs \<le> 2 ^ 32"
  shows "line_at (wr_bytes m b xs) a l"
proof -
  have "wr_bytes m b xs (a + of_nat i) = m (a + of_nat i)" if "i \<le> length l" for i
    using add_in_region [of i "length l + 1" a] assms that by (intro wr_bytes_outside) (auto simp: disjoint_regions_def)
  then show ?thesis using assms(1) by (auto simp: line_at_def)
qed

lemma line_at_write:
  assumes "0 \<notin> set l" and "10 \<notin> set l" and "length l < 2 ^ 32"
  shows "line_at (wr_bytes m a (l @ [0])) a l"
proof -
  have "wr_bytes m a (l @ [0]) (a + of_nat i) = (l @ [0]) ! i" if "i \<le> length l" for i
    using that assms(3) by (intro wr_bytes_inside) simp_all
  then show ?thesis using assms by (simp add: line_at_def nth_append)
qed

lemma skip_spaces_eq:
  assumes l: "line_at m a l" and k: "k \<le> length l"
  shows "skip_spaces m a (int k) = Some (int (k + length (takeWhile (\<lambda>b. b = 0x20) (drop k l))))"
  using k
proof (induction "length l - k" arbitrary: k)
  case 0
  then have "m (a + of_nat k) \<in> {0, 10}" using l by (simp add: line_at_def)
  then show ?case using 0 by (subst skip_spaces.simps) auto
next
  case (Suc n)
  then have k: "k < length l" by simp
  have d: "drop k l = l ! k # drop (Suc k) l" using k by (simp add: Cons_nth_drop_Suc)
  have m: "m (a + of_nat k) = l ! k" using line_at_nth [OF l k] by simp
  show ?case using Suc.hyps(1) [of "Suc k"] Suc.hyps(2) k m
    by (subst skip_spaces.simps) (simp add: d add.commute)
qed

lemma copy_input_eq:
  assumes "line_at m a l" and "k \<le> length l" and "length l \<le> sz" and "length l < 2 ^ 31"
    and "disjoint_regions out n a (length l + 1)" and "n \<le> 2 ^ 32" and "j + (length l - k) \<le> n"
    and "ys = (if wd then takeWhile (\<lambda>b. b \<noteq> 0x20) (drop k l) else drop k l)"
  shows "copy_input wd m a out (int sz) (int k) (int j) =
    (wr_bytes m (out + of_nat j) ys, int (k + length ys), int (j + length ys))"
  using assms
proof (induction "length l - k" arbitrary: m k j ys)
  case 0
  then have k: "k = length l" by simp
  then have "m (a + of_nat k) \<in> {0, 10}" using 0(2) by (simp add: line_at_def)
  then show ?case using 0(9) k by (subst copy_input.simps) auto
next
  case (Suc i)
  then have k: "k < length l" by simp
  then have d: "drop k l = l ! k # drop (Suc k) l" by (simp add: Cons_nth_drop_Suc)
  have m: "m (a + of_nat k) = l ! k" "l ! k \<noteq> 0" "l ! k \<noteq> 10" using line_at_nth [OF Suc.prems(1) k] by auto
  show ?case
  proof (cases "wd \<and> l ! k = 0x20")
    case True
    then have "ys = []" using Suc.prems(8) d by simp
    then show ?thesis using True m k Suc.prems(3) by (subst copy_input.simps) simp
  next
    case False
    define m' where "m' = m(out + of_nat j := l ! k)"
    define zs where "zs = (if wd then takeWhile (\<lambda>b. b \<noteq> 0x20) (drop (Suc k) l) else drop (Suc k) l)"
    have ys: "ys = l ! k # zs" using False Suc.prems(8) d by (auto simp: zs_def)
    have "out + of_nat j \<in> region out n" using Suc.prems(6,7) k by (intro add_in_region) simp_all
    then have l': "line_at m' a l"
      unfolding m'_def using Suc.prems(4,5) by (intro line_at_upd Suc.prems(1)) (auto simp: disjoint_regions_def)
    have "copy_input wd m' a out (int sz) (int (Suc k)) (int (Suc j)) =
        (wr_bytes m' (out + of_nat (Suc j)) zs, int (Suc k + length zs), int (Suc j + length zs))"
      using Suc.hyps(2) k Suc.prems(3-7) by (intro Suc.hyps(1) l') (auto simp: zs_def)
    then show ?thesis
      using False m k Suc.prems(3) by (subst copy_input.simps) (simp add: ys m'_def ac_simps)
  qed
qed

lemma words_split:
  assumes "a = length (takeWhile (\<lambda>b. b = 0x20) l)" and "b = a + length (word_of l)"
    and "c = b + length (takeWhile (\<lambda>b. b = 0x20) (drop b l))"
  shows "word_of l = takeWhile (\<lambda>b. b \<noteq> 0x20) (drop a l)" and "args_of l = drop c l" and "a \<le> length l"
    and "b \<le> length l" and "c \<le> length l"
proof -
  have a: "drop a l = dropWhile (\<lambda>b. b = 0x20) l" using assms(1) by (simp add: dropWhile_eq_drop)
  then show w: "word_of l = takeWhile (\<lambda>b. b \<noteq> 0x20) (drop a l)" by (simp add: word_of_def)
  have b: "drop b l = dropWhile (\<lambda>b. b \<noteq> 0x20) (drop a l)"
    using assms(2) w by (simp add: dropWhile_eq_drop add.commute)
  have "drop c l = dropWhile (\<lambda>b. b = 0x20) (drop b l)" using assms(3) by (simp add: dropWhile_eq_drop add.commute)
  then show "args_of l = drop c l" by (simp add: args_of_def a b)
  show al: "a \<le> length l" using assms(1) length_takeWhile_le by blast
  have "length (word_of l) \<le> length l - a" using length_takeWhile_le [of "\<lambda>b. b \<noteq> 0x20" "drop a l"] w by simp
  with al show bl: "b \<le> length l" using assms(2) by simp
  have "length (takeWhile (\<lambda>b. b = 0x20) (drop b l)) \<le> length l - b"
    using length_takeWhile_le [of "\<lambda>b. b = 0x20" "drop b l"] by simp
  with bl show "c \<le> length l" using assms(3) by simp
qed

lemma length_words: "length (word_of l) \<le> length l" "length (args_of l) \<le> length l"
  using words_split(2) [OF refl refl refl, of l] le_trans [OF length_takeWhile_le length_dropWhile_le]
  unfolding word_of_def by (blast, simp)

lemma wr_bytes_local: "m x = m' x \<Longrightarrow> wr_bytes m a xs x = wr_bytes m' a xs x"
proof (induction xs arbitrary: m m' a)
  case (Cons y ys)
  then have "(m(a := y)) x = (m'(a := y)) x" by simp
  then have "wr_bytes (m(a := y)) (a + 1) ys x = wr_bytes (m'(a := y)) (a + 1) ys x" by (rule Cons.IH)
  then show ?case unfolding wr_bytes.simps .
qed simp

lemma wr_bytes_absorb: "xs \<noteq> [] \<Longrightarrow> length xs \<le> 2 ^ 32 \<Longrightarrow> wr_bytes (wr_bytes (m(a := v)) b ys) a xs = wr_bytes (wr_bytes m b ys) a xs"
proof
  fix x assume xs: "xs \<noteq> []" "length xs \<le> 2 ^ 32"
  show "wr_bytes (wr_bytes (m(a := v)) b ys) a xs x = wr_bytes (wr_bytes m b ys) a xs x"
  proof (cases "x = a")
    case True
    then show ?thesis using wr_bytes_inside [of 0 xs _ a] xs by simp
  next
    case False
    then show ?thesis by (intro wr_bytes_local) simp
  qed
qed

lemma parse_input_eq:
  assumes l: "line_at m a l" "length l \<le> 127" and nz: "a \<noteq> 0"
    and ex: "disjoint_regions ex 128 a (length l + 1)" and ar: "disjoint_regions ar 128 a (length l + 1)"
  shows "parse_input m a ex ar (int BUF_SIZE) = Some (wr_bytes (wr_bytes m ex (word_of l @ [0])) ar (args_of l @ [0]))"
proof -
  define i where "i = length (takeWhile (\<lambda>b. b = 0x20) l)"
  define j where "j = i + length (word_of l)"
  define k where "k = j + length (takeWhile (\<lambda>b. b = 0x20) (drop j l))"
  note ws = words_split [OF i_def j_def k_def]
  have ar0: "ar \<notin> region a (length l + 1)"
    using ar add_in_region [of 0 128 ar] by (auto simp: disjoint_regions_def)
  define m1 where "m1 = m(ar := 0)"
  have l1: "line_at m1 a l" unfolding m1_def using l ar0 by (intro line_at_upd) simp_all
  define m2 where "m2 = wr_bytes m1 ex (word_of l @ [0])"
  have "disjoint_regions ex (length (word_of l @ [0])) a (length l + 1)"
    using disjoint_regions_sub [OF ex, of 0 "length (word_of l @ [0])" 0] length_words(1) [of l] l(2) by simp
  then have l2: "line_at m2 a l" unfolding m2_def using length_words(1) [of l] l(2) by (intro line_at_wr l1) simp_all
  have s1: "skip_spaces m1 a 0 = Some (int i)" using skip_spaces_eq [OF l1, of 0] by (simp add: i_def)
  have c1: "copy_input True m1 a ex (int BUF_SIZE) (int i) 0 = (wr_bytes m1 ex (word_of l), int j, int (length (word_of l)))"
    using copy_input_eq [OF l1 ws(3) _ _ ex, of BUF_SIZE 0 "word_of l" True] l(2) ws(1) by (simp add: j_def BUF_SIZE_def)
  have s2: "skip_spaces m2 a (int j) = Some (int k)" using skip_spaces_eq [OF l2 ws(4)] by (simp add: k_def)
  have c2: "copy_input False m2 a ar (int BUF_SIZE) (int k) 0 = (wr_bytes m2 ar (args_of l), int (k + length (args_of l)), int (length (args_of l)))"
    using copy_input_eq [OF l2 ws(5) _ _ ar, of BUF_SIZE 0 "args_of l" False] l(2) ws(2) by (simp add: BUF_SIZE_def)
  have e2: "(wr_bytes m1 ex (word_of l))(ex + of_int (int (length (word_of l))) := 0) = m2"
    by (simp add: m2_def wr_bytes_append)
  have "(wr_bytes m2 ar (args_of l))(ar + of_int (int (length (args_of l))) := 0) = wr_bytes m2 ar (args_of l @ [0])"
    by (simp add: wr_bytes_append)
  also have "\<dots> = wr_bytes (wr_bytes m ex (word_of l @ [0])) ar (args_of l @ [0])"
    unfolding m2_def m1_def using length_words(2) [of l] l(2) by (intro wr_bytes_absorb) simp_all
  finally have e3: "(wr_bytes m2 ar (args_of l))(ar + of_int (int (length (args_of l))) := 0) =
      wr_bytes (wr_bytes m ex (word_of l @ [0])) ar (args_of l @ [0])" .
  show ?thesis
    unfolding parse_input_def Let_def m1_def [symmetric] using nz
    by (simp only: s1 c1 e2 s2 c2 e3 if_False option.case prod.case)
qed

text \<open>
  C19. Parsing a command line of at most 127 characters always ends; the first word goes to the first
  buffer, the rest after the separating spaces to the second one, each ended by a zero byte, and
  nothing else is written.
\<close>

theorem parse_input_splits:
  assumes "line_at m inp l" and "length l \<le> 127" and "inp \<noteq> 0"
    and "disjoint_regions exec_buf 128 inp (length l + 1)" and "disjoint_regions args_buf 128 inp (length l + 1)"
  shows "parse_input m inp exec_buf args_buf (int BUF_SIZE) =
    Some (wr_bytes (wr_bytes m exec_buf (word_of l @ [0])) args_buf (args_of l @ [0]))"
  using assms by (rule parse_input_eq)

theorem parse_input_splits_witness:
  "\<exists>m'. parse_input (wr_bytes (\<lambda>_. 0) 0x100 (str '' cat a b'' @ [0])) 0x100 0x200 0x300 (int BUF_SIZE) = Some m' \<and>
     rd_bytes m' 0x300 4 = str ''a b'' @ [0]"
proof -
  have l: "line_at (wr_bytes (\<lambda>_. 0) 0x100 (str '' cat a b'' @ [0])) 0x100 (str '' cat a b'')"
    by (intro line_at_write) (simp_all add: str_def)
  have d: "disjoint_regions 0x200 128 0x100 (length (str '' cat a b'') + 1)" "disjoint_regions 0x300 128 0x100 (length (str '' cat a b'') + 1)"
    by (rule disjoint_regions_intervalI; simp add: str_def)+
  have a: "args_of (str '' cat a b'') = str ''a b''" by (simp add: args_of_def str_def)
  have len: "length (str '' cat a b'') \<le> 127" "length (str ''a b'' @ [0]) = 4" by (simp_all add: str_def)
  show ?thesis
    using parse_input_splits [OF l len(1) _ d] rd_wr_bytes_same [of "str ''a b'' @ [0]" _ "0x300"] a
    unfolding len(2) by (simp del: rd_bytes_numeral rd_bytes.simps)
qed

end
