(* ===== verification/Sys_Exec.thy ===== *)
theory Sys_Exec
  imports Sys_Files Command_Line
begin

unbundle bit_operations_syntax

text \<open>
  Starting and ending programs: what the loader puts into the memory of a new process, the return to the
  parent, and the arguments a program gets back.
\<close>

section \<open>Loading a program\<close>

subsection \<open>Writes to local variables\<close>

text \<open>Two kernel states with the same file system.\<close>

definition fs_kept :: "'a kernel_scheme \<Rightarrow> 'a kernel_scheme \<Rightarrow> bool" where
  "fs_kept s u \<longleftrightarrow> fs_mounted s \<and> fs_mounted u \<and> zbigfs_start u = zbigfs_start s \<and>
     same_fs (zbigfs_start s) (vmem s) (vmem u)"

lemma fs_keptD:
  assumes "fs_kept s u"
  shows "fs_mounted u" "zbigfs_start u = zbigfs_start s" "klocal u a n = klocal s a n"
    "num_dentry (vmem u) (zbigfs_start s) = num_dentry (vmem s) (zbigfs_start s)"
    "num_inode (vmem u) (zbigfs_start s) = num_inode (vmem s) (zbigfs_start s)"
    "fs_size (vmem u) (zbigfs_start s) = fs_size (vmem s) (zbigfs_start s)"
proof -
  have k: "same_fs (zbigfs_start s) (vmem s) (vmem u)" "wf_fs (vmem s) (zbigfs_start s)"
    using assms by (simp_all add: fs_kept_def fs_mounted_def)
  show "fs_mounted u" "zbigfs_start u = zbigfs_start s" using assms by (simp_all add: fs_kept_def)
  then show "klocal u a n = klocal s a n" using same_fs_size [OF k] by (simp add: klocal_def)
  show "num_dentry (vmem u) (zbigfs_start s) = num_dentry (vmem s) (zbigfs_start s)"
    "num_inode (vmem u) (zbigfs_start s) = num_inode (vmem s) (zbigfs_start s)"
    "fs_size (vmem u) (zbigfs_start s) = fs_size (vmem s) (zbigfs_start s)"
    using same_fs_header [OF k] same_fs_size [OF k] by simp_all
qed

lemma fs_kept_refl: "fs_mounted s \<Longrightarrow> fs_kept s s"
  by (simp add: fs_kept_def)

lemma fs_kept_trans: "fs_kept s t \<Longrightarrow> fs_kept t u \<Longrightarrow> fs_kept s u"
  using same_fs_size [of "zbigfs_start s" "vmem s" "vmem t"] by (auto simp: fs_kept_def same_fs_def fs_mounted_def)

lemma same_fs_entry:
  assumes k: "same_fs zb m m'" "wf_fs m zb" and lt: "e < unat (num_dentry m zb)"
  shows "entry_type m' zb e = entry_type m zb e" and "entry_inode m' zb e = entry_inode m zb e"
    and "rd_bytes m' (dentries zb (of_nat e)) 31 = rd_bytes m (dentries zb (of_nat e)) 31"
proof -
  have "unat (of_nat e :: u32) = e" using lt unat_lt32 [of "num_dentry m zb"] by (intro unat_of_nat_less) simp
  then have e: "of_nat e < num_dentry m zb" using lt by (simp add: word_less_nat_alt)
  note b = same_fs_entry_bytes [OF k e]
  show "entry_type m' zb e = entry_type m zb e" "entry_inode m' zb e = entry_inode m zb e"
    "rd_bytes m' (dentries zb (of_nat e)) 31 = rd_bytes m (dentries zb (of_nat e)) 31"
    using b [of 32 4] b [of 36 4] b [of 0 31]
    by (simp_all add: entry_type_def entry_inode_def rd32_def d_ftype_def d_inode_num_def del: rd_bytes.simps)
qed

lemma fs_kept_entry:
  assumes "fs_kept s u" and "e < unat (num_dentry (vmem s) (zbigfs_start s))"
  shows "entry_type (vmem u) (zbigfs_start s) e = entry_type (vmem s) (zbigfs_start s) e"
    and "entry_inode (vmem u) (zbigfs_start s) e = entry_inode (vmem s) (zbigfs_start s) e"
    and "rd_bytes (vmem u) (dentries (zbigfs_start s) (of_nat e)) 31 = rd_bytes (vmem s) (dentries (zbigfs_start s) (of_nat e)) 31"
  using same_fs_entry [of "zbigfs_start s" "vmem s" "vmem u" e] assms by (auto simp: fs_kept_def fs_mounted_def)

lemma fs_kept_file:
  assumes "fs_kept s u" and "ino < num_inode (vmem s) (zbigfs_start s)"
  shows "file_contents (vmem u) (zbigfs_start s) ino = file_contents (vmem s) (zbigfs_start s) ino"
    and "file_len (vmem u) (zbigfs_start s) ino = file_len (vmem s) (zbigfs_start s) ino"
  using assms same_fs_file_contents same_fs_file_len by (simp_all add: fs_kept_def fs_mounted_def)

lemma local_write:
  assumes "fs_mounted s" and "klocal s a n" and "length xs \<le> n"
  shows "put_vmem (wr_bytes (vmem s) a xs) s = s\<lparr>phys := wr_bytes (phys s) a xs\<rparr>"
    and "fs_kept s (s\<lparr>phys := wr_bytes (phys s) a xs\<rparr>)"
proof -
  have ok: "paging_ok s" "paging_ok (s\<lparr>phys := wr_bytes (phys s) a xs\<rparr>)" using assms(1) by (simp_all add: fs_mounted_def)
  show "put_vmem (wr_bytes (vmem s) a xs) s = s\<lparr>phys := wr_bytes (phys s) a xs\<rparr>"
    using assms(2,3) by (intro put_kernel ok) (simp_all add: klocal_def)
  have same: "same_fs (zbigfs_start s) (vmem s) (vmem (s\<lparr>phys := wr_bytes (phys s) a xs\<rparr>))" by (rule local_same_fs [OF assms])
  from mounted_same_fs [OF assms(1) ok(2) _ this] same assms(1)
  show "fs_kept s (s\<lparr>phys := wr_bytes (phys s) a xs\<rparr>)" by (simp add: fs_kept_def)
qed

lemma local_read:
  assumes "fs_mounted s" and "klocal s a n"
  shows "rd_bytes (vmem s) a n = rd_bytes (phys s) a n"
  using assms by (intro kernel_rd) (simp_all add: klocal_def fs_mounted_def)

lemma user_kept:
  assumes fs: "fs_mounted s" and "cr3 s \<noteq> 0" and "0x8000000 \<le> unat v" and "unat v + length xs \<le> 0x8400000"
  shows "fs_kept s (s\<lparr>phys := wr_bytes (phys s) (user_phys s v) xs\<rparr>)"
proof -
  have ok: "paging_ok s" "paging_ok (s\<lparr>phys := wr_bytes (phys s) (user_phys s v) xs\<rparr>)" using fs by (simp_all add: fs_mounted_def)
  have "region (zbigfs_start s) (fs_size (vmem s) (zbigfs_start s)) = {b. unat (zbigfs_start s) \<le> unat b \<and>
      unat b < unat (zbigfs_start s) + fs_size (vmem s) (zbigfs_start s)}"
    using fs by (intro region_interval) (simp add: fs_mounted_def)
  then have same: "same_fs (zbigfs_start s) (vmem s) (vmem (s\<lparr>phys := wr_bytes (phys s) (user_phys s v) xs\<rparr>))"
    using fs user_write_kernel [OF ok(1) assms(2-4)] by (intro fs_untouched [OF fs ok(2)]) (auto simp: fs_mounted_def)
  from mounted_same_fs [OF fs ok(2) _ this] same fs show ?thesis by (simp add: fs_kept_def)
qed

lemma rd_wr_apart:
  assumes "disjoint_regions a n b k" and "length xs \<le> n" and "n \<le> 2 ^ 32" and "j \<le> k" and "k \<le> 2 ^ 32"
  shows "rd_bytes (wr_bytes m a xs) b j = rd_bytes m b j"
  using disjoint_regions_sub [OF assms(1), of 0 "length xs" 0 j] assms by (intro rd_wr_bytes_disjoint) simp_all

lemma rd_bytes_part:
  assumes "rd_bytes m a (length c) = c" and "i + n \<le> length c"
  shows "rd_bytes m (a + of_nat i) n = take n (drop i c)"
proof (rule nth_equalityI)
  fix j assume "j < length (rd_bytes m (a + of_nat i) n)"
  then have j: "j < n" "i + j < length c" using assms(2) by simp_all
  have "rd_bytes m a (length c) ! (i + j) = m (a + of_nat (i + j))" using j(2) by (rule nth_rd_bytes)
  then show "rd_bytes m (a + of_nat i) n ! j = take n (drop i c) ! j" using j assms(1) by (simp add: add.assoc)
qed (use assms(2) in simp)

lemma local_outside:
  assumes "klocal s a n" and "length xs \<le> n" and "b \<notin> kernel_frame"
  shows "wr_bytes m a xs b = m b"
proof (rule wr_bytes_outside)
  have a: "4194304 \<le> unat a" "unat a + length xs \<le> 8388608" using assms(1,2) by (simp_all add: klocal_def)
  then have "region a (length xs) = {b. unat a \<le> unat b \<and> unat b < unat a + length xs}" by (intro region_interval) simp
  then show "b \<notin> region a (length xs)" using a assms(3) by (auto simp: kernel_frame_interval)
  show "length xs \<le> 2 ^ 32" using a by simp
qed

lemma upto_nul_rd:
  assumes "rd_bytes m a (Suc (length w)) = w @ [0]" and "0 \<notin> set w"
  shows "upto_nul (rd_bytes m a n) = take n w"
proof (cases "n \<le> length w")
  case True
  then obtain k where k: "Suc (length w) = n + k" using le_Suc_ex by (metis le_SucI)
  have "rd_bytes m a n = take n (w @ [0])" using assms(1) unfolding k rd_bytes_add by (metis append_eq_conv_conj length_rd_bytes)
  then have r: "rd_bytes m a n = take n w" using True by simp
  have "0 \<notin> set (take n w)" using assms(2) by (meson in_set_takeD)
  then show ?thesis unfolding r by (subst takeWhile_eq_all_conv) auto
next
  case False
  then obtain k where k: "n = Suc (length w) + k" using less_eqE by (metis not_less_eq_eq)
  show ?thesis unfolding k rd_bytes_add assms(1) using assms(2) by (simp add: takeWhile_append)
qed

text \<open>An entry whose name agrees with a word on the 31 characters that are compared.\<close>

definition entry_called :: "memory \<Rightarrow> u32 \<Rightarrow> byte list \<Rightarrow> nat \<Rightarrow> bool" where
  "entry_called m zb w i \<longleftrightarrow> upto_nul (rd_bytes m (dentries zb (of_nat i)) 31) = take 31 w"

lemma find_named:
  assumes "fs_kept s u" and "rd_bytes (vmem u) a (Suc (length w)) = w @ [0]" and "0 \<notin> set w"
  shows "find (name_matches (vmem u) (zbigfs_start s) a) [0..<unat (num_dentry (vmem u) (zbigfs_start s))] =
    find (entry_called (vmem s) (zbigfs_start s) w) [0..<unat (num_dentry (vmem s) (zbigfs_start s))]"
  using fs_kept_entry(3) [OF assms(1)] upto_nul_rd [OF assms(2,3), of 31] fs_keptD(4) [OF assms(1)]
  by (intro find_cong) (auto simp: name_matches_def entry_called_def simp del: rd_bytes.simps)

subsection \<open>Finding the program\<close>

fun apart :: "(u32 \<times> nat) list \<Rightarrow> bool" where
  "apart [] = True"
| "apart ((a, n) # rs) = (list_all (\<lambda>(b, k). disjoint_regions a n b k) rs \<and> apart rs)"

text \<open>The local variables of the loader lie in kernel memory, apart from each other, the image and the new PCB.\<close>

definition frame_ok :: "'a kernel_scheme \<Rightarrow> load_frame \<Rightarrow> nat \<Rightarrow> bool" where
  "frame_ok s fr p \<longleftrightarrow>
     (let rs = [(exec_at fr, 128), (args_at fr, 128), (buf_at fr, 28), (d_at fr, 40), (dentry_at fr, 40), (pcb_cmdstring p, 128)]
      in list_all (\<lambda>(a, n). klocal s a n) rs \<and> apart rs)"

text \<open>The local variables of the loader.\<close>

definition frame_space :: "load_frame \<Rightarrow> u32 set" where
  "frame_space fr = region (exec_at fr) 128 \<union> region (args_at fr) 128 \<union> region (buf_at fr) 28 \<union> region (d_at fr) 40 \<union> region (dentry_at fr) 40"

lemma frame_space_kernel:
  assumes "frame_ok s fr p"
  shows "frame_space fr \<subseteq> kernel_frame"
proof -
  have "region a n \<subseteq> kernel_frame" if "klocal s a n" for a n
    using that by (intro region_kernel) (simp_all add: klocal_def)
  then show ?thesis using assms by (simp add: frame_ok_def frame_space_def Let_def)
qed

lemma wr_local_outside:
  assumes "b \<notin> region a n" and "length xs \<le> n" and "n \<le> 128"
  shows "wr_bytes m a xs b = m b"
  using assms region_mono [of "length xs" n a] by (intro wr_bytes_outside) auto

text \<open>The program a command line names: its word is the name of a regular file with an executable's header.\<close>

definition program_at :: "memory \<Rightarrow> u32 \<Rightarrow> byte list \<Rightarrow> byte list \<Rightarrow> bool" where
  "program_at m zb w c \<longleftrightarrow>
     (case find (entry_called m zb w) [0..<unat (num_dentry m zb)] of
        None \<Rightarrow> False
      | Some e \<Rightarrow> entry_type m zb e = FTYPE_REGULAR \<and> entry_inode m zb e < num_inode m zb \<and>
          c = file_contents m zb (entry_inode m zb e)) \<and>
     28 \<le> length c \<and> length c \<le> unat EXE_LOAD_SZ \<and> le32 (take 4 c) = MAGIC_NUM"

lemma program_at_same:
  assumes k: "same_fs zb m m'" "wf_fs m zb" and c: "program_at m zb w c"
  shows "program_at m' zb w c"
proof -
  have f: "find (entry_called m' zb w) [0..<unat (num_dentry m' zb)] = find (entry_called m zb w) [0..<unat (num_dentry m zb)]"
    using same_fs_entry(3) [OF k] same_fs_header [OF k] by (intro find_cong) (auto simp: entry_called_def simp del: rd_bytes.simps)
  obtain e where e: "find (entry_called m zb w) [0..<unat (num_dentry m zb)] = Some e"
    using c by (auto simp: program_at_def split: option.splits)
  then have "e < unat (num_dentry m zb)" by (auto simp: find_Some_iff)
  then show ?thesis
    using c same_fs_entry(1,2) [OF k] same_fs_header(2) [OF k] same_fs_file_contents [OF k] unfolding program_at_def f e by auto
qed

lemma line_words: "line_at m a l \<Longrightarrow> 0 \<notin> set (word_of l)" "line_at m a l \<Longrightarrow> 0 \<notin> set (args_of l)"
  unfolding line_at_def word_of_def args_of_def by (auto dest!: set_takeWhileD set_dropWhileD)

text \<open>After the loader has split the line, both words are in its buffers.\<close>

lemma kload_parse:
  assumes fs: "fs_mounted s" and fr: "frame_ok s fr p"
    and l: "line_at (vmem s) fname l" "length l \<le> 127" "fname \<noteq> 0"
    and d: "disjoint_regions (exec_at fr) 128 fname (length l + 1)" "disjoint_regions (args_at fr) 128 fname (length l + 1)"
  shows "\<exists>P. map_option (\<lambda>m. put_vmem m s) (parse_input (vmem s) fname (exec_at fr) (args_at fr) (int BUF_SIZE)) = Some (s\<lparr>phys := P\<rparr>) \<and>
    fs_kept s (s\<lparr>phys := P\<rparr>) \<and> rd_bytes P (exec_at fr) (Suc (length (word_of l))) = word_of l @ [0] \<and>
    rd_bytes P (args_at fr) (Suc (length (args_of l))) = args_of l @ [0] \<and> (\<forall>a. a \<notin> frame_space fr \<longrightarrow> P a = phys s a)"
proof -
  let ?w = "word_of l @ [0]" and ?a = "args_of l @ [0]"
  have len: "length ?w \<le> 128" "length ?a \<le> 128" using length_words [of l] l(2) by simp_all
  have k: "klocal s (exec_at fr) 128" "klocal s (args_at fr) 128" "disjoint_regions (exec_at fr) 128 (args_at fr) 128"
    using fr by (simp_all add: frame_ok_def Let_def)
  define P1 where "P1 = wr_bytes (phys s) (exec_at fr) ?w"
  define P where "P = wr_bytes P1 (args_at fr) ?a"
  note w1 = local_write [OF fs k(1) len(1), folded P1_def]
  have k2: "klocal (s\<lparr>phys := P1\<rparr>) (args_at fr) 128" using fs_keptD(3) [OF w1(2)] k(2) by simp
  note w2 = local_write(2) [OF fs_keptD(1) [OF w1(2)] k2 len(2)]
  have ok: "paging_ok s" and mp: "mapped_run s (args_at fr) (args_at fr) (length ?a)" and len': "length ?a \<le> 2 ^ 32"
    using fs k(2) len(2) by (auto simp: fs_mounted_def klocal_def intro!: mapped_kernel)
  have "put_vmem (wr_bytes (wr_bytes (vmem s) (exec_at fr) ?w) (args_at fr) ?a) s = s\<lparr>phys := P\<rparr>"
    unfolding put_vmem_wr_bytes [OF ok mp len'] w1(1) P_def by simp
  then have "map_option (\<lambda>m. put_vmem m s) (parse_input (vmem s) fname (exec_at fr) (args_at fr) (int BUF_SIZE)) = Some (s\<lparr>phys := P\<rparr>)"
    using parse_input_eq [OF l d] by simp
  moreover have "fs_kept s (s\<lparr>phys := P\<rparr>)" using fs_kept_trans [OF w1(2) w2] by (simp add: P_def)
  moreover have "rd_bytes P (exec_at fr) (length ?w) = rd_bytes P1 (exec_at fr) (length ?w)"
    unfolding P_def by (rule rd_wr_apart [OF k(3) [THEN disjoint_regions_sym [THEN iffD1]] len(2) _ len(1)]) simp_all
  moreover have "rd_bytes P1 (exec_at fr) (length ?w) = ?w" unfolding P1_def using len by (intro rd_wr_bytes_same) simp
  moreover have "rd_bytes P (args_at fr) (length ?a) = ?a" unfolding P_def using len by (intro rd_wr_bytes_same) simp
  moreover have "\<forall>a. a \<notin> frame_space fr \<longrightarrow> P a = phys s a"
    using wr_local_outside [OF _ len(1)] wr_local_outside [OF _ len(2)] by (simp add: P_def P1_def frame_space_def)
  ultimately show ?thesis by (intro exI [of _ P]) (simp del: rd_bytes.simps)
qed

text \<open>One write to a local variable, seen from the start of the loader.\<close>

lemma local_step:
  assumes kept: "fs_kept s (s\<lparr>phys := P\<rparr>)" and k: "klocal s a n" and len: "length xs \<le> n"
  shows "put_vmem (wr_bytes (vmem (s\<lparr>phys := P\<rparr>)) a xs) (s\<lparr>phys := P\<rparr>) = s\<lparr>phys := wr_bytes P a xs\<rparr>"
    and "fs_kept s (s\<lparr>phys := wr_bytes P a xs\<rparr>)"
proof -
  let ?u = "s\<lparr>phys := P\<rparr>"
  have "klocal ?u a n" using k fs_keptD(3) [OF kept] by simp
  note w = local_write [OF fs_keptD(1) [OF kept] this len]
  have e: "?u\<lparr>phys := wr_bytes (phys ?u) a xs\<rparr> = s\<lparr>phys := wr_bytes P a xs\<rparr>" by simp
  show "put_vmem (wr_bytes (vmem ?u) a xs) ?u = s\<lparr>phys := wr_bytes P a xs\<rparr>" using w(1) unfolding e .
  show "fs_kept s (s\<lparr>phys := wr_bytes P a xs\<rparr>)" using fs_kept_trans [OF kept w(2)] unfolding e .
qed

lemma kload_open:
  assumes kept: "fs_kept s (s\<lparr>phys := P\<rparr>)" and fr: "frame_ok s fr p"
    and w: "rd_bytes P (exec_at fr) (Suc (length w)) = w @ [0]" "length w \<le> 127" "0 \<notin> set w"
    and e: "find (entry_called (vmem s) (zbigfs_start s) w) [0..<unat (num_dentry (vmem s) (zbigfs_start s))] = Some e"
      "entry_type (vmem s) (zbigfs_start s) e = FTYPE_REGULAR"
  shows "\<exists>E E'. length E = 40 \<and> length E' = 40 \<and>
    read_dentry_by_name (vmem (s\<lparr>phys := P\<rparr>)) (zbigfs_start s) (exec_at fr) (d_at fr) = (wr_bytes (vmem (s\<lparr>phys := P\<rparr>)) (d_at fr) E, 0) \<and>
    rd32 (vmem (s\<lparr>phys := wr_bytes P (d_at fr) E\<rparr>)) (d_ftype (d_at fr)) = FTYPE_REGULAR \<and>
    kopen dv (dentry_at fr) f (exec_at fr) (s\<lparr>phys := wr_bytes P (d_at fr) E\<rparr>) =
      (s\<lparr>phys := wr_bytes (wr_bytes P (d_at fr) E) (dentry_at fr) E'\<rparr>,
       f\<lparr>pos := 0, inode := entry_inode (vmem s) (zbigfs_start s) e, optable := Ops_regular\<rparr>, 0)"
proof -
  let ?zb = "zbigfs_start s" and ?s1 = "s\<lparr>phys := P\<rparr>"
  have k: "klocal s (exec_at fr) 128" "klocal s (d_at fr) 40" "klocal s (dentry_at fr) 40"
    and dj: "disjoint_regions (d_at fr) 40 (exec_at fr) 128"
    using fr disjoint_regions_sym by (auto simp: frame_ok_def Let_def)
  have rd: "rd_bytes (vmem u) (exec_at fr) (Suc (length w)) = rd_bytes (phys u) (exec_at fr) (Suc (length w))" if "fs_kept s u" for u
    using that k(1) w(2) fs_keptD(1) [OF that] by (intro kernel_rd) (auto simp: klocal_def fs_mounted_def)
  have ty: "entry_type (vmem u) ?zb e = FTYPE_REGULAR" "entry_inode (vmem u) ?zb e = entry_inode (vmem s) ?zb e"
    "e < unat (num_dentry (vmem u) ?zb)" "length (entry_image (vmem u) ?zb (of_nat e)) = 40" if "fs_kept s u" for u
  proof -
    have lt: "e < unat (num_dentry (vmem s) ?zb)" using e(1) by (auto simp: find_Some_iff)
    show t: "entry_type (vmem u) ?zb e = FTYPE_REGULAR" "entry_inode (vmem u) ?zb e = entry_inode (vmem s) ?zb e"
      "e < unat (num_dentry (vmem u) ?zb)"
      using fs_kept_entry [OF that lt] fs_keptD(4) [OF that] lt e(2) by simp_all
    then show "length (entry_image (vmem u) ?zb (of_nat e)) = 40"
      by (simp add: length_entry_image is_regular_def entry_type_def)
  qed
  define E where "E = entry_image (vmem ?s1) ?zb (of_nat e)"
  have lE: "length E = 40" using ty(4) [OF kept] by (simp add: E_def)
  have f1: "find (name_matches (vmem ?s1) ?zb (exec_at fr)) [0..<unat (num_dentry (vmem ?s1) ?zb)] = Some e"
    using find_named [OF kept _ w(3)] rd [OF kept] w(1) e(1) by (simp del: rd_bytes.simps)
  have k1: "klocal ?s1 (d_at fr) 40" "zbigfs_start ?s1 = ?zb" "paging_ok ?s1" "wf_fs (vmem ?s1) ?zb"
    using k(2) fs_keptD(1,3) [OF kept] by (auto simp: fs_mounted_def)
  have rdn: "read_dentry_by_name (vmem ?s1) ?zb (exec_at fr) (d_at fr) = (wr_bytes (vmem ?s1) (d_at fr) E, 0)"
    using read_dentry_by_name_eq [OF k1(4), of "d_at fr" "exec_at fr"] k1(1) f1 by (simp add: klocal_def E_def)
  define s2 where "s2 = s\<lparr>phys := wr_bytes P (d_at fr) E\<rparr>"
  have s2: "?s1\<lparr>phys := wr_bytes (phys ?s1) (d_at fr) E\<rparr> = s2" by (simp add: s2_def)
  have t2: "rd32 (vmem s2) (d_ftype (d_at fr)) = FTYPE_REGULAR"
    using dentry_fields(2) [OF k1(3,1) ty(3) [OF kept] refl, folded E_def, unfolded s2] ty(1) [OF kept] by simp
  have kept2: "fs_kept s s2" unfolding s2_def using lE by (intro local_step(2) [OF kept k(2)]) simp
  define E' where "E' = entry_image (vmem s2) ?zb (of_nat e)"
  have "rd_bytes (phys s2) (exec_at fr) (Suc (length w)) = w @ [0]"
    unfolding s2_def using rd_wr_apart [OF dj, of E "Suc (length w)" P] w(1,2) lE by (simp del: rd_bytes.simps)
  then have f2: "find (name_matches (vmem s2) ?zb (exec_at fr)) [0..<unat (num_dentry (vmem s2) ?zb)] = Some e"
    using find_named [OF kept2 _ w(3)] rd [OF kept2] e(1) by (simp del: rd_bytes.simps)
  have "kopen dv (dentry_at fr) f (exec_at fr) s2 =
      (s2\<lparr>phys := wr_bytes (phys s2) (dentry_at fr) E'\<rparr>, f\<lparr>pos := 0, inode := entry_inode (vmem s) ?zb e, optable := Ops_regular\<rparr>, 0)"
    using kopen_eq [OF fs_keptD(1) [OF kept2], of "dentry_at fr" dv f "exec_at fr"] k(3) fs_keptD(2,3) [OF kept2] f2 ty(1,2) [OF kept2]
    by (simp add: opened_file_def file_open_def regular_open_def E'_def)
  with rdn t2 lE ty(4) [OF kept2] show ?thesis
    by (intro exI [of _ E] exI [of _ E']) (simp add: s2_def E'_def)
qed

text \<open>A read from a file into a local variable.\<close>

lemma kread_local:
  assumes kept: "fs_kept s (s\<lparr>phys := P\<rparr>)" and k: "klocal s a n" and nb: "0 < nb" "unat nb \<le> n"
    and f: "optable f = Ops_regular" "inode f < num_inode (vmem s) (zbigfs_start s)"
      "unat (pos f) \<le> file_len (vmem s) (zbigfs_start s) (inode f)"
    and xs: "xs = take (unat nb) (drop (unat (pos f)) (file_contents (vmem s) (zbigfs_start s) (inode f)))"
  shows "kread w dentry f a nb (s\<lparr>phys := P\<rparr>) =
      Some (s\<lparr>phys := wr_bytes P a xs\<rparr>, f\<lparr>pos := pos f + of_nat (length xs)\<rparr>, int (length xs))"
    and "fs_kept s (s\<lparr>phys := wr_bytes P a xs\<rparr>)"
proof -
  let ?zb = "zbigfs_start s" and ?m = "vmem (s\<lparr>phys := P\<rparr>)"
  have n: "n \<le> 4194304" using k by (simp add: klocal_def)
  have len: "length xs \<le> n" using nb(2) by (simp add: xs)
  have "disjoint_regions a (unat nb) ?zb (fs_size (vmem s) ?zb)"
    using k nb(2) disjoint_regions_sub [of a n ?zb "fs_size (vmem s) ?zb" 0 "unat nb" 0 "fs_size (vmem s) ?zb"] n
      wf_fs_size(2) [of "vmem s" ?zb] kept by (simp add: klocal_def fs_kept_def fs_mounted_def)
  then have "readable ?zb a nb (?m, f)"
    using nb n f(2,3) fs_keptD [OF kept] fs_kept_file [OF kept f(2)] by (simp add: readable_def fs_mounted_def)
  moreover have "rest_of_file ?zb (?m, f) = drop (unat (pos f)) (file_contents (vmem s) ?zb (inode f))"
    using fs_kept_file(1) [OF kept f(2)] by (simp add: rest_of_file_def)
  ultimately have "regular_read ?m ?zb f a nb = (wr_bytes ?m a xs, f\<lparr>pos := pos f + of_nat (length xs)\<rparr>, int (length xs))"
    using regular_read_eq [of ?zb a nb ?m f] by (simp add: Let_def flip: xs)
  then show "kread w dentry f a nb (s\<lparr>phys := P\<rparr>) =
      Some (s\<lparr>phys := wr_bytes P a xs\<rparr>, f\<lparr>pos := pos f + of_nat (length xs)\<rparr>, int (length xs))"
    using local_step(1) [OF kept k len] f(1) by (simp add: kread_def)
  show "fs_kept s (s\<lparr>phys := wr_bytes P a xs\<rparr>)" by (rule local_step(2) [OF kept k len])
qed

lemma kload_found:
  assumes fs: "fs_mounted s" and fr: "frame_ok s fr p"
    and l: "line_at (vmem s) fname l" "length l \<le> 127" "fname \<noteq> 0"
    and d: "disjoint_regions (exec_at fr) 128 fname (length l + 1)" "disjoint_regions (args_at fr) 128 fname (length l + 1)"
    and c: "program_at (vmem s) (zbigfs_start s) (word_of l) c"
  shows "\<exists>P f. kload_exec_to_mem w fr fname s = start_program w fr f (s\<lparr>phys := P\<rparr>) \<and> fs_kept s (s\<lparr>phys := P\<rparr>) \<and>
    rd_bytes P (args_at fr) (Suc (length (args_of l))) = args_of l @ [0] \<and> rd_bytes P (buf_at fr) 28 = take 28 c \<and>
    (\<forall>a. a \<notin> frame_space fr \<longrightarrow> P a = phys s a) \<and> optable f = Ops_regular \<and> pos f = 28 \<and>
    inode f < num_inode (vmem s) (zbigfs_start s) \<and> c = file_contents (vmem s) (zbigfs_start s) (inode f)"
proof -
  let ?zb = "zbigfs_start s"
  obtain e where e: "find (entry_called (vmem s) ?zb (word_of l)) [0..<unat (num_dentry (vmem s) ?zb)] = Some e"
    "entry_type (vmem s) ?zb e = FTYPE_REGULAR" "entry_inode (vmem s) ?zb e < num_inode (vmem s) ?zb"
    "c = file_contents (vmem s) ?zb (entry_inode (vmem s) ?zb e)"
    and c28: "28 \<le> length c" "le32 (take 4 c) = MAGIC_NUM"
    using c by (auto simp: program_at_def split: option.splits)
  have k: "klocal s (d_at fr) 40" "klocal s (dentry_at fr) 40" "klocal s (buf_at fr) 28"
    and dj: "disjoint_regions (d_at fr) 40 (args_at fr) 128" "disjoint_regions (dentry_at fr) 40 (args_at fr) 128"
      "disjoint_regions (buf_at fr) 28 (args_at fr) 128"
    using fr disjoint_regions_sym by (auto simp: frame_ok_def Let_def)
  obtain P1 where P1: "map_option (\<lambda>m. put_vmem m s) (parse_input (vmem s) fname (exec_at fr) (args_at fr) (int BUF_SIZE)) = Some (s\<lparr>phys := P1\<rparr>)"
    "fs_kept s (s\<lparr>phys := P1\<rparr>)" "rd_bytes P1 (exec_at fr) (Suc (length (word_of l))) = word_of l @ [0]"
    "rd_bytes P1 (args_at fr) (Suc (length (args_of l))) = args_of l @ [0]" "\<forall>a. a \<notin> frame_space fr \<longrightarrow> P1 a = phys s a"
    using kload_parse [OF fs fr l d] by blast
  have lw: "length (word_of l) \<le> 127" "length (args_of l) \<le> 127" using length_words [of l] l(2) by simp_all
  obtain E E' where E: "length E = 40" "length E' = 40"
    "read_dentry_by_name (vmem (s\<lparr>phys := P1\<rparr>)) ?zb (exec_at fr) (d_at fr) = (wr_bytes (vmem (s\<lparr>phys := P1\<rparr>)) (d_at fr) E, 0)"
    "rd32 (vmem (s\<lparr>phys := wr_bytes P1 (d_at fr) E\<rparr>)) (d_ftype (d_at fr)) = FTYPE_REGULAR"
    "kopen (dev w) (dentry_at fr) (file0 fr) (exec_at fr) (s\<lparr>phys := wr_bytes P1 (d_at fr) E\<rparr>) =
      (s\<lparr>phys := wr_bytes (wr_bytes P1 (d_at fr) E) (dentry_at fr) E'\<rparr>,
       (file0 fr)\<lparr>pos := 0, inode := entry_inode (vmem s) ?zb e, optable := Ops_regular\<rparr>, 0)"
    using kload_open [OF P1(2) fr P1(3) lw(1) line_words(1) [OF l(1)] e(1,2)] by blast
  define P2 where "P2 = wr_bytes P1 (d_at fr) E"
  define P3 where "P3 = wr_bytes P2 (dentry_at fr) E'"
  define P4 where "P4 = wr_bytes P3 (buf_at fr) (take 28 c)"
  define f where "f = (file0 fr)\<lparr>pos := 0, inode := entry_inode (vmem s) ?zb e, optable := Ops_regular\<rparr>"
  note st2 = local_step [OF P1(2) k(1), of E, folded P2_def]
  have st3: "fs_kept s (s\<lparr>phys := P3\<rparr>)" unfolding P3_def using E(1,2) by (intro local_step(2) [OF _ k(2)] st2(2)) simp_all
  have f: "optable f = Ops_regular" "inode f < num_inode (vmem s) ?zb" "unat (pos f) = 0" "c = file_contents (vmem s) ?zb (inode f)"
    "length (take 28 c) = 28"
    using e(3,4) c28(1) by (simp_all add: f_def)
  have kr: "kread w (dentry_at fr) f (buf_at fr) EXE_HEADER_SZ (s\<lparr>phys := P3\<rparr>) = Some (s\<lparr>phys := P4\<rparr>, f\<lparr>pos := 28\<rparr>, 28)"
    and st4: "fs_kept s (s\<lparr>phys := P4\<rparr>)"
    using kread_local(1) [OF st3 k(3), of EXE_HEADER_SZ f "take 28 c" w "dentry_at fr"]
      kread_local(2) [OF st3 k(3), of EXE_HEADER_SZ f "take 28 c"] f
    by (simp_all add: EXE_HEADER_SZ_def P4_def f_def)
  have b28: "rd_bytes P4 (buf_at fr) 28 = take 28 c"
    unfolding P4_def using rd_wr_bytes_same [of "take 28 c" P3 "buf_at fr"] f(5) by (simp del: rd_bytes.simps rd_bytes_numeral)
  have "rd_bytes (vmem (s\<lparr>phys := P4\<rparr>)) (buf_at fr) 28 = take 28 c"
    using local_read [OF fs_keptD(1) [OF st4], of "buf_at fr" 28] k(3) fs_keptD(3) [OF st4] b28 by (simp del: rd_bytes_numeral)
  then have "rd_bytes (vmem (s\<lparr>phys := P4\<rparr>)) (buf_at fr) 4 = take 4 (take 28 c)"
    using rd_bytes_part [of "vmem (s\<lparr>phys := P4\<rparr>)" "buf_at fr" "take 28 c" 0 4] unfolding f(5) by (simp del: rd_bytes_numeral)
  then have mg: "rd32 (vmem (s\<lparr>phys := P4\<rparr>)) (buf_at fr) = MAGIC_NUM"
    using c28(2) by (simp add: rd32_def min_def del: rd_bytes_numeral)
  have eq: "kload_exec_to_mem w fr fname s = start_program w fr (f\<lparr>pos := 28\<rparr>) (s\<lparr>phys := P4\<rparr>)"
    using P1(1) E st2(1) kr mg
    by (auto simp: kload_exec_to_mem_def P2_def [symmetric] P3_def [symmetric] f_def [symmetric])
  have "rd_bytes P4 (args_at fr) (Suc (length (args_of l))) = args_of l @ [0]"
    using rd_wr_apart [OF dj(1), of E "Suc (length (args_of l))" P1] rd_wr_apart [OF dj(2), of E' "Suc (length (args_of l))" P2]
      rd_wr_apart [OF dj(3), of "take 28 c" "Suc (length (args_of l))" P3] lw(2) E(1,2) P1(4) f(5)
    by (simp add: P2_def P3_def P4_def del: rd_bytes.simps)
  moreover have "\<forall>a. a \<notin> frame_space fr \<longrightarrow> P4 a = phys s a"
    using E(1,2) f(5) P1(5) by (simp add: P2_def P3_def P4_def frame_space_def wr_local_outside [where n = 40] wr_local_outside [where n = 28])
  ultimately show ?thesis
    using eq st4 b28 f by (intro exI [of _ P4] exI [of _ "f\<lparr>pos := 28\<rparr>"]) (simp del: rd_bytes.simps rd_bytes_numeral)
qed

subsection \<open>The image of the new process\<close>

lemma load_consts: "unat LOAD_ADDR = 0x8048000" "unat (LOAD_ADDR + EXE_HEADER_SZ) = 0x804801C" "unat EXE_LOAD_SZ = 0x3B8000"
  "unat (LOAD_ADDR + 24) = 0x8048018"
  by (simp_all add: LOAD_ADDR_def EXE_HEADER_SZ_def EXE_LOAD_SZ_def OFFSET_4M_def)

lemma user_phys_add: "user_phys s (v + k) = user_phys s v + k"
  by (simp add: user_phys_def)

lemma spawned_kernel_fields: "zbigfs_start (spawned p s) = zbigfs_start s"
  by (simp add: spawned_def switch_context_def init_pd_def set_pcb_def cli_def sti_def set_cr3_def set_vmem_table_def Let_def)

lemma spawned_kept:
  assumes fs: "fs_mounted s" and wf: "tasks_wf s" and p: "0 < p" "p \<le> MAX_PID" and k: "klocal s (pcb_cmdstring p) 128"
  shows "fs_kept s (spawned p s)"
proof -
  have ok: "paging_ok (spawned p s)" using tasks_wfD(1) [OF spawned_wf(1) [OF wf p]] .
  have ph: "phys (spawned p s) = wr_bytes (phys s) (pcb_cmdstring p) (replicate 128 0)" by (simp add: spawned_fields BUF_SIZE_def)
  have same: "same_fs (zbigfs_start s) (vmem s) (vmem (spawned p s))"
  proof (rule fs_untouched [OF fs ok])
    fix a assume "a \<in> region (zbigfs_start s) (fs_size (vmem s) (zbigfs_start s))"
    then have "a \<notin> region (pcb_cmdstring p) (length (replicate 128 (0 :: byte)))" using k by (auto simp: klocal_def disjoint_regions_def)
    then show "phys (spawned p s) a = phys s a" unfolding ph by (rule wr_bytes_outside) simp
  qed
  from mounted_same_fs [OF fs ok spawned_kernel_fields this] same fs show ?thesis
    by (simp add: fs_kept_def spawned_kernel_fields)
qed

text \<open>Copying the header and reading the rest of the file puts the whole file at the load address.\<close>

lemma load_image:
  assumes fs: "fs_mounted t" and cr3: "cr3 t \<noteq> 0" and b: "klocal t (buf_at fr) 28" "rd_bytes (phys t) (buf_at fr) 28 = take 28 c"
    and f: "optable f = Ops_regular" "pos f = 28" "inode f < num_inode (vmem t) (zbigfs_start t)"
      "c = file_contents (vmem t) (zbigfs_start t) (inode f)"
    and c: "28 \<le> length c" "length c \<le> unat EXE_LOAD_SZ"
    and t1: "t1 = put_vmem (memcpy (vmem t) LOAD_ADDR (buf_at fr) EXE_HEADER_SZ) t"
    and t2: "t2 = t\<lparr>phys := wr_bytes (phys t) (user_phys t LOAD_ADDR) c\<rparr>"
  shows "\<exists>f' r. kread w dentry f (LOAD_ADDR + EXE_HEADER_SZ) EXE_LOAD_SZ t1 = Some (t2, f', r)" and "fs_kept t t2"
proof -
  let ?zb = "zbigfs_start t"
  have ok: "paging_ok t" using fs by (simp add: fs_mounted_def)
  have l28: "length (take 28 c) = 28" "length c - 28 + 28 = length c" using c(1) by simp_all
  have "disjoint_regions LOAD_ADDR 28 (buf_at fr) 28"
    using b(1) by (intro disjoint_regions_intervalI) (auto simp: klocal_def load_consts)
  then have "memcpy (vmem t) LOAD_ADDR (buf_at fr) EXE_HEADER_SZ = wr_bytes (vmem t) LOAD_ADDR (take 28 c)"
    using memcpy_eq [of LOAD_ADDR EXE_HEADER_SZ "buf_at fr" "vmem t"] local_read [OF fs b(1)] b(2)
    by (simp add: EXE_HEADER_SZ_def del: rd_bytes_numeral)
  then have t1': "t1 = t\<lparr>phys := wr_bytes (phys t) (user_phys t LOAD_ADDR) (take 28 c)\<rparr>"
    unfolding t1 using put_user [OF ok cr3, of LOAD_ADDR "take 28 c"] l28 by (simp add: load_consts)
  have kept: "fs_kept t t1" unfolding t1' using l28 by (intro user_kept fs cr3) (simp_all add: load_consts)
  note k1 = fs_keptD [OF kept] fs_kept_file [OF kept f(3)]
  have len: "length c = file_len (vmem t) ?zb (inode f)" using f(4) by simp
  have "disjoint_regions (LOAD_ADDR + EXE_HEADER_SZ) (unat EXE_LOAD_SZ) ?zb (fs_size (vmem t) ?zb)"
    using fs by (intro disjoint_regions_intervalI) (auto simp: load_consts fs_mounted_def)
  then have "readable ?zb (LOAD_ADDR + EXE_HEADER_SZ) EXE_LOAD_SZ (vmem t1, f)"
    using k1 f c len by (simp add: readable_def fs_mounted_def word_less_nat_alt load_consts)
  moreover have "take (unat EXE_LOAD_SZ) (rest_of_file ?zb (vmem t1, f)) = drop 28 c"
    using k1(7) f(2,4) c(2) by (simp add: rest_of_file_def)
  ultimately have "\<exists>f' r. regular_read (vmem t1) ?zb f (LOAD_ADDR + EXE_HEADER_SZ) EXE_LOAD_SZ =
      (wr_bytes (vmem t1) (LOAD_ADDR + EXE_HEADER_SZ) (drop 28 c), f', r)"
    using regular_read_eq [of ?zb "LOAD_ADDR + EXE_HEADER_SZ" EXE_LOAD_SZ "vmem t1" f] by (simp add: Let_def)
  moreover have "put_vmem (wr_bytes (vmem t1) (LOAD_ADDR + EXE_HEADER_SZ) (drop 28 c)) t1 =
      t1\<lparr>phys := wr_bytes (phys t1) (user_phys t1 (LOAD_ADDR + EXE_HEADER_SZ)) (drop 28 c)\<rparr>"
    using k1(1) cr3 c by (intro put_user) (simp_all add: t1' fs_mounted_def load_consts)
  moreover have "t1\<lparr>phys := wr_bytes (phys t1) (user_phys t1 (LOAD_ADDR + EXE_HEADER_SZ)) (drop 28 c)\<rparr> = t2"
    using wr_bytes_append [of "phys t" "user_phys t LOAD_ADDR" "take 28 c" "drop 28 c"] l28(1)
    unfolding t1' t2 user_phys_add by (simp add: user_phys_def EXE_HEADER_SZ_def)
  ultimately show "\<exists>f' r. kread w dentry f (LOAD_ADDR + EXE_HEADER_SZ) EXE_LOAD_SZ t1 = Some (t2, f', r)"
    using f(1) k1(2) by (auto simp: kread_def)
  show "fs_kept t t2" unfolding t2 using c by (intro user_kept fs cr3) (simp_all add: load_consts)
qed

lemma user_image:
  assumes ok: "paging_ok t" and cr3: "cr3 t \<noteq> 0" and len: "length c \<le> unat EXE_LOAD_SZ"
    and ph: "\<And>a. a \<in> region (user_phys t LOAD_ADDR) (length c) \<Longrightarrow> phys t a = wr_bytes m (user_phys t LOAD_ADDR) c a"
  shows "rd_bytes (vmem t) LOAD_ADDR (length c) = c"
proof -
  have l: "length c \<le> 2 ^ 32" using len by (simp add: load_consts)
  have "rd_bytes (vmem t) LOAD_ADDR (length c) = rd_bytes (phys t) (user_phys t LOAD_ADDR) (length c)"
    using len by (intro rd_vmem mapped_user ok cr3) (simp_all add: load_consts)
  also have "\<dots> = rd_bytes (wr_bytes m (user_phys t LOAD_ADDR) c) (user_phys t LOAD_ADDR) (length c)"
    using l by (intro rd_bytes_cong ph add_in_region) simp_all
  also have "\<dots> = c" using l by (rule rd_wr_bytes_same)
  finally show ?thesis .
qed

lemma user_region:
  assumes "paging_ok t" and "cr3 t \<noteq> 0" and "0x8000000 \<le> unat v" and "unat v + n \<le> 0x8400000"
  shows "region (user_phys t v) n \<subseteq> user_frame (cr3 t)" and "a \<in> region (user_phys t v) n \<Longrightarrow> a \<notin> kernel_frame"
proof -
  have p10: "cr3 t \<le> 10" using assms(1) by (simp add: paging_ok_def pd_ready_def paging_consts)
  have "unat (v - 0x8000000) + n \<le> 4194304" using assms(3,4) by (simp add: unat_sub_if_size word_size)
  from region_sub [OF this, of "of_nat (cr3 t + 1) * 0x400000"]
  show sub: "region (user_phys t v) n \<subseteq> user_frame (cr3 t)" by (simp add: user_frame_def user_phys_def)
  then show "a \<in> region (user_phys t v) n \<Longrightarrow> a \<notin> kernel_frame"
    using kernel_frame_user_frame [OF _ p10] assms(2) by fastforce
qed

text \<open>The state in which a program starts: a new process with the file in its memory and its arguments in the PCB.\<close>

definition loaded :: "nat \<Rightarrow> byte list \<Rightarrow> byte list \<Rightarrow> 'a kernel_scheme \<Rightarrow> 'a kernel_scheme" where
  "loaded p c as s = (let t = spawned p s in
     t\<lparr>phys := wr_bytes (wr_bytes (phys t) (user_phys t LOAD_ADDR) c) (pcb_cmdstring p) (pad_nul 128 as)\<rparr>)"

lemma start_program_eq:
  assumes fs: "fs_mounted s" and wf: "tasks_wf s" and p: "0 < p" "p \<le> MAX_PID" "find_free_loop (pcbs s) 1 = p"
    and fr: "frame_ok s fr p"
    and as: "rd_bytes (phys s) (args_at fr) (Suc (length as)) = as @ [0]" "length as \<le> 127" "0 \<notin> set as"
    and b: "rd_bytes (phys s) (buf_at fr) 28 = take 28 c"
    and f: "optable f = Ops_regular" "pos f = 28" "inode f < num_inode (vmem s) (zbigfs_start s)"
      "c = file_contents (vmem s) (zbigfs_start s) (inode f)"
    and c: "28 \<le> length c" "length c \<le> unat EXE_LOAD_SZ"
  shows "start_program w fr f s = Some (loaded p c as s, le32 (take 4 (drop 24 c)))"
proof -
  define t where "t = spawned p s"
  have k: "klocal s (args_at fr) 128" "klocal s (buf_at fr) 28" "klocal s (pcb_cmdstring p) 128"
    and dj: "disjoint_regions (pcb_cmdstring p) 128 (args_at fr) 128" "disjoint_regions (pcb_cmdstring p) 128 (buf_at fr) 28"
    using fr disjoint_regions_sym by (auto simp: frame_ok_def Let_def)
  have kt: "fs_kept s t" unfolding t_def by (rule spawned_kept [OF fs wf p(1,2) k(3)])
  note kt' = fs_keptD [OF kt] fs_kept_file [OF kt f(3)]
  have ph: "phys t = wr_bytes (phys s) (pcb_cmdstring p) (replicate 128 0)" by (simp add: t_def spawned_fields BUF_SIZE_def)
  have rt: "rd_bytes (phys t) (args_at fr) (Suc (length as)) = as @ [0]" "rd_bytes (phys t) (buf_at fr) 28 = take 28 c"
    unfolding ph using as(1,2) b rd_wr_apart [OF dj(1), of "replicate 128 0" "Suc (length as)"] rd_wr_apart [OF dj(2), of "replicate 128 0" 28]
    by (simp_all del: rd_bytes.simps rd_bytes_numeral)
  have ct: "cr3 t \<noteq> 0" "paging_ok t" "current_process t = p" using p(1) kt'(1) by (simp_all add: t_def spawned_fields fs_mounted_def)
  have bt: "klocal t (buf_at fr) 28" "inode f < num_inode (vmem t) (zbigfs_start t)" "c = file_contents (vmem t) (zbigfs_start t) (inode f)"
    using k(2) f(3,4) kt' by simp_all
  define t1 where "t1 = put_vmem (memcpy (vmem t) LOAD_ADDR (buf_at fr) EXE_HEADER_SZ) t"
  define t2 where "t2 = t\<lparr>phys := wr_bytes (phys t) (user_phys t LOAD_ADDR) c\<rparr>"
  obtain f' r where kr: "kread w (dentry_at fr) f (LOAD_ADDR + EXE_HEADER_SZ) EXE_LOAD_SZ t1 = Some (t2, f', r)"
    using load_image(1) [OF kt'(1) ct(1) bt(1) rt(2) f(1,2) bt(2,3) c t1_def t2_def] by blast
  have kept2: "fs_kept t t2" by (rule load_image(2) [OF kt'(1) ct(1) bt(1) rt(2) f(1,2) bt(2,3) c t1_def t2_def])
  have "rd_bytes (vmem t2) LOAD_ADDR (length c) = c"
    using fs_keptD(1) [OF kept2] ct by (intro user_image c(2)) (simp_all add: t2_def fs_mounted_def user_phys_def)
  then have "rd_bytes (vmem t2) (LOAD_ADDR + 24) 4 = take 4 (drop 24 c)"
    using rd_bytes_part [of "vmem t2" LOAD_ADDR c 24 4] c(1) by simp
  then have en: "rd32 (vmem t2) (LOAD_ADDR + 24) = le32 (take 4 (drop 24 c))" by (simp add: rd32_def del: rd_bytes_numeral)
  have k2: "klocal t2 (args_at fr) 128" "klocal t2 (pcb_cmdstring p) 128" using fs_keptD(3) [OF kept2] kt'(3) k by simp_all
  have outs: "args_at fr + of_nat i \<notin> region (user_phys t LOAD_ADDR) (length c)" if "i < 128" for i
  proof -
    have "unat (args_at fr + of_nat i) = unat (args_at fr) + i"
      using k(1) that by (simp add: klocal_def unat_plus_if' unat_of_nat_less)
    then have "args_at fr + of_nat i \<in> kernel_frame" using k(1) that by (simp add: klocal_def kernel_frame_interval)
    then show ?thesis using user_region(2) [OF ct(2,1), of LOAD_ADDR "length c"] c(2) by (auto simp: load_consts)
  qed
  have "rd_bytes (vmem t2) (args_at fr) 128 = rd_bytes (phys t2) (args_at fr) 128"
    by (rule local_read [OF fs_keptD(1) [OF kept2] k2(1)])
  also have "\<dots> = rd_bytes (phys t) (args_at fr) 128"
    using outs c(2) by (intro rd_bytes_cong) (simp add: t2_def wr_bytes_outside load_consts)
  finally have "upto_nul (rd_bytes (vmem t2) (args_at fr) 128) = as"
    using upto_nul_rd [OF rt(1) as(3), of 128] as(2) by simp
  then have "strncpy (vmem t2) (pcb_cmdstring p) (args_at fr) 128 = wr_bytes (vmem t2) (pcb_cmdstring p) (pad_nul 128 as)"
    using strncpy_eq [of "pcb_cmdstring p" 128 "args_at fr" "vmem t2"] dj(1) by (simp del: rd_bytes_numeral)
  then have "put_vmem (strncpy (vmem t2) (pcb_cmdstring p) (args_at fr) 128) t2 = loaded p c as s"
    using local_write(1) [OF fs_keptD(1) [OF kept2] k2(2), of "pad_nul 128 as"] as(2) by (simp add: t2_def loaded_def flip: t_def)
  moreover have "setup_new_process s = (t, 0)" unfolding t_def by (rule setup_new_process_eq [OF tasks_wfD(1) [OF wf] p])
  moreover have "current_process t2 = p" using ct(3) by (simp add: t2_def)
  ultimately show ?thesis unfolding start_program_def Let_def using kr en by (simp flip: t1_def)
qed

lemma loaded_props:
  assumes wf: "tasks_wf s" and p: "0 < p" "p \<le> MAX_PID" and len: "length c \<le> unat EXE_LOAD_SZ" "length as \<le> 127"
  shows "current_process (loaded p c as s) = p" and "cr3 (loaded p c as s) = p" and "tasks_wf (loaded p c as s)"
    and "pcbs (loaded p c as s) = (pcbs s)(p := new_pcb (current_process s))"
    and "rd_bytes (vmem (loaded p c as s)) LOAD_ADDR (length c) = c"
    and "rd_bytes (vmem (loaded p c as s)) (pcb_cmdstring p) 128 = pad_nul 128 as"
    and "\<And>a. a \<notin> kernel_frame \<Longrightarrow> a \<notin> user_frame p \<Longrightarrow> phys (loaded p c as s) a = phys s a"
proof -
  define t where "t = spawned p s"
  have w: "tasks_wf t" unfolding t_def by (rule spawned_wf(1) [OF wf p])
  have ld: "loaded p c as s = t\<lparr>phys := wr_bytes (wr_bytes (phys t) (user_phys t LOAD_ADDR) c) (pcb_cmdstring p) (pad_nul 128 as)\<rparr>"
    by (simp add: loaded_def t_def Let_def)
  show cp: "current_process (loaded p c as s) = p" "cr3 (loaded p c as s) = p"
    "pcbs (loaded p c as s) = (pcbs s)(p := new_pcb (current_process s))"
    by (simp_all add: ld t_def spawned_fields)
  have ok: "paging_ok (loaded p c as s)" "paging_ok t" "cr3 t \<noteq> 0" "cr3 t = p"
    using tasks_wfD(1) [OF w] p(1) by (simp_all add: ld t_def spawned_fields)
  have pd: "pd_ready (loaded p c as s) q = pd_ready t q" for q by (rule pd_ready_cong) (simp_all add: ld)
  show "tasks_wf (loaded p c as s)"
    using w ok(1) unfolding tasks_wf_def console_ok_def cursor_ok_def pd by (simp add: ld)
  have cmd: "4194304 \<le> unat (pcb_cmdstring p)" "unat (pcb_cmdstring p) + 128 \<le> 8388608"
    using p by (auto simp: pcb_cmdstring_address MAX_PID_def)
  have cf: "region (pcb_cmdstring p) 128 \<subseteq> kernel_frame"
    using cmd region_interval [of "pcb_cmdstring p" 128] by (auto simp: kernel_frame_interval)
  have pl: "length (pad_nul 128 as) = 128" using len(2) by simp
  have up: "user_phys (loaded p c as s) = user_phys t" by (simp add: fun_eq_iff user_phys_def ld)
  have reg: "region (user_phys t LOAD_ADDR) (length c) \<subseteq> user_frame p" "a \<in> region (user_phys t LOAD_ADDR) (length c) \<Longrightarrow> a \<notin> kernel_frame" for a
    using user_region [OF ok(2,3), of LOAD_ADDR "length c"] len(1) ok(4) by (auto simp: load_consts)
  show "rd_bytes (vmem (loaded p c as s)) LOAD_ADDR (length c) = c"
  proof (rule user_image [OF ok(1) _ len(1), of "phys t"])
    show "cr3 (loaded p c as s) \<noteq> 0" using cp(2) p(1) by simp
    fix a assume "a \<in> region (user_phys (loaded p c as s) LOAD_ADDR) (length c)"
    then have "a \<notin> region (pcb_cmdstring p) (length (pad_nul 128 as))" using reg(2) cf unfolding up pl by blast
    then show "phys (loaded p c as s) a = wr_bytes (phys t) (user_phys (loaded p c as s) LOAD_ADDR) c a"
      unfolding up unfolding ld using pl by (simp add: wr_bytes_outside)
  qed
  have "rd_bytes (vmem (loaded p c as s)) (pcb_cmdstring p) (length (pad_nul 128 as)) = pad_nul 128 as"
    unfolding pl kernel_rd [OF ok(1) cmd] using rd_wr_bytes_same [of "pad_nul 128 as" _ "pcb_cmdstring p"]
    unfolding ld pl by (simp del: rd_bytes_numeral)
  then show "rd_bytes (vmem (loaded p c as s)) (pcb_cmdstring p) 128 = pad_nul 128 as" unfolding pl .
  fix a assume a: "a \<notin> kernel_frame" "a \<notin> user_frame p"
  then have n: "a \<notin> region (pcb_cmdstring p) 128" "a \<notin> region (user_phys t LOAD_ADDR) (length c)" using cf reg(1) by auto
  then show "phys (loaded p c as s) a = phys s a"
    using pl len(1) by (simp add: ld wr_bytes_outside load_consts) (simp add: t_def spawned_fields BUF_SIZE_def wr_bytes_outside)
qed

lemma save_hist_kept:
  fixes s :: "'a kernel_scheme"
  assumes "line_at (vmem s) fname l" and "length l \<le> 127" and "l \<noteq> []"
  shows "vmem (save_hist fname s) = vmem s" "phys (save_hist fname s) = phys s" "pcbs (save_hist fname s) = pcbs s"
    "current_process (save_hist fname s) = current_process s" "zbigfs_start (save_hist fname s) = zbigfs_start s"
    "paging_ok (save_hist fname s) = paging_ok s" "tasks_wf (save_hist fname s) = tasks_wf s"
    "fs_mounted (save_hist fname s) = fs_mounted s" "frame_ok (save_hist fname s) fr p = frame_ok s fr p"
proof -
  have "rd_bytes (vmem s) fname (length l) = l" using assms(1) by (intro nth_equalityI) (simp_all add: line_at_def)
  then have "cmd_line s fname l" using assms by (auto simp: cmd_line_def line_at_def BUF_SIZE_def)
  from save_hist_eq [OF this refl refl refl]
  obtain h b i where e: "save_hist fname s = s\<lparr>history := h, hist_bottom_indeces := b, hist_indeces := i\<rparr>" by blast
  show v: "vmem (save_hist fname s) = vmem s" "phys (save_hist fname s) = phys s" "pcbs (save_hist fname s) = pcbs s"
    "current_process (save_hist fname s) = current_process s" "zbigfs_start (save_hist fname s) = zbigfs_start s"
    unfolding e by simp_all
  show ok: "paging_ok (save_hist fname s) = paging_ok s" unfolding e by (rule paging_ok_cong) simp_all
  have pd: "pd_ready (save_hist fname s) q = pd_ready s q" for q unfolding e by (rule pd_ready_cong) simp_all
  show "tasks_wf (save_hist fname s) = tasks_wf s"
    unfolding tasks_wf_def console_ok_def cursor_ok_def pd ok unfolding e by simp
  show "fs_mounted (save_hist fname s) = fs_mounted s" "frame_ok (save_hist fname s) fr p = frame_ok s fr p"
    using v ok by (simp_all add: fs_mounted_def frame_ok_def klocal_def Let_def)
qed

lemma find_free_first:
  assumes "0 < p" and "p \<le> MAX_PID" and "\<not> present (pcbs s p)" and "\<forall>j. 0 < j \<and> j < p \<longrightarrow> present (pcbs s j)"
  shows "find_free_loop (pcbs s) 1 = p"
proof -
  let ?k = "find_free_loop (pcbs s) 1"
  have k: "1 \<le> ?k" "\<forall>j. 1 \<le> j \<and> j < ?k \<longrightarrow> present (pcbs s j)" "?k \<le> MAX_PID \<longrightarrow> \<not> present (pcbs s ?k)"
    using find_free_loop_spec [of 1 "pcbs s"] by simp_all
  have "\<not> p < ?k" using k(2) assms(1,3) by auto
  moreover have "\<not> ?k < p" using k(1,3) assms(2,4) by auto
  ultimately show ?thesis by simp
qed

lemma kload_loads:
  assumes fs: "fs_mounted s" "tasks_wf s" and fr: "frame_ok s fr p"
    and l: "line_at (vmem s) fname l" "length l \<le> 127" "fname \<noteq> 0"
    and d: "disjoint_regions (exec_at fr) 128 fname (length l + 1)" "disjoint_regions (args_at fr) 128 fname (length l + 1)"
    and c: "program_at (vmem s) (zbigfs_start s) (word_of l) c"
    and p: "0 < p" "p \<le> MAX_PID" "\<not> present (pcbs s p)" "\<forall>j. 0 < j \<and> j < p \<longrightarrow> present (pcbs s j)"
  shows "\<exists>P. kload_exec_to_mem w fr fname s = Some (loaded p c (args_of l) (s\<lparr>phys := P\<rparr>), le32 (take 4 (drop 24 c))) \<and>
    tasks_wf (s\<lparr>phys := P\<rparr>) \<and> fs_kept s (s\<lparr>phys := P\<rparr>) \<and> (\<forall>a. a \<notin> frame_space fr \<longrightarrow> P a = phys s a)"
proof -
  obtain P f where P: "kload_exec_to_mem w fr fname s = start_program w fr f (s\<lparr>phys := P\<rparr>)" "fs_kept s (s\<lparr>phys := P\<rparr>)"
    "rd_bytes P (args_at fr) (Suc (length (args_of l))) = args_of l @ [0]" "rd_bytes P (buf_at fr) 28 = take 28 c"
    "\<forall>a. a \<notin> frame_space fr \<longrightarrow> P a = phys s a" "optable f = Ops_regular" "pos f = 28"
    "inode f < num_inode (vmem s) (zbigfs_start s)" "c = file_contents (vmem s) (zbigfs_start s) (inode f)"
    using kload_found [OF fs(1) fr l d c, of w] by blast
  let ?s = "s\<lparr>phys := P\<rparr>"
  note k = fs_keptD [OF P(2)]
  have pd: "pd_ready ?s q = pd_ready s q" for q by (rule pd_ready_cong) simp_all
  have wf: "tasks_wf ?s" using fs(2) unfolding tasks_wf_def console_ok_def cursor_ok_def pd by simp
  have fr': "frame_ok ?s fr p" using fr k(3) by (simp add: frame_ok_def Let_def)
  have f: "inode f < num_inode (vmem ?s) (zbigfs_start ?s)" "c = file_contents (vmem ?s) (zbigfs_start ?s) (inode f)"
    using P(8,9) k(5) fs_kept_file(1) [OF P(2,8)] by simp_all
  have free: "find_free_loop (pcbs ?s) 1 = p" using p by (intro find_free_first) simp_all
  have la: "length (args_of l) \<le> 127" using length_words(2) [of l] l(2) by simp
  have c': "28 \<le> length c" "length c \<le> unat EXE_LOAD_SZ" using c by (simp_all add: program_at_def)
  have "start_program w fr f ?s = Some (loaded p c (args_of l) ?s, le32 (take 4 (drop 24 c)))"
    using P(3,4) by (intro start_program_eq [OF k(1) wf p(1,2) free fr' _ la line_words(2) [OF l(1)] _ P(6,7) f c']) simp_all
  with P(1,2,5) wf show ?thesis by auto
qed

lemma execute_eq:
  assumes fs: "fs_mounted s" "tasks_wf s" and fr: "frame_ok s fr p"
    and str: "strlen (vmem s) fname = Some n" "usr_ptr_ok fname n"
    and l: "line_at (vmem s) fname l" "length l \<le> 127" "l \<noteq> []"
    and d: "disjoint_regions (exec_at fr) 128 fname (length l + 1)" "disjoint_regions (args_at fr) 128 fname (length l + 1)"
    and c: "program_at (vmem s) (zbigfs_start s) (word_of l) c"
    and entry: "entry = le32 (take 4 (drop 24 c))" "entry \<noteq> 1" "entry \<noteq> - 1"
    and p: "0 < p" "p \<le> MAX_PID" "\<not> present (pcbs s p)" "\<forall>j. 0 < j \<and> j < p \<longrightarrow> present (pcbs s j)"
    and q: "q = current_process s" "q \<noteq> p"
  shows "\<exists>s'. execute w fr sp fname s = Some (s', Enter entry) \<and> current_process s' = p \<and> cr3 s' = p \<and> tasks_wf s' \<and>
    rd_bytes (vmem s') LOAD_ADDR (length c) = c \<and> rd_bytes (vmem s') (pcb_cmdstring p) 128 = pad_nul 128 (args_of l) \<and>
    pcbs s' = (pcbs s)(p := \<lparr>esp = 0, parent = q, pcb_files = std_files, present = True\<rparr>, q := (pcbs s q)\<lparr>esp := sp\<rparr>) \<and>
    (\<forall>a. a \<notin> kernel_frame \<longrightarrow> a \<notin> user_frame p \<longrightarrow> phys s' a = phys s a)"
proof -
  define u where "u = save_hist fname s"
  note h = save_hist_kept [OF l, folded u_def]
  have nz: "fname \<noteq> 0" using str(2) by (auto simp: usr_ptr_ok_unat)
  have "fs_mounted u" "tasks_wf u" "frame_ok u fr p" "line_at (vmem u) fname l" "program_at (vmem u) (zbigfs_start u) (word_of l) c"
    "\<not> present (pcbs u p)" "\<forall>j. 0 < j \<and> j < p \<longrightarrow> present (pcbs u j)" using fs fr l c p by (simp_all add: h)
  from kload_loads [OF this(1-4) l(2) nz d this(5) p(1,2) this(6,7)] obtain P where
    P: "kload_exec_to_mem w fr fname u = Some (loaded p c (args_of l) (u\<lparr>phys := P\<rparr>), entry)" "tasks_wf (u\<lparr>phys := P\<rparr>)"
      "\<forall>a. a \<notin> kernel_frame \<longrightarrow> P a = phys s a"
    using frame_space_kernel [OF fr] unfolding entry(1) [symmetric] h by blast
  define t where "t = loaded p c (args_of l) (u\<lparr>phys := P\<rparr>)"
  have len: "length c \<le> unat EXE_LOAD_SZ" "length (args_of l) \<le> 127"
    using c length_words(2) [of l] l(2) by (simp_all add: program_at_def)
  note ld = loaded_props [OF P(2) p(1,2) len, folded t_def]
  define s' where "s' = set_pcb q ((pcbs t q)\<lparr>esp := sp\<rparr>) t"
  have "execute w fr sp fname s = Some (s', Enter entry)"
    using str P(1) entry(2,3) q(1) by (simp add: execute_def load_exec_to_mem_def enter_program_def s'_def t_def flip: u_def)
  moreover have "tasks_wf s'"
    using ld(3,4) q by (auto simp: tasks_wf_def s'_def)
  moreover have "pcbs s' = (pcbs s)(p := \<lparr>esp = 0, parent = q, pcb_files = std_files, present = True\<rparr>, q := (pcbs s q)\<lparr>esp := sp\<rparr>)"
    using ld(4) q by (simp add: s'_def h new_pcb_def)
  moreover have "\<forall>a. a \<notin> kernel_frame \<longrightarrow> a \<notin> user_frame p \<longrightarrow> phys s' a = phys s a" using ld(7) P(3) by (simp add: s'_def)
  ultimately show ?thesis
    using ld(1,2,5,6) by (intro exI [of _ s']) (simp add: s'_def del: rd_bytes_numeral)
qed

text \<open>
  C5. The \<open>execute\<close> system call with the name of an executable file: a new process, child of the caller,
  becomes current in its own address space; its memory at the load address holds the file, its standard
  input and output are open, its PCB holds the arguments of the command line, and control goes to the
  entry point given in the file's header. The caller's stack pointer is kept in its PCB, and memory
  outside the kernel and the new process is as before.
\<close>

theorem execute_starts_program:
  assumes fs: "fs_mounted s" "tasks_wf s" and fr: "frame_ok s fr p"
    and str: "strlen (vmem s) fname = Some n" "usr_ptr_ok fname n"
    and l: "line_at (vmem s) fname l" "length l \<le> 127" "l \<noteq> []"
    and d: "disjoint_regions (exec_at fr) 128 fname (length l + 1)" "disjoint_regions (args_at fr) 128 fname (length l + 1)"
    and c: "program_at (vmem s) (zbigfs_start s) (word_of l) c"
    and entry: "entry = le32 (take 4 (drop 24 c))" "entry \<noteq> 1" "entry \<noteq> - 1"
    and p: "0 < p" "p \<le> MAX_PID" "\<not> present (pcbs s p)" "\<forall>j. 0 < j \<and> j < p \<longrightarrow> present (pcbs s j)"
    and q: "q = current_process s" "q \<noteq> p"
  shows "\<exists>s'. execute w fr sp fname s = Some (s', Enter entry) \<and> current_process s' = p \<and> cr3 s' = p \<and> tasks_wf s' \<and>
    rd_bytes (vmem s') LOAD_ADDR (length c) = c \<and> rd_bytes (vmem s') (pcb_cmdstring p) 128 = pad_nul 128 (args_of l) \<and>
    pcbs s' = (pcbs s)(p := \<lparr>esp = 0, parent = q, pcb_files = std_files, present = True\<rparr>, q := (pcbs s q)\<lparr>esp := sp\<rparr>) \<and>
    (\<forall>a. a \<notin> kernel_frame \<longrightarrow> a \<notin> user_frame p \<longrightarrow> phys s' a = phys s a)"
  using assms by (rule execute_eq)

section \<open>Ending a program\<close>

definition closed :: "FILE \<Rightarrow> FILE" where
  "closed f = (if in_use f then f\<lparr>flags := flags f AND NOT FILE_FLAG_IN_USE\<rparr> else f)"

lemma close_all:
  assumes "n \<le> MAX_FILES"
  shows "fold (\<lambda>fd s. fst (syscall_close (int fd) s)) [0..<n] s =
    set_pcb (current_process s) ((get_current_pcb s)\<lparr>pcb_files := (\<lambda>k. if 2 \<le> k \<and> k < n then closed (cur_files s k) else cur_files s k)\<rparr>) s"
  using assms
proof (induction n)
  case 0
  show ?case by (cases s) (simp add: set_pcb_def get_current_pcb_def cur_files_def)
next
  case (Suc n)
  define fs where "fs = (\<lambda>k. if 2 \<le> k \<and> k < n then closed (cur_files s k) else cur_files s k)"
  define u where "u = set_pcb (current_process s) ((get_current_pcb s)\<lparr>pcb_files := fs\<rparr>) s"
  have cu: "cur_files u = fs" "current_process u = current_process s" "get_current_pcb u = (get_current_pcb s)\<lparr>pcb_files := fs\<rparr>"
    by (simp_all add: u_def cur_files_def get_current_pcb_def)
  have fn: "fs n = cur_files s n" by (simp add: fs_def)
  have c: "fst (syscall_close (int n) u) = set_file n (if 2 \<le> n then closed (fs n) else fs n) u"
    using Suc.prems cu(1)
    by (cases u) (auto simp: syscall_close_def get_file_def free_fd_def closed_def set_file_def set_pcb_def get_current_pcb_def cur_files_def)
  have "fs(n := if 2 \<le> n then closed (fs n) else fs n) = (\<lambda>k. if 2 \<le> k \<and> k < Suc n then closed (cur_files s k) else cur_files s k)"
    by (auto simp: fun_eq_iff fs_def less_Suc_eq)
  then show ?case
    using Suc c cu unfolding fs_def [symmetric] u_def [symmetric] by (simp add: set_file_def) (simp add: u_def set_pcb_def)
qed

lemma free_current_pcb_eq:
  "free_current_pcb s = set_pcb (current_process s) ((get_current_pcb s)
     \<lparr>pcb_files := (\<lambda>k. if 2 \<le> k \<and> k < MAX_FILES then closed (cur_files s k) else cur_files s k), present := False\<rparr>) s"
  unfolding free_current_pcb_def Let_def close_all [OF le_refl] by (simp add: set_pcb_def)

lemma halt_eq:
  assumes wf: "tasks_wf s" and p: "p = current_process s" "4 \<le> p" and q: "q = parent (pcbs s p)" "q \<noteq> p" "pd_ready s q"
  shows "\<exists>s'. halt code s = (s', Return_to (esp (pcbs s q)) code) \<and> current_process s' = q \<and> cr3 s' = q \<and> tasks_wf s' \<and>
    phys s' = phys s \<and> \<not> present (pcbs s' p) \<and> (\<forall>k. 2 \<le> k \<and> k < MAX_FILES \<longrightarrow> \<not> in_use (pcb_files (pcbs s' p) k)) \<and>
    (\<forall>r. r \<noteq> p \<longrightarrow> pcbs s' r = pcbs s r)"
proof -
  define u where "u = free_current_pcb s"
  have u: "pcbs u = (pcbs s)(p := (pcbs s p)
      \<lparr>pcb_files := (\<lambda>k. if 2 \<le> k \<and> k < MAX_FILES then closed (cur_files s k) else cur_files s k), present := False\<rparr>)" "current_process u = p" "phys u = phys s"
    "pd_ready u r = pd_ready s r" for r
    by (simp_all add: u_def free_current_pcb_eq p(1) get_current_pcb_def)
  have wu: "tasks_wf u" using wf by (auto simp: u_def free_current_pcb_eq tasks_wf_def)
  have "halt code s = (switch_context q u, Return_to (esp (pcbs s q)) code)"
    using p(2) q u(1,2) by (simp add: halt_def get_current_pid_def get_current_pcb_def Let_def flip: u_def)
  moreover have "tasks_wf (switch_context q u)" using switch_context_wf(1) [OF wu] q(3) u(4) by simp
  moreover have "\<not> in_use (closed f)" for f by (simp add: closed_def in_use_clear)
  ultimately show ?thesis using u by (intro exI [of _ "switch_context q u"]) simp
qed


section \<open>Arguments\<close>

lemma getargs_eq:
  assumes ok: "paging_ok s" "cr3 s \<noteq> 0" and p: "p = current_process s" "p \<le> MAX_PID"
    and as: "rd_bytes (vmem s) (pcb_cmdstring p) 128 = pad_nul 128 as" "0 \<notin> set as" "length as \<le> 127"
    and buf: "0x8000000 \<le> unat buf" "unat buf + nbytes \<le> 0x8400000" and n': "n = min nbytes 128"
  shows "syscall_getargs buf (int nbytes) s =
    (s\<lparr>phys := wr_bytes (phys s) (user_phys s buf) (pad_nul n (take n as))\<rparr>, 0)"
proof -
  have cmd: "4194304 \<le> unat (pcb_cmdstring p)" "unat (pcb_cmdstring p) + 128 \<le> 8388608"
    using p(2) by (auto simp: pcb_cmdstring_address MAX_PID_def)
  have n: "n \<le> 128" "n \<le> nbytes" using n' by simp_all
  have pl: "length (pad_nul n (take n as)) = n" by (rule length_pad_nul) simp
  have nb: "unat (of_int (int nbytes) :: u32) = nbytes" using buf(2) by (simp add: unat_of_nat_less)
  then have uok: "usr_ptr_ok buf (of_int (int nbytes))" using buf unfolding usr_ptr_ok_unat by simp
  have un: "unat (of_int (min_int (int nbytes) (int BUF_SIZE)) :: u32) = n"
    by (auto simp: min_int_def BUF_SIZE_def n' unat_of_nat_less min_def)
  have dj: "disjoint_regions buf n (pcb_cmdstring p) n"
    using buf cmd n by (intro disjoint_regions_intervalI) auto
  have "rd_bytes (vmem s) (pcb_cmdstring p) n = take n (pad_nul 128 as)"
    using rd_bytes_part [of "vmem s" "pcb_cmdstring p" "pad_nul 128 as" 0 n] as(1,3) n by (simp del: rd_bytes_numeral)
  moreover have "upto_nul (take n (pad_nul 128 as)) = take n as"
  proof -
    have "take n (pad_nul 128 as) = take n as @ replicate (n - length as) 0" using n by (auto simp: pad_nul_def min_def)
    moreover have "0 \<notin> set (take n as)" using as(2) by (meson in_set_takeD)
    ultimately show ?thesis by (auto simp: takeWhile_append takeWhile_replicate)
  qed
  ultimately have "strncpy (vmem s) buf (pcb_cmdstring p) (of_int (min_int (int nbytes) (int BUF_SIZE))) =
      wr_bytes (vmem s) buf (pad_nul n (take n as))"
    using strncpy_eq [of buf "of_int (min_int (int nbytes) (int BUF_SIZE))" "pcb_cmdstring p" "vmem s"] dj unfolding un by simp
  moreover have "put_vmem (wr_bytes (vmem s) buf (pad_nul n (take n as))) s =
      s\<lparr>phys := wr_bytes (phys s) (user_phys s buf) (pad_nul n (take n as))\<rparr>"
    using buf pl n(2) by (intro put_user ok) simp_all
  moreover have "\<not> sint buf < int nbytes"
  proof -
    define b where "b = unat buf"
    have b: "buf = of_nat b" "0x8000000 \<le> b" "b + nbytes \<le> 0x8400000" using buf by (simp_all add: b_def)
    show ?thesis unfolding b(1) using sint_of_nat_small [of b] b(2,3) by simp
  qed
  ultimately show ?thesis using uok p(1) by (simp add: syscall_getargs_def)
qed

section \<open>Examples\<close>

text \<open>An executable with only a header, whose entry point is \<open>0x8048010\<close>, in a file \<open>shell\<close> in place of the file of the small image.\<close>

definition demo_exe :: "byte list" where
  "demo_exe = [0x7F, 0x45, 0x4C, 0x46] @ replicate 20 0 @ [0x10, 0x80, 0x04, 0x08]"

definition demo_named :: memory where
  "demo_named = demo_fs(0x501000 := 28, 0x500040 := 0x73, 0x500041 := 0x68, 0x500042 := 0x65, 0x500043 := 0x6C, 0x500044 := 0x6C)"

definition demo_prog :: memory where
  "demo_prog = wr_bytes demo_named 0x502000 demo_exe"

definition demo_frame :: load_frame where
  "demo_frame = \<lparr>exec_at = 0x7F0000, args_at = 0x7F0100, buf_at = 0x7F0200, d_at = 0x7F0300, dentry_at = 0x7F0400, file0 = null_FILE\<rparr>"

lemma demo_prog_outside: "unat a < 0x502000 \<Longrightarrow> demo_prog a = demo_named a"
proof -
  assume a: "unat a < 0x502000"
  have "region 0x502000 28 = {b. unat (0x502000 :: u32) \<le> unat b \<and> unat b < unat (0x502000 :: u32) + 28}"
    by (rule region_interval) simp
  then have "a \<notin> region 0x502000 (length demo_exe)" using a by (simp add: demo_exe_def)
  then show ?thesis unfolding demo_prog_def by (rule wr_bytes_outside) (simp add: demo_exe_def)
qed

lemmas prog_eval = fs_layout rd32_def le32_def mem_eval demo_prog_outside demo_named_def demo_fs_def

lemma demo_prog_header:
  "num_dentry demo_prog 0x500000 = 1" "num_inode demo_prog 0x500000 = 1" "num_dblock demo_prog 0x500000 = 1"
  by (simp_all add: prog_eval)

lemma demo_prog_block: "file_len demo_prog 0x500000 0 = 28" "i_datablock_num demo_prog (inode_entry 0x500000 0) 0 = 0"
  by (simp_all add: file_len_def) (simp_all add: prog_eval)

lemmas demo_prog_one = one_file_fs [OF demo_prog_header demo_prog_block(1) _ demo_prog_block(2), simplified]

lemma demo_prog_contents: "file_contents demo_prog 0x500000 0 = demo_exe"
proof -
  have "length demo_exe = 28" by (simp add: demo_exe_def)
  then have "rd_bytes demo_prog 0x502000 28 = demo_exe"
    using rd_wr_bytes_same [of demo_exe demo_named "0x502000"] by (simp add: demo_prog_def)
  then show ?thesis using one_file_fs(3) [OF demo_prog_header demo_prog_block(1) _ demo_prog_block(2)] by simp
qed

lemma demo_prog_entry:
  "entry_called demo_prog 0x500000 (str ''shell'') 0" "entry_type demo_prog 0x500000 0 = FTYPE_REGULAR" "entry_inode demo_prog 0x500000 0 = 0"
  by (simp_all add: entry_called_def entry_type_def entry_inode_def FTYPE_REGULAR_def) (simp_all add: prog_eval str_def)

lemma demo_prog_program: "program_at demo_prog 0x500000 (str ''shell'') demo_exe"
proof -
  have "le32 (take 4 demo_exe) = MAGIC_NUM" by (simp add: demo_exe_def le32_def MAGIC_NUM_def)
  then show ?thesis
    using demo_prog_entry demo_prog_contents by (simp add: program_at_def demo_prog_header load_consts) (simp add: demo_exe_def)
qed

text \<open>A kernel that runs process \<open>n\<close>, with the command line \<open>shell x\<close> in its memory.\<close>

definition demo_shell :: "nat \<Rightarrow> kernel" where
  "demo_shell n = kernel_of n (wr_bytes demo_prog (of_nat (n + 1) * 0x400000) (str ''shell x'' @ [0]))"

lemma user_base: "n \<le> MAX_PID \<Longrightarrow> unat (of_nat (n + 1) * 0x400000 :: u32) = (n + 1) * 4194304"
proof -
  assume n: "n \<le> MAX_PID"
  have "(of_nat (n + 1) * 0x400000 :: u32) = of_nat ((n + 1) * 4194304)" by simp
  then show ?thesis using n unat_of_nat_less [of "(n + 1) * 4194304"] by (simp add: MAX_PID_def del: of_nat_mult)
qed

lemma demo_shell_mounted:
  assumes n: "0 < n" "n \<le> MAX_PID"
  shows "same_fs 0x500000 demo_prog (vmem (demo_shell n))" "fs_mounted (demo_shell n)" "zbigfs_start (demo_shell n) = 0x500000"
proof -
  have "disjoint_regions 0x500000 (fs_size demo_prog 0x500000) (of_nat (n + 1) * 0x400000) (length (str ''shell x'' @ [0]))"
    using user_base [OF n(2)] n by (intro disjoint_regions_intervalI) (simp_all add: demo_prog_one str_def MAX_PID_def del: of_nat_add)
  then have "same_fs 0x500000 demo_prog (wr_bytes demo_prog (of_nat (n + 1) * 0x400000) (str ''shell x'' @ [0]))"
    using disjoint_regions_sym by (intro same_fs_wr_bytes) (auto simp: str_def)
  from kernel_of_mounted [OF n(2) this demo_prog_one(2)]
  show "same_fs 0x500000 demo_prog (vmem (demo_shell n))" "fs_mounted (demo_shell n)"
    by (simp_all add: demo_shell_def demo_prog_one)
  show "zbigfs_start (demo_shell n) = 0x500000" by (simp add: demo_shell_def kernel_of_fields)
qed

lemma kernel_of_wf: "n \<le> MAX_PID \<Longrightarrow> tasks_wf (kernel_of n m)"
proof -
  assume n: "n \<le> MAX_PID"
  have pd: "pd_ready (kernel_of n m) q = pd_ready (tasks n) q" for q
    by (rule pd_ready_cong) (simp_all add: kernel_of_def kernel.defs keyboard.defs terminal.defs tasking.defs)
  have "screen_x (kernel_of n m) = screen_x (tasks n)" "screen_y (kernel_of n m) = screen_y (tasks n)"
    by (simp_all add: kernel_of_def kernel.defs keyboard.defs terminal.defs tasking.defs)
  then show ?thesis
    using tasks_wf_tasks [OF n] kernel_of_ok [OF n, of m]
    by (simp add: tasks_wf_def console_ok_def cursor_ok_def pd kernel_of_fields tasks_fields)
qed

lemma demo_shell_line:
  assumes n: "0 < n" "n \<le> MAX_PID"
  shows "line_at (vmem (demo_shell n)) 0x8000000 (str ''shell x'')" "cstring (vmem (demo_shell n)) 0x8000000 (str ''shell x'')"
proof -
  let ?l = "str ''shell x'' @ [0]" and ?b = "of_nat (n + 1) * 0x400000 :: u32"
  have len: "length ?l = 8" by (simp add: str_def)
  have "rd_bytes (vmem (demo_shell n)) 0x8000000 8 = rd_bytes (wr_bytes demo_prog ?b ?l) ?b 8"
    using kernel_of_user [OF n, of "0x8000000" 8 "wr_bytes demo_prog ?b ?l"] by (simp add: demo_shell_def del: rd_bytes_numeral of_nat_add)
  also have "\<dots> = ?l" using rd_wr_bytes_same [of ?l demo_prog ?b] unfolding len by simp
  finally have "vmem (demo_shell n) 0x8000000 = 0x73" "vmem (demo_shell n) 0x8000001 = 0x68" "vmem (demo_shell n) 0x8000002 = 0x65"
    "vmem (demo_shell n) 0x8000003 = 0x6C" "vmem (demo_shell n) 0x8000004 = 0x6C" "vmem (demo_shell n) 0x8000005 = 0x20"
    "vmem (demo_shell n) 0x8000006 = 0x78" "vmem (demo_shell n) 0x8000007 = 0"
    by (simp_all add: mem_eval str_def)
  then show "line_at (vmem (demo_shell n)) 0x8000000 (str ''shell x'')" "cstring (vmem (demo_shell n)) 0x8000000 (str ''shell x'')"
    by (auto simp: line_at_def str_def less_Suc_eq cstring_Cons cstring_Nil)
qed

lemma demo_frame_ok:
  assumes fs: "same_fs 0x500000 demo_prog (vmem s)" "zbigfs_start s = 0x500000" and p: "p \<le> 4"
  shows "frame_ok s demo_frame p"
proof -
  have cmd: "unat (pcb_cmdstring p) = 8388608 - (p + 1) * 8192 + 8" using p by (simp add: pcb_cmdstring_address MAX_PID_def)
  then have cmd2: "0x7F5000 \<le> unat (pcb_cmdstring p)" "unat (pcb_cmdstring p) + 128 \<le> 8388608" using p by simp_all
  have "klocal s a k" if "0x503000 \<le> unat a" "unat a + k \<le> 8388608" for a k
  proof -
    have "disjoint_regions a k 0x500000 12288" using that by (intro disjoint_regions_intervalI) simp_all
    then show ?thesis using that same_fs_size [OF fs(1) demo_prog_one(2)] by (simp add: klocal_def fs(2) demo_prog_one)
  qed
  moreover have "apart [(0x7F0000, 128), (0x7F0100, 128), (0x7F0200, 28), (0x7F0300, 40), (0x7F0400, 40), (pcb_cmdstring p, 128)]"
    using cmd2 by (auto intro!: disjoint_regions_intervalI)
  ultimately show ?thesis using cmd2 by (simp add: frame_ok_def demo_frame_def Let_def)
qed

text \<open>What the theorems about \<open>execute\<close> ask of the state.\<close>

lemma demo_shell_ready:
  assumes n: "0 < n" "n < 4"
  shows "fs_mounted (demo_shell n)" "tasks_wf (demo_shell n)" "frame_ok (demo_shell n) demo_frame (n + 1)"
    "strlen (vmem (demo_shell n)) 0x8000000 = Some 7" "usr_ptr_ok 0x8000000 7"
    "line_at (vmem (demo_shell n)) 0x8000000 (str ''shell x'')" "length (str ''shell x'') \<le> 127" "str ''shell x'' \<noteq> []"
    "disjoint_regions (exec_at demo_frame) 128 0x8000000 (length (str ''shell x'') + 1)"
    "disjoint_regions (args_at demo_frame) 128 0x8000000 (length (str ''shell x'') + 1)"
    "program_at (vmem (demo_shell n)) (zbigfs_start (demo_shell n)) (word_of (str ''shell x'')) demo_exe"
    "0x8048010 = le32 (take 4 (drop 24 demo_exe))"
    "\<not> present (pcbs (demo_shell n) (n + 1))" "\<forall>j. 0 < j \<and> j < n + 1 \<longrightarrow> present (pcbs (demo_shell n) j)"
    "n = current_process (demo_shell n)"
proof -
  have m: "n \<le> MAX_PID" using n by (simp add: MAX_PID_def)
  note k = demo_shell_mounted [OF n(1) m] demo_shell_line [OF n(1) m]
  show "fs_mounted (demo_shell n)" "line_at (vmem (demo_shell n)) 0x8000000 (str ''shell x'')" using k by simp_all
  show "tasks_wf (demo_shell n)" using m by (simp add: demo_shell_def kernel_of_wf)
  show "frame_ok (demo_shell n) demo_frame (n + 1)" using n k by (intro demo_frame_ok) simp_all
  show "strlen (vmem (demo_shell n)) 0x8000000 = Some 7" using strlen_cstring [OF k(5)] by (simp add: str_def)
  show "usr_ptr_ok 0x8000000 7" by (simp add: usr_ptr_ok_unat)
  show "length (str ''shell x'') \<le> 127" "str ''shell x'' \<noteq> []" "0x8048010 = le32 (take 4 (drop 24 demo_exe))"
    by (simp_all add: str_def demo_exe_def le32_def)
  show "disjoint_regions (exec_at demo_frame) 128 0x8000000 (length (str ''shell x'') + 1)"
    "disjoint_regions (args_at demo_frame) 128 0x8000000 (length (str ''shell x'') + 1)"
    by (rule disjoint_regions_intervalI; simp add: demo_frame_def str_def)+
  have "word_of (str ''shell x'') = str ''shell''" by (simp add: word_of_def str_def)
  then show "program_at (vmem (demo_shell n)) (zbigfs_start (demo_shell n)) (word_of (str ''shell x'')) demo_exe"
    using program_at_same [OF k(1) demo_prog_one(2) demo_prog_program] k(3) by simp
  show "\<not> present (pcbs (demo_shell n) (n + 1))" "\<forall>j. 0 < j \<and> j < n + 1 \<longrightarrow> present (pcbs (demo_shell n) j)"
    "n = current_process (demo_shell n)"
    by (simp_all add: demo_shell_def kernel_of_fields tasks_present)
qed

theorem execute_starts_program_witness:
  "\<exists>s'. execute idle_world demo_frame 0x7FBF00 0x8000000 (demo_shell 1) = Some (s', Enter 0x8048010) \<and> current_process s' = 2 \<and>
     rd_bytes (vmem s') LOAD_ADDR (length demo_exe) = demo_exe \<and> rd_bytes (vmem s') (pcb_cmdstring 2) 128 = pad_nul 128 [0x78]"
proof -
  have n: "0 < (1 :: nat)" "1 < (4 :: nat)" by simp_all
  note r = demo_shell_ready [OF n, unfolded one_add_one]
  have a: "args_of (str ''shell x'') = [0x78]" by (simp add: args_of_def str_def)
  show ?thesis
    using execute_starts_program [OF r(1-12) _ _ _ _ r(13-15), of idle_world "0x7FBF00"] a by (force simp: MAX_PID_def)
qed


end
