(* ===== verification/Programs.thy ===== *)
theory Programs
  imports User_Lib Sys_Exec Term_Output "HOL-Library.Monad_Syntax"
begin

text \<open>
  The user programs \<^verbatim>\<open>ece391cat.c\<close>, \<^verbatim>\<open>ece391ls.c\<close>, \<^verbatim>\<open>ece391hello.c\<close>, \<^verbatim>\<open>ece391counter.c\<close>,
  \<^verbatim>\<open>ece391testprint.c\<close> and \<^verbatim>\<open>ece391shell.c\<close> running on the kernel: their system calls are those of
  \<open>Syscalls\<close>, and they read and write their memory through the same view. \<open>l\<close> gives the address of a
  string literal, \<open>buf\<close> is the local buffer, \<open>de\<close> the address of the directory entry on the kernel
  stack during a call. \<open>None\<close> is a run that does not end.
\<close>

section \<open>Memory and calls\<close>

definition ustore :: "u32 \<Rightarrow> byte \<Rightarrow> 'a kernel_scheme \<Rightarrow> 'a kernel_scheme" where
  "ustore a b s = put_vmem ((vmem s)(a := b)) s"

definition ece391_fdputs :: "world \<Rightarrow> int \<Rightarrow> u32 \<Rightarrow> 'a kernel_scheme \<Rightarrow> 'a kernel_scheme option" where
  "ece391_fdputs w fd a s =
     (case ece391_strlen (vmem s) a of None \<Rightarrow> None | Some n \<Rightarrow> Some (fst (sys_write w fd a n s)))"

definition ece391_open :: "world \<Rightarrow> u32 \<Rightarrow> u32 \<Rightarrow> 'a kernel_scheme \<Rightarrow> ('a kernel_scheme \<times> int) option" where
  "ece391_open w de name s = syscall_open (dev w) de name s"

text \<open>A message on standard output followed by a return code.\<close>

definition fail_with :: "world \<Rightarrow> (byte list \<Rightarrow> u32) \<Rightarrow> byte list \<Rightarrow> int \<Rightarrow> 'a kernel_scheme \<Rightarrow> ('a kernel_scheme \<times> int) option" where
  "fail_with w l msg r s = map_option (\<lambda>s. (s, r)) (ece391_fdputs w 1 (l msg) s)"

section \<open>cat\<close>

partial_function (option) cat_loop ::
  "world \<Rightarrow> u32 \<Rightarrow> (byte list \<Rightarrow> u32) \<Rightarrow> u32 \<Rightarrow> int \<Rightarrow> 'a kernel_scheme \<Rightarrow> ('a kernel_scheme \<times> int) option" where
  "cat_loop w de l buf fd s = do {
     (s, cnt) \<leftarrow> sys_read w de fd buf 1024 s;
     if cnt = 0 then Some (s, 0)
     else if cnt = - 1 then fail_with w l (str ''file read failed'' @ [10]) 3 s
     else
       (let (s, r) = sys_write w 1 buf (of_int cnt) s in
        if r = - 1 then Some (s, 3) else cat_loop w de l buf fd s)
   }"

definition cat_main ::
  "world \<Rightarrow> u32 \<Rightarrow> (byte list \<Rightarrow> u32) \<Rightarrow> u32 \<Rightarrow> 'a kernel_scheme \<Rightarrow> ('a kernel_scheme \<times> int) option" where
  "cat_main w de l buf s =
     (let (s, r) = syscall_getargs buf 1024 s in
      if r \<noteq> 0 then fail_with w l (str ''could not read arguments'' @ [10]) 3 s
      else do {
        (s, fd) \<leftarrow> ece391_open w de buf s;
        if fd = - 1 then fail_with w l (str ''file not found'' @ [10]) 2 s
        else cat_loop w de l buf fd s
      })"

section \<open>ls\<close>

definition SBUFSIZE :: int where "SBUFSIZE = 33"

partial_function (option) ls_loop ::
  "world \<Rightarrow> u32 \<Rightarrow> (byte list \<Rightarrow> u32) \<Rightarrow> u32 \<Rightarrow> int \<Rightarrow> 'a kernel_scheme \<Rightarrow> ('a kernel_scheme \<times> int) option" where
  "ls_loop w de l buf fd s = do {
     (s, cnt) \<leftarrow> sys_read w de fd buf (of_int (SBUFSIZE - 1)) s;
     if cnt = 0 then Some (s, 0)
     else if cnt = - 1 then fail_with w l (str ''directory entry read failed'' @ [10]) 3 s
     else
       (let s = ustore (buf + of_int cnt) 10 s;
            (s, r) = sys_write w 1 buf (of_int (cnt + 1)) s in
        if r = - 1 then Some (s, 3) else ls_loop w de l buf fd s)
   }"

definition ls_main ::
  "world \<Rightarrow> u32 \<Rightarrow> (byte list \<Rightarrow> u32) \<Rightarrow> u32 \<Rightarrow> 'a kernel_scheme \<Rightarrow> ('a kernel_scheme \<times> int) option" where
  "ls_main w de l buf s = do {
     (s, fd) \<leftarrow> ece391_open w de (l (str ''.'')) s;
     if fd = - 1 then fail_with w l (str ''directory open failed'' @ [10]) 2 s
     else ls_loop w de l buf fd s
   }"

section \<open>hello and testprint\<close>

definition hello_main ::
  "world \<Rightarrow> u32 \<Rightarrow> (byte list \<Rightarrow> u32) \<Rightarrow> u32 \<Rightarrow> 'a kernel_scheme \<Rightarrow> ('a kernel_scheme \<times> int) option" where
  "hello_main w de l buf s = do {
     s \<leftarrow> ece391_fdputs w 1 (l (str ''Hi, what'' @ [0x27] @ str ''s your name? '')) s;
     (s, cnt) \<leftarrow> sys_read w de 0 buf 1023 s;
     if cnt = - 1 then fail_with w l (str ''Can'' @ [0x27] @ str ''t read name from keyboard.'' @ [10]) 3 s
     else do {
       let s = ustore (buf + of_int cnt) 0 s;
       s \<leftarrow> ece391_fdputs w 1 (l (str ''Hello, '')) s;
       s \<leftarrow> ece391_fdputs w 1 buf s;
       Some (s, 0)
     }
   }"

definition testprint_main :: "world \<Rightarrow> (byte list \<Rightarrow> u32) \<Rightarrow> 'a kernel_scheme \<Rightarrow> ('a kernel_scheme \<times> int) option" where
  "testprint_main w l s = fail_with w l (str ''Hello, if this ran, the program was correct. Yay!'' @ [10]) 0 s"

section \<open>counter\<close>

definition counter_max :: "byte \<Rightarrow> u32" where
  "counter_max c = (if c = 0x30 then 100 else if c = 0x31 then 10000 else if c = 0x32 then 100000 else 0)"

definition count_line :: "world \<Rightarrow> (byte list \<Rightarrow> u32) \<Rightarrow> u32 \<Rightarrow> u32 \<Rightarrow> 'a kernel_scheme \<Rightarrow> 'a kernel_scheme option" where
  "count_line w l buf i s = do {
     m \<leftarrow> ece391_itoa (vmem s) (i + 1) buf 10;
     s \<leftarrow> ece391_fdputs w 1 buf (put_vmem m s);
     ece391_fdputs w 1 (l [10]) s
   }"

partial_function (option) count_loop ::
  "world \<Rightarrow> (byte list \<Rightarrow> u32) \<Rightarrow> u32 \<Rightarrow> u32 \<Rightarrow> u32 \<Rightarrow> 'a kernel_scheme \<Rightarrow> 'a kernel_scheme option" where
  "count_loop w l buf i mx s =
     (if i < mx then do { s \<leftarrow> count_line w l buf i s; count_loop w l buf (i + 1) mx s } else Some s)"

definition counter_main ::
  "world \<Rightarrow> u32 \<Rightarrow> (byte list \<Rightarrow> u32) \<Rightarrow> u32 \<Rightarrow> 'a kernel_scheme \<Rightarrow> ('a kernel_scheme \<times> int) option" where
  "counter_main w de l buf s = do {
     s \<leftarrow> ece391_fdputs w 1 (l (str ''Enter the Test Number: (0): 100, (1): 10000, (2): 100000'' @ [10])) s;
     (s, cnt) \<leftarrow> sys_read w de 0 buf 1023 s;
     if cnt = - 1 then fail_with w l (str ''Can'' @ [0x27] @ str ''t read the number from keyboard.'' @ [10]) 3 s
     else do {
       let s = ustore (buf + of_int cnt) 0 s;
       n \<leftarrow> ece391_strlen (vmem s) buf;
       if 1 < n \<or> n = 1 \<and> (vmem s buf < 0x30 \<or> 0x32 < vmem s buf)
       then fail_with w l (str ''Wrong Choice!'' @ [10]) 0 s
       else do {
         s \<leftarrow> count_loop w l buf 0 (counter_max (vmem s buf)) s;
         Some (s, 0)
       }
     }
   }"

section \<open>shell\<close>

text \<open>
  One turn of the loop for each input \<open>w\<close>. \<open>run\<close> is what happens between the entry of the started
  program and the return of the \<open>execute\<close> call: it gives the state and the exit code.
\<close>

datatype turn = Goes_on | Exits int

definition shell_report :: "world \<Rightarrow> (byte list \<Rightarrow> u32) \<Rightarrow> u32 \<Rightarrow> 'a kernel_scheme \<Rightarrow> 'a kernel_scheme option" where
  "shell_report w l rval s =
     (if rval = - 1 then ece391_fdputs w 1 (l (str ''no such command'' @ [10])) s
      else if rval = 256 then ece391_fdputs w 1 (l (str ''program terminated by exception'' @ [10])) s
      else if rval \<noteq> 0 then ece391_fdputs w 1 (l (str ''program terminated abnormally'' @ [10])) s
      else Some s)"

definition ece391_execute ::
  "(u32 \<Rightarrow> 'a kernel_scheme \<Rightarrow> ('a kernel_scheme \<times> u32) option) \<Rightarrow> world \<Rightarrow> load_frame \<Rightarrow> u32 \<Rightarrow> u32 \<Rightarrow> 'a kernel_scheme \<Rightarrow>
   ('a kernel_scheme \<times> u32) option" where
  "ece391_execute run w fr sp cmd s = do {
     (s, r) \<leftarrow> execute w fr sp cmd s;
     (case r of Exec_fail \<Rightarrow> Some (s, - 1) | Enter entry \<Rightarrow> run entry s)
   }"

definition shell_turn ::
  "(u32 \<Rightarrow> 'a kernel_scheme \<Rightarrow> ('a kernel_scheme \<times> u32) option) \<Rightarrow> world \<Rightarrow> u32 \<Rightarrow> load_frame \<Rightarrow> u32 \<Rightarrow> (byte list \<Rightarrow> u32) \<Rightarrow> u32 \<Rightarrow>
   'a kernel_scheme \<Rightarrow> ('a kernel_scheme \<times> turn) option" where
  "shell_turn run w de fr sp l buf s = do {
     s \<leftarrow> ece391_fdputs w 1 (l (str ''391OS> '')) s;
     (s, cnt) \<leftarrow> sys_read w de 0 buf 1023 s;
     if cnt = - 1
     then map_option (\<lambda>s. (s, Exits 3)) (ece391_fdputs w 1 (l (str ''read from keyboard failed'' @ [10])) s)
     else do {
       let cnt = (if 0 < cnt \<and> vmem s (buf + of_int (cnt - 1)) = 10 then cnt - 1 else cnt);
       let s = ustore (buf + of_int cnt) 0 s;
       c \<leftarrow> ece391_strcmp (vmem s) buf (l (str ''exit''));
       if c = 0 then Some (s, Exits 0)
       else if vmem s buf = 0 then Some (s, Goes_on)
       else do {
         (s, rval) \<leftarrow> ece391_execute run w fr sp buf s;
         s \<leftarrow> shell_report w l rval s;
         Some (s, Goes_on)
       }
     }
   }"

fun shell_loop ::
  "(u32 \<Rightarrow> 'a kernel_scheme \<Rightarrow> ('a kernel_scheme \<times> u32) option) \<Rightarrow> world list \<Rightarrow> u32 \<Rightarrow> load_frame \<Rightarrow> u32 \<Rightarrow> (byte list \<Rightarrow> u32) \<Rightarrow> u32 \<Rightarrow>
   'a kernel_scheme \<Rightarrow> ('a kernel_scheme \<times> turn) option" where
  "shell_loop run [] de fr sp l buf s = Some (s, Goes_on)"
| "shell_loop run (w # ws) de fr sp l buf s = do {
     (s, t) \<leftarrow> shell_turn run w de fr sp l buf s;
     (case t of Goes_on \<Rightarrow> shell_loop run ws de fr sp l buf s | Exits r \<Rightarrow> Some (s, Exits r))
   }"

definition shell_main ::
  "(u32 \<Rightarrow> 'a kernel_scheme \<Rightarrow> ('a kernel_scheme \<times> u32) option) \<Rightarrow> world list \<Rightarrow> world \<Rightarrow> u32 \<Rightarrow> load_frame \<Rightarrow> u32 \<Rightarrow> (byte list \<Rightarrow> u32) \<Rightarrow> u32 \<Rightarrow>
   'a kernel_scheme \<Rightarrow> ('a kernel_scheme \<times> turn) option" where
  "shell_main run ws w de fr sp l buf s = do {
     s \<leftarrow> ece391_fdputs w 1 (l (str ''Starting 391 Shell'' @ [10])) s;
     shell_loop run ws de fr sp l buf s
   }"

section \<open>Output of a program\<close>

text \<open>
  A running program with standard output, on a terminal with room for \<open>n\<close> more characters; and the
  effect of printing a text.
\<close>

definition prog_ok :: "nat \<Rightarrow> 'a kernel_scheme \<Rightarrow> bool" where
  "prog_ok n s \<longleftrightarrow> fs_mounted s \<and> cr3 s \<noteq> 0 \<and> out_ok n s \<and> get_file 1 s = Some 1 \<and> optable (cur_files s 1) = Ops_stdout"

definition outputs :: "'a kernel_scheme \<Rightarrow> byte list \<Rightarrow> 'a kernel_scheme \<Rightarrow> bool" where
  "outputs s xs s' \<longleftrightarrow> fault s' = fault s \<and> current_active_process s' = current_active_process s \<and>
     current_terminal s' = current_terminal s \<and>
     text_view (current_active_process s) s' =
       fold (printc s (attribs (current_active_process s))) xs (text_view (current_active_process s) s) \<and>
     (\<forall>u < 3. u \<noteq> current_active_process s \<longrightarrow> text_view u s' = text_view u s)"

lemma outputs_refl [simp]: "outputs s [] s"
  by (simp add: outputs_def)

lemma outputs_trans: "outputs s xs t \<Longrightarrow> outputs t ys u \<Longrightarrow> outputs s (xs @ ys) u"
  by (simp add: outputs_def printc_def)

text \<open>Memory outside the video pages does not show.\<close>

lemma outputs_phys:
  assumes "\<And>a. a \<in> video_frames \<Longrightarrow> m a = phys s a" and "current_terminal s < 3" and "current_active_process s < 3"
  shows "outputs s [] (s\<lparr>phys := m\<rparr>)"
proof -
  have "text_view u (s\<lparr>phys := m\<rparr>) = text_view u s" if "u < 3" for u
  proof -
    define v where "v = (if current_terminal s = u then 3 else u)"
    have v: "v < 4" "screen_frame s u = vid_frame v" using that by (auto simp: screen_frame_def v_def)
    have "cells m (vid_frame v) = cells (phys s) (vid_frame v)"
      using assms(1) v(1) by (intro cells_cong) (auto simp: video_frames_def)
    then show ?thesis using v(2) by (simp add: text_view_def screen_frame_def)
  qed
  then show ?thesis using assms(3) by (simp add: outputs_def)
qed

lemma output_frame:
  fixes s s' :: "'a kernel_scheme"
  assumes "rest (s'\<lparr>write_x := write_x s\<rparr>) = rest s"
  shows "cur_files s' = cur_files s" "get_file fd s' = get_file fd s" "zbigfs_start s' = zbigfs_start s" "cr3 s' = cr3 s"
    "paging_ok s' = paging_ok s" "user_phys s' = user_phys s" "current_terminal s' = current_terminal s"
    "current_active_process s' = current_active_process s"
proof -
  note r = restD [OF assms] rest_tasking [OF assms]
  show "cur_files s' = cur_files s" "get_file fd s' = get_file fd s"
    using r by (simp_all add: cur_files_def get_current_pcb_def get_file_def)
  have "tasking.more s' = tasking.more s" using r(18) by simp
  then show "zbigfs_start s' = zbigfs_start s" by (cases s; cases s') simp
  show "paging_ok s' = paging_ok s" using r by (intro paging_ok_cong) simp_all
  show "cr3 s' = cr3 s" "user_phys s' = user_phys s" "current_terminal s' = current_terminal s"
    "current_active_process s' = current_active_process s" using r by (simp_all add: user_phys_def fun_eq_iff)
qed

lemma user_phys_frame:
  assumes "paging_ok s" and "cr3 s \<noteq> 0" and "0x8000000 \<le> unat v" and "unat v + n \<le> 0x8400000" and "i < n"
  shows "user_phys s v + of_nat i \<notin> video_frames" and "translate s False False (v + of_nat i) = Some (user_phys s v + of_nat i)"
proof -
  have p10: "cr3 s \<le> 10" using assms(1) by (simp add: paging_ok_def pd_ready_def paging_consts)
  have "user_phys s v + of_nat i \<in> region (user_phys s v) n" using assms(4,5) by (intro add_in_region) simp_all
  then show "user_phys s v + of_nat i \<notin> video_frames" using user_region(1) [OF assms(1-4)] user_frame_video [OF p10] by blast
  show "translate s False False (v + of_nat i) = Some (user_phys s v + of_nat i)"
    using translate_vaddr [OF assms(1)] mapped_user [OF assms(1-4)] assms(5) by (simp add: mapped_run_def)
qed

lemma user_stable:
  assumes "paging_ok s" and "cr3 s \<noteq> 0" and "0x8000000 \<le> unat v" and "unat v + n \<le> 0x8400000"
  shows "stable_run s v n"
  using user_phys_frame [OF assms] by (auto simp: stable_run_def)

lemma kept_outside_video:
  assumes "fs_mounted s" and "rest (s'\<lparr>write_x := write_x s\<rparr>) = rest s" and "\<forall>a. a \<notin> video_frames \<longrightarrow> phys s' a = phys s a"
  shows "fs_kept s s'"
proof -
  note f = output_frame [OF assms(2)]
  have ok: "paging_ok s'" using assms(1) f by (simp add: fs_mounted_def)
  have r: "region (zbigfs_start s) (fs_size (vmem s) (zbigfs_start s)) \<subseteq> kernel_frame"
    using assms(1) region_interval [of "zbigfs_start s" "fs_size (vmem s) (zbigfs_start s)"]
    by (auto simp: fs_mounted_def kernel_frame_interval)
  have same: "same_fs (zbigfs_start s) (vmem s) (vmem s')"
    using r kernel_frame_video assms(3) by (intro fs_untouched [OF assms(1) ok]) blast
  show ?thesis using mounted_same_fs [OF assms(1) ok f(3) same] assms(1) same f(3) by (simp add: fs_kept_def)
qed

lemma sys_write_stdout:
  assumes ok: "prog_ok (n + k) s" and buf: "0x8000000 \<le> unat buf" "unat buf + n \<le> 0x8400000"
  obtains s' where "sys_write w 1 buf (of_nat n) s = (s', int n)" "outputs s (rd_bytes (vmem s) buf n) s'" "prog_ok k s'"
    "fs_kept s s'" "rest (s'\<lparr>write_x := write_x s\<rparr>) = rest s" "\<forall>a. a \<notin> video_frames \<longrightarrow> phys s' a = phys s a"
proof -
  have o: "fs_mounted s" "paging_ok s" "cr3 s \<noteq> 0" "out_ok (n + k) s" "get_file 1 s = Some 1" "optable (cur_files s 1) = Ops_stdout"
    using ok by (simp_all add: prog_ok_def fs_mounted_def)
  have n: "unat (of_nat n :: u32) = n" "sint (of_nat n :: u32) = int n" using buf sint_u32 [of n] by (simp_all add: unat_of_nat_less)
  have st: "stable_run s buf (nat (int n))" using user_stable [OF o(2,3) buf] by simp
  have on: "out_ok (nat (int n) + k) s" using o(4) by simp
  obtain s' where s': "term_write buf (int n) s = (s', int n)" "fault s' = fault s"
    "text_view (current_active_process s) s' =
      fold (printc s (attribs (current_active_process s))) (rd_bytes (vmem s) buf n) (text_view (current_active_process s) s)"
    "\<forall>u < 3. u \<noteq> current_active_process s \<longrightarrow> text_view u s' = text_view u s"
    "out_ok k s'" "\<forall>a. a \<notin> video_frames \<longrightarrow> phys s' a = phys s a" "rest (s'\<lparr>write_x := write_x s\<rparr>) = rest s"
    by (rule term_write_eq [OF on _ st refl]) simp_all
  note f = output_frame [OF s'(7)]
  have kept: "fs_kept s s'" by (rule kept_outside_video [OF o(1) s'(7,6)])
  have "usr_ptr_ok buf (of_nat n)" unfolding usr_ptr_ok_unat n(1) using buf by simp
  then have "sys_write w 1 buf (of_nat n) s = (s', int n)" using o(5,6) s'(1) n(2) by (simp add: sys_write_def kwrite_def)
  moreover have "outputs s (rd_bytes (vmem s) buf n) s'" using s' f by (simp add: outputs_def)
  moreover have "prog_ok k s'" using o s'(5) f fs_keptD(1) [OF kept] by (simp add: prog_ok_def)
  ultimately show thesis using that kept s'(6,7) by blast
qed

text \<open>What a program does to its own memory and to its other descriptors does not show either.\<close>

lemma prog_set_file: "k \<noteq> 1 \<Longrightarrow> prog_ok n (set_file k f s) = prog_ok n s" "outputs s [] (set_file k f s)"
proof -
  have e: "get_file 1 (set_file k f s) = get_file 1 s" if "k \<noteq> 1" using that by (simp add: get_file_def)
  have "paging_ok (set_file k f s) = paging_ok s" by simp
  then have "out_ok n (set_file k f s) = out_ok n s"
    by (simp add: out_ok_def console_ok_def cursor_ok_def vmem_ok_def screen_frame_def set_file_def set_pcb_def)
  note e = e this
  show "k \<noteq> 1 \<Longrightarrow> prog_ok n (set_file k f s) = prog_ok n s" using e by (simp add: prog_ok_def)
  show "outputs s [] (set_file k f s)" by (simp add: outputs_def text_view_def screen_frame_def set_file_def set_pcb_def)
qed

lemma prog_phys:
  assumes "prog_ok n s" and "fs_mounted (s\<lparr>phys := m\<rparr>)" and "\<And>a. a \<in> video_frames \<Longrightarrow> m a = phys s a"
  shows "prog_ok n (s\<lparr>phys := m\<rparr>)" "outputs s [] (s\<lparr>phys := m\<rparr>)"
proof -
  have o: "out_ok n s" using assms(1) by (simp add: prog_ok_def)
  then have "current_terminal s < 3" "current_active_process s < 3" by (simp_all add: out_ok_def console_ok_def vmem_ok_def)
  then show "outputs s [] (s\<lparr>phys := m\<rparr>)" using assms(3) by (intro outputs_phys)
  show "prog_ok n (s\<lparr>phys := m\<rparr>)"
    using assms(1,2) by (simp add: prog_ok_def out_ok_def console_ok_def cursor_ok_def vmem_ok_def screen_frame_def
      cur_files_rest [OF rest_phys])
qed

lemma user_write_quiet:
  assumes ok: "prog_ok n s" and buf: "0x8000000 \<le> unat buf" "unat buf + length xs \<le> 0x8400000"
    and s': "s' = s\<lparr>phys := wr_bytes (phys s) (user_phys s buf) xs\<rparr>"
  shows "prog_ok n s'" "outputs s [] s'" "fs_kept s s'"
proof -
  have o: "fs_mounted s" "paging_ok s" "cr3 s \<noteq> 0" using ok by (simp_all add: prog_ok_def fs_mounted_def)
  have p10: "cr3 s \<le> 10" using o(2) by (simp add: paging_ok_def pd_ready_def paging_consts)
  have "wr_bytes (phys s) (user_phys s buf) xs a = phys s a" if "a \<in> video_frames" for a
    using that buf user_region(1) [OF o(2,3) buf] user_frame_video [OF p10] by (intro wr_bytes_outside) auto
  moreover show k: "fs_kept s s'" unfolding s' by (rule user_kept [OF o(1,3) buf])
  ultimately show "prog_ok n s'" "outputs s [] s'"
    using prog_phys [OF ok, of "wr_bytes (phys s) (user_phys s buf) xs"] fs_keptD(1) [OF k] by (simp_all add: s')
qed

section \<open>cat prints the file\<close>

text \<open>Output does not disturb a reader.\<close>

lemma readable_kept:
  assumes "sys_readable fd buf nb s" and "fs_kept s s'" and "rest (s'\<lparr>write_x := write_x s\<rparr>) = rest s"
  shows "sys_readable fd buf nb s'" "sys_rest fd s' = sys_rest fd s"
proof -
  note f = output_frame [OF assms(3)]
  have k: "same_fs (zbigfs_start s) (vmem s) (vmem s')" "wf_fs (vmem s) (zbigfs_start s)"
    "inode (cur_files s (nat fd)) < num_inode (vmem s) (zbigfs_start s)"
    using assms(1,2) by (simp_all add: fs_kept_def sys_readable_def readable_def)
  show "sys_readable fd buf nb s'" "sys_rest fd s' = sys_rest fd s"
    using assms(1) fs_keptD(1) [OF assms(2)] f readable_same_fs [OF k] by (simp_all add: sys_readable_def sys_rest_def)
qed

lemma sys_read_quiet:
  assumes "sys_readable fd buf nb s" and "2 \<le> fd" and "prog_ok n s" and xs: "xs = take (unat nb) (sys_rest fd s)"
  obtains s' where "sys_read w de fd buf nb s = Some (s', int (length xs))" "rd_bytes (vmem s') buf (length xs) = xs"
    "sys_readable fd buf nb s'" "sys_rest fd s = xs @ sys_rest fd s'" "prog_ok n s'" "outputs s [] s'"
proof -
  define f' where "f' = (cur_files s (nat fd))\<lparr>pos := pos (cur_files s (nat fd)) + of_nat (length xs)\<rparr>"
  define u where "u = s\<lparr>phys := wr_bytes (phys s) (user_phys s buf) xs\<rparr>"
  note r = sys_read_regular [OF assms(1) xs f'_def refl, folded u_def]
  have "0x8000000 \<le> unat buf" "unat buf + length xs \<le> 0x8400000" using assms(1) xs by (auto simp: sys_readable_def)
  note q = user_write_quiet [OF assms(3) this u_def]
  have "prog_ok n (set_file (nat fd) f' u)" using q(1) prog_set_file(1) [of "nat fd" n f' u] assms(2) by simp
  moreover have "outputs s [] (set_file (nat fd) f' u)" using outputs_trans [OF q(2) prog_set_file(2) [of u "nat fd" f']] by simp
  ultimately show thesis using that r by blast
qed

lemma cat_loop_eq:
  assumes "sys_readable fd buf 1024 s" and "2 \<le> fd" and "prog_ok (length (sys_rest fd s)) s"
  shows "\<exists>s'. cat_loop w de l buf fd s = Some (s', 0) \<and> outputs s (sys_rest fd s) s' \<and> prog_ok 0 s'"
  using assms(1,3)
proof (induction "length (sys_rest fd s)" arbitrary: s rule: less_induct)
  case less
  define xs where "xs = take (unat (1024 :: u32)) (sys_rest fd s)"
  obtain s1 where s1: "sys_read w de fd buf 1024 s = Some (s1, int (length xs))" "rd_bytes (vmem s1) buf (length xs) = xs"
    "sys_readable fd buf 1024 s1" "sys_rest fd s = xs @ sys_rest fd s1" "prog_ok (length (sys_rest fd s)) s1" "outputs s [] s1"
    by (rule sys_read_quiet [OF less.prems(1) assms(2) less.prems(2) xs_def])
  show ?case
  proof (cases "xs = []")
    case True
    then have "sys_rest fd s = []" by (simp add: xs_def)
    then show ?thesis using True s1 by (subst cat_loop.simps) simp
  next
    case False
    have o: "prog_ok (length xs + length (sys_rest fd s1)) s1" using s1(4,5) by simp
    have b: "0x8000000 \<le> unat buf" "unat buf + length xs \<le> 0x8400000" using less.prems(1) by (auto simp: sys_readable_def xs_def)
    obtain s2 where s2: "sys_write w 1 buf (of_nat (length xs)) s1 = (s2, int (length xs))" "outputs s1 xs s2"
      "prog_ok (length (sys_rest fd s1)) s2" "fs_kept s1 s2" "rest (s2\<lparr>write_x := write_x s1\<rparr>) = rest s1"
      by (rule sys_write_stdout [OF o b]) (simp add: s1(2))
    note r2 = readable_kept [OF s1(3) s2(4,5)]
    have "length (sys_rest fd s2) < length (sys_rest fd s)" using s1(4) r2(2) False by simp
    from less.hyps [OF this r2(1)] obtain s' where s': "cat_loop w de l buf fd s2 = Some (s', 0)" "outputs s2 (sys_rest fd s1) s'" "prog_ok 0 s'"
      using s2(3) r2(2) by auto
    have "outputs s (sys_rest fd s) s'" using outputs_trans [OF outputs_trans [OF s1(6) s2(2)] s'(2)] s1(4) by simp
    then show ?thesis using s1(1) s2(1) s' False by (subst cat_loop.simps) simp
  qed
qed

lemma getargs_view:
  assumes ok: "paging_ok s" "cr3 s \<noteq> 0" and xs: "length xs = n" and buf: "0x8000000 \<le> unat buf" "unat buf + n \<le> 0x8400000"
  shows "rd_bytes (vmem (s\<lparr>phys := wr_bytes (phys s) (user_phys s buf) xs\<rparr>)) buf n = xs"
    and "a \<notin> user_frame (cr3 s) \<Longrightarrow> wr_bytes (phys s) (user_phys s buf) xs a = phys s a"
proof -
  let ?u = "s\<lparr>phys := wr_bytes (phys s) (user_phys s buf) xs\<rparr>"
  have u: "paging_ok ?u" "cr3 ?u \<noteq> 0" "user_phys ?u = user_phys s" "n \<le> 2 ^ 32"
    using ok buf by (simp_all add: user_phys_def fun_eq_iff)
  have "rd_bytes (vmem ?u) buf n = rd_bytes (phys ?u) (user_phys s buf) n"
    using rd_vmem [OF u(1) mapped_user [OF u(1,2) buf]] u(3) by simp
  then show "rd_bytes (vmem ?u) buf n = xs" using rd_wr_bytes_same [of xs "phys s" "user_phys s buf"] xs u(4) by simp
  show "wr_bytes (phys s) (user_phys s buf) xs a = phys s a" if "a \<notin> user_frame (cr3 s)"
    using that user_region(1) [OF ok buf] xs u(4) by (intro wr_bytes_outside) auto
qed

text \<open>The contents of the first regular file with a name.\<close>

definition file_called :: "memory \<Rightarrow> u32 \<Rightarrow> byte list \<Rightarrow> byte list \<Rightarrow> bool" where
  "file_called m zb nm c \<longleftrightarrow>
     (case find (entry_called m zb nm) [0..<unat (num_dentry m zb)] of
        None \<Rightarrow> False
      | Some e \<Rightarrow> entry_type m zb e = FTYPE_REGULAR \<and> entry_inode m zb e < num_inode m zb \<and>
          c = file_contents m zb (entry_inode m zb e))"

lemma file_called_same:
  assumes k: "same_fs zb m m'" "wf_fs m zb" and c: "file_called m zb nm c"
  shows "file_called m' zb nm c"
proof -
  have f: "find (entry_called m' zb nm) [0..<unat (num_dentry m' zb)] = find (entry_called m zb nm) [0..<unat (num_dentry m zb)]"
    using same_fs_entry(3) [OF k] same_fs_header [OF k] by (intro find_cong) (auto simp: entry_called_def simp del: rd_bytes.simps)
  obtain e where e: "find (entry_called m zb nm) [0..<unat (num_dentry m zb)] = Some e"
    using c by (auto simp: file_called_def split: option.splits)
  then have "e < unat (num_dentry m zb)" by (auto simp: find_Some_iff)
  then show ?thesis
    using c same_fs_entry(1,2) [OF k] same_fs_header(2) [OF k] same_fs_file_contents [OF k] unfolding file_called_def f e by auto
qed

text \<open>Opening a file changes one descriptor and a local variable of the kernel.\<close>

lemma open_quiet:
  assumes ok: "prog_ok n s" and de: "klocal s de 40" and k: "2 \<le> k" and E: "length E \<le> 40"
    and s': "s' = set_file k h ((set_file k g s)\<lparr>phys := wr_bytes (phys s) de E\<rparr>)"
  shows "prog_ok n s'" "outputs s [] s'" "fs_kept s s'" "cr3 s' = cr3 s" "\<And>b. b \<notin> kernel_frame \<Longrightarrow> phys s' b = phys s b"
proof -
  have o: "fs_mounted s" using ok by (simp add: prog_ok_def)
  define u where "u = set_file k g s"
  define v where "v = u\<lparr>phys := wr_bytes (phys u) de E\<rparr>"
  have ku: "prog_ok n u" "fs_mounted u" "klocal u de 40" "outputs s [] u"
    using ok o de k prog_set_file(1) [of k n g s] prog_set_file(2) [of s k g] by (simp_all add: u_def)
  have b: "wr_bytes (phys u) de E b = phys u b" if "b \<notin> kernel_frame" for b using local_outside [OF ku(3) E that] .
  have kept: "fs_kept u v" using local_write(2) [OF ku(2,3) E] by (simp add: v_def)
  have "wr_bytes (phys u) de E b = phys u b" if "b \<in> video_frames" for b using that b kernel_frame_video by blast
  then have v: "prog_ok n v" "outputs u [] v" using prog_phys [OF ku(1)] fs_keptD(1) [OF kept] by (simp_all add: v_def)
  have e: "s' = set_file k h v" by (simp add: s' v_def u_def)
  show "prog_ok n s'" "outputs s [] s'"
    using v k prog_set_file(1) [of k n h v] outputs_trans [OF outputs_trans [OF ku(4) v(2)] prog_set_file(2) [of v k h]] by (simp_all add: e)
  have "fs_mounted s'" using fs_keptD(1) [OF kept] by (simp add: e)
  then show "fs_kept s s'" using kept o by (simp add: fs_kept_def e u_def v_def)
  show "cr3 s' = cr3 s" by (simp add: e v_def u_def)
  show "phys s' b = phys s b" if "b \<notin> kernel_frame" for b using b [OF that] by (simp add: e v_def u_def)
qed

lemma open_called:
  assumes ok: "prog_ok n s" and de: "klocal s de 40"
    and nm: "cstring (vmem s) a nm" "0x8000000 \<le> unat a" "unat a + length nm \<le> 0x8400000"
    and k: "2 \<le> k" "k < MAX_FILES" "\<not> in_use (cur_files s k)" "\<forall>j < k. in_use (cur_files s j)"
    and c: "file_called (vmem s) (zbigfs_start s) nm c"
    and buf: "0x8000000 \<le> unat buf" "unat buf + unat nb \<le> 0x8400000" "0 < nb"
  obtains s' where "ece391_open w de a s = Some (s', int k)" "sys_readable (int k) buf nb s'" "sys_rest (int k) s' = c"
    "prog_ok n s'" "outputs s [] s'" "fs_kept s s'" "cr3 s' = cr3 s" "\<forall>b. b \<notin> kernel_frame \<longrightarrow> phys s' b = phys s b"
    "\<forall>j. j \<noteq> k \<longrightarrow> cur_files s' j = cur_files s j"
proof -
  have o: "fs_mounted s" "cr3 s \<noteq> 0" using ok by (simp_all add: prog_ok_def)
  obtain e where e: "find (entry_called (vmem s) (zbigfs_start s) nm) [0..<unat (num_dentry (vmem s) (zbigfs_start s))] = Some e"
    "entry_type (vmem s) (zbigfs_start s) e = FTYPE_REGULAR" "entry_inode (vmem s) (zbigfs_start s) e < num_inode (vmem s) (zbigfs_start s)"
    "c = file_contents (vmem s) (zbigfs_start s) (entry_inode (vmem s) (zbigfs_start s) e)"
    using c by (auto simp: file_called_def split: option.splits)
  have "rd_bytes (vmem s) a (Suc (length nm)) = nm @ [0]" "0 \<notin> set nm" using nm(1) by (simp_all add: cstring_def)
  note f = e(1) [folded find_named [OF fs_kept_refl [OF o(1)] this]]
  have len: "unat (of_nat (length nm) :: u32) = length nm" using nm(3) by (intro unat_of_nat_less) simp
  have st: "strlen (vmem s) a = Some (of_nat (length nm))" using strlen_cstring [OF nm(1)] .
  have uok: "usr_ptr_ok a (of_nat (length nm))" unfolding usr_ptr_ok_unat len using nm(2,3) by simp
  obtain g h E where E: "length E \<le> 40"
    "syscall_open (dev w) de a s = Some (set_file k h ((set_file k g s)\<lparr>phys := wr_bytes (phys s) de E\<rparr>), int k)"
    "sys_readable (int k) buf nb (set_file k h ((set_file k g s)\<lparr>phys := wr_bytes (phys s) de E\<rparr>))"
    "sys_rest (int k) (set_file k h ((set_file k g s)\<lparr>phys := wr_bytes (phys s) de E\<rparr>)) = c"
    using open_ready [OF o(1) de st uok k refl refl f e(2,3) o(2) buf, of "dev w"] e(4) by metis
  note q = open_quiet [where h = h and g = g, OF ok de k(1) E(1) refl]
  show thesis using that q E by (simp add: ece391_open_def cur_files_rest(1) [OF rest_phys])
qed

text \<open>
  C6. \<open>cat\<close> started with the name of a regular file as its argument prints exactly the contents of that
  file on its own terminal and nothing on the others, and returns 0.
\<close>

theorem cat_prints_file:
  assumes ok: "prog_ok (length c) s" and de: "klocal s de 40" and p: "p = current_process s" "p \<le> MAX_PID"
    and as: "rd_bytes (vmem s) (pcb_cmdstring p) 128 = pad_nul 128 as" "0 \<notin> set as" "length as \<le> 127"
    and c: "file_called (vmem s) (zbigfs_start s) as c"
    and k: "2 \<le> k" "k < MAX_FILES" "\<not> in_use (cur_files s k)" "\<forall>j < k. in_use (cur_files s j)"
    and buf: "0x8000000 \<le> unat buf" "unat buf + 1024 \<le> 0x8400000"
  shows "\<exists>s'. cat_main w de l buf s = Some (s', 0) \<and> outputs s c s'"
proof -
  have o: "fs_mounted s" "paging_ok s" "cr3 s \<noteq> 0" using ok by (simp_all add: prog_ok_def fs_mounted_def)
  define xs where "xs = pad_nul 128 as"
  define s1 where "s1 = s\<lparr>phys := wr_bytes (phys s) (user_phys s buf) xs\<rparr>"
  have len: "length xs = 128" "take 128 as = as" "xs = as @ 0 # replicate (127 - length as) 0"
    using as(3) by (simp_all add: xs_def pad_nul_def Suc_diff_le flip: replicate_Suc)
  have ga: "syscall_getargs buf 1024 s = (s1, 0)"
    using getargs_eq [OF o(2,3) p as buf refl] len by (simp add: s1_def xs_def)
  have b: "unat buf + length xs \<le> 0x8400000" using buf len by simp
  note q = user_write_quiet [OF ok buf(1) b s1_def]
  have "rd_bytes (vmem s1) buf 128 = xs" using getargs_view(1) [OF o(2,3) len(1) buf(1)] buf by (simp add: s1_def)
  then have "rd_bytes (vmem s1) buf (length xs) = xs" using len(1) by (simp del: rd_bytes_numeral)
  from rd_bytes_part [OF this, of 0 "Suc (length as)"] have "cstring (vmem s1) buf as"
    using as(2,3) len by (simp add: cstring_def del: rd_bytes.simps)
  note nm = this buf(1)
  have z: "zbigfs_start s1 = zbigfs_start s" "klocal s1 de 40" "cur_files s1 = cur_files s"
    using fs_keptD(2,3) [OF q(3)] de cur_files_rest(1) [OF rest_phys] by (simp_all add: s1_def)
  have c1: "file_called (vmem s1) (zbigfs_start s1) as c" using file_called_same [OF _ _ c] q(3) o(1) z(1) by (simp add: fs_kept_def fs_mounted_def)
  obtain s2 where s2: "ece391_open w de buf s1 = Some (s2, int k)" "sys_readable (int k) buf 1024 s2" "sys_rest (int k) s2 = c"
    "prog_ok (length c) s2" "outputs s1 [] s2"
    using open_called [OF q(1) z(2) nm _ k(1,2) _ _ c1 buf(1), of 1024 w] k(3,4) buf(2) as(3) z(3) by auto
  obtain s' where "cat_loop w de l buf (int k) s2 = Some (s', 0)" "outputs s2 c s'"
    using cat_loop_eq [OF s2(2), of w de l] s2(3,4) k(1) by auto
  moreover from this(2) have "outputs s c s'" using outputs_trans [OF outputs_trans [OF q(2) s2(5)]] by simp
  ultimately show ?thesis using ga s2(1) by (simp add: cat_main_def)
qed

section \<open>Examples\<close>

lemma tasks_screen:
  assumes "0 < n" and "n \<le> MAX_PID"
  shows "screen_x (tasks n) = (\<lambda>_. 0)" "vmem_ok (tasks n)"
proof -
  show "screen_x (tasks n) = (\<lambda>_. 0)" by (induction n) (simp_all add: tasks_0 tasks_Suc boot_tasks_simps spawned_fields)
  obtain k where k: "n = Suc k" using assms(1) by (cases n) auto
  show "vmem_ok (tasks n)" using assms(2) tasks_wf_tasks [of k] unfolding k tasks_Suc by (intro spawned_wf) simp_all
qed

lemma kernel_of_prog:
  assumes n: "0 < n" "n \<le> MAX_PID" and fs: "fs_mounted (kernel_of n m)" and j: "j < 2 ^ 24"
  shows "prog_ok j (kernel_of n m)"
proof -
  have "screen_x (kernel_of n m) = screen_x (tasks n)" "low_memory_table (kernel_of n m) = low_memory_table (tasks n)"
    by (simp_all add: kernel_of_def kernel.defs keyboard.defs terminal.defs tasking.defs)
  then have "out_ok j (kernel_of n m)"
    using tasks_screen [OF n] tasks_wfD(5) [OF kernel_of_wf [OF n(2), of m]] j
    by (simp add: out_ok_def vmem_ok_def screen_frame_def kernel_of_fields tasks_fields)
  moreover have "get_file 1 (kernel_of n m) = Some 1"
    using kernel_of_files [OF n(1)] std_files_fd2 by (simp add: get_file_def MAX_FILES_def)
  ultimately show ?thesis using fs n by (simp add: prog_ok_def kernel_of_fields kernel_of_files tasks_cr3 std_files_def)
qed

definition demo_cat :: kernel where
  "demo_cat = kernel_of 1 (wr_bytes demo_fs (pcb_cmdstring 1) (pad_nul 128 [0x66]))"

lemma demo_cat_mounted: "same_fs 0x500000 demo_fs (vmem demo_cat)" "fs_mounted demo_cat" "zbigfs_start demo_cat = 0x500000"
proof -
  have "disjoint_regions (pcb_cmdstring 1) 128 0x500000 12288"
    by (rule disjoint_regions_intervalI) (simp_all add: pcb_cmdstring_address MAX_PID_def)
  then have "same_fs 0x500000 demo_fs (wr_bytes demo_fs (pcb_cmdstring 1) (pad_nul 128 [0x66]))"
    by (intro same_fs_wr_bytes) (simp_all add: demo_fs_file)
  from kernel_of_mounted [OF _ this demo_fs_wf, of 1]
  show "same_fs 0x500000 demo_fs (vmem demo_cat)" "fs_mounted demo_cat" "zbigfs_start demo_cat = 0x500000"
    by (simp_all add: demo_cat_def demo_fs_file MAX_PID_def kernel_of_fields)
qed

lemma demo_cat_ready:
  "rd_bytes (vmem demo_cat) (pcb_cmdstring 1) 128 = pad_nul 128 [0x66]"
  "file_called (vmem demo_cat) (zbigfs_start demo_cat) [0x66] [0x61, 0x62, 0x63]" "klocal demo_cat 0x7F0000 40"
proof -
  note same = demo_cat_mounted(1)
  have len: "length (pad_nul 128 [0x66 :: byte]) = 128" by simp
  have "paging_ok demo_cat" using demo_cat_mounted(2) by (simp add: fs_mounted_def)
  then have "rd_bytes (vmem demo_cat) (pcb_cmdstring 1) 128 = rd_bytes (phys demo_cat) (pcb_cmdstring 1) 128"
    by (rule kernel_rd) (simp_all add: pcb_cmdstring_address MAX_PID_def)
  then show "rd_bytes (vmem demo_cat) (pcb_cmdstring 1) 128 = pad_nul 128 [0x66]"
    using rd_wr_bytes_same [of "pad_nul 128 [0x66]" demo_fs "pcb_cmdstring 1"] unfolding len by (simp add: demo_cat_def kernel_of_fields)
  have "rd_bytes demo_fs (dentries 0x500000 0) 31 = 0x66 # replicate 30 0" by (simp add: demo_eval)
  then have "entry_called demo_fs 0x500000 [0x66] 0" by (simp add: entry_called_def)
  moreover have "entry_type demo_fs 0x500000 0 = FTYPE_REGULAR" "entry_inode demo_fs 0x500000 0 = 0"
    by (simp_all add: entry_type_def entry_inode_def demo_eval FTYPE_REGULAR_def)
  ultimately have "file_called demo_fs 0x500000 [0x66] [0x61, 0x62, 0x63]"
    by (simp add: file_called_def demo_fs_header demo_fs_contents)
  then show "file_called (vmem demo_cat) (zbigfs_start demo_cat) [0x66] [0x61, 0x62, 0x63]"
    using file_called_same [OF same demo_fs_wf] demo_cat_mounted(3) by simp
  have "disjoint_regions 0x7F0000 40 0x500000 12288" by (rule disjoint_regions_intervalI) simp_all
  then show "klocal demo_cat 0x7F0000 40"
    using same_fs_size [OF same demo_fs_wf] by (simp add: klocal_def demo_cat_mounted demo_fs_file)
qed

theorem cat_prints_file_witness:
  "\<exists>s'. cat_main idle_world 0x7F0000 (\<lambda>_. 0x8048000) 0x8000100 demo_cat = Some (s', 0) \<and>
     text_view 0 s' = fold (aputc (attribs 0)) [0x61, 0x62, 0x63] (text_view 0 demo_cat)"
proof -
  have p: "current_process demo_cat = 1" "current_active_process demo_cat = 0" "current_terminal demo_cat = 0" "cur_files demo_cat = std_files"
    by (simp_all add: demo_cat_def kernel_of_fields kernel_of_files)
  have ok: "prog_ok (length [0x61 :: byte, 0x62, 0x63]) demo_cat"
    using kernel_of_prog [of 1 _ "length [0x61 :: byte, 0x62, 0x63]"] demo_cat_mounted(2) by (simp add: demo_cat_def MAX_PID_def)
  note c = cat_prints_file [OF ok demo_cat_ready(3) _ _ demo_cat_ready(1) _ _ demo_cat_ready(2), of 2 "0x8000100" idle_world "\<lambda>_. 0x8048000"]
  show ?thesis using c std_files_fd2 by (auto simp: p MAX_PID_def outputs_def printc_def)
qed

end
