(* ===== verification/User_Run.thy ===== *)
theory User_Run
  imports Programs
begin

text \<open>
  What a stretch of a program's run changes: the text it prints, the descriptors in \<open>K\<close> and the bytes
  of its own memory in \<open>A\<close>. The file system, the other descriptors and the rest of its memory stay, so
  that stretches compose. One lemma for each thing a program does: store into its memory, print a
  string, open, read and close a file.
\<close>

section \<open>Effects\<close>

definition user_addr :: "u32 \<Rightarrow> bool" where
  "user_addr a \<longleftrightarrow> 0x8000000 \<le> unat a \<and> unat a < 0x8400000"

definition effect :: "nat set \<Rightarrow> u32 set \<Rightarrow> 'a kernel_scheme \<Rightarrow> byte list \<Rightarrow> 'a kernel_scheme \<Rightarrow> bool" where
  "effect K A s xs s' \<longleftrightarrow> outputs s xs s' \<and> fs_kept s s' \<and> cr3 s' = cr3 s \<and>
     (\<forall>j. j \<notin> K \<longrightarrow> cur_files s' j = cur_files s j) \<and> (\<forall>a. user_addr a \<and> a \<notin> A \<longrightarrow> vmem s' a = vmem s a)"

lemma effect_refl: "fs_mounted s \<Longrightarrow> effect K A s [] s"
  using fs_kept_refl by (auto simp: effect_def)

lemma effect_trans: "effect K A s xs t \<Longrightarrow> effect K A t ys u \<Longrightarrow> effect K A s (xs @ ys) u"
  unfolding effect_def using outputs_trans fs_kept_trans by metis

lemma effect_mono: "effect K A s xs t \<Longrightarrow> K \<subseteq> K' \<Longrightarrow> A \<subseteq> A' \<Longrightarrow> effect K' A' s xs t"
  unfolding effect_def by blast

lemma effect_rd:
  assumes "effect K A s xs t" and "0x8000000 \<le> unat a" and "unat a + n \<le> 0x8400000" and "region a n \<inter> A = {}"
  shows "rd_bytes (vmem t) a n = rd_bytes (vmem s) a n"
proof (rule rd_bytes_cong)
  fix i assume i: "i < n"
  have "unat (a + of_nat i) = unat a + i" using assms(2,3) i by (simp add: unat_plus_if' unat_of_nat_less)
  moreover have "a + of_nat i \<in> region a n" using i assms(3) by (intro add_in_region) simp_all
  ultimately have "user_addr (a + of_nat i)" "a + of_nat i \<notin> A" using assms(2-4) i by (auto simp: user_addr_def)
  then show "vmem t (a + of_nat i) = vmem s (a + of_nat i)" using assms(1) by (simp add: effect_def)
qed

text \<open>The user memory seen through the tables.\<close>

lemma user_view:
  assumes "paging_ok s" and "cr3 s \<noteq> 0" and "user_addr a"
  shows "vmem s a = phys s (user_phys s a)" and "user_phys s a \<in> user_frame (cr3 s)"
proof -
  have a: "0x8000000 \<le> unat a" "unat a + 1 \<le> 0x8400000" using assms(3) by (simp_all add: user_addr_def)
  show "vmem s a = phys s (user_phys s a)" using rd_vmem [OF assms(1) mapped_user [OF assms(1,2) a]] by simp
  have "user_phys s a \<in> region (user_phys s a) 1" by (simp add: region_def)
  then show "user_phys s a \<in> user_frame (cr3 s)" using user_region(1) [OF assms(1,2) a] by blast
qed

lemma user_kept_view:
  assumes "prog_ok n s" and "paging_ok s'" and "cr3 s' = cr3 s" and "\<And>b. b \<in> user_frame (cr3 s) \<Longrightarrow> phys s' b = phys s b" and "user_addr a"
  shows "vmem s' a = vmem s a"
proof -
  have o: "paging_ok s" "cr3 s \<noteq> 0" "cr3 s' \<noteq> 0" using assms(1,3) by (simp_all add: prog_ok_def fs_mounted_def)
  have "user_phys s' a = user_phys s a" using assms(3) by (simp add: user_phys_def)
  then show ?thesis using user_view [OF o(1,2) assms(5)] user_view(1) [OF assms(2) o(3) assms(5)] assms(4) by simp
qed

section \<open>Stores\<close>

lemma store_effect:
  assumes ok: "prog_ok n s" and a: "0x8000000 \<le> unat a" "unat a + length xs \<le> 0x8400000"
    and s': "s' = put_vmem (wr_bytes (vmem s) a xs) s"
  shows "prog_ok n s'" "effect {} (region a (length xs)) s [] s'" "\<And>b. user_addr b \<Longrightarrow> vmem s' b = wr_bytes (vmem s) a xs b"
proof -
  have o: "paging_ok s" "cr3 s \<noteq> 0" using ok by (simp_all add: prog_ok_def fs_mounted_def)
  have e: "s' = s\<lparr>phys := wr_bytes (phys s) (user_phys s a) xs\<rparr>" unfolding s' using put_user [OF o a] .
  note q = user_write_quiet [OF ok a e]
  show "prog_ok n s'" by (rule q)
  have len: "length xs \<le> 2 ^ 32" using a(2) by simp
  have o': "paging_ok s'" "cr3 s' = cr3 s" "cr3 s' \<noteq> 0" "user_phys s' = user_phys s" using o by (simp_all add: e user_phys_def fun_eq_iff)
  show v: "vmem s' b = wr_bytes (vmem s) a xs b" if b: "user_addr b" for b
  proof -
    have "user_phys s b - user_phys s a = b - a" by (simp add: user_phys_def)
    then show ?thesis using user_view(1) [OF o'(1,3) b] user_view(1) [OF o b] len by (simp add: e wr_bytes_at user_phys_def)
  qed
  have "vmem s' b = vmem s b" if "user_addr b" "b \<notin> region a (length xs)" for b
    using v [OF that(1)] wr_bytes_outside [of b a xs "vmem s"] that(2) len by simp
  then show "effect {} (region a (length xs)) s [] s'" using q o'(2) by (simp add: effect_def e cur_files_rest(1) [OF rest_phys])
qed

lemma ustore_effect:
  assumes "prog_ok n s" and "user_addr a" and "s' = ustore a b s"
  shows "prog_ok n s'" "effect {} {a} s [] s'" "\<And>c. user_addr c \<Longrightarrow> vmem s' c = ((vmem s)(a := b)) c"
proof -
  have "region a 1 = {a}" by (auto simp: region_def unat_eq_0)
  moreover have "s' = put_vmem (wr_bytes (vmem s) a [b]) s" using assms(3) by (simp add: ustore_def)
  from store_effect [OF assms(1) _ _ this]
  have "prog_ok n s'" "effect {} (region a 1) s [] s'" "\<And>c. user_addr c \<Longrightarrow> vmem s' c = wr_bytes (vmem s) a [b] c"
    using assms(2) by (simp_all add: user_addr_def)
  ultimately show "prog_ok n s'" "effect {} {a} s [] s'" "\<And>c. user_addr c \<Longrightarrow> vmem s' c = ((vmem s)(a := b)) c" by simp_all
qed

section \<open>Strings\<close>

definition ustring :: "'a kernel_scheme \<Rightarrow> u32 \<Rightarrow> byte list \<Rightarrow> bool" where
  "ustring s a xs \<longleftrightarrow> cstring (vmem s) a xs \<and> 0x8000000 \<le> unat a \<and> unat a + length xs < 0x8400000"

lemma ustring_kept:
  assumes "ustring s a xs" and "effect K A s ys s'" and "region a (Suc (length xs)) \<inter> A = {}"
  shows "ustring s' a xs"
  using assms(1) effect_rd [OF assms(2) _ _ assms(3)] by (simp add: ustring_def cstring_def del: rd_bytes.simps)

lemma fdputs_effect:
  assumes ok: "prog_ok (length xs + n) s" and a: "ustring s a xs"
  obtains s' where "ece391_fdputs w 1 a s = Some s'" "effect {} {} s xs s'" "prog_ok n s'"
proof -
  have u: "cstring (vmem s) a xs" "0x8000000 \<le> unat a" "unat a + length xs \<le> 0x8400000" using a by (simp_all add: ustring_def)
  have "rd_bytes (vmem s) a (length xs + 1) = xs @ [0]" using u(1) by (simp add: cstring_def)
  then have r: "rd_bytes (vmem s) a (length xs) = xs" unfolding rd_bytes_add by simp
  obtain s' where s': "sys_write w 1 a (of_nat (length xs)) s = (s', int (length xs))" "outputs s (rd_bytes (vmem s) a (length xs)) s'" "prog_ok n s'"
    "fs_kept s s'" "rest (s'\<lparr>write_x := write_x s\<rparr>) = rest s" "\<forall>a. a \<notin> video_frames \<longrightarrow> phys s' a = phys s a"
    by (rule sys_write_stdout [OF ok u(2,3)])
  note f = output_frame [OF s'(5)]
  have p: "paging_ok s'" "cr3 s \<le> 10"
    using s'(3) ok by (simp_all add: prog_ok_def fs_mounted_def paging_ok_def pd_ready_def paging_consts)
  have "vmem s' b = vmem s b" if "user_addr b" for b
    using user_kept_view [OF ok p(1) f(4) _ that] s'(6) user_frame_video [OF p(2)] by blast
  then have "effect {} {} s xs s'" using s' f r by (simp add: effect_def)
  moreover have "ece391_fdputs w 1 a s = Some s'" using ece391_strlen_cstring [OF u(1)] s'(1) by (simp add: ece391_fdputs_def)
  ultimately show thesis using that s'(3) by blast
qed

section \<open>Files\<close>

text \<open>The kernel's own changes while it serves a call are outside the memory of the program.\<close>

lemma kernel_effect:
  assumes ok: "prog_ok n s" and s': "outputs s [] s'" "fs_kept s s'" "cr3 s' = cr3 s" "\<forall>b. b \<notin> kernel_frame \<longrightarrow> phys s' b = phys s b"
    and f: "\<forall>j. j \<noteq> k \<longrightarrow> cur_files s' j = cur_files s j"
  shows "effect {k} {} s [] s'"
proof -
  have c: "cr3 s \<le> 10" "cr3 s \<noteq> 0" "paging_ok s'"
    using ok fs_keptD(1) [OF s'(2)] by (simp_all add: prog_ok_def fs_mounted_def paging_ok_def pd_ready_def paging_consts)
  have "b \<notin> kernel_frame" if "b \<in> user_frame (cr3 s)" for b using that kernel_frame_user_frame [of "cr3 s"] c by auto
  then have "vmem s' a = vmem s a" if "user_addr a" for a
    using s'(4) by (intro user_kept_view [OF ok c(3) s'(3) _ that]) blast
  then show ?thesis using s' f by (simp add: effect_def)
qed

text \<open>A regular file open as descriptor \<open>fd\<close> with the bytes \<open>c\<close> still to be read.\<close>

definition uopen :: "int \<Rightarrow> byte list \<Rightarrow> 'a kernel_scheme \<Rightarrow> bool" where
  "uopen fd c s \<longleftrightarrow> 2 \<le> fd \<and> sys_readable fd 0x8000000 1 s \<and> sys_rest fd s = c"

lemma readable_any:
  assumes "sys_readable fd b k s" and "0x8000000 \<le> unat buf" and "unat buf + unat nb \<le> 0x8400000" and "0 < nb"
  shows "sys_readable fd buf nb s"
proof -
  have "disjoint_regions buf (unat nb) (zbigfs_start s) (fs_size (vmem s) (zbigfs_start s))"
    using assms by (intro disjoint_regions_intervalI) (auto simp: sys_readable_def fs_mounted_def)
  then show ?thesis using assms by (auto simp: sys_readable_def readable_def)
qed

lemma uopen_kept:
  assumes "uopen fd c s" and "effect K A s xs s'" and "nat fd \<notin> K"
  shows "uopen fd c s'"
proof -
  have r: "sys_readable fd 0x8000000 1 s" using assms(1) by (simp add: uopen_def)
  have k: "same_fs (zbigfs_start s) (vmem s) (vmem s')" "wf_fs (vmem s) (zbigfs_start s)"
    "inode (cur_files s (nat fd)) < num_inode (vmem s) (zbigfs_start s)"
    using r assms(2) by (simp_all add: effect_def fs_kept_def sys_readable_def readable_def)
  have f: "cur_files s' (nat fd) = cur_files s (nat fd)" "cr3 s' = cr3 s" "fs_kept s s'" using assms(2,3) by (simp_all add: effect_def)
  then have "get_file fd s' = get_file fd s" by (simp add: get_file_def)
  then show ?thesis
    using assms(1) r f fs_keptD(1,2) [OF f(3)] readable_same_fs [OF k] by (simp add: uopen_def sys_readable_def sys_rest_def)
qed

lemma open_file_effect:
  assumes ok: "prog_ok n s" and de: "klocal s de 40" and nm: "ustring s a nm"
    and k: "2 \<le> k" "k < MAX_FILES" "\<not> in_use (cur_files s k)" "\<forall>j < k. in_use (cur_files s j)"
    and c: "file_called (vmem s) (zbigfs_start s) nm c"
  obtains s' where "ece391_open w de a s = Some (s', int k)" "prog_ok n s'" "effect {k} {} s [] s'" "uopen (int k) c s'"
proof -
  have u: "cstring (vmem s) a nm" "0x8000000 \<le> unat a" "unat a + length nm \<le> 0x8400000" using nm by (simp_all add: ustring_def)
  have b: "0x8000000 \<le> unat (0x8000000 :: u32)" "unat (0x8000000 :: u32) + unat (1 :: u32) \<le> 0x8400000" "(0 :: u32) < 1" by simp_all
  obtain s' where s': "ece391_open w de a s = Some (s', int k)" "sys_readable (int k) 0x8000000 1 s'" "sys_rest (int k) s' = c"
    "prog_ok n s'" "outputs s [] s'" "fs_kept s s'" "cr3 s' = cr3 s" "\<forall>b. b \<notin> kernel_frame \<longrightarrow> phys s' b = phys s b"
    "\<forall>j. j \<noteq> k \<longrightarrow> cur_files s' j = cur_files s j"
    by (rule open_called [OF ok de u k c b])
  have "effect {k} {} s [] s'" by (rule kernel_effect [OF ok s'(5-9)])
  moreover have "uopen (int k) c s'" using s'(2,3) k(1) by (simp add: uopen_def)
  ultimately show thesis using that s'(1,4) by blast
qed

lemma read_file_effect:
  assumes f: "uopen fd c s" and ok: "prog_ok n s" and buf: "0x8000000 \<le> unat buf" "unat buf + nb \<le> 0x8400000" "0 < nb"
    and xs: "xs = take nb c"
  obtains s' where "sys_read w de fd buf (of_nat nb) s = Some (s', int (length xs))" "prog_ok n s'"
    "effect {nat fd} (region buf (length xs)) s [] s'" "rd_bytes (vmem s') buf (length xs) = xs" "uopen fd (drop nb c) s'"
proof -
  have nb: "unat (of_nat nb :: u32) = nb" using buf(2) by (intro unat_of_nat_less) simp
  then have nz: "(0 :: u32) < of_nat nb" using buf(3) by (simp add: word_less_nat_alt)
  have "sys_readable fd 0x8000000 1 s" using f by (simp add: uopen_def)
  note r = readable_any [OF this buf(1) _ nz, unfolded nb, OF buf(2)]
  have x: "xs = take (unat (of_nat nb :: u32)) (sys_rest fd s)" using f xs nb by (simp add: uopen_def)
  define f' where "f' = (cur_files s (nat fd))\<lparr>pos := pos (cur_files s (nat fd)) + of_nat (length xs)\<rparr>"
  define u where "u = put_vmem (wr_bytes (vmem s) buf xs) s"
  have len: "unat buf + length xs \<le> 0x8400000" using buf(2) xs by simp
  note e = store_effect [OF ok buf(1) len u_def]
  have "u = s\<lparr>phys := wr_bytes (phys s) (user_phys s buf) xs\<rparr>"
    unfolding u_def using ok buf(1) len by (intro put_user) (simp_all add: prog_ok_def fs_mounted_def)
  note q = sys_read_regular [OF r x f'_def refl, folded this]
  let ?s = "set_file (nat fd) f' u"
  have fd: "2 \<le> fd" "nat fd \<noteq> 1" using f by (auto simp: uopen_def)
  have "prog_ok n ?s" using e(1) prog_set_file(1) [of "nat fd" n f' u] fd by simp
  moreover have "outputs s [] ?s" using e(2) outputs_trans [OF _ prog_set_file(2) [of u "nat fd" f']] by (fastforce simp: effect_def)
  then have "effect {nat fd} (region buf (length xs)) s [] ?s" using e(2) by (simp add: effect_def fs_kept_def)
  moreover have "sys_rest fd ?s = drop nb c" using q(4) f xs append_take_drop_id [of nb c] by (metis same_append_eq uopen_def)
  then have "uopen fd (drop nb c) ?s" using fd readable_any [OF q(3), where buf = "0x8000000" and nb = 1] by (simp add: uopen_def)
  ultimately show thesis using that q(1,2) by blast
qed

lemma close_effect:
  assumes ok: "prog_ok n s" and k: "2 \<le> k" "k < MAX_FILES" "in_use (cur_files s k)"
  obtains s' where "syscall_close (int k) s = (s', 0)" "prog_ok n s'" "effect {k} {} s [] s'" "\<not> in_use (cur_files s' k)"
proof -
  define g where "g = (cur_files s k)\<lparr>flags := flags (cur_files s k) AND NOT FILE_FLAG_IN_USE\<rparr>"
  have "syscall_close (int k) s = (set_file k g s, 0)"
    using k by (simp add: syscall_close_def get_file_def free_fd_def g_def)
  moreover have "prog_ok n (set_file k g s)" using ok k(1) prog_set_file(1) [of k n g s] by simp
  moreover have "effect {k} {} s [] (set_file k g s)"
    using ok prog_set_file(2) [of s k g] by (simp add: effect_def prog_ok_def fs_kept_def)
  moreover have "\<not> in_use g" unfolding g_def by (rule in_use_clear)
  ultimately show thesis using that by simp
qed

end
