(* ===== verification/Listing.thy ===== *)
theory Listing
  imports User_Run
begin

text \<open>
  Reading a directory through the system calls: the program \<open>ls\<close> prints the names of all entries of the
  image, each padded with zero bytes to 32 characters.
\<close>

section \<open>Opening the directory\<close>

lemma open_directory:
  assumes ok: "prog_ok n s" and de: "klocal s de 40"
    and nm: "cstring (vmem s) a nm" "0x8000000 \<le> unat a" "unat a + length nm \<le> 0x8400000"
    and k: "2 \<le> k" "k < MAX_FILES" "\<not> in_use (cur_files s k)" "\<forall>j < k. in_use (cur_files s j)"
    and e: "find (entry_called (vmem s) (zbigfs_start s) nm) [0..<unat (num_dentry (vmem s) (zbigfs_start s))] = Some e"
      "entry_type (vmem s) (zbigfs_start s) e = FTYPE_DIRECTORY"
  obtains s' h where "ece391_open w de a s = Some (s', int k)" "prog_ok n s'" "outputs s [] s'" "fs_kept s s'" "cr3 s' = cr3 s"
    "\<forall>b. b \<notin> kernel_frame \<longrightarrow> phys s' b = phys s b" "cur_files s' = (cur_files s)(k := h)" "in_use h" "optable h = Ops_directory" "pos h = 0"
proof -
  have o: "fs_mounted s" using ok by (simp add: prog_ok_def)
  have "rd_bytes (vmem s) a (Suc (length nm)) = nm @ [0]" "0 \<notin> set nm" using nm(1) by (simp_all add: cstring_def)
  note f = e(1) [folded find_named [OF fs_kept_refl [OF o] this]]
  have len: "unat (of_nat (length nm) :: u32) = length nm" using nm(3) by (intro unat_of_nat_less) simp
  have st: "strlen (vmem s) a = Some (of_nat (length nm))" using strlen_cstring [OF nm(1)] .
  have uok: "usr_ptr_ok a (of_nat (length nm))" unfolding usr_ptr_ok_unat len using nm(2,3) by simp
  define E where "E = entry_image (vmem s) (zbigfs_start s) (of_nat e)"
  have E: "length E \<le> 40" by (simp add: E_def length_entry_image)
  define g where "g = (cur_files s k)\<lparr>flags := flags (cur_files s k) OR FILE_FLAG_IN_USE\<rparr>"
  define h where "h = opened_file FTYPE_DIRECTORY (entry_inode (vmem s) (zbigfs_start s) e) g"
  define s' where "s' = set_file k h ((set_file k g s)\<lparr>phys := wr_bytes (phys s) de E\<rparr>)"
  have ty: "known_type FTYPE_DIRECTORY" "FTYPE_DIRECTORY \<noteq> FTYPE_SPECIAL" "FTYPE_DIRECTORY \<noteq> FTYPE_REGULAR"
    by (simp_all add: known_type_def FTYPE_DIRECTORY_def FTYPE_SPECIAL_def FTYPE_REGULAR_def)
  have "ece391_open w de a s = Some (s', int k)"
    using syscall_open_cases(2) [OF o de st uok k g_def f, of "dev w"] e(2) ty by (simp add: ece391_open_def s'_def h_def E_def)
  moreover have "in_use h" "optable h = Ops_directory" "pos h = 0"
    using in_use_set [of "cur_files s k"] ty by (simp_all add: h_def g_def opened_file_def in_use_def)
  moreover have "cur_files s' = (cur_files s)(k := h)" by (simp add: s'_def cur_files_rest(1) [OF rest_phys])
  ultimately show thesis using that open_quiet [OF ok de k(1) E s'_def] by blast
qed

lemma set_file_same [simp]: "set_file k (cur_files s k) s = s"
  by (cases s) (simp add: set_file_def set_pcb_def get_current_pcb_def cur_files_def)

section \<open>Reading it\<close>

text \<open>
  A program that has printed the entries before \<open>i\<close>, has the directory open as \<open>fd\<close> at that position, and a
  buffer for a name and a newline.
\<close>

definition lister :: "u32 \<Rightarrow> int \<Rightarrow> u32 \<Rightarrow> nat \<Rightarrow> nat \<Rightarrow> 'a kernel_scheme \<Rightarrow> bool" where
  "lister de fd buf n i s \<longleftrightarrow> prog_ok n s \<and> klocal s de 40 \<and> 2 \<le> fd \<and> fd < int MAX_FILES \<and> in_use (cur_files s (nat fd)) \<and>
     optable (cur_files s (nat fd)) = Ops_directory \<and> pos (cur_files s (nat fd)) = of_nat i \<and>
     0x8000000 \<le> unat buf \<and> unat buf + 33 \<le> 0x8400000"

definition listing :: "memory \<Rightarrow> u32 \<Rightarrow> nat \<Rightarrow> byte list" where
  "listing m zb i = concat (map (\<lambda>j. pad_nul 32 (entry_name m zb (of_nat j)) @ [10]) [i..<unat (num_dentry m zb)])"

lemma entry_name_same:
  assumes "same_fs zb m m'" and "wf_fs m zb" and "j < unat (num_dentry m zb)"
  shows "entry_name m' zb (of_nat j) = entry_name m zb (of_nat j)"
proof -
  have "unat (of_nat j :: u32) = j" using assms(3) unat_lt32 [of "num_dentry m zb"] by (intro unat_of_nat_less) simp
  then have "of_nat j < num_dentry m zb" using assms(3) by (simp add: word_less_nat_alt)
  from same_fs_entry_bytes [OF assms(1,2) this, of 0 32] show ?thesis by (simp add: entry_name_def del: rd_bytes_numeral)
qed

lemma listing_same:
  assumes "same_fs zb m m'" and "wf_fs m zb"
  shows "listing m' zb i = listing m zb i"
proof -
  from entry_name_same [OF assms] have "map (\<lambda>j. pad_nul 32 (entry_name m' zb (of_nat j)) @ [10]) [i..<unat (num_dentry m zb)] =
      map (\<lambda>j. pad_nul 32 (entry_name m zb (of_nat j)) @ [10]) [i..<unat (num_dentry m zb)]"
    by (intro map_cong) simp_all
  then show ?thesis unfolding listing_def same_fs_header(1) [OF assms] by (rule arg_cong)
qed

lemma listing_kept: "fs_kept s u \<Longrightarrow> listing (vmem u) (zbigfs_start u) i = listing (vmem s) (zbigfs_start s) i"
  using listing_same [of "zbigfs_start s" "vmem s" "vmem u" i] by (simp add: fs_kept_def fs_mounted_def)

lemma find_called_same:
  assumes "same_fs zb m m'" and "wf_fs m zb"
  shows "find (entry_called m' zb nm) [0..<unat (num_dentry m' zb)] = find (entry_called m zb nm) [0..<unat (num_dentry m zb)]"
  using same_fs_entry(3) [OF assms] same_fs_header [OF assms] by (intro find_cong) (auto simp: entry_called_def simp del: rd_bytes.simps)

lemma lister_kept:
  assumes "lister de fd buf n i s" and "prog_ok n' s'" and "fs_kept s s'" and "cur_files s' (nat fd) = cur_files s (nat fd)"
  shows "lister de fd buf n' i s'"
  using assms fs_keptD(3) [OF assms(3)] by (simp add: lister_def)

lemma directory_read_eq:
  assumes wf: "wf_fs m zb" and i: "i < unat (num_dentry m zb)" and p: "pos f = of_nat i"
    and de: "disjoint_regions de 40 zb (fs_size m zb)" "disjoint_regions buf 32 de 40"
    and xs: "xs = pad_nul 32 (entry_name m zb (of_nat i))"
  obtains E where "length E \<le> 40" "directory_read m zb de f buf 32 = (wr_bytes (wr_bytes m de E) buf xs, f\<lparr>pos := of_nat (Suc i)\<rparr>, 32)"
proof -
  define E where "E = entry_image m zb (of_nat i)"
  have "unat (of_nat i :: u32) = i" using i unat_lt32 [of "num_dentry m zb"] by (intro unat_of_nat_less) simp
  then have lt: "of_nat i < num_dentry m zb" using i by (simp add: word_less_nat_alt)
  have E: "length E \<le> 40" "take 32 E = xs" "32 \<le> length E" by (simp_all add: E_def xs length_entry_image entry_image_def)
  have "rd_bytes (wr_bytes m de E) de 32 = xs" using rd_wr_inner [of 0 32 E m de] E by (simp del: rd_bytes_numeral)
  moreover have "0 \<notin> set (entry_name m zb (of_nat i))" by (auto simp: entry_name_def dest: set_takeWhileD)
  moreover have "disjoint_regions buf 32 de 32" using disjoint_regions_sub [OF de(2), of 0 32 0 32] by simp
  ultimately have "strncpy (wr_bytes m de E) buf de 32 = wr_bytes (wr_bytes m de E) buf xs"
    using strncpy_eq [of buf 32 de "wr_bytes m de E"] by (simp add: xs del: rd_bytes_numeral)
  then have "directory_read m zb de f buf 32 = (wr_bytes (wr_bytes m de E) buf xs, f\<lparr>pos := of_nat (Suc i)\<rparr>, 32)"
    using read_dentry_by_index_eq [OF wf lt de(1)] p by (simp add: directory_read_def d_fname_def E_def add.commute)
  with E(1) show thesis by (rule that)
qed

lemma read_entry:
  assumes d: "lister de fd buf n i s" and i: "i < unat (num_dentry (vmem s) (zbigfs_start s))"
  obtains s' where "sys_read w de fd buf 32 s = Some (s', 32)"
    "rd_bytes (vmem s') buf 32 = pad_nul 32 (entry_name (vmem s) (zbigfs_start s) (of_nat i))"
    "lister de fd buf n (Suc i) s'" "outputs s [] s'" "fs_kept s s'" "effect {nat fd} (region buf 32) s [] s'"
proof -
  let ?zb = "zbigfs_start s"
  define k where "k = nat fd"
  define xs where "xs = pad_nul 32 (entry_name (vmem s) ?zb (of_nat i))"
  define g where "g = (cur_files s k)\<lparr>pos := of_nat (Suc i)\<rparr>"
  have ok: "prog_ok n s" "fs_mounted s" "paging_ok s" "cr3 s \<noteq> 0" "wf_fs (vmem s) ?zb" and de: "klocal s de 40"
    and fd: "optable (cur_files s k) = Ops_directory" "pos (cur_files s k) = of_nat i" "2 \<le> k"
    and buf: "0x8000000 \<le> unat buf" "unat buf + 32 \<le> 0x8400000"
    using d by (auto simp: lister_def prog_ok_def fs_mounted_def k_def)
  have gf: "get_file fd s = Some k" using d by (simp add: lister_def get_file_def k_def)
  have lx: "length xs = 32" "unat buf + length xs \<le> 0x8400000" using buf by (simp_all add: xs_def)
  have "disjoint_regions buf 32 de 40" using buf de by (intro disjoint_regions_intervalI) (auto simp: klocal_def)
  from directory_read_eq [OF ok(5) i fd(2) _ this xs_def] de obtain E where E: "length E \<le> 40"
    "directory_read (vmem s) ?zb de (cur_files s k) buf 32 = (wr_bytes (wr_bytes (vmem s) de E) buf xs, g, 32)"
    unfolding klocal_def g_def by blast
  define u where "u = s\<lparr>phys := wr_bytes (phys s) de E\<rparr>"
  define v where "v = u\<lparr>phys := wr_bytes (phys u) (user_phys u buf) xs\<rparr>"
  define s' where "s' = set_file k g v"
  have ku: "put_vmem (wr_bytes (vmem s) de E) s = u" "fs_kept s u" using local_write [OF ok(2) de E(1)] by (simp_all add: u_def)
  have "mapped_run s buf (user_phys s buf) (length xs)" using ok(3,4) buf(1) lx(2) by (intro mapped_user)
  then have "put_vmem (wr_bytes (wr_bytes (vmem s) de E) buf xs) s = v"
    using put_vmem_wr_bytes [OF ok(3)] lx(1) ku(1) by (simp add: v_def user_phys_def u_def)
  moreover have "usr_ptr_ok buf 32" unfolding usr_ptr_ok_unat using buf by simp
  ultimately have rd: "sys_read w de fd buf 32 s = Some (s', 32)" using gf fd(1) E(2) by (simp add: sys_read_def kread_def s'_def)
  note qu = open_quiet(1,2) [where h = "cur_files s k" and g = "cur_files s k", OF ok(1) de fd(3) E(1) refl, simplified, folded u_def]
  have cu: "cur_files u = cur_files s" "cur_files v = cur_files s" by (simp_all add: u_def v_def cur_files_rest(1) [OF rest_phys])
  have pu: "prog_ok n u" "outputs s [] u" using qu set_file_same [of k u] by (simp_all add: cu(1))
  note qv = user_write_quiet [OF pu(1) buf(1) lx(2) v_def]
  have kept: "fs_kept s s'" using fs_kept_trans [OF ku(2) qv(3)] by (simp add: s'_def fs_kept_def)
  have p': "prog_ok n s'" "outputs s [] s'"
    using qv(1) prog_set_file(1) [of k n g v] fd(3) outputs_trans [OF outputs_trans [OF pu(2) qv(2)] prog_set_file(2) [of v k g]]
    by (simp_all add: s'_def)
  have ou: "paging_ok u" "cr3 u \<noteq> 0" using ok(3,4) by (simp_all add: u_def)
  have ku': "effect {k} {} s [] u"
    using local_outside [OF de E(1)] cu by (intro kernel_effect [OF ok(1) pu(2) ku(2)]) (auto simp: u_def)
  have "v = put_vmem (wr_bytes (vmem u) buf xs) u" unfolding v_def by (rule put_user [OF ou buf(1) lx(2), symmetric])
  note ev = effect_mono [OF store_effect(2) [OF pu(1) buf(1) lx(2) this], of "{k}" "region buf 32"]
  have "effect {k} (region buf 32) s [] v" using effect_trans [OF effect_mono [OF ku', of "{k}" "region buf 32"] ev] lx(1) by simp
  then have eff: "effect {nat fd} (region buf 32) s [] s'" using p'(2) kept by (auto simp: effect_def s'_def k_def)
  from getargs_view(1) [OF ou lx(1) buf] have "rd_bytes (vmem s') buf 32 = xs" by (simp add: s'_def v_def del: rd_bytes_numeral)
  moreover have "lister de fd buf n (Suc i) s'"
    using d p'(1) fs_keptD(3) [OF kept] by (simp add: lister_def s'_def cu g_def k_def in_use_def)
  ultimately show thesis using that rd p'(2) kept eff by (simp add: xs_def)
qed

lemma read_end:
  assumes d: "lister de fd buf n (unat (num_dentry (vmem s) (zbigfs_start s))) s"
  shows "sys_read w de fd buf 32 s = Some (s, 0)"
proof -
  define k where "k = nat fd"
  have ok: "paging_ok s" and fd: "optable (cur_files s k) = Ops_directory" "pos (cur_files s k) = num_dentry (vmem s) (zbigfs_start s)"
    and gf: "get_file fd s = Some k" and buf: "0x8000000 \<le> unat buf" "unat buf + 32 \<le> 0x8400000"
    using d by (simp_all add: lister_def get_file_def k_def prog_ok_def fs_mounted_def)
  have uok: "usr_ptr_ok buf 32" unfolding usr_ptr_ok_unat using buf by simp
  have "directory_read (vmem s) (zbigfs_start s) de (cur_files s k) buf 32 = (vmem s, cur_files s k, 0)"
    using fd(2) by (simp add: directory_read_def read_dentry_by_index_def)
  then show ?thesis using uok gf fd(1) put_vmem_id [OF ok] by (simp add: sys_read_def kread_def)
qed

section \<open>ls prints the directory\<close>

lemma newline_stored:
  assumes ok: "prog_ok n s" and buf: "0x8000000 \<le> unat buf" "unat buf + 33 \<le> 0x8400000" and xs: "rd_bytes (vmem s) buf 32 = xs"
    and u: "u = ustore (buf + 32) 10 s"
  shows "rd_bytes (vmem u) buf 33 = xs @ [10]" "prog_ok n u" "outputs s [] u" "fs_kept s u" "cur_files u = cur_files s"
proof -
  have p: "paging_ok s" "cr3 s \<noteq> 0" using ok by (simp_all add: prog_ok_def fs_mounted_def)
  have b: "unat (buf + 32) = unat buf + 32" using buf by (simp add: unat_plus_if')
  then have b': "0x8000000 \<le> unat (buf + 32)" "unat (buf + 32) + length [10 :: byte] \<le> 0x8400000" using buf by simp_all
  have "ustore (buf + 32) 10 s = put_vmem (wr_bytes (vmem s) (buf + 32) [10]) s" by (simp add: ustore_def)
  then have e: "u = s\<lparr>phys := wr_bytes (phys s) (user_phys s (buf + 32)) [10]\<rparr>" unfolding u using put_user [OF p b'] by simp
  show "prog_ok n u" "outputs s [] u" "fs_kept s u" using user_write_quiet [OF ok b' e] .
  show "cur_files u = cur_files s" by (simp add: e cur_files_rest(1) [OF rest_phys])
  have pu: "paging_ok u" "cr3 u \<noteq> 0" "user_phys u = user_phys s" using p by (simp_all add: e user_phys_def fun_eq_iff)
  have "rd_bytes (vmem u) (buf + of_nat 32) 1 = [10]"
    using getargs_view(1) [OF p, of "[10]" 1 "buf + 32"] b' by (simp add: e del: rd_bytes.simps)
  moreover have "(of_nat i :: u32) \<noteq> 32" if "i < 32" for i using that unat_of_nat_less [of i] by (auto dest: arg_cong [of _ _ unat])
  then have "rd_bytes (phys u) (user_phys s buf) 32 = rd_bytes (phys s) (user_phys s buf) 32"
    unfolding e using user_phys_add [of s buf 32] by (intro rd_bytes_cong) simp
  then have "rd_bytes (vmem u) buf 32 = xs"
    using rd_vmem [OF pu(1) mapped_user [OF pu(1,2) buf(1), of 32]] rd_vmem [OF p(1) mapped_user [OF p buf(1), of 32]] buf(2) pu(3) xs
    by (simp del: rd_bytes_numeral)
  ultimately show "rd_bytes (vmem u) buf 33 = xs @ [10]"
    using rd_bytes_add [of "vmem u" buf 32 1] by (simp del: rd_bytes.simps rd_bytes_numeral)
qed

lemma ls_loop_eq:
  assumes "lister de fd buf n i s" and "n = length (listing (vmem s) (zbigfs_start s) i)" and "i \<le> unat (num_dentry (vmem s) (zbigfs_start s))"
  shows "\<exists>s'. ls_loop w de l buf fd s = Some (s', 0) \<and> outputs s (listing (vmem s) (zbigfs_start s) i) s'"
  using assms
proof (induction "unat (num_dentry (vmem s) (zbigfs_start s)) - i" arbitrary: s i n)
  case 0
  then have "i = unat (num_dentry (vmem s) (zbigfs_start s))" by simp
  then show ?case using read_end [of de fd buf n s w] "0.prems"(1) by (subst ls_loop.simps) (simp add: SBUFSIZE_def listing_def)
next
  case (Suc k)
  let ?N = "unat (num_dentry (vmem s) (zbigfs_start s))"
  define xs where "xs = pad_nul 32 (entry_name (vmem s) (zbigfs_start s) (of_nat i))"
  have i: "i < ?N" using Suc.hyps(2) by simp
  have li: "listing (vmem s) (zbigfs_start s) i = (xs @ [10]) @ listing (vmem s) (zbigfs_start s) (Suc i)"
    using i by (simp add: listing_def xs_def upt_conv_Cons)
  define n' where "n' = length (listing (vmem s) (zbigfs_start s) (Suc i))"
  have n: "n = 33 + n'" using Suc.prems(2) li by (simp add: n'_def xs_def)
  obtain s1 where s1: "sys_read w de fd buf 32 s = Some (s1, 32)" "rd_bytes (vmem s1) buf 32 = xs"
    "lister de fd buf n (Suc i) s1" "outputs s [] s1" "fs_kept s s1" "effect {nat fd} (region buf 32) s [] s1"
    by (rule read_entry [OF Suc.prems(1) i]) (simp add: xs_def)
  have b: "prog_ok n s1" "0x8000000 \<le> unat buf" "unat buf + 33 \<le> 0x8400000" using s1(3) by (simp_all add: lister_def)
  define s2 where "s2 = ustore (buf + 32) 10 s1"
  note q = newline_stored [OF b s1(2) s2_def]
  have "prog_ok (33 + n') s2" using q(2) n by simp
  from sys_write_stdout [OF this b(2,3), of w] obtain s3 where s3: "sys_write w 1 buf 33 s2 = (s3, 33)" "outputs s2 (xs @ [10]) s3" "prog_ok n' s3"
    "fs_kept s2 s3" "rest (s3\<lparr>write_x := write_x s2\<rparr>) = rest s2"
    unfolding q(1) by auto
  have k3: "fs_kept s s3" using fs_kept_trans [OF fs_kept_trans [OF s1(5) q(4)] s3(4)] .
  have "lister de fd buf n' (Suc i) s3"
    using lister_kept [OF s1(3) s3(3) fs_kept_trans [OF q(4) s3(4)]] q(5) output_frame(1) [OF s3(5)] by simp
  moreover have "listing (vmem s3) (zbigfs_start s3) (Suc i) = listing (vmem s) (zbigfs_start s) (Suc i)"
    "num_dentry (vmem s3) (zbigfs_start s3) = num_dentry (vmem s) (zbigfs_start s)"
    using listing_kept [OF k3] fs_keptD(2,4) [OF k3] by simp_all
  moreover have "k = ?N - Suc i" using Suc.hyps(2) by simp
  ultimately obtain s' where s': "ls_loop w de l buf fd s3 = Some (s', 0)" "outputs s3 (listing (vmem s) (zbigfs_start s) (Suc i)) s'"
    using Suc.hyps(1) [of s3 "Suc i" n'] Suc.hyps(2) i by (auto simp: n'_def)
  have "outputs s (listing (vmem s) (zbigfs_start s) i) s'"
    using outputs_trans [OF outputs_trans [OF outputs_trans [OF s1(4) q(3)] s3(2)] s'(2)] li by simp
  then show ?case using s1(1) s3(1) s'(1) by (subst ls_loop.simps) (simp add: SBUFSIZE_def flip: s2_def)
qed

text \<open>
  C7. \<open>ls\<close> prints the directory: on an image with the entry \<open>.\<close> it prints the names of all entries in their
  order, each padded with zero bytes to 32 characters and followed by a newline, on its own terminal and
  nothing on the others, and returns 0.
\<close>

theorem ls_prints_directory:
  assumes ok: "prog_ok (length (listing (vmem s) (zbigfs_start s) 0)) s" and de: "klocal s de 40"
    and nm: "cstring (vmem s) (l (str ''.'')) (str ''.'')" "0x8000000 \<le> unat (l (str ''.''))" "unat (l (str ''.'')) < 0x8400000"
    and k: "2 \<le> k" "k < MAX_FILES" "\<not> in_use (cur_files s k)" "\<forall>j < k. in_use (cur_files s j)"
    and e: "find (entry_called (vmem s) (zbigfs_start s) (str ''.'')) [0..<unat (num_dentry (vmem s) (zbigfs_start s))] = Some e"
      "entry_type (vmem s) (zbigfs_start s) e = FTYPE_DIRECTORY"
    and buf: "0x8000000 \<le> unat buf" "unat buf + 33 \<le> 0x8400000"
  shows "\<exists>s'. ls_main w de l buf s = Some (s', 0) \<and> outputs s (listing (vmem s) (zbigfs_start s) 0) s'"
proof -
  have a: "unat (l (str ''.'')) + length (str ''.'') \<le> 0x8400000" using nm(3) by (simp add: str_def)
  obtain s1 h where
    s1: "ece391_open w de (l (str ''.'')) s = Some (s1, int k)" "prog_ok (length (listing (vmem s) (zbigfs_start s) 0)) s1" "outputs s [] s1"
      "fs_kept s s1" "cr3 s1 = cr3 s" "\<forall>b. b \<notin> kernel_frame \<longrightarrow> phys s1 b = phys s b"
      "cur_files s1 = (cur_files s)(k := h)" "in_use h" "optable h = Ops_directory" "pos h = 0"
    by (rule open_directory [OF ok de nm(1,2) a k e])
  have "lister de (int k) buf (length (listing (vmem s) (zbigfs_start s) 0)) 0 s1"
    using s1 de k buf fs_keptD(3) [OF s1(4)] by (simp add: lister_def)
  from ls_loop_eq [OF this, of w l] obtain s' where
    "ls_loop w de l buf (int k) s1 = Some (s', 0)" "outputs s1 (listing (vmem s) (zbigfs_start s) 0) s'"
    using listing_kept [OF s1(4)] by auto
  then show ?thesis using s1(1) outputs_trans [OF s1(3)] by (auto simp: ls_main_def)
qed

section \<open>A concrete directory\<close>

text \<open>An image with only the directory entry \<open>.\<close>, and a process with that name at the start of its memory.\<close>

definition demo_dir :: memory where
  "demo_dir = demo_fs(0x500040 := 0x2E, 0x500060 := 1)"

definition demo_user :: "byte list \<Rightarrow> kernel" where
  "demo_user xs = kernel_of 1 (wr_bytes demo_dir 0x800000 xs)"

lemma demo_dir_fs:
  "num_dentry demo_dir 0x500000 = 1" "fs_size demo_dir 0x500000 = 12288" "wf_fs demo_dir 0x500000"
  "entry_called demo_dir 0x500000 x 0 \<longleftrightarrow> take 31 x = [0x2E]" "entry_type demo_dir 0x500000 0 = FTYPE_DIRECTORY"
  "listing demo_dir 0x500000 0 = 0x2E # replicate 31 0 @ [10]"
proof -
  show h: "num_dentry demo_dir 0x500000 = 1" by (simp add: demo_dir_def demo_eval)
  have h2: "num_inode demo_dir 0x500000 = 1" "num_dblock demo_dir 0x500000 = 1" by (simp_all add: demo_dir_def demo_eval)
  have "file_len demo_dir 0x500000 0 = 3" "i_datablock_num demo_dir (inode_entry 0x500000 0) 0 = 0"
    by (simp_all add: file_len_def demo_dir_def demo_eval)
  from one_file_fs [OF h h2 this(1) _ this(2)] show "fs_size demo_dir 0x500000 = 12288" "wf_fs demo_dir 0x500000" by simp_all
  have "rd_bytes demo_dir (dentries 0x500000 0) 31 = 0x2E # replicate 30 0" by (simp add: demo_dir_def demo_eval)
  then show "entry_called demo_dir 0x500000 x 0 \<longleftrightarrow> take 31 x = [0x2E]" by (auto simp: entry_called_def)
  show "entry_type demo_dir 0x500000 0 = FTYPE_DIRECTORY" by (simp add: entry_type_def demo_dir_def demo_eval FTYPE_DIRECTORY_def)
  have "rd_bytes demo_dir (dentries 0x500000 0) 32 = 0x2E # replicate 31 0" by (simp add: demo_dir_def demo_eval)
  then show "listing demo_dir 0x500000 0 = 0x2E # replicate 31 0 @ [10]" by (simp add: listing_def h entry_name_def pad_nul_def)
qed

lemma demo_user_mounted:
  assumes "length xs \<le> 4096"
  shows "same_fs 0x500000 demo_dir (vmem (demo_user xs))" "fs_mounted (demo_user xs)" "zbigfs_start (demo_user xs) = 0x500000"
    "klocal (demo_user xs) 0x7F0000 40"
proof -
  have "disjoint_regions 0x800000 (length xs) 0x500000 12288" using assms by (intro disjoint_regions_intervalI) simp_all
  then have "same_fs 0x500000 demo_dir (wr_bytes demo_dir 0x800000 xs)" using assms by (intro same_fs_wr_bytes) (simp_all add: demo_dir_fs)
  from kernel_of_mounted [OF _ this demo_dir_fs(3), of 1]
  show k: "same_fs 0x500000 demo_dir (vmem (demo_user xs))" "fs_mounted (demo_user xs)" "zbigfs_start (demo_user xs) = 0x500000"
    by (simp_all add: demo_user_def demo_dir_fs MAX_PID_def kernel_of_fields)
  have "disjoint_regions 0x7F0000 40 0x500000 12288" by (rule disjoint_regions_intervalI) simp_all
  then show "klocal (demo_user xs) 0x7F0000 40"
    using same_fs_size [OF k(1) demo_dir_fs(3)] by (simp add: klocal_def k(3) demo_dir_fs)
qed

lemma demo_user_state:
  "current_active_process (demo_user xs) = 0" "current_terminal (demo_user xs) = 0" "cur_files (demo_user xs) = std_files"
  by (simp_all add: demo_user_def kernel_of_fields kernel_of_files)

lemma demo_user_prog: "length xs \<le> 4096 \<Longrightarrow> n < 2 ^ 24 \<Longrightarrow> prog_ok n (demo_user xs)"
  using kernel_of_prog [of 1 _ n] demo_user_mounted(2) by (simp add: demo_user_def MAX_PID_def)

lemma demo_user_rd:
  assumes "i + n \<le> length xs" and "length xs \<le> 4096"
  shows "rd_bytes (vmem (demo_user xs)) (0x8000000 + of_nat i) n = take n (drop i xs)"
proof -
  have u: "unat (0x8000000 + of_nat i :: u32) = 0x8000000 + i" using assms by (simp add: unat_plus_if' unat_of_nat_less)
  have "rd_bytes (vmem (demo_user xs)) (0x8000000 + of_nat i) n = rd_bytes (wr_bytes demo_dir 0x800000 xs) (0x800000 + of_nat i) n"
    unfolding demo_user_def using assms u by (subst kernel_of_user) (simp_all add: MAX_PID_def)
  also have "\<dots> = take n (drop i xs)" using assms by (subst rd_wr_inner) simp_all
  finally show ?thesis .
qed

theorem ls_prints_directory_witness:
  "\<exists>s'. ls_main idle_world 0x7F0000 (\<lambda>_. 0x8000000) 0x8000100 (demo_user [0x2E, 0]) = Some (s', 0) \<and>
     text_view 0 s' = fold (aputc (attribs 0)) (0x2E # replicate 31 0 @ [10]) (text_view 0 (demo_user [0x2E, 0]))"
proof -
  define s where "s = demo_user [0x2E, 0]"
  have m: "same_fs 0x500000 demo_dir (vmem s)" "fs_mounted s" "zbigfs_start s = 0x500000" "klocal s 0x7F0000 40"
    using demo_user_mounted [of "[0x2E, 0]"] by (simp_all add: s_def)
  have li: "listing (vmem s) (zbigfs_start s) 0 = 0x2E # replicate 31 0 @ [10]"
    using listing_same [OF m(1) demo_dir_fs(3)] by (simp add: m(3) demo_dir_fs)
  have "find (entry_called (vmem s) (zbigfs_start s) (str ''.'')) [0..<unat (num_dentry (vmem s) (zbigfs_start s))] = Some 0"
    unfolding m(3) find_called_same [OF m(1) demo_dir_fs(3)] by (simp add: demo_dir_fs str_def)
  moreover have "entry_type (vmem s) (zbigfs_start s) 0 = FTYPE_DIRECTORY"
    using same_fs_entry(1) [OF m(1) demo_dir_fs(3), of 0] by (simp add: m(3) demo_dir_fs)
  moreover have "vmem s 0x8000000 = 0x2E \<and> vmem s 0x8000001 = 0" using demo_user_rd [of 0 2 "[0x2E, 0]"] by (simp add: s_def numeral_2_eq_2)
  then have "cstring (vmem s) 0x8000000 (str ''.'')" by (simp add: cstring_Cons cstring_Nil str_def)
  moreover have "prog_ok (length (listing (vmem s) (zbigfs_start s) 0)) s" using demo_user_prog [of "[0x2E, 0]" 33] li by (simp flip: s_def)
  ultimately show ?thesis
    using ls_prints_directory [of s "0x7F0000" "\<lambda>_. 0x8000000" 2 0 "0x8000100" idle_world] m(4) std_files_fd2 li
    by (auto simp: demo_user_state outputs_def printc_def s_def)
qed

end
