(* ===== verification/Grep.thy ===== *)
theory Grep
  imports Listing "HOL-Library.Sublist"
begin

text \<open>
  The program \<^verbatim>\<open>ece391grep.c\<close>: it searches every file of the directory for the string given as its argument
  and prints the lines that contain it. The files are read into a buffer of 1024 bytes; a line that the
  end of the buffer cuts is moved to the front before the next read. \<open>sa\<close> is the address of the search
  string, \<open>fa\<close> that of the file name, \<open>data\<close> the buffer of \<open>do_one_file\<close>.
\<close>

section \<open>The program\<close>

definition BUFSIZE :: int where "BUFSIZE = 1024"

function find_end :: "memory \<Rightarrow> u32 \<Rightarrow> int \<Rightarrow> int \<Rightarrow> int" where
  "find_end m data last' line_end =
     (if line_end < last' \<and> m (data + of_int line_end) \<noteq> 10 then find_end m data last' (line_end + 1) else line_end)"
  by auto

termination by (relation "measure (\<lambda>(m, data, last', line_end). nat (last' - line_end))") auto

declare find_end.simps [simp del]

function grep_search :: "memory \<Rightarrow> u32 \<Rightarrow> u32 \<Rightarrow> u32 \<Rightarrow> int \<Rightarrow> int \<Rightarrow> bool option" where
  "grep_search m sa s_len data line_end check =
     (if check < line_end then
        (if sint (m sa) = uint (m (data + of_int check)) then
           (case ece391_strncmp m (data + of_int check) sa s_len of
              None \<Rightarrow> None
            | Some d \<Rightarrow> if d = 0 then Some True else grep_search m sa s_len data line_end (check + 1))
         else grep_search m sa s_len data line_end (check + 1))
      else Some False)"
  by auto

termination by (relation "measure (\<lambda>(m, sa, s_len, data, line_end, check). nat (line_end - check))") auto

declare grep_search.simps [simp del]

definition print_line :: "world \<Rightarrow> (byte list \<Rightarrow> u32) \<Rightarrow> u32 \<Rightarrow> u32 \<Rightarrow> 'a kernel_scheme \<Rightarrow> 'a kernel_scheme option" where
  "print_line w l fa a s = do {
     s \<leftarrow> ece391_fdputs w 1 fa s;
     s \<leftarrow> ece391_fdputs w 1 (l (str '':'')) s;
     s \<leftarrow> ece391_fdputs w 1 a s;
     ece391_fdputs w 1 (l [10]) s
   }"

definition grep_line ::
  "world \<Rightarrow> (byte list \<Rightarrow> u32) \<Rightarrow> u32 \<Rightarrow> u32 \<Rightarrow> u32 \<Rightarrow> u32 \<Rightarrow> int \<Rightarrow> int \<Rightarrow> 'a kernel_scheme \<Rightarrow> 'a kernel_scheme option" where
  "grep_line w l sa s_len fa data line_start line_end s = do {
     let s = ustore (data + of_int line_end) 0 s;
     found \<leftarrow> grep_search (vmem s) sa s_len data line_end line_start;
     if found then print_line w l fa (data + of_int line_start) s else Some s
   }"

partial_function (option) grep_lines ::
  "world \<Rightarrow> (byte list \<Rightarrow> u32) \<Rightarrow> u32 \<Rightarrow> u32 \<Rightarrow> u32 \<Rightarrow> u32 \<Rightarrow> int \<Rightarrow> int \<Rightarrow> int \<Rightarrow> 'a kernel_scheme \<Rightarrow> ('a kernel_scheme \<times> int) option" where
  "grep_lines w l sa s_len fa data cnt last' line_start s =
     (let line_end = find_end (vmem s) data last' line_start in
      if vmem s (data + of_int line_end) \<noteq> 10 \<and> cnt \<noteq> 0 \<and> line_start \<noteq> 0 then do {
        let s = ustore (data + of_int line_end) 0 s;
        m \<leftarrow> ece391_strcpy (vmem s) data (data + of_int line_start);
        Some (put_vmem m s, last' - line_start)
      }
      else do {
        s \<leftarrow> grep_line w l sa s_len fa data line_start line_end s;
        if last' \<le> line_end + 1 then Some (s, 0)
        else grep_lines w l sa s_len fa data cnt last' (line_end + 1) s
      })"

partial_function (option) grep_loop ::
  "world \<Rightarrow> u32 \<Rightarrow> (byte list \<Rightarrow> u32) \<Rightarrow> u32 \<Rightarrow> u32 \<Rightarrow> u32 \<Rightarrow> u32 \<Rightarrow> int \<Rightarrow> int \<Rightarrow> 'a kernel_scheme \<Rightarrow> ('a kernel_scheme \<times> int) option" where
  "grep_loop w de l sa s_len fa data fd last' s = do {
     (s, cnt) \<leftarrow> sys_read w de fd (data + of_int last') (of_int (BUFSIZE - last')) s;
     if cnt = - 1 then fail_with w l (str ''file read failed'' @ [10]) (- 1) s
     else do {
       (s, last') \<leftarrow> grep_lines w l sa s_len fa data cnt (last' + cnt) 0 s;
       if cnt = 0 then Some (s, 0) else grep_loop w de l sa s_len fa data fd last' s
     }
   }"

definition do_one_file ::
  "world \<Rightarrow> u32 \<Rightarrow> (byte list \<Rightarrow> u32) \<Rightarrow> u32 \<Rightarrow> u32 \<Rightarrow> u32 \<Rightarrow> 'a kernel_scheme \<Rightarrow> ('a kernel_scheme \<times> int) option" where
  "do_one_file w de l data sa fa s = do {
     s_len \<leftarrow> ece391_strlen (vmem s) sa;
     (s, fd) \<leftarrow> ece391_open w de fa s;
     if fd = - 1 then fail_with w l (str ''file open failed'' @ [10]) (- 1) s
     else do {
       (s, r) \<leftarrow> grep_loop w de l sa s_len fa data fd 0 s;
       if r = - 1 then Some (s, - 1)
       else
         (let (s, r) = syscall_close fd s in
          if r = - 1 then fail_with w l (str ''file close failed'' @ [10]) (- 1) s else Some (s, 0))
     }
   }"

partial_function (option) grep_files ::
  "world \<Rightarrow> u32 \<Rightarrow> (byte list \<Rightarrow> u32) \<Rightarrow> u32 \<Rightarrow> u32 \<Rightarrow> u32 \<Rightarrow> int \<Rightarrow> 'a kernel_scheme \<Rightarrow> ('a kernel_scheme \<times> int) option" where
  "grep_files w de l data sa buf fd s = do {
     (s, cnt) \<leftarrow> sys_read w de fd buf (of_int (SBUFSIZE - 1)) s;
     if cnt = 0 then Some (s, 0)
     else if cnt = - 1 then fail_with w l (str ''directory entry read failed'' @ [10]) 3 s
     else if vmem s buf = 0x2E then grep_files w de l data sa buf fd s
     else do {
       (s, r) \<leftarrow> do_one_file w de l data sa buf (ustore (buf + of_int cnt) 0 s);
       if r \<noteq> 0 then Some (s, 3) else grep_files w de l data sa buf fd s
     }
   }"

definition grep_main ::
  "world \<Rightarrow> u32 \<Rightarrow> (byte list \<Rightarrow> u32) \<Rightarrow> u32 \<Rightarrow> u32 \<Rightarrow> u32 \<Rightarrow> 'a kernel_scheme \<Rightarrow> ('a kernel_scheme \<times> int) option" where
  "grep_main w de l data sa buf s =
     (let (s, r) = syscall_getargs sa 1024 s in
      if r \<noteq> 0 then fail_with w l (str ''could not read argument'' @ [10]) 3 s
      else do {
        (s, fd) \<leftarrow> ece391_open w de (l (str ''.'')) s;
        if fd = - 1 then fail_with w l (str ''directory open failed'' @ [10]) 2 s
        else grep_files w de l data sa buf fd s
      })"

section \<open>Lines\<close>

text \<open>
  The lines of a text, those that contain a non-empty string, and what is printed for a file. The program
  compares the first character of the string as a signed \<open>char\<close> with an unsigned byte, so that a string
  whose first byte is 0x80 or more is never found.
\<close>

fun file_lines :: "byte list \<Rightarrow> byte list list" where
  "file_lines [] = [[]]"
| "file_lines (x # xs) =
     (if x = 10 then [] # file_lines xs else (case file_lines xs of [] \<Rightarrow> [[x]] | ln # lns \<Rightarrow> (x # ln) # lns))"

definition line_matches :: "byte list \<Rightarrow> byte list \<Rightarrow> bool" where
  "line_matches pat ln \<longleftrightarrow> pat \<noteq> [] \<and> hd pat < 0x80 \<and> sublist pat ln"

definition line_output :: "byte list \<Rightarrow> byte list \<Rightarrow> byte list \<Rightarrow> byte list" where
  "line_output pat nm ln = (if line_matches pat ln then nm @ str '':'' @ ln @ [10] else [])"

definition grep_output :: "byte list \<Rightarrow> byte list \<Rightarrow> byte list \<Rightarrow> byte list" where
  "grep_output pat nm xs = concat (map (line_output pat nm) (file_lines xs))"

lemma file_lines_last: "10 \<notin> set xs \<Longrightarrow> file_lines xs = [xs]"
  by (induction xs) auto

lemma file_lines_first: "10 \<notin> set xs \<Longrightarrow> file_lines (xs @ 10 # ys) = xs # file_lines ys"
  by (induction xs) auto

lemma file_lines_long: "10 \<notin> set xs \<Longrightarrow> \<exists>ln \<in> set (file_lines (xs @ ys)). length xs \<le> length ln"
proof (cases "10 \<in> set ys")
  case True
  then obtain us vs where "ys = us @ 10 # vs" "10 \<notin> set us" by (meson split_list_first)
  then show "10 \<notin> set xs \<Longrightarrow> ?thesis" using file_lines_first [of "xs @ us" vs] by simp
next
  case False
  then show "10 \<notin> set xs \<Longrightarrow> ?thesis" using file_lines_last [of "xs @ ys"] by simp
qed

lemma line_output_Nil [simp]: "line_output pat nm [] = []"
  by (simp add: line_output_def line_matches_def)

lemma grep_output_last: "10 \<notin> set xs \<Longrightarrow> grep_output pat nm xs = line_output pat nm xs"
  by (simp add: grep_output_def file_lines_last)

lemma grep_output_first: "10 \<notin> set xs \<Longrightarrow> grep_output pat nm (xs @ 10 # ys) = line_output pat nm xs @ grep_output pat nm ys"
  by (simp add: grep_output_def file_lines_first)

section \<open>Scanning the buffer\<close>

lemma find_end_eq:
  assumes "rd_bytes m (data + of_int i) (length xs) = xs"
  shows "find_end m data (i + int (length xs)) i = i + int (length (takeWhile (\<lambda>x. x \<noteq> 10) xs))"
  using assms
proof (induction xs arbitrary: i)
  case Nil
  then show ?case by (subst find_end.simps) simp
next
  case (Cons x xs)
  have x: "m (data + of_int i) = x" "rd_bytes m (data + of_int (i + 1)) (length xs) = xs" using Cons.prems by (simp_all add: add.assoc)
  show ?case using Cons.IH [OF x(2)] x(1) by (subst find_end.simps) (simp add: algebra_simps)
qed

lemma cstring_prefix:
  assumes "cstring m a xs" and "0 \<notin> set p"
  shows "rd_bytes m a (length p) = p \<longleftrightarrow> prefix p xs"
  using assms
proof (induction p arbitrary: a xs)
  case (Cons y p)
  then show ?case by (cases xs) (auto simp: cstring_Nil cstring_Cons)
qed simp

lemma signed_unsigned_byte: "sint y = uint x \<longleftrightarrow> y = x \<and> y < 0x80" for x y :: byte
proof -
  have "(uint y + 128) mod 256 = uint y - 128" if "\<not> uint y < 128"
  proof -
    have "(uint y + 128) mod 256 = (uint y - 128 + 256) mod 256" by (simp add: add.commute)
    also have "\<dots> = uint y - 128" unfolding mod_add_self2 using that uint_lt2p [of y] by (intro mod_pos_pos_trivial) simp_all
    finally show ?thesis .
  qed
  then have "sint y = (if uint y < 128 then uint y else uint y - 256)" using uint_lt2p [of y]
    by (auto simp: sint_uint signed_take_bit_eq_take_bit_shift take_bit_eq_mod)
  moreover have "uint y < 256" using uint_lt2p [of y] by simp
  then have "uint y - 256 \<noteq> uint x" using uint_ge_0 [of x] by linarith
  ultimately show ?thesis by (auto simp: word_less_def word_uint_eq_iff)
qed

lemma grep_search_eq:
  assumes "cstring m (data + of_int i) xs" and pat: "cstring m sa pat" "length pat < 2 ^ 32"
  shows "grep_search m sa (of_nat (length pat)) data (i + int (length xs)) i = Some (line_matches pat xs)"
  using assms(1)
proof (induction xs arbitrary: i)
  case Nil
  then show ?case by (subst grep_search.simps) (simp add: line_matches_def)
next
  case (Cons x xs)
  have x: "m (data + of_int i) = x" "x \<noteq> 0" "cstring m (data + of_int (i + 1)) xs" using Cons.prems by (simp_all add: cstring_Cons add.assoc)
  have z: "0 \<notin> set pat" using pat(1) by (simp add: cstring_def)
  have e: "i + int (length (x # xs)) = i + 1 + int (length xs)" "i < i + 1 + int (length xs)" by simp_all
  obtain d where d: "ece391_strncmp m (data + of_int i) sa (of_nat (length pat)) = Some d" "d = 0 \<longleftrightarrow> prefix pat (x # xs)"
    using ece391_strncmp_prefix [OF pat, of "data + of_int i"] cstring_prefix [OF Cons.prems z] by auto
  show ?case
  proof (cases pat)
    case Nil
    then have "m sa = 0" using pat(1) by (simp add: cstring_Nil)
    then show ?thesis using x Cons.IH [OF x(3)] Nil unfolding e(1)
      by (subst grep_search.simps) (auto simp: line_matches_def signed_unsigned_byte uint_0_iff)
  next
    case (Cons y ys)
    then have "m sa = y" using pat(1) by (simp add: cstring_Cons)
    then show ?thesis using x d e(2) Cons Cons.IH [OF x(3)] unfolding e(1)
      by (subst grep_search.simps) (auto simp: line_matches_def sublist_Cons_right signed_unsigned_byte)
  qed
qed

section \<open>One line\<close>

text \<open>The strings that the program uses beside its buffer.\<close>

definition grep_ok :: "(byte list \<Rightarrow> u32) \<Rightarrow> u32 \<Rightarrow> byte list \<Rightarrow> u32 \<Rightarrow> byte list \<Rightarrow> u32 \<Rightarrow> 'a kernel_scheme \<Rightarrow> bool" where
  "grep_ok l sa pat fa nm data s \<longleftrightarrow> 0x8000000 \<le> unat data \<and> unat data + 1025 \<le> 0x8400000 \<and>
     (\<forall>(a, xs) \<in> set [(sa, pat), (fa, nm), (l (str '':''), str '':''), (l [10], [10])].
        ustring s a xs \<and> disjoint_regions a (Suc (length xs)) data 1025)"

lemma grep_ok_kept: "grep_ok l sa pat fa nm data s \<Longrightarrow> effect K (region data 1025) s ys s' \<Longrightarrow> grep_ok l sa pat fa nm data s'"
  unfolding grep_ok_def disjoint_regions_def using ustring_kept by fast

lemma buffer_addr:
  assumes "0x8000000 \<le> unat data" and "unat data + 1025 \<le> 0x8400000" and "j \<le> 1024"
  shows "unat (data + of_nat j) = unat data + j" "user_addr (data + of_nat j)" "data + of_nat j \<in> region data 1025"
proof -
  show u: "unat (data + of_nat j) = unat data + j" using assms by (simp add: unat_plus_if' unat_of_nat_less)
  then show "user_addr (data + of_nat j)" using assms by (simp add: user_addr_def)
  show "data + of_nat j \<in> region data 1025" using assms by (intro add_in_region) simp_all
qed

lemma print_line_effect:
  assumes ok: "prog_ok (length (nm @ str '':'' @ ln @ [10]) + n) s" and g: "grep_ok l sa pat fa nm data s" and ln: "ustring s a ln"
  obtains s' where "print_line w l fa a s = Some s'" "effect {} {} s (nm @ str '':'' @ ln @ [10]) s'" "prog_ok n s'"
proof -
  have u: "ustring s fa nm" "ustring s (l (str '':'')) (str '':'')" "ustring s (l [10]) [10]" using g by (auto simp: grep_ok_def)
  have k1: "prog_ok (length nm + (length (str '':'') + (length ln + (length [10 :: byte] + n)))) s" using ok by (simp add: ac_simps)
  obtain s1 where s1: "ece391_fdputs w 1 fa s = Some s1" "effect {} {} s nm s1" "prog_ok (length (str '':'') + (length ln + (length [10 :: byte] + n))) s1"
    by (rule fdputs_effect [OF k1 u(1)])
  have u1: "ustring s1 (l (str '':'')) (str '':'')" using ustring_kept [OF u(2) s1(2)] by simp
  obtain s2 where s2: "ece391_fdputs w 1 (l (str '':'')) s1 = Some s2" "effect {} {} s1 (str '':'') s2" "prog_ok (length ln + (length [10 :: byte] + n)) s2"
    by (rule fdputs_effect [OF s1(3) u1])
  note e2 = effect_trans [OF s1(2) s2(2)]
  have u2: "ustring s2 a ln" using ustring_kept [OF ln e2] by simp
  obtain s3 where s3: "ece391_fdputs w 1 a s2 = Some s3" "effect {} {} s2 ln s3" "prog_ok (length [10 :: byte] + n) s3"
    by (rule fdputs_effect [OF s2(3) u2])
  note e3 = effect_trans [OF e2 s3(2)]
  have u3: "ustring s3 (l [10]) [10]" using ustring_kept [OF u(3) e3] by simp
  obtain s' where s': "ece391_fdputs w 1 (l [10]) s3 = Some s'" "effect {} {} s3 [10] s'" "prog_ok n s'"
    by (rule fdputs_effect [OF s3(3) u3])
  show thesis using that s1(1) s2(1) s3(1) s'(1,3) effect_trans [OF e3 s'(2)] by (simp add: print_line_def)
qed

text \<open>Ending a line in the buffer with a zero byte.\<close>

lemma line_ended:
  assumes ok: "prog_ok n s" and d: "0x8000000 \<le> unat data" "unat data + 1025 \<le> 0x8400000"
    and ln: "rd_bytes (vmem s) (data + of_nat i) (length ln) = ln" "0 \<notin> set ln" "i + length ln \<le> 1024"
    and s': "s' = ustore (data + of_nat (i + length ln)) 0 s"
  shows "prog_ok n s'" "effect {} {data + of_nat (i + length ln)} s [] s'" "ustring s' (data + of_nat i) ln" "vmem s' (data + of_nat (i + length ln)) = 0"
proof -
  note a = buffer_addr [OF d ln(3)]
  note e = ustore_effect [OF ok a(2) s']
  show "prog_ok n s'" "effect {} {data + of_nat (i + length ln)} s [] s'" by (rule e)+
  show z: "vmem s' (data + of_nat (i + length ln)) = 0" using e(3) [OF a(2)] by simp
  have i: "unat (data + of_nat i) = unat data + i" using buffer_addr(1) [OF d, of i] ln(3) by simp
  then have "region (data + of_nat i) (length ln) \<inter> {data + of_nat (i + length ln)} = {}"
    using region_interval [of "data + of_nat i" "length ln"] d ln(3) a(1) by auto
  from effect_rd [OF e(2) _ _ this] have "rd_bytes (vmem s') (data + of_nat i) (length ln) = ln" using i d ln(1,3) by simp
  then have "rd_bytes (vmem s') (data + of_nat i) (length ln + 1) = ln @ [0]" unfolding rd_bytes_add using z by (simp add: ac_simps)
  then show "ustring s' (data + of_nat i) ln" using ln(2,3) i d by (simp add: ustring_def cstring_def)
qed

lemma grep_line_effect:
  assumes ok: "prog_ok (length (line_output pat nm ln) + n) s" and g: "grep_ok l sa pat fa nm data s"
    and ln: "rd_bytes (vmem s) (data + of_nat i) (length ln) = ln" "0 \<notin> set ln" "i + length ln \<le> 1024"
  obtains s' where "grep_line w l sa (of_nat (length pat)) fa data (int i) (int (i + length ln)) s = Some s'"
    "effect {} {data + of_nat (i + length ln)} s (line_output pat nm ln) s'" "prog_ok n s'" "vmem s' (data + of_nat (i + length ln)) = 0"
proof -
  define a where "a = data + of_nat (i + length ln)"
  define s1 where "s1 = ustore a 0 s"
  have d: "0x8000000 \<le> unat data" "unat data + 1025 \<le> 0x8400000" using g by (simp_all add: grep_ok_def)
  note a = buffer_addr [OF d ln(3), folded a_def]
  note e = line_ended [OF ok d ln s1_def [unfolded a_def], folded a_def]
  have g1: "grep_ok l sa pat fa nm data s1" using grep_ok_kept [OF g effect_mono [OF e(2), of "{}"]] a(3) by simp
  have p: "cstring (vmem s1) sa pat" "length pat < 2 ^ 32" using g1 by (auto simp: grep_ok_def ustring_def)
  have c: "cstring (vmem s1) (data + of_int (int i)) ln" using e(3) by (simp add: ustring_def)
  have f: "grep_search (vmem s1) sa (of_nat (length pat)) data (int (i + length ln)) (int i) = Some (line_matches pat ln)"
    using grep_search_eq [OF c p] by simp
  show thesis
  proof (cases "line_matches pat ln")
    case True
    then have o: "line_output pat nm ln = nm @ str '':'' @ ln @ [10]" by (simp add: line_output_def)
    obtain s' where s': "print_line w l fa (data + of_nat i) s1 = Some s'" "effect {} {} s1 (nm @ str '':'' @ ln @ [10]) s'" "prog_ok n s'"
      by (rule print_line_effect [OF e(1) [unfolded o] g1 e(3)])
    have "vmem s' a = 0" using s'(2) a(2) e(4) by (simp add: effect_def)
    moreover have "effect {} {a} s (line_output pat nm ln) s'" using effect_trans [OF e(2) effect_mono [OF s'(2), of "{}" "{a}"]] o by simp
    ultimately show thesis using that f True s'(1,3) by (simp add: grep_line_def s1_def a_def)
  next
    case False
    then have "line_output pat nm ln = []" by (simp add: line_output_def)
    then show thesis using that f False e by (simp add: grep_line_def s1_def a_def)
  qed
qed

lemma move_line:
  assumes ok: "prog_ok n s" and d: "0x8000000 \<le> unat data" "unat data + 1025 \<le> 0x8400000"
    and ln: "rd_bytes (vmem s) (data + of_nat i) (length ln) = ln" "0 \<notin> set ln" "i + length ln \<le> 1024" and i: "0 < i"
    and s1: "s1 = ustore (data + of_nat (i + length ln)) 0 s"
  obtains m where "ece391_strcpy (vmem s1) data (data + of_nat i) = Some m" "effect {} (region data 1025) s [] (put_vmem m s1)"
    "prog_ok n (put_vmem m s1)" "rd_bytes (vmem (put_vmem m s1)) data (length ln) = ln"
    "vmem (put_vmem m s1) (data + 1024) \<in> {0, vmem s (data + 1024)}"
proof -
  note a = buffer_addr [OF d ln(3)]
  note e = line_ended [OF ok d ln s1]
  define m where "m = wr_bytes (vmem s1) data (ln @ [0])"
  have ai: "unat (data + of_nat i) = unat data + i" using buffer_addr(1) [OF d, of i] ln(3) by simp
  have "ece391_strcpy (vmem s1) data (data + of_nat i) = Some m"
    unfolding m_def using e(3) ai ln(3) d by (intro ece391_strcpy_down) (simp_all add: ustring_def)
  moreover have len: "unat data + length (ln @ [0 :: byte]) \<le> 0x8400000" using ln(3) d by simp
  note q = store_effect [OF e(1) d(1) len refl, folded m_def]
  have "region data (length (ln @ [0 :: byte])) \<subseteq> region data 1025" using ln(3) by (intro region_mono) simp
  then have "effect {} (region data 1025) s [] (put_vmem m s1)"
    using effect_trans [OF effect_mono [OF e(2), of "{}" "region data 1025"] effect_mono [OF q(2), of "{}" "region data 1025"]] a(3) by simp
  moreover have "rd_bytes (vmem (put_vmem m s1)) data (length ln) = ln"
  proof -
    have "rd_bytes (vmem (put_vmem m s1)) data (length ln) = rd_bytes m data (length ln)"
      using q(3) buffer_addr(2) [OF d] ln(3) by (intro rd_bytes_cong) simp
    also have "\<dots> = ln" using rd_wr_inner [of 0 "length ln" "ln @ [0]" "vmem s1" data] ln(3) by (simp add: m_def)
    finally show ?thesis .
  qed
  moreover have "vmem (put_vmem m s1) (data + 1024) \<in> {0, vmem s (data + 1024)}"
  proof -
    have u: "user_addr (data + 1024)" using buffer_addr(2) [OF d, of 1024] by simp
    have "data + 1024 \<notin> region data (length (ln @ [0 :: byte]))" using ln(3) i by (simp add: region_def)
    then have "m (data + 1024) = vmem s1 (data + 1024)" unfolding m_def using ln(3) by (intro wr_bytes_outside) simp_all
    moreover have "vmem s1 (data + 1024) \<in> {0, vmem s (data + 1024)}"
      using e(2,4) u by (cases "data + 1024 = data + of_nat (i + length ln)") (auto simp: effect_def)
    ultimately show ?thesis using q(3) [OF u] by simp
  qed
  ultimately show thesis using that q(1) by blast
qed

section \<open>A full buffer\<close>

text \<open>
  The buffer holds the bytes \<open>D\<close> of the file from position \<open>i\<close> to \<open>t\<close>, and \<open>rs\<close> is still unread. Unless the
  file is exhausted the buffer is full, and no line of the file is as long as the buffer. Then all complete
  lines are searched, and the incomplete line \<open>c\<close> at the end is left at the front of the buffer.
\<close>

definition short_lines :: "byte list \<Rightarrow> bool" where
  "short_lines xs \<longleftrightarrow> (\<forall>ln \<in> set (file_lines xs). length ln < 1024)"

lemma short_lines_tail: "10 \<notin> set xs \<Longrightarrow> short_lines (xs @ 10 # ys) \<Longrightarrow> short_lines ys"
  by (simp add: short_lines_def file_lines_first)

definition filled :: "u32 \<Rightarrow> nat \<Rightarrow> byte list \<Rightarrow> byte list \<Rightarrow> 'a kernel_scheme \<Rightarrow> bool" where
  "filled data i D rs s \<longleftrightarrow> rd_bytes (vmem s) (data + of_nat i) (length D) = D \<and> 0 \<notin> set D \<and> i + length D \<le> 1024 \<and>
     short_lines (D @ rs) \<and> vmem s (data + 1024) \<noteq> 10"

definition searched ::
  "byte list \<Rightarrow> byte list \<Rightarrow> u32 \<Rightarrow> nat \<Rightarrow> byte list \<Rightarrow> byte list \<Rightarrow> 'a kernel_scheme \<Rightarrow> byte list \<Rightarrow> 'a kernel_scheme \<Rightarrow> bool" where
  "searched pat nm data n D rs s c s' \<longleftrightarrow> filled data 0 c rs s' \<and> 10 \<notin> set c \<and> length c < 1024 \<and>
     prog_ok (length (grep_output pat nm (c @ rs)) + n) s' \<and>
     (\<exists>xs. effect {} (region data 1025) s xs s' \<and> grep_output pat nm (D @ rs) = xs @ grep_output pat nm (c @ rs))"

lemma searched_step:
  assumes "searched pat nm data n D' rs s1 c s'" and "effect {} (region data 1025) s xs s1"
    and "grep_output pat nm (D @ rs) = xs @ grep_output pat nm (D' @ rs)"
  shows "searched pat nm data n D rs s c s'"
  using assms effect_trans [OF assms(2)] unfolding searched_def by fastforce

lemma searched_all:
  assumes "effect {} (region data 1025) s xs s'" and "prog_ok (length (grep_output pat nm rs) + n) s'"
    and "grep_output pat nm (D @ rs) = xs @ grep_output pat nm rs" and "short_lines rs" and "vmem s' (data + 1024) \<noteq> 10"
  shows "searched pat nm data n D rs s [] s'"
  using assms by (auto simp: searched_def filled_def)

lemma last_byte:
  assumes "effect {} {data + of_nat j} s xs s'" and "vmem s' (data + of_nat j) = 0" and "vmem s (data + 1024) \<noteq> 10" and "user_addr (data + 1024)"
  shows "vmem s' (data + 1024) \<noteq> 10"
  using assms by (cases "data + 1024 = data + of_nat j") (auto simp: effect_def)

text \<open>A complete line is searched and the loop goes on after it.\<close>

lemma grep_lines_next:
  assumes g: "grep_ok l sa pat fa nm data s" and f: "filled data i D rs s" and t: "t = i + length D"
    and D: "D = ln @ 10 # D'" "10 \<notin> set ln" and ok: "prog_ok (length (grep_output pat nm (D @ rs)) + n) s"
  obtains s1 where "grep_lines w l sa (of_nat (length pat)) fa data cnt (int t) (int i) s =
      (if D' = [] then Some (s1, 0) else grep_lines w l sa (of_nat (length pat)) fa data cnt (int t) (int (Suc (i + length ln))) s1)"
    "effect {} (region data 1025) s (line_output pat nm ln) s1" "filled data (Suc (i + length ln)) D' rs s1"
    "prog_ok (length (grep_output pat nm (D' @ rs)) + n) s1"
proof -
  have d: "0x8000000 \<le> unat data" "unat data + 1025 \<le> 0x8400000" using g by (simp_all add: grep_ok_def)
  have F: "rd_bytes (vmem s) (data + of_nat i) (length D) = D" "0 \<notin> set D" "i + length D \<le> 1024" "short_lines (D @ rs)" "vmem s (data + 1024) \<noteq> 10"
    using f by (simp_all add: filled_def)
  have e: "i + length ln \<le> 1024" "0 \<notin> set ln" "Suc (i + length ln) + length D' = t" "t \<le> 1024" using F D t by auto
  have r: "rd_bytes (vmem s) (data + of_nat i) (length ln) = ln" "vmem s (data + of_nat (i + length ln)) = 10"
    "rd_bytes (vmem s) (data + of_nat (Suc (i + length ln))) (length D') = D'"
    using rd_bytes_part [OF F(1), of 0 "length ln"] rd_bytes_part [OF F(1), of "length ln" 1]
      rd_bytes_part [OF F(1), of "Suc (length ln)" "length D'"] D by (simp_all add: ac_simps)
  have "takeWhile (\<lambda>x. x \<noteq> 10) D = ln" using D by (auto simp: takeWhile_append)
  then have fe: "find_end (vmem s) data (int t) (int i) = int (i + length ln)"
    using find_end_eq [of "vmem s" data "int i" D] F(1) t by simp
  have ok': "prog_ok (length (line_output pat nm ln) + (length (grep_output pat nm (D' @ rs)) + n)) s"
    using ok grep_output_first [OF D(2), of pat nm "D' @ rs"] D(1) by (simp add: ac_simps)
  obtain s1 where s1: "grep_line w l sa (of_nat (length pat)) fa data (int i) (int (i + length ln)) s = Some s1"
    "effect {} {data + of_nat (i + length ln)} s (line_output pat nm ln) s1" "prog_ok (length (grep_output pat nm (D' @ rs)) + n) s1"
    "vmem s1 (data + of_nat (i + length ln)) = 0"
    by (rule grep_line_effect [OF ok' g r(1) e(2,1)])
  have "grep_lines w l sa (of_nat (length pat)) fa data cnt (int t) (int i) s =
      (if D' = [] then Some (s1, 0) else grep_lines w l sa (of_nat (length pat)) fa data cnt (int t) (int (Suc (i + length ln))) s1)"
    using r(2) s1(1) e(3) by (subst grep_lines.simps) (auto simp: fe Let_def ac_simps)
  moreover have "effect {} (region data 1025) s (line_output pat nm ln) s1" using effect_mono [OF s1(2)] buffer_addr(3) [OF d e(1)] by simp
  moreover have lb: "vmem s1 (data + 1024) \<noteq> 10" using buffer_addr(2) [OF d, of 1024] by (intro last_byte [OF s1(2,4) F(5)]) simp
  have "rd_bytes (vmem s1) (data + of_nat (Suc (i + length ln))) (length D') = D'"
  proof -
    have a: "unat (data + of_nat (Suc (i + length ln))) = unat data + Suc (i + length ln)" using buffer_addr(1) [OF d, of "Suc (i + length ln)"] e by simp
    then have "region (data + of_nat (Suc (i + length ln))) (length D') \<inter> {data + of_nat (i + length ln)} = {}"
      using region_interval [of "data + of_nat (Suc (i + length ln))" "length D'"] d e buffer_addr(1) [OF d e(1)] by auto
    from effect_rd [OF s1(2) _ _ this] show ?thesis using a d e r(3) by simp
  qed
  then have "filled data (Suc (i + length ln)) D' rs s1" using F(2,4) D e lb short_lines_tail [OF D(2)] by (simp add: filled_def)
  ultimately show thesis using that s1(3) by blast
qed

text \<open>An incomplete line is moved to the front, or searched when it is the last one of the file.\<close>

lemma grep_lines_end:
  assumes g: "grep_ok l sa pat fa nm data s" and f: "filled data i D rs s" and t: "t = i + length D" and rs: "rs \<noteq> [] \<Longrightarrow> t = 1024 \<and> cnt \<noteq> 0"
    and D: "10 \<notin> set D" and ok: "prog_ok (length (grep_output pat nm (D @ rs)) + n) s"
  shows "\<exists>s' c. grep_lines w l sa (of_nat (length pat)) fa data cnt (int t) (int i) s = Some (s', int (length c)) \<and>
     (cnt = 0 \<longrightarrow> c = []) \<and> searched pat nm data n D rs s c s'"
proof -
  have d: "0x8000000 \<le> unat data" "unat data + 1025 \<le> 0x8400000" using g by (simp_all add: grep_ok_def)
  have F: "rd_bytes (vmem s) (data + of_nat i) (length D) = D" "0 \<notin> set D" "i + length D \<le> 1024" "short_lines (D @ rs)" "vmem s (data + 1024) \<noteq> 10"
    using f by (simp_all add: filled_def)
  have tw: "takeWhile (\<lambda>x. x \<noteq> 10) D = D" using D by (auto simp: takeWhile_eq_all_conv)
  have fe: "find_end (vmem s) data (int t) (int i) = int t" "int t - int i = int (length D)"
    using find_end_eq [of "vmem s" data "int i" D] F(1) t by (simp_all add: tw)
  show ?thesis
  proof (cases "vmem s (data + of_nat t) \<noteq> 10 \<and> cnt \<noteq> 0 \<and> i \<noteq> 0")
    case True
    define s1 where "s1 = ustore (data + of_nat t) 0 s"
    have i: "0 < i" and s1: "s1 = ustore (data + of_nat (i + length D)) 0 s" using True t by (simp_all add: s1_def)
    obtain m where m: "ece391_strcpy (vmem s1) data (data + of_nat i) = Some m" "effect {} (region data 1025) s [] (put_vmem m s1)"
      "prog_ok (length (grep_output pat nm (D @ rs)) + n) (put_vmem m s1)" "rd_bytes (vmem (put_vmem m s1)) data (length D) = D"
      "vmem (put_vmem m s1) (data + 1024) \<in> {0, vmem s (data + 1024)}"
      by (rule move_line [OF ok d F(1-3) i s1])
    have "searched pat nm data n D rs s D (put_vmem m s1)"
      using m F i D unfolding searched_def filled_def by (auto intro!: exI [of _ "[]"])
    moreover have "grep_lines w l sa (of_nat (length pat)) fa data cnt (int t) (int i) s = Some (put_vmem m s1, int (length D))"
      using True m(1) by (subst grep_lines.simps) (simp add: fe Let_def flip: s1_def)
    ultimately show ?thesis using True by blast
  next
    case False
    have "length D = 1024" if "rs \<noteq> []"
    proof -
      have "t = 1024" "cnt \<noteq> 0" using rs [OF that] by simp_all
      then have "i = 0" using False F(5) by simp
      then show ?thesis using t \<open>t = 1024\<close> by simp
    qed
    then have nil: "rs = []" using file_lines_long [OF D, of rs] F(4) by (fastforce simp: short_lines_def)
    have go: "grep_output pat nm (D @ rs) = line_output pat nm D" using grep_output_last [OF D] nil by simp
    have ok': "prog_ok (length (line_output pat nm D) + n) s" using ok go by simp
    obtain s1 where s1: "grep_line w l sa (of_nat (length pat)) fa data (int i) (int (i + length D)) s = Some s1"
      "effect {} {data + of_nat (i + length D)} s (line_output pat nm D) s1" "prog_ok n s1" "vmem s1 (data + of_nat (i + length D)) = 0"
      by (rule grep_line_effect [OF ok' g F(1-3)])
    have e1: "effect {} (region data 1025) s (line_output pat nm D) s1" using effect_mono [OF s1(2)] buffer_addr(3) [OF d F(3)] by simp
    have lb: "vmem s1 (data + 1024) \<noteq> 10" using buffer_addr(2) [OF d, of 1024] by (intro last_byte [OF s1(2,4) F(5)]) simp
    have "grep_output pat nm [] = []" by (simp add: grep_output_def)
    then have "searched pat nm data n D rs s [] s1" using searched_all [OF e1 _ _ _ lb] s1(3) go nil by (simp add: short_lines_def)
    moreover have "grep_lines w l sa (of_nat (length pat)) fa data cnt (int t) (int i) s = Some (s1, 0)"
      using False s1(1) [folded t] by (subst grep_lines.simps) (auto simp: fe Let_def)
    ultimately show ?thesis by (intro exI [of _ s1] exI [of _ "[]"]) simp
  qed
qed

lemma grep_lines_effect:
  assumes "grep_ok l sa pat fa nm data s" and "filled data i D rs s" and "t = i + length D" and "rs \<noteq> [] \<Longrightarrow> t = 1024 \<and> cnt \<noteq> 0"
    and "prog_ok (length (grep_output pat nm (D @ rs)) + n) s"
  shows "\<exists>s' c. grep_lines w l sa (of_nat (length pat)) fa data cnt (int t) (int i) s = Some (s', int (length c)) \<and>
     (cnt = 0 \<longrightarrow> c = []) \<and> searched pat nm data n D rs s c s'"
  using assms
proof (induction "length D" arbitrary: D i s rule: less_induct)
  case less
  show ?case
  proof (cases "10 \<in> set D")
    case True
    then obtain ln D' where D: "D = ln @ 10 # D'" "10 \<notin> set ln" by (meson split_list_first)
    have go: "grep_output pat nm (D @ rs) = line_output pat nm ln @ grep_output pat nm (D' @ rs)"
      using grep_output_first [OF D(2), of pat nm "D' @ rs"] D(1) by simp
    obtain s1 where s1: "grep_lines w l sa (of_nat (length pat)) fa data cnt (int t) (int i) s =
        (if D' = [] then Some (s1, 0) else grep_lines w l sa (of_nat (length pat)) fa data cnt (int t) (int (Suc (i + length ln))) s1)"
      "effect {} (region data 1025) s (line_output pat nm ln) s1" "filled data (Suc (i + length ln)) D' rs s1"
      "prog_ok (length (grep_output pat nm (D' @ rs)) + n) s1"
      by (rule grep_lines_next [OF less.prems(1-3) D less.prems(5)])
    show ?thesis
    proof (cases "D' = []")
      case True
      then have "searched pat nm data n D rs s [] s1" using searched_all [OF s1(2)] s1(3,4) go by (simp add: filled_def)
      then show ?thesis using s1(1) True by auto
    next
      case False
      have "length D' < length D" "t = Suc (i + length ln) + length D'" using D(1) less.prems(3) by simp_all
      from less.hyps [OF this(1) grep_ok_kept [OF less.prems(1) s1(2)] s1(3) this(2) less.prems(4) s1(4)]
      obtain s' c where "grep_lines w l sa (of_nat (length pat)) fa data cnt (int t) (int (Suc (i + length ln))) s1 = Some (s', int (length c))"
        "cnt = 0 \<longrightarrow> c = []" "searched pat nm data n D' rs s1 c s'" by auto
      then show ?thesis using s1(1) False searched_step [OF _ s1(2) go] by auto
    qed
  next
    case False
    then show ?thesis using less.prems by (intro grep_lines_end) auto
  qed
qed

section \<open>A file\<close>

lemma buffer_filled:
  assumes g: "grep_ok l sa pat fa nm data s" and f: "uopen fd rs s" and c: "filled data 0 c rs s" "length c < 1024" "0 \<notin> set rs" and ok: "prog_ok n s"
    and nb: "nb = 1024 - length c"
  obtains s' where "sys_read w de fd (data + of_nat (length c)) (of_nat nb) s = Some (s', int (length (take nb rs)))" "prog_ok n s'"
    "effect {nat fd} (region data 1025) s [] s'" "filled data 0 (c @ take nb rs) (drop nb rs) s'" "uopen fd (drop nb rs) s'"
proof -
  define xs where "xs = take nb rs"
  have d: "0x8000000 \<le> unat data" "unat data + 1025 \<le> 0x8400000" using g by (simp_all add: grep_ok_def)
  have F: "rd_bytes (vmem s) data (length c) = c" "0 \<notin> set c" "short_lines (c @ rs)" "vmem s (data + 1024) \<noteq> 10" using c(1) by (simp_all add: filled_def)
  have len: "length c + length xs \<le> 1024" "0 < nb" using c(2) by (simp_all add: xs_def nb)
  have a: "unat (data + of_nat (length c)) = unat data + length c" using buffer_addr(1) [OF d, of "length c"] c(2) by simp
  have b: "0x8000000 \<le> unat (data + of_nat (length c))" "unat (data + of_nat (length c)) + nb \<le> 0x8400000" using a d c(2) nb by simp_all
  obtain s' where s': "sys_read w de fd (data + of_nat (length c)) (of_nat nb) s = Some (s', int (length xs))" "prog_ok n s'"
    "effect {nat fd} (region (data + of_nat (length c)) (length xs)) s [] s'" "rd_bytes (vmem s') (data + of_nat (length c)) (length xs) = xs"
    "uopen fd (drop nb rs) s'"
    by (rule read_file_effect [OF f ok b len(2) xs_def])
  have r: "region (data + of_nat (length c)) (length xs) = {x. unat data + length c \<le> unat x \<and> unat x < unat data + length c + length xs}"
    "region data (length c) = {x. unat data \<le> unat x \<and> unat x < unat data + length c}"
    "region data 1025 = {x. unat data \<le> unat x \<and> unat x < unat data + 1025}"
    using region_interval [of "data + of_nat (length c)" "length xs"] region_interval [of data "length c"] region_interval [of data 1025] a d len by simp_all
  have eff: "effect {nat fd} (region data 1025) s [] s'" using len unfolding r by (intro effect_mono [OF s'(3)]) (auto simp: r(1))
  have "region data (length c) \<inter> region (data + of_nat (length c)) (length xs) = {}" unfolding r by auto
  from effect_rd [OF s'(3) _ _ this] have "rd_bytes (vmem s') data (length c) = c" using F(1) d c(2) by simp
  then have "rd_bytes (vmem s') (data + of_nat 0) (length (c @ xs)) = c @ xs" using s'(4) by (simp add: rd_bytes_add)
  moreover have "data + of_nat 1024 \<notin> region (data + of_nat (length c)) (length xs)" unfolding r using buffer_addr(1) [OF d, of 1024] len by simp
  then have "vmem s' (data + 1024) \<noteq> 10" using s'(3) F(4) buffer_addr(2) [OF d, of 1024] by (simp add: effect_def)
  moreover have "0 \<notin> set xs" using c(3) by (auto simp: xs_def dest: in_set_takeD)
  ultimately have "filled data 0 (c @ xs) (drop nb rs) s'" using F(2,3) len by (simp add: filled_def xs_def)
  then show thesis using that s'(1,2,5) eff by (simp add: xs_def)
qed

lemma grep_loop_effect:
  assumes "grep_ok l sa pat fa nm data s" and "uopen fd rs s" and "filled data 0 c rs s" and "length c < 1024" and "0 \<notin> set rs"
    and "prog_ok (length (grep_output pat nm (c @ rs)) + n) s"
  shows "\<exists>s'. grep_loop w de l sa (of_nat (length pat)) fa data fd (int (length c)) s = Some (s', 0) \<and>
     effect {nat fd} (region data 1025) s (grep_output pat nm (c @ rs)) s' \<and> prog_ok n s' \<and> uopen fd [] s' \<and>
     vmem s' (data + 1024) \<noteq> 10"
  using assms
proof (induction "length rs" arbitrary: rs c s rule: less_induct)
  case less
  define nb where "nb = 1024 - length c"
  define D where "D = c @ take nb rs"
  have nb: "0 < nb" "of_nat (length c) + of_nat nb = (1024 :: u32)" using less.prems(4) by (simp_all add: nb_def flip: of_nat_add)
  obtain s1 where s1: "sys_read w de fd (data + of_nat (length c)) (of_nat nb) s = Some (s1, int (length (take nb rs)))"
    "prog_ok (length (grep_output pat nm (c @ rs)) + n) s1"
    "effect {nat fd} (region data 1025) s [] s1" "filled data 0 D (drop nb rs) s1" "uopen fd (drop nb rs) s1"
    unfolding D_def by (rule buffer_filled [OF less.prems(1-6) nb_def])
  have D: "D @ drop nb rs = c @ rs" by (simp add: D_def)
  have g1: "grep_ok l sa pat fa nm data s1" by (rule grep_ok_kept [OF less.prems(1) s1(3)])
  have t: "int (length c) + int (length (take nb rs)) = int (length D)" by (simp add: D_def)
  obtain s2 c2 where s2: "grep_lines w l sa (of_nat (length pat)) fa data (int (length (take nb rs))) (int (length D)) 0 s1 = Some (s2, int (length c2))"
    "int (length (take nb rs)) = 0 \<longrightarrow> c2 = []" "searched pat nm data n D (drop nb rs) s1 c2 s2"
    using grep_lines_effect [OF g1 s1(4), of "length D" "int (length (take nb rs))" n w] s1(2) nb_def less.prems(4) by (auto simp: D D_def)
  obtain xs where xs: "effect {} (region data 1025) s1 xs s2" "grep_output pat nm (c @ rs) = xs @ grep_output pat nm (c2 @ drop nb rs)"
    using s2(3) by (auto simp: searched_def D)
  have e2: "effect {nat fd} (region data 1025) s xs s2" using effect_trans [OF s1(3) effect_mono [OF xs(1)]] by simp
  have u2: "uopen fd (drop nb rs) s2" by (rule uopen_kept [OF s1(5) xs(1)]) simp
  have w: "(of_int (BUFSIZE - int (length c)) :: u32) = of_nat nb" using less.prems(4) by (simp add: BUFSIZE_def nb_def of_nat_diff)
  have step: "grep_loop w de l sa (of_nat (length pat)) fa data fd (int (length c)) s =
      (if rs = [] then Some (s2, 0) else grep_loop w de l sa (of_nat (length pat)) fa data fd (int (length c2)) s2)"
    using s1(1) s2(1) nb(1) t w [unfolded of_int_diff of_int_of_nat_eq] by (subst grep_loop.simps) (auto simp: min_def split: if_splits)
  show ?case
  proof (cases "rs = []")
    case True
    then have "grep_output pat nm (c @ rs) = xs" "prog_ok n s2" "uopen fd [] s2" "vmem s2 (data + 1024) \<noteq> 10"
      using xs(2) s2(2,3) u2 by (simp_all add: searched_def filled_def grep_output_def)
    then show ?thesis using step True e2 by auto
  next
    case False
    have "length (drop nb rs) < length rs" "0 \<notin> set (drop nb rs)" using False nb(1) less.prems(5) by (auto dest: in_set_dropD)
    from less.hyps [OF this(1) grep_ok_kept [OF g1 xs(1)] u2 _ _ this(2)] obtain s' where
      "grep_loop w de l sa (of_nat (length pat)) fa data fd (int (length c2)) s2 = Some (s', 0)"
      "effect {nat fd} (region data 1025) s2 (grep_output pat nm (c2 @ drop nb rs)) s'" "prog_ok n s'" "uopen fd [] s'"
      "vmem s' (data + 1024) \<noteq> 10"
      using s2(3) by (auto simp: searched_def)
    then show ?thesis using step False effect_trans [OF e2] xs(2) by auto
  qed
qed

lemma do_one_file_effect:
  assumes ok: "prog_ok (length (grep_output pat nm c) + n) s" and de: "klocal s de 40" and g: "grep_ok l sa pat fa nm data s"
    and k: "2 \<le> k" "k < MAX_FILES" "\<not> in_use (cur_files s k)" "\<forall>j < k. in_use (cur_files s j)"
    and c: "file_called (vmem s) (zbigfs_start s) nm c" "0 \<notin> set c" "short_lines c" and lb: "vmem s (data + 1024) \<noteq> 10"
  obtains s' where "do_one_file w de l data sa fa s = Some (s', 0)" "effect {k} (region data 1025) s (grep_output pat nm c) s'" "prog_ok n s'"
    "\<not> in_use (cur_files s' k)" "vmem s' (data + 1024) \<noteq> 10"
proof -
  have d: "0x8000000 \<le> unat data" "unat data + 1025 \<le> 0x8400000" and str: "ustring s fa nm" "cstring (vmem s) sa pat"
    using g by (auto simp: grep_ok_def ustring_def)
  have u: "user_addr (data + 1024)" using buffer_addr(2) [OF d, of 1024] by simp
  obtain s1 where s1: "ece391_open w de fa s = Some (s1, int k)" "prog_ok (length (grep_output pat nm c) + n) s1" "effect {k} {} s [] s1" "uopen (int k) c s1"
    by (rule open_file_effect [OF ok de str(1) k c(1)])
  have e1: "effect {k} (region data 1025) s [] s1" using effect_mono [OF s1(3)] by simp
  have "filled data 0 [] c s1" using c(3) lb s1(3) u by (simp add: filled_def effect_def)
  from grep_loop_effect [OF grep_ok_kept [OF g e1] s1(4) this _ c(2), of n w de] obtain s2 where
    s2: "grep_loop w de l sa (of_nat (length pat)) fa data (int k) 0 s1 = Some (s2, 0)" "effect {k} (region data 1025) s1 (grep_output pat nm c) s2"
      "prog_ok n s2" "uopen (int k) [] s2" "vmem s2 (data + 1024) \<noteq> 10"
    using s1(2) by auto
  have "in_use (cur_files s2 k)" using s2(4) by (auto simp: uopen_def sys_readable_def get_file_def split: if_splits)
  from close_effect [OF s2(3) k(1,2) this] obtain s' where
    s': "syscall_close (int k) s2 = (s', 0)" "prog_ok n s'" "effect {k} {} s2 [] s'" "\<not> in_use (cur_files s' k)" .
  have "do_one_file w de l data sa fa s = Some (s', 0)"
    using ece391_strlen_cstring [OF str(2)] s1(1) s2(1) s'(1) by (simp add: do_one_file_def)
  moreover have "effect {k} (region data 1025) s (grep_output pat nm c) s'"
    using effect_trans [OF effect_trans [OF e1 s2(2)] effect_mono [OF s'(3)]] by simp
  moreover have "vmem s' (data + 1024) \<noteq> 10" using s2(5) s'(3) u by (simp add: effect_def)
  ultimately show thesis using that s'(2,4) by blast
qed

section \<open>The directory\<close>

text \<open>
  The names and contents of the entries of the image. Entries whose name begins with a dot are skipped;
  the others are text files without zero bytes and with lines shorter than the buffer.
\<close>

definition dotted :: "byte list \<Rightarrow> bool" where
  "dotted nm \<longleftrightarrow> take 1 nm = [0x2E]"

definition texts :: "(byte list \<times> byte list) list \<Rightarrow> 'a kernel_scheme \<Rightarrow> bool" where
  "texts fs s \<longleftrightarrow> unat (num_dentry (vmem s) (zbigfs_start s)) = length fs \<and>
     (\<forall>j < length fs. entry_name (vmem s) (zbigfs_start s) (of_nat j) = fst (fs ! j) \<and>
        (dotted (fst (fs ! j)) \<or> file_called (vmem s) (zbigfs_start s) (fst (fs ! j)) (snd (fs ! j)) \<and>
           0 \<notin> set (snd (fs ! j)) \<and> short_lines (snd (fs ! j))))"

definition directory_output :: "byte list \<Rightarrow> (byte list \<times> byte list) list \<Rightarrow> byte list" where
  "directory_output pat fs = concat (map (\<lambda>(nm, c). if dotted nm then [] else grep_output pat nm c) fs)"

lemma texts_kept:
  assumes t: "texts fs s" and k: "fs_kept s s'"
  shows "texts fs s'"
proof -
  let ?zb = "zbigfs_start s"
  have same: "same_fs ?zb (vmem s) (vmem s')" "wf_fs (vmem s) ?zb" using k by (simp_all add: fs_kept_def fs_mounted_def)
  note z = fs_keptD(2,4) [OF k]
  have "entry_name (vmem s') ?zb (of_nat j) = entry_name (vmem s) ?zb (of_nat j)" if "j < length fs" for j
    using entry_name_same [OF same] that t by (simp add: texts_def)
  then show ?thesis using t file_called_same [OF same] unfolding texts_def z by auto
qed

text \<open>The memory of the program: three buffers and the strings it prints, apart from each other.\<close>

definition grep_layout :: "(byte list \<Rightarrow> u32) \<Rightarrow> u32 \<Rightarrow> u32 \<Rightarrow> u32 \<Rightarrow> 'a kernel_scheme \<Rightarrow> bool" where
  "grep_layout l data buf sa s \<longleftrightarrow>
     (\<forall>(a, n) \<in> set [(data, 1025), (buf, 33), (sa, 1024)]. 0x8000000 \<le> unat a \<and> unat a + n \<le> 0x8400000 \<and>
        (\<forall>xs \<in> set [str ''.'', str '':'', [10]]. disjoint_regions (l xs) (Suc (length xs)) a n)) \<and>
     disjoint_regions data 1025 buf 33 \<and> disjoint_regions sa 1024 data 1025 \<and> disjoint_regions sa 1024 buf 33 \<and>
     (\<forall>xs \<in> set [str ''.'', str '':'', [10]]. ustring s (l xs) xs)"

text \<open>The program between two entries: the directory is open as descriptor 2 at entry \<open>i\<close>.\<close>

definition grepper :: "u32 \<Rightarrow> (byte list \<Rightarrow> u32) \<Rightarrow> u32 \<Rightarrow> u32 \<Rightarrow> u32 \<Rightarrow> byte list \<Rightarrow> nat \<Rightarrow> nat \<Rightarrow> 'a kernel_scheme \<Rightarrow> bool" where
  "grepper de l data buf sa pat n i s \<longleftrightarrow> lister de 2 buf n i s \<and> grep_layout l data buf sa s \<and> ustring s sa pat \<and> length pat < 128 \<and>
     (\<forall>j < 8. in_use (cur_files s j) \<longleftrightarrow> j < 3) \<and> vmem s (data + 1024) \<noteq> 10"

lemma layout_kept:
  assumes "grep_layout l data buf sa s" and "effect K (region data 1025 \<union> region buf 33) s xs s'"
  shows "grep_layout l data buf sa s'" and "ustring s sa pat \<Longrightarrow> length pat < 128 \<Longrightarrow> ustring s' sa pat"
proof -
  show "grep_layout l data buf sa s'"
    using assms(1) ustring_kept [OF _ assms(2)] unfolding grep_layout_def disjoint_regions_def by (simp add: Int_Un_distrib)
  assume p: "ustring s sa pat" "length pat < 128"
  have "region sa (Suc (length pat)) \<subseteq> region sa 1024" using p(2) by (intro region_mono) simp
  then show "ustring s' sa pat"
    using assms(1) by (intro ustring_kept [OF p(1) assms(2)]) (auto simp: grep_layout_def disjoint_regions_def)
qed

lemma layout_grep_ok:
  assumes "grep_layout l data buf sa s" and "ustring s sa pat" "length pat < 128" and "ustring s buf nm" "length nm \<le> 32"
  shows "grep_ok l sa pat buf nm data s"
proof -
  have "region sa (Suc (length pat)) \<subseteq> region sa 1024" "region buf (Suc (length nm)) \<subseteq> region buf 33"
    using assms(3,5) by (auto intro!: region_mono)
  then show ?thesis using assms unfolding grep_ok_def grep_layout_def disjoint_regions_def by auto
qed

lemma name_stored:
  assumes ok: "prog_ok n s" and buf: "0x8000000 \<le> unat buf" "unat buf + 33 \<le> 0x8400000"
    and xs: "rd_bytes (vmem s) buf 32 = pad_nul 32 nm" "0 \<notin> set nm" "length nm \<le> 32" and s': "s' = ustore (buf + 32) 0 s"
  shows "prog_ok n s'" "effect {} (region buf 33) s [] s'" "ustring s' buf nm"
proof -
  have b: "unat (buf + 32) = unat buf + 32" using buf by (simp add: unat_plus_if')
  then have ua: "user_addr (buf + 32)" using buf by (simp add: user_addr_def)
  note e = ustore_effect [OF ok ua s']
  show "prog_ok n s'" by (rule e)
  have "buf + of_nat 32 \<in> region buf 33" by (intro add_in_region) simp_all
  then show "effect {} (region buf 33) s [] s'" using effect_mono [OF e(2)] by simp
  have "region buf 32 \<inter> {buf + 32} = {}" using region_interval [of buf 32] buf b by auto
  from effect_rd [OF e(2) buf(1) _ this] have "rd_bytes (vmem s') buf 32 = pad_nul 32 nm" using buf(2) xs(1) by (simp del: rd_bytes_numeral)
  moreover have "vmem s' (buf + 32) = 0" using e(3) [OF ua] by simp
  ultimately have "rd_bytes (vmem s') buf (32 + 1) = pad_nul 32 nm @ [0]" unfolding rd_bytes_add by (simp del: rd_bytes_numeral)
  moreover have "length (pad_nul 32 nm @ [0]) = 32 + 1" using xs(3) by (simp add: pad_nul_def)
  ultimately have "rd_bytes (vmem s') buf (length (pad_nul 32 nm @ [0])) = pad_nul 32 nm @ [0]" by argo
  from rd_bytes_part [OF this, of 0 "Suc (length nm)"] have "rd_bytes (vmem s') buf (Suc (length nm)) = nm @ [0]"
    using xs(3) by (cases "length nm = 32") (simp_all add: pad_nul_def Suc_diff_le take_Cons' del: rd_bytes.simps)
  then show "ustring s' buf nm" using xs(2,3) buf by (simp add: ustring_def cstring_def)
qed

lemma entry_name_bounds: "0 \<notin> set (entry_name m zb i)" "length (entry_name m zb i) \<le> 32"
proof -
  show "0 \<notin> set (entry_name m zb i)" by (auto simp: entry_name_def dest: set_takeWhileD)
  have "length (entry_name m zb i) \<le> length (rd_bytes m (dentries zb i) 32)" unfolding entry_name_def by (rule length_takeWhile_le)
  then show "length (entry_name m zb i) \<le> 32" by simp
qed

lemma dotted_first:
  assumes "rd_bytes m buf 32 = pad_nul 32 nm"
  shows "m buf = 0x2E \<longleftrightarrow> dotted nm"
proof -
  have "m buf = hd (pad_nul 32 nm)" using arg_cong [OF assms, of hd] by (simp add: rd_bytes_numeral)
  then show ?thesis by (cases nm) (auto simp: dotted_def pad_nul_def replicate_numeral_eval)
qed

lemma grepper_kept:
  assumes "grepper de l data buf sa pat n i s" and "effect K (region data 1025 \<union> region buf 33) s xs s'" and "lister de 2 buf n' i' s'"
    and "\<forall>j < 8. in_use (cur_files s' j) \<longleftrightarrow> j < 3" and "vmem s' (data + 1024) \<noteq> 10"
  shows "grepper de l data buf sa pat n' i' s'"
  using assms layout_kept [OF _ assms(2)] unfolding grepper_def by blast

lemma grep_next_entry:
  assumes g: "grepper de l data buf sa pat n i s" and t: "texts fs s" and i: "i < length fs" and f: "fs ! i = (nm, c)"
  obtains s1 where "sys_read w de 2 buf 32 s = Some (s1, 32)" "rd_bytes (vmem s1) buf 32 = pad_nul 32 nm" "outputs s [] s1"
    "grepper de l data buf sa pat n (Suc i) s1" "texts fs s1"
proof -
  have l: "lister de 2 buf n i s" and d: "0x8000000 \<le> unat data" "unat data + 1025 \<le> 0x8400000" "disjoint_regions data 1025 buf 33"
    and u: "\<forall>j < 8. in_use (cur_files s j) \<longleftrightarrow> j < 3" "vmem s (data + 1024) \<noteq> 10"
    using g by (simp_all add: grepper_def grep_layout_def)
  have N: "i < unat (num_dentry (vmem s) (zbigfs_start s))" "entry_name (vmem s) (zbigfs_start s) (of_nat i) = nm" using t i f by (simp_all add: texts_def)
  obtain s1 where s1: "sys_read w de 2 buf 32 s = Some (s1, 32)" "rd_bytes (vmem s1) buf 32 = pad_nul 32 nm"
    "lister de 2 buf n (Suc i) s1" "outputs s [] s1" "fs_kept s s1" "effect {nat 2} (region buf 32) s [] s1"
    using read_entry [OF l N(1), of w thesis] N(2) by metis
  have r: "region buf 32 \<subseteq> region buf 33" by (rule region_mono) simp
  then have e: "effect {2} (region data 1025 \<union> region buf 33) s [] s1" by (intro effect_mono [OF s1(6)]) auto
  have "data + of_nat 1024 \<notin> region buf 33" using buffer_addr(3) [OF d(1,2), of 1024] d(3) by (auto simp: disjoint_regions_def)
  then have "vmem s1 (data + 1024) \<noteq> 10" using s1(6) r u(2) buffer_addr(2) [OF d(1,2), of 1024] by (auto simp: effect_def)
  moreover have "in_use (cur_files s1 j) \<longleftrightarrow> j < 3" if "j < 8" for j
    using that s1(3) e u(1) by (cases "j = 2") (auto simp: effect_def lister_def)
  ultimately have "grepper de l data buf sa pat n (Suc i) s1" using grepper_kept [OF g e s1(3)] by blast
  then show thesis using that s1 texts_kept [OF t s1(5)] by blast
qed

lemma grep_one_entry:
  assumes g: "grepper de l data buf sa pat (length (grep_output pat nm c) + n) i s" and r: "rd_bytes (vmem s) buf 32 = pad_nul 32 nm"
    and nm: "0 \<notin> set nm" "length nm \<le> 32" and t: "texts fs s"
    and c: "file_called (vmem s) (zbigfs_start s) nm c" "0 \<notin> set c" "short_lines c"
  obtains s' where "do_one_file w de l data sa buf (ustore (buf + 32) 0 s) = Some (s', 0)" "outputs s (grep_output pat nm c) s'"
    "grepper de l data buf sa pat n i s'" "texts fs s'"
proof -
  define s1 where "s1 = ustore (buf + 32) 0 s"
  have G: "lister de 2 buf (length (grep_output pat nm c) + n) i s" "grep_layout l data buf sa s" "ustring s sa pat" "length pat < 128"
      "\<forall>j < 8. in_use (cur_files s j) \<longleftrightarrow> j < 3" "vmem s (data + 1024) \<noteq> 10"
    and d: "0x8000000 \<le> unat data" "unat data + 1025 \<le> 0x8400000" "disjoint_regions data 1025 buf 33"
    using g by (simp_all add: grepper_def grep_layout_def)
  have b: "prog_ok (length (grep_output pat nm c) + n) s" "0x8000000 \<le> unat buf" "unat buf + 33 \<le> 0x8400000" "klocal s de 40"
    using G(1) by (simp_all add: lister_def)
  note e1 = name_stored [OF b(1-3) r nm s1_def]
  have E1: "effect {} (region data 1025 \<union> region buf 33) s [] s1" using effect_mono [OF e1(2)] by simp
  have k1: "fs_kept s s1" "cur_files s1 = cur_files s" using e1(2) by (auto simp: effect_def)
  have "data + of_nat 1024 \<notin> region buf 33" using buffer_addr(3) [OF d(1,2), of 1024] d(3) by (auto simp: disjoint_regions_def)
  then have lb: "vmem s1 (data + 1024) \<noteq> 10" using e1(2) G(6) buffer_addr(2) [OF d(1,2), of 1024] by (auto simp: effect_def)
  have ok: "grep_ok l sa pat buf nm data s1"
    using layout_kept [OF G(2) E1] G(3,4) e1(3) nm(2) by (intro layout_grep_ok) simp_all
  have same: "same_fs (zbigfs_start s) (vmem s) (vmem s1)" "wf_fs (vmem s) (zbigfs_start s)" using k1(1) by (simp_all add: fs_kept_def fs_mounted_def)
  have c1: "file_called (vmem s1) (zbigfs_start s1) nm c" using file_called_same [OF same c(1)] fs_keptD(2) [OF k1(1)] by simp
  have k: "2 \<le> (3 :: nat)" "3 < MAX_FILES" "\<not> in_use (cur_files s1 3)" "\<forall>j < 3. in_use (cur_files s1 j)" using G(5) k1(2) by (simp_all add: MAX_FILES_def)
  have de: "klocal s1 de 40" using b(4) fs_keptD(3) [OF k1(1)] by simp
  obtain s' where s': "do_one_file w de l data sa buf s1 = Some (s', 0)" "effect {3} (region data 1025) s1 (grep_output pat nm c) s'" "prog_ok n s'"
    "\<not> in_use (cur_files s' 3)" "vmem s' (data + 1024) \<noteq> 10"
    by (rule do_one_file_effect [OF e1(1) de ok k c1 c(2,3) lb])
  have E: "effect {3} (region data 1025 \<union> region buf 33) s (grep_output pat nm c) s'"
    using effect_trans [OF effect_mono [OF E1, of "{3}"] effect_mono [OF s'(2), of "{3}"]] by auto
  then have kept: "fs_kept s s'" "outputs s (grep_output pat nm c) s'" "cur_files s' (nat 2) = cur_files s (nat 2)" by (auto simp: effect_def)
  have "in_use (cur_files s' j) \<longleftrightarrow> j < 3" if "j < 8" for j using that E G(5) s'(4) by (cases "j = 3") (auto simp: effect_def)
  then have "grepper de l data buf sa pat n i s'" using grepper_kept [OF g E lister_kept [OF G(1) s'(3) kept(1,3)]] s'(5) by blast
  then show thesis using that s'(1) kept(2) texts_kept [OF t kept(1)] by (simp add: s1_def)
qed

lemma grep_files_effect:
  assumes "grepper de l data buf sa pat n i s" and "texts fs s" and "i \<le> length fs" and "n = length (directory_output pat (drop i fs))"
  shows "\<exists>s'. grep_files w de l data sa buf 2 s = Some (s', 0) \<and> outputs s (directory_output pat (drop i fs)) s'"
  using assms
proof (induction "length fs - i" arbitrary: s i n)
  case 0
  then have "i = unat (num_dentry (vmem s) (zbigfs_start s))" by (simp add: texts_def)
  then have "lister de 2 buf n (unat (num_dentry (vmem s) (zbigfs_start s))) s" using "0.prems"(1) by (simp add: grepper_def)
  from read_end [OF this, of w] show ?case using "0.hyps" by (subst grep_files.simps) (simp add: SBUFSIZE_def directory_output_def)
next
  case (Suc k)
  obtain nm c where f: "fs ! i = (nm, c)" by fastforce
  have i: "i < length fs" and dr: "drop i fs = (nm, c) # drop (Suc i) fs" using Suc.hyps(2) f by (auto simp: Cons_nth_drop_Suc [symmetric])
  have nm: "0 \<notin> set nm" "length nm \<le> 32"
    using entry_name_bounds [where m = "vmem s" and zb = "zbigfs_start s" and i = "of_nat i"] Suc.prems(2) i f by (simp_all add: texts_def)
  obtain s1 where s1: "sys_read w de 2 buf 32 s = Some (s1, 32)" "rd_bytes (vmem s1) buf 32 = pad_nul 32 nm" "outputs s [] s1"
    "grepper de l data buf sa pat n (Suc i) s1" "texts fs s1"
    by (rule grep_next_entry [OF Suc.prems(1,2) i f])
  show ?case
  proof (cases "dotted nm")
    case True
    then have "directory_output pat (drop i fs) = directory_output pat (drop (Suc i) fs)" by (simp add: dr directory_output_def)
    moreover have "k = length fs - Suc i" using Suc.hyps(2) by simp
    ultimately obtain s' where "grep_files w de l data sa buf 2 s1 = Some (s', 0)" "outputs s1 (directory_output pat (drop i fs)) s'"
      using Suc.hyps(1) [OF _ s1(4,5)] Suc.prems(4) i by auto
    then show ?thesis
      using s1(1) outputs_trans [OF s1(3)] dotted_first [OF s1(2)] True by (subst grep_files.simps) (auto simp: SBUFSIZE_def)
  next
    case False
    define n' where "n' = length (directory_output pat (drop (Suc i) fs))"
    have o: "directory_output pat (drop i fs) = grep_output pat nm c @ directory_output pat (drop (Suc i) fs)"
      using False by (simp add: dr directory_output_def)
    have g1: "grepper de l data buf sa pat (length (grep_output pat nm c) + n') (Suc i) s1" using s1(4) Suc.prems(4) o by (simp add: n'_def)
    have c: "file_called (vmem s1) (zbigfs_start s1) nm c" "0 \<notin> set c" "short_lines c" using s1(5) i f False by (auto simp: texts_def)
    obtain s2 where s2: "do_one_file w de l data sa buf (ustore (buf + 32) 0 s1) = Some (s2, 0)" "outputs s1 (grep_output pat nm c) s2"
      "grepper de l data buf sa pat n' (Suc i) s2" "texts fs s2"
      by (rule grep_one_entry [OF g1 s1(2) nm s1(5) c])
    have "k = length fs - Suc i" using Suc.hyps(2) by simp
    from Suc.hyps(1) [OF this s2(3,4)] obtain s' where
      "grep_files w de l data sa buf 2 s2 = Some (s', 0)" "outputs s2 (directory_output pat (drop (Suc i) fs)) s'"
      using i by (auto simp: n'_def)
    then show ?thesis using s1(1) s2(1) outputs_trans [OF outputs_trans [OF s1(3) s2(2)]] dotted_first [OF s1(2)] False o
      by (subst grep_files.simps) (auto simp: SBUFSIZE_def)
  qed
qed

lemma layout_apart:
  assumes "grep_layout l data buf sa s" and "effect K (region sa 128) s xs s'"
  shows "grep_layout l data buf sa s'" and "vmem s' (data + 1024) = vmem s (data + 1024)"
proof -
  have r: "region sa 128 \<subseteq> region sa 1024" by (rule region_mono) simp
  have "ustring s' (l xs) xs" if "xs \<in> set [str ''.'', str '':'', [10]]" for xs
  proof -
    have "ustring s (l xs) xs" "disjoint_regions (l xs) (Suc (length xs)) sa 1024" using assms(1) that by (auto simp: grep_layout_def)
    then show ?thesis using r by (intro ustring_kept [OF _ assms(2)]) (auto simp: disjoint_regions_def)
  qed
  then show "grep_layout l data buf sa s'" using assms(1) unfolding grep_layout_def by blast
  have d: "0x8000000 \<le> unat data" "unat data + 1025 \<le> 0x8400000" "disjoint_regions sa 1024 data 1025"
    using assms(1) by (simp_all add: grep_layout_def)
  have "data + of_nat 1024 \<notin> region sa 128" using buffer_addr(3) [OF d(1,2), of 1024] d(3) r by (auto simp: disjoint_regions_def)
  then show "vmem s' (data + 1024) = vmem s (data + 1024)"
    using assms(2) buffer_addr(2) [OF d(1,2), of 1024] by (simp add: effect_def)
qed

text \<open>The arguments of the command line in the buffer for the search string.\<close>

lemma getargs_effect:
  assumes ok: "prog_ok n s" and p: "p = current_process s" "p \<le> MAX_PID"
    and as: "rd_bytes (vmem s) (pcb_cmdstring p) 128 = pad_nul 128 as" "0 \<notin> set as" "length as \<le> 127"
    and a: "0x8000000 \<le> unat a" "unat a + 1024 \<le> 0x8400000"
  obtains s' where "syscall_getargs a 1024 s = (s', 0)" "prog_ok n s'" "effect {} (region a 128) s [] s'" "ustring s' a as"
proof -
  define xs where "xs = pad_nul 128 as"
  define s' where "s' = put_vmem (wr_bytes (vmem s) a xs) s"
  have o: "paging_ok s" "cr3 s \<noteq> 0" using ok by (simp_all add: prog_ok_def fs_mounted_def)
  have xs: "length xs = 128" "xs = as @ 0 # replicate (127 - length as) 0"
    using as(3) by (simp_all add: xs_def pad_nul_def Suc_diff_le flip: replicate_Suc)
  have b: "unat a + length xs \<le> 0x8400000" using a(2) xs(1) by simp
  note e = store_effect [OF ok a(1) b s'_def]
  have "syscall_getargs a 1024 s = (s', 0)"
    using getargs_eq [OF o p as a refl] as(3) put_user [OF o a(1) b] by (simp add: s'_def xs_def)
  moreover have "rd_bytes (vmem s') a (Suc (length as)) = as @ [0]"
  proof -
    have "rd_bytes (vmem s') a (Suc (length as)) = rd_bytes (wr_bytes (vmem s) a xs) a (Suc (length as))"
      using a as(3) by (intro rd_bytes_cong e(3)) (simp add: user_addr_def unat_plus_if' unat_of_nat_less)
    also have "\<dots> = as @ [0]" using rd_wr_inner [of 0 "Suc (length as)" xs "vmem s" a] xs as(3) by (simp del: rd_bytes.simps)
    finally show ?thesis .
  qed
  then have "ustring s' a as" using as(2,3) a by (simp add: ustring_def cstring_def)
  ultimately show thesis using that e(1,2) xs(1) by simp
qed


section \<open>A concrete search\<close>

text \<open>
  An image with the directory entry and a file \<open>f\<close> that holds \<open>abc\<close>, and a process started with the argument
  \<open>b\<close>, its strings at the start of its memory.
\<close>

definition demo_pair :: memory where
  "demo_pair = demo_fs(0x500000 := 2, 0x500080 := 0x2E, 0x5000A0 := 1)"

definition demo_strings :: "byte list" where
  "demo_strings = [0x2E, 0, 0x3A, 0, 10, 0]"

definition demo_grep :: kernel where
  "demo_grep = kernel_of 1 (wr_bytes (wr_bytes demo_pair (pcb_cmdstring 1) (pad_nul 128 [0x62])) 0x800000 demo_strings)"

definition demo_lits :: "byte list \<Rightarrow> u32" where
  "demo_lits xs = (if xs = str ''.'' then 0x8000000 else if xs = str '':'' then 0x8000002 else 0x8000004)"

lemma demo_pair_fs:
  "num_dentry demo_pair 0x500000 = 2" "fs_size demo_pair 0x500000 = 12288" "wf_fs demo_pair 0x500000"
  "file_contents demo_pair 0x500000 0 = [0x61, 0x62, 0x63]" "num_inode demo_pair 0x500000 = 1"
proof -
  show h: "num_dentry demo_pair 0x500000 = 2" by (simp add: demo_pair_def demo_eval)
  have h2: "num_inode demo_pair 0x500000 = 1" "num_dblock demo_pair 0x500000 = 1" by (simp_all add: demo_pair_def demo_eval)
  have b: "file_len demo_pair 0x500000 0 = 3" "i_datablock_num demo_pair (inode_entry 0x500000 0) 0 = 0"
    by (simp_all add: file_len_def demo_pair_def demo_eval)
  have "unat (num_dentry demo_pair 0x500000) \<le> 63" by (simp add: h)
  note o = one_inode_fs [OF this h2 b(1) _ b(2), simplified]
  show "fs_size demo_pair 0x500000 = 12288" "wf_fs demo_pair 0x500000" "num_inode demo_pair 0x500000 = 1" using o h2 by simp_all
  show "file_contents demo_pair 0x500000 0 = [0x61, 0x62, 0x63]" unfolding o(3) by (simp add: demo_pair_def demo_fs_def mem_eval)
qed

lemma demo_pair_entries:
  "entry_name demo_pair 0x500000 0 = [0x66]" "entry_name demo_pair 0x500000 1 = [0x2E]"
  "entry_called demo_pair 0x500000 x 0 \<longleftrightarrow> take 31 x = [0x66]" "entry_called demo_pair 0x500000 x (Suc 0) \<longleftrightarrow> take 31 x = [0x2E]"
  "entry_type demo_pair 0x500000 0 = FTYPE_REGULAR" "entry_inode demo_pair 0x500000 0 = 0" "entry_type demo_pair 0x500000 (Suc 0) = FTYPE_DIRECTORY"
proof -
  have n: "rd_bytes demo_pair (dentries 0x500000 0) 32 = 0x66 # replicate 31 0" "rd_bytes demo_pair (dentries 0x500000 1) 32 = 0x2E # replicate 31 0"
    "rd_bytes demo_pair (dentries 0x500000 0) 31 = 0x66 # replicate 30 0" "rd_bytes demo_pair (dentries 0x500000 1) 31 = 0x2E # replicate 30 0"
    by (simp_all add: demo_pair_def demo_eval)
  then show "entry_name demo_pair 0x500000 0 = [0x66]" "entry_name demo_pair 0x500000 1 = [0x2E]" by (simp_all add: entry_name_def)
  show "entry_called demo_pair 0x500000 x 0 \<longleftrightarrow> take 31 x = [0x66]" "entry_called demo_pair 0x500000 x (Suc 0) \<longleftrightarrow> take 31 x = [0x2E]"
    using n(3,4) by (auto simp: entry_called_def)
  show "entry_type demo_pair 0x500000 0 = FTYPE_REGULAR" "entry_inode demo_pair 0x500000 0 = 0" "entry_type demo_pair 0x500000 (Suc 0) = FTYPE_DIRECTORY"
    by (simp_all add: entry_type_def entry_inode_def demo_pair_def demo_eval FTYPE_REGULAR_def FTYPE_DIRECTORY_def)
qed

lemma demo_grep_mounted:
  "same_fs 0x500000 demo_pair (vmem demo_grep)" "fs_mounted demo_grep" "zbigfs_start demo_grep = 0x500000" "klocal demo_grep 0x7F0000 40"
  "rd_bytes (vmem demo_grep) (pcb_cmdstring 1) 128 = pad_nul 128 [0x62]"
proof -
  let ?m = "wr_bytes demo_pair (pcb_cmdstring 1) (pad_nul 128 [0x62])"
  have d: "disjoint_regions (pcb_cmdstring 1) 128 0x500000 12288" "disjoint_regions 0x800000 6 0x500000 12288" "disjoint_regions 0x7F0000 40 0x500000 12288"
    "disjoint_regions (pcb_cmdstring 1) 128 0x800000 6"
    by (rule disjoint_regions_intervalI; simp add: pcb_cmdstring_address MAX_PID_def)+
  have s1: "same_fs 0x500000 demo_pair ?m" using d(1) by (intro same_fs_wr_bytes) (simp_all add: demo_pair_fs)
  have len: "length demo_strings = 6" by (simp add: demo_strings_def)
  have "same_fs 0x500000 ?m (wr_bytes ?m 0x800000 demo_strings)"
    by (rule same_fs_wr_bytes) (use d(2) same_fs_size [OF s1 demo_pair_fs(3)] in \<open>simp_all add: demo_pair_fs len\<close>)
  then have "same_fs 0x500000 demo_pair (wr_bytes ?m 0x800000 demo_strings)"
    using s1 same_fs_size [OF s1 demo_pair_fs(3)] by (simp add: same_fs_def)
  from kernel_of_mounted [OF _ this demo_pair_fs(3), of 1]
  show k: "same_fs 0x500000 demo_pair (vmem demo_grep)" "fs_mounted demo_grep" "zbigfs_start demo_grep = 0x500000"
    by (simp_all add: demo_grep_def demo_pair_fs MAX_PID_def kernel_of_fields)
  show "klocal demo_grep 0x7F0000 40" using d(3) same_fs_size [OF k(1) demo_pair_fs(3)] by (simp add: klocal_def k(3) demo_pair_fs)
  have "paging_ok demo_grep" using k(2) by (simp add: fs_mounted_def)
  then have "rd_bytes (vmem demo_grep) (pcb_cmdstring 1) 128 = rd_bytes (phys demo_grep) (pcb_cmdstring 1) 128"
    by (rule kernel_rd) (simp_all add: pcb_cmdstring_address MAX_PID_def)
  also have "\<dots> = rd_bytes ?m (pcb_cmdstring 1) 128"
    using rd_wr_bytes_disjoint [of "0x800000" demo_strings "pcb_cmdstring 1" 128 ?m] d(4) disjoint_regions_sym [of "0x800000" 6]
    by (simp add: demo_grep_def kernel_of_fields len del: rd_bytes_numeral)
  also have "\<dots> = pad_nul 128 [0x62]" using rd_wr_bytes_same [of "pad_nul 128 [0x62]" demo_pair "pcb_cmdstring 1"] by simp
  finally show "rd_bytes (vmem demo_grep) (pcb_cmdstring 1) 128 = pad_nul 128 [0x62]" .
qed

lemma demo_grep_view:
  assumes "i + n \<le> 4194304"
  shows "rd_bytes (vmem demo_grep) (0x8000000 + of_nat i) n =
    rd_bytes (wr_bytes (wr_bytes demo_pair (pcb_cmdstring 1) (pad_nul 128 [0x62])) 0x800000 demo_strings) (0x800000 + of_nat i) n"
proof -
  have "unat (0x8000000 + of_nat i :: u32) = 0x8000000 + i" using assms by (simp add: unat_plus_if' unat_of_nat_less)
  then show ?thesis unfolding demo_grep_def using assms by (subst kernel_of_user) (simp_all add: MAX_PID_def)
qed

lemma demo_grep_string:
  assumes "i + Suc (length xs) \<le> 6" and "take (Suc (length xs)) (drop i demo_strings) = xs @ [0]" and "0 \<notin> set xs"
  shows "ustring demo_grep (0x8000000 + of_nat i) xs"
proof -
  have "rd_bytes (vmem demo_grep) (0x8000000 + of_nat i) (Suc (length xs)) = take (Suc (length xs)) (drop i demo_strings)"
    using assms(1) demo_grep_view [of i "Suc (length xs)"] by (subst demo_grep_view, simp, subst rd_wr_inner) (simp_all add: demo_strings_def)
  moreover have "unat (0x8000000 + of_nat i :: u32) = 0x8000000 + i" using assms(1) by (simp add: unat_plus_if' unat_of_nat_less)
  ultimately show ?thesis using assms by (simp add: ustring_def cstring_def del: rd_bytes.simps)
qed

lemma demo_grep_layout: "grep_layout demo_lits 0x8001000 0x8000100 0x8000400 demo_grep" "vmem demo_grep (0x8001000 + 1024) \<noteq> 10"
proof -
  have "ustring demo_grep 0x8000000 (str ''.'')" "ustring demo_grep 0x8000002 (str '':'')" "ustring demo_grep 0x8000004 [10]"
    using demo_grep_string [of 0 "str ''.''"] demo_grep_string [of 2 "str '':''"] demo_grep_string [of 4 "[10]"]
    by (simp_all add: demo_strings_def str_def)
  moreover have "disjoint_regions 0x8000000 (Suc (Suc 0)) a n" "disjoint_regions 0x8000002 (Suc (Suc 0)) a n" "disjoint_regions 0x8000004 (Suc (Suc 0)) a n"
    if "(a, n) \<in> set [(0x8001000 :: u32, 1025 :: nat), (0x8000100, 33), (0x8000400, 1024)]" for a n
    using that by (auto intro!: disjoint_regions_intervalI)
  moreover have "disjoint_regions 0x8001000 1025 0x8000100 33" "disjoint_regions 0x8000400 1024 0x8001000 1025" "disjoint_regions 0x8000400 1024 0x8000100 33"
    by (rule disjoint_regions_intervalI; simp)+
  ultimately show "grep_layout demo_lits 0x8001000 0x8000100 0x8000400 demo_grep"
    by (simp add: grep_layout_def demo_lits_def str_def)
  have "wr_bytes (wr_bytes demo_pair (pcb_cmdstring 1) (pad_nul 128 [0x62])) 0x800000 demo_strings 0x801400 = demo_pair 0x801400"
  proof -
    have "0x801400 \<notin> region (pcb_cmdstring 1) 128" "0x801400 \<notin> region 0x800000 6"
      by (subst region_interval; simp add: pcb_cmdstring_address MAX_PID_def)+
    then show ?thesis
      using wr_bytes_outside [of "0x801400" "0x800000" demo_strings "wr_bytes demo_pair (pcb_cmdstring 1) (pad_nul 128 [0x62])"]
        wr_bytes_outside [of "0x801400" "pcb_cmdstring 1" "pad_nul 128 [0x62]" demo_pair] by (simp add: demo_strings_def)
  qed
  then show "vmem demo_grep (0x8001000 + 1024) \<noteq> 10" using demo_grep_view [of "0x1400" 1] by (simp add: demo_pair_def demo_fs_def)
qed


end
