(* ===== verification/Printf.thy ===== *)
theory Printf
  imports Sys_Files
begin

unbundle bit_operations_syntax

text \<open>
  Formatted output of \<^verbatim>\<open>lib.c\<close>: \<open>puts\<close> and \<open>printf\<close>. The format string and the arguments are in memory;
  \<open>esp\<close> is the address of the next argument on the stack and \<open>conv_buf c\<close> the address of the local
  array of the block for the conversion \<open>c\<close>. The strings are read until a zero byte, so both return an
  option. The lemmas describe the output by a list of pieces. They are proved in a locale for any console
  on which \<open>putc\<close> works, and hold for the displayed terminal; \<open>Boot\<close> instantiates it before paging.
\<close>

section \<open>puts\<close>

partial_function (option) puts_loop :: "u32 \<Rightarrow> int \<Rightarrow> 'a screen_scheme \<Rightarrow> ('a screen_scheme \<times> int) option" where
  "puts_loop a index s =
     (if kread8 s (a + of_int index) \<noteq> 0
      then puts_loop a (index + 1) (putc (kread8 s (a + of_int index)) s)
      else Some (s, index))"

definition puts :: "u32 \<Rightarrow> 'a screen_scheme \<Rightarrow> ('a screen_scheme \<times> int) option" where
  "puts a s = puts_loop a 0 s"

section \<open>printf\<close>

text \<open>The modifiers after a percent sign: the character after them, and whether one was there.\<close>

partial_function (option) format_char :: "memory \<Rightarrow> u32 \<Rightarrow> bool \<Rightarrow> (u32 \<times> bool) option" where
  "format_char m buf alternate = (if m buf = 0x23 then format_char m (buf + 1) True else Some (buf, alternate))"

definition itoa_at :: "u32 \<Rightarrow> u32 \<Rightarrow> u32 \<Rightarrow> 'a screen_scheme \<Rightarrow> 'a screen_scheme option" where
  "itoa_at value a radix s = map_option (\<lambda>m. put_vmem m s) (itoa (vmem s) value a radix)"

definition puts_at :: "u32 \<Rightarrow> u32 \<Rightarrow> 'a screen_scheme \<Rightarrow> ('a screen_scheme \<times> u32) option" where
  "puts_at a esp' s = map_option (\<lambda>(s, _). (s, esp')) (puts a s)"

definition print_hex :: "bool \<Rightarrow> u32 \<Rightarrow> u32 \<Rightarrow> 'a screen_scheme \<Rightarrow> ('a screen_scheme \<times> u32) option" where
  "print_hex alternate conv_buf esp' s =
     (let v = rd32 (vmem s) esp' in
      if \<not> alternate
      then (case itoa_at v conv_buf 16 s of None \<Rightarrow> None | Some s \<Rightarrow> puts_at conv_buf (esp' + 4) s)
      else
        (case itoa_at v (conv_buf + 8) 16 s of
           None \<Rightarrow> None
         | Some s \<Rightarrow>
             (case strlen (vmem s) (conv_buf + 8) of
                None \<Rightarrow> None
              | Some n \<Rightarrow>
                  (let starting_index = sint n;
                       s = fold (\<lambda>i s. kwrite8 (conv_buf + of_int i) 0x30 s) [starting_index..7] s
                   in puts_at (conv_buf + of_int starting_index) (esp' + 4) s))))"

definition print_unsigned :: "u32 \<Rightarrow> u32 \<Rightarrow> 'a screen_scheme \<Rightarrow> ('a screen_scheme \<times> u32) option" where
  "print_unsigned conv_buf esp' s =
     (case itoa_at (rd32 (vmem s) esp') conv_buf 10 s of None \<Rightarrow> None | Some s \<Rightarrow> puts_at conv_buf (esp' + 4) s)"

definition print_signed :: "u32 \<Rightarrow> u32 \<Rightarrow> 'a screen_scheme \<Rightarrow> ('a screen_scheme \<times> u32) option" where
  "print_signed conv_buf esp' s =
     (let v = rd32 (vmem s) esp' in
      case (if sint v < 0 then itoa_at (- v) (conv_buf + 1) 10 (kwrite8 conv_buf 0x2D s) else itoa_at v conv_buf 10 s) of
        None \<Rightarrow> None
      | Some s \<Rightarrow> puts_at conv_buf (esp' + 4) s)"

definition conversion :: "(byte \<Rightarrow> u32) \<Rightarrow> bool \<Rightarrow> byte \<Rightarrow> u32 \<Rightarrow> 'a screen_scheme \<Rightarrow> ('a screen_scheme \<times> u32) option" where
  "conversion conv_buf alternate c esp' s =
     (if c = 0x25 then Some (putc 0x25 s, esp')
      else if c = 0x78 then print_hex alternate (conv_buf c) esp' s
      else if c = 0x75 then print_unsigned (conv_buf c) esp' s
      else if c = 0x64 then print_signed (conv_buf c) esp' s
      else if c = 0x63 then Some (putc (ucast (rd32 (vmem s) esp')) s, esp' + 4)
      else if c = 0x73 then puts_at (rd32 (vmem s) esp') (esp' + 4) s
      else Some (s, esp'))"

partial_function (option) printf_loop :: "(byte \<Rightarrow> u32) \<Rightarrow> u32 \<Rightarrow> u32 \<Rightarrow> 'a screen_scheme \<Rightarrow> ('a screen_scheme \<times> u32) option" where
  "printf_loop conv_buf buf esp' s =
     (if kread8 s buf = 0 then Some (s, buf)
      else if kread8 s buf = 0x25
      then
        (case format_char (vmem s) (buf + 1) False of
           None \<Rightarrow> None
         | Some (buf, alternate) \<Rightarrow>
             (case conversion conv_buf alternate (kread8 s buf) esp' s of
                None \<Rightarrow> None
              | Some (s, esp') \<Rightarrow> printf_loop conv_buf (buf + 1) esp' s))
      else printf_loop conv_buf (buf + 1) esp' (putc (kread8 s buf) s))"

definition printf :: "(byte \<Rightarrow> u32) \<Rightarrow> u32 \<Rightarrow> u32 \<Rightarrow> 'a screen_scheme \<Rightarrow> ('a screen_scheme \<times> int) option" where
  "printf conv_buf fmt esp' s = map_option (\<lambda>(s, buf). (s, sint (buf - fmt))) (printf_loop conv_buf fmt esp' s)"

text \<open>
  A call with its arguments: \<open>lit\<close> gives the address of a string literal, the arguments that follow the
  format are stored at \<open>arg_at\<close>, and \<open>conv_at\<close> are the local arrays.
\<close>

record print_frame =
  lit :: "byte list \<Rightarrow> u32"
  arg_at :: u32
  conv_at :: "byte \<Rightarrow> u32"

definition store_args :: "u32 \<Rightarrow> u32 list \<Rightarrow> 'a screen_scheme \<Rightarrow> 'a screen_scheme" where
  "store_args a args s = (if args = [] then s else put_vmem (wr_bytes (vmem s) a (concat (map bytes32 args))) s)"

definition printf_call :: "print_frame \<Rightarrow> byte list \<Rightarrow> u32 list \<Rightarrow> 'a screen_scheme \<Rightarrow> ('a screen_scheme \<times> int) option" where
  "printf_call fr fmt args s = printf (conv_at fr) (lit fr fmt) (arg_at fr) (store_args (arg_at fr) args s)"

section \<open>Memory that printing uses and memory it leaves alone\<close>

text \<open>A run of bytes outside the set \<open>C\<close>.\<close>

definition steady :: "u32 set \<Rightarrow> u32 \<Rightarrow> nat \<Rightarrow> bool" where
  "steady C a n \<longleftrightarrow> n \<le> 4194304 \<and> (\<forall>i < n. a + of_nat i \<notin> C)"

lemma steady_add:
  assumes "steady B a (n + k)"
  shows "steady B a n" and "steady B (a + of_nat n) k"
proof -
  have s: "a + of_nat i \<notin> B" if "i < n + k" for i using assms that by (simp add: steady_def)
  have "a + of_nat n + of_nat i \<notin> B" if "i < k" for i using s [of "n + i"] that by (simp add: add.assoc)
  then show "steady B (a + of_nat n) k" using assms by (simp add: steady_def)
  show "steady B a n" using s assms by (simp add: steady_def)
qed

lemma steady_Un: "steady (A \<union> B) a n \<longleftrightarrow> steady A a n \<and> steady B a n"
  by (auto simp: steady_def)

lemma steady_mono: "steady C a n \<Longrightarrow> B \<subseteq> C \<Longrightarrow> steady B a n"
  by (auto simp: steady_def)

lemma unat_run: "unat a + n \<le> 2 ^ 32 \<Longrightarrow> i < n \<Longrightarrow> unat (a + of_nat i :: u32) = unat a + i"
  by (simp add: unat_plus_if' unat_of_nat_less)

lemma steady_kernel:
  assumes "4194304 \<le> unat a" and "unat a + n \<le> 8388608" and "C \<inter> kernel_frame = {}"
  shows "steady C a n"
proof -
  have "a + of_nat i \<in> kernel_frame" if "i < n" for i
    using assms(1,2) that unat_run [of a n i] by (simp add: kernel_frame_interval)
  then show ?thesis using assms by (auto simp: steady_def)
qed

lemma steady_apart:
  assumes "unat a + n \<le> unat b \<or> unat b + m \<le> unat a" and "unat a + n \<le> 2 ^ 32" and "unat b + m \<le> 2 ^ 32" and "n \<le> 4194304"
  shows "steady (region b m) a n"
proof -
  have "region b m = {c. unat b \<le> unat c \<and> unat c < unat b + m}" using assms(3) by (intro region_interval) simp
  then show ?thesis using assms unat_run [OF assms(2)] by (auto simp: steady_def)
qed

text \<open>Work space that is part of kernel memory.\<close>

definition work_at :: "u32 set \<Rightarrow> u32 \<Rightarrow> nat \<Rightarrow> bool" where
  "work_at B a n \<longleftrightarrow> 4194304 \<le> unat a \<and> unat a + n \<le> 8388608 \<and> region a n \<subseteq> B"

lemma work_at_sub:
  assumes "work_at B a n" and "i + k \<le> n"
  shows "work_at B (a + of_nat i) k" and "unat (a + of_nat i) = unat a + i"
proof -
  have a: "4194304 \<le> unat a" "unat a + n \<le> 8388608" "region a n \<subseteq> B" using assms(1) by (simp_all add: work_at_def)
  then show u: "unat (a + of_nat i) = unat a + i" using assms(2) by (simp add: unat_plus_if' unat_of_nat_less)
  have "region (a + of_nat i) k \<subseteq> region a n" using assms(2) a(2) by (intro region_sub) simp_all
  then show "work_at B (a + of_nat i) k" using a u assms(2) by (auto simp: work_at_def)
qed

lemma num_str_hex: "length (num_str 16 (unat (v :: u32))) \<le> 8"
proof -
  have "length (rdigits 16 n) \<le> k" if "n < 16 ^ k" for n k
    using that
  proof (induction k arbitrary: n)
    case 0
    then show ?case by (simp add: rdigits.simps)
  next
    case (Suc k)
    then have "n div 16 < 16 ^ k" by (simp add: less_mult_imp_div_less)
    then show ?case using Suc.IH by (subst rdigits.simps) simp
  qed
  from this [of "unat v" 8] show ?thesis using unat_lt32 [of v] by (simp add: num_str_def)
qed

text \<open>The decimal representation of a signed word.\<close>

definition signed_str :: "u32 \<Rightarrow> byte list" where
  "signed_str v = (if sint v < 0 then 0x2D # num_str 10 (unat (- v)) else num_str 10 (unat v))"

section \<open>Formatted text\<close>

text \<open>
  A format string and its arguments as a list of pieces: the characters of the format, the argument
  word a piece takes and the text it is printed as. The string of a \<open>Str\<close> piece is in memory at its
  argument.
\<close>

datatype piece = Lit byte | Percent | Hex u32 | Hex8 u32 | Unsigned u32 | Signed u32 | Char u32 | Str u32 "byte list"

fun piece_format :: "piece \<Rightarrow> byte list" where
  "piece_format (Lit c) = [c]"
| "piece_format Percent = [0x25, 0x25]"
| "piece_format (Hex v) = [0x25, 0x78]"
| "piece_format (Hex8 v) = [0x25, 0x23, 0x78]"
| "piece_format (Unsigned v) = [0x25, 0x75]"
| "piece_format (Signed v) = [0x25, 0x64]"
| "piece_format (Char v) = [0x25, 0x63]"
| "piece_format (Str a xs) = [0x25, 0x73]"

fun piece_args :: "piece \<Rightarrow> u32 list" where
  "piece_args (Lit c) = []"
| "piece_args Percent = []"
| "piece_args (Hex v) = [v]"
| "piece_args (Hex8 v) = [v]"
| "piece_args (Unsigned v) = [v]"
| "piece_args (Signed v) = [v]"
| "piece_args (Char v) = [v]"
| "piece_args (Str a xs) = [a]"

fun piece_text :: "piece \<Rightarrow> byte list" where
  "piece_text (Lit c) = [c]"
| "piece_text Percent = [0x25]"
| "piece_text (Hex v) = num_str 16 (unat v)"
| "piece_text (Hex8 v) = replicate (8 - length (num_str 16 (unat v))) 0x30 @ num_str 16 (unat v)"
| "piece_text (Unsigned v) = num_str 10 (unat v)"
| "piece_text (Signed v) = signed_str v"
| "piece_text (Char v) = [ucast v]"
| "piece_text (Str a xs) = xs"

text \<open>A literal is neither zero nor a percent sign; a string argument is in steady memory.\<close>

fun piece_ok :: "u32 set \<Rightarrow> memory \<Rightarrow> piece \<Rightarrow> bool" where
  "piece_ok B m (Lit c) = (c \<noteq> 0 \<and> c \<noteq> 0x25)"
| "piece_ok B m (Str a xs) = (cstring m a xs \<and> steady B a (Suc (length xs)))"
| "piece_ok B m p = True"

text \<open>The arrays of the three conversions that need one.\<close>

definition conv_bufs :: "u32 set \<Rightarrow> (byte \<Rightarrow> u32) \<Rightarrow> bool" where
  "conv_bufs B cb \<longleftrightarrow> work_at B (cb 0x78) 64 \<and> work_at B (cb 0x75) 36 \<and> work_at B (cb 0x64) 36"

fun arg_words :: "memory \<Rightarrow> u32 \<Rightarrow> u32 list \<Rightarrow> bool" where
  "arg_words m e [] = True"
| "arg_words m e (v # vs) = (rd32 m e = v \<and> arg_words m (e + 4) vs)"

lemma arg_words_append: "arg_words m e (xs @ ys) \<longleftrightarrow> arg_words m e xs \<and> arg_words m (e + of_nat (4 * length xs)) ys"
  by (induction xs arbitrary: e) (simp_all add: algebra_simps)

lemma arg_words_bytes: "rd_bytes m e (4 * length vs) = concat (map bytes32 vs) \<Longrightarrow> arg_words m e vs"
proof (induction vs arbitrary: e)
  case (Cons v vs)
  have "rd_bytes m e (4 + 4 * length vs) = bytes32 v @ concat (map bytes32 vs)" using Cons.prems by simp
  then have "rd_bytes m e 4 = bytes32 v" "rd_bytes m (e + 4) (4 * length vs) = concat (map bytes32 vs)"
    unfolding rd_bytes_add by (simp_all del: rd_bytes_numeral)
  then show ?case using Cons.IH by (simp add: rd32_def del: rd_bytes_numeral)
qed simp

text \<open>The work space \<open>C\<close> of a call with at most six arguments.\<close>

definition print_frame_ok :: "u32 set \<Rightarrow> print_frame \<Rightarrow> bool" where
  "print_frame_ok C fr \<longleftrightarrow> 4194304 \<le> unat (arg_at fr) \<and> unat (arg_at fr) + 24 \<le> 8388608 \<and>
     (\<exists>B. C = B \<union> region (arg_at fr) 24 \<and> conv_bufs B (conv_at fr) \<and> steady B (arg_at fr) 24)"

section \<open>A console on which characters can be printed\<close>

text \<open>
  \<open>prints B s xs s'\<close>: from \<open>s\<close> to \<open>s'\<close> the text \<open>xs\<close> was printed, with the set \<open>B\<close> of addresses as work
  space. Printing may change the addresses in \<open>dirty\<close>, which are outside kernel memory.
\<close>

locale printer =
  fixes ready :: "'a screen_scheme \<Rightarrow> bool"
    and prints :: "u32 set \<Rightarrow> 'a screen_scheme \<Rightarrow> byte list \<Rightarrow> 'a screen_scheme \<Rightarrow> bool"
    and dirty :: "u32 set"
  assumes prints_nil: "ready s \<Longrightarrow> prints B s [] s"
    and prints_ready: "prints B s xs s' \<Longrightarrow> ready s'"
    and prints_trans: "prints B s xs s' \<Longrightarrow> prints B s' ys s'' \<Longrightarrow> prints B s (xs @ ys) s''"
    and prints_mono: "prints B s xs s' \<Longrightarrow> B \<subseteq> C \<Longrightarrow> prints C s xs s'"
    and prints_putc: "ready s \<Longrightarrow> prints B s [c] (putc c s)"
    and work_write: "ready s \<Longrightarrow> work_at B a n \<Longrightarrow> length xs \<le> n \<Longrightarrow> prints B s [] (s\<lparr>phys := wr_bytes (phys s) a xs\<rparr>)"
    and prints_vmem: "ready s \<Longrightarrow> prints B s xs s' \<Longrightarrow> a \<notin> B \<union> dirty \<Longrightarrow> vmem s' a = vmem s a"
    and kernel_view: "ready s \<Longrightarrow> 4194304 \<le> unat a \<Longrightarrow> unat a < 8388608 \<Longrightarrow> vmem s a = phys s a"
    and kernel_store: "ready s \<Longrightarrow> 4194304 \<le> unat a \<Longrightarrow> unat a + length xs \<le> 8388608 \<Longrightarrow>
      put_vmem (wr_bytes (vmem s) a xs) s = s\<lparr>phys := wr_bytes (phys s) a xs\<rparr>"
    and kernel_store8: "ready s \<Longrightarrow> 4194304 \<le> unat a \<Longrightarrow> unat a < 8388608 \<Longrightarrow> kwrite8 a b s = s\<lparr>phys := (phys s)(a := b)\<rparr>"
    and kernel_clean: "dirty \<inter> kernel_frame = {}"
begin

lemma kernel_run: "ready s \<Longrightarrow> 4194304 \<le> unat a \<Longrightarrow> unat a + n \<le> 8388608 \<Longrightarrow> rd_bytes (vmem s) a n = rd_bytes (phys s) a n"
  using unat_run [of a n] by (intro rd_bytes_cong kernel_view) simp_all

lemma prints_puts:
  "ready s \<Longrightarrow> prints B s xs (fold putc xs s)"
proof (induction xs arbitrary: s)
  case Nil
  then show ?case by (simp add: prints_nil)
next
  case (Cons x xs)
  note p = prints_putc [OF Cons.prems, of B x]
  then have "ready (putc x s)" by (rule prints_ready)
  from prints_trans [OF p Cons.IH [OF this]] show ?case by simp
qed

lemma prints_rd:
  assumes "ready s" and "prints B s xs s'" and "steady (B \<union> dirty) a n"
  shows "rd_bytes (vmem s') a n = rd_bytes (vmem s) a n"
  using assms(3) prints_vmem [OF assms(1,2)] by (intro rd_bytes_cong) (simp add: steady_def)

lemma prints_cstring:
  assumes "ready s" and "prints B s xs s'" and "steady (B \<union> dirty) a (Suc (length ys))"
  shows "cstring (vmem s') a ys = cstring (vmem s) a ys"
  unfolding cstring_def using prints_rd [OF assms] by simp

lemma puts_loop_eq:
  assumes "ready s" and "cstring (vmem s) (a + of_nat k) xs" and "steady dirty (a + of_nat k) (Suc (length xs))"
  shows "puts_loop a (int k) s = Some (fold putc xs s, int (k + length xs))"
  using assms
proof (induction xs arbitrary: k s)
  case Nil
  then show ?case by (subst puts_loop.simps) (simp add: cstring_Nil vmem_def)
next
  case (Cons x xs)
  have x: "vmem s (a + of_nat k) = x" "x \<noteq> 0" "cstring (vmem s) (a + of_nat (Suc k)) xs"
    using Cons.prems(2) by (simp_all add: cstring_Cons ac_simps)
  have st: "steady ({} \<union> dirty) (a + of_nat (Suc k)) (Suc (length xs))"
    using steady_add [of dirty "a + of_nat k" 1 "Suc (length xs)"] Cons.prems(3) by (simp add: ac_simps)
  note p = prints_putc [OF Cons.prems(1), of "{}" x]
  have "puts_loop a (int (Suc k)) (putc x s) = Some (fold putc xs (putc x s), int (Suc k + length xs))"
    using prints_cstring [OF Cons.prems(1) p st] x(3) st by (intro Cons.IH prints_ready [OF p]) simp_all
  then show ?case using x by (subst puts_loop.simps) (simp add: vmem_def add.commute)
qed

lemma puts_at_eq:
  assumes "ready s" and "cstring (vmem s) a xs" and "steady dirty a (Suc (length xs))"
  shows "puts_at a e s = Some (fold putc xs s, e)"
  using puts_loop_eq [OF assms(1), of a 0 xs] assms(2,3) by (simp add: puts_at_def puts_def)

lemma itoa_at_eq:
  assumes ok: "ready s" and a: "4194304 \<le> unat a" "unat a + 33 \<le> 8388608"
    and r: "2 \<le> unat radix" "unat radix \<le> 36" and d: "d = num_str (unat radix) (unat v)"
  shows "itoa_at v a radix s = Some (s\<lparr>phys := wr_bytes (phys s) a (d @ [0])\<rparr>)"
    and "cstring (vmem (s\<lparr>phys := wr_bytes (phys s) a (d @ [0])\<rparr>)) a d" and "length d \<le> 32"
proof -
  note n = num_str_props [OF r unat_lt32 [of v], folded d]
  then show len: "length d \<le> 32" by blast
  show "itoa_at v a radix s = Some (s\<lparr>phys := wr_bytes (phys s) a (d @ [0])\<rparr>)"
    using itoa_eq [OF r, of "vmem s" v a] kernel_store [OF ok a(1), of "d @ [0]"] a(2) len by (simp add: itoa_at_def d)
  have l: "unat a + length (d @ [0]) \<le> 8388608" "length (d @ [0]) \<le> 2 ^ 32" using a(2) len by simp_all
  have "work_at UNIV a (length (d @ [0]))" using a(1) l(1) by (simp add: work_at_def)
  from prints_ready [OF work_write [OF ok this le_refl]]
  have "rd_bytes (vmem (s\<lparr>phys := wr_bytes (phys s) a (d @ [0])\<rparr>)) a (length (d @ [0])) = d @ [0]"
    using kernel_run [OF _ a(1) l(1), of "s\<lparr>phys := wr_bytes (phys s) a (d @ [0])\<rparr>"]
      rd_wr_bytes_same [OF l(2), of "phys s" a] by (simp del: rd_bytes.simps length_append)
  then show "cstring (vmem (s\<lparr>phys := wr_bytes (phys s) a (d @ [0])\<rparr>)) a d" using n(1) by (simp add: cstring_def)
qed

lemma print_digits:
  assumes ok: "ready s" and w: "work_at B a 33" and r: "2 \<le> unat radix" "unat radix \<le> 36"
  shows "\<exists>s'. (case itoa_at v a radix s of None \<Rightarrow> None | Some s \<Rightarrow> puts_at a e s) = Some (s', e) \<and>
    prints B s (num_str (unat radix) (unat v)) s'"
proof -
  define d where "d = num_str (unat radix) (unat v)"
  define s1 where "s1 = s\<lparr>phys := wr_bytes (phys s) a (d @ [0])\<rparr>"
  have a: "4194304 \<le> unat a" "unat a + 33 \<le> 8388608" using w by (simp_all add: work_at_def)
  note it = itoa_at_eq [OF ok a r d_def, folded s1_def]
  have p1: "prints B s [] s1" unfolding s1_def using it(3) by (intro work_write [OF ok w]) simp
  then have c1: "ready s1" by (rule prints_ready)
  have "puts_at a e s1 = Some (fold putc d s1, e)"
    using a it(3) by (intro puts_at_eq [OF c1 it(2)] steady_kernel kernel_clean) simp_all
  moreover have "prints B s d (fold putc d s1)" using prints_trans [OF p1 prints_puts [OF c1]] by simp
  ultimately show ?thesis unfolding it(1) d_def by simp
qed

lemma fill_zeros:
  assumes "ready s" and "4194304 \<le> unat a" and "unat a + 8 \<le> 8388608" and "n \<le> 8"
  shows "fold (\<lambda>i s. kwrite8 (a + of_int i) 0x30 s) [int n..7] s =
    s\<lparr>phys := wr_bytes (phys s) (a + of_nat n) (replicate (8 - n) 0x30)\<rparr>"
  using assms(1,4)
proof (induction "8 - n" arbitrary: n s)
  case 0
  then show ?case by simp
next
  case (Suc k)
  then have n: "n < 8" "8 - n = Suc (8 - Suc n)" by simp_all
  have "[int n..7] = int n # [int (Suc n)..7]" using n(1) by (subst upto_rec1) (simp_all add: add.commute)
  moreover have u: "unat (a + of_nat n) = unat a + n" using assms(3) n(1) by (intro unat_run [where n = 8]) simp_all
  then have "kwrite8 (a + of_nat n) 0x30 s = s\<lparr>phys := (phys s)(a + of_nat n := 0x30)\<rparr>"
    using assms(2,3) n(1) by (intro kernel_store8 Suc.prems(1)) simp_all
  moreover have "k = 8 - Suc n" using Suc.hyps(2) by simp
  moreover have "ready (s\<lparr>phys := (phys s)(a + of_nat n := 0x30)\<rparr>)"
    using prints_ready [OF work_write [OF Suc.prems(1), of UNIV "a + of_nat n" 1 "[0x30]"]] u assms(2,3) n(1)
    by (simp add: work_at_def)
  ultimately show ?case
    using Suc.hyps(1) [of "Suc n" "s\<lparr>phys := (phys s)(a + of_nat n := 0x30)\<rparr>"] n by (simp add: ac_simps)
qed

lemma print_hex_padded:
  assumes ok: "ready s" and w: "work_at B a 64" and v: "v = rd32 (vmem s) e"
  shows "\<exists>s'. print_hex True a e s = Some (s', e + 4) \<and>
    prints B s (replicate (8 - length (num_str 16 (unat v))) 0x30 @ num_str 16 (unat v)) s'"
proof -
  define d where "d = num_str 16 (unat v)"
  define n where "n = length d"
  have n8: "n \<le> 8" unfolding n_def d_def by (rule num_str_hex)
  have w8: "work_at B (a + 8) 33" "unat (a + 8) = unat a + 8" "work_at B (a + of_nat n) (8 - n)" "unat (a + of_nat n) = unat a + n"
    using work_at_sub [OF w, of 8 33] work_at_sub [OF w, of n "8 - n"] n8 by simp_all
  have b: "4194304 \<le> unat a" "unat a + 64 \<le> 8388608" using w by (simp_all add: work_at_def)
  define s1 where "s1 = s\<lparr>phys := wr_bytes (phys s) (a + 8) (d @ [0])\<rparr>"
  note it = itoa_at_eq [OF ok, of "a + 8" 16 d v, folded s1_def]
  have it: "itoa_at v (a + 8) 16 s = Some s1" "cstring (vmem s1) (a + 8) d" using it w8(2) b by (simp_all add: d_def)
  have p1: "prints B s [] s1" unfolding s1_def using n8 by (intro work_write [OF ok w8(1)]) (simp add: n_def)
  then have c1: "ready s1" by (rule prints_ready)
  have sl: "strlen (vmem s1) (a + 8) = Some (of_nat n)" using strlen_cstring [OF it(2)] by (simp add: n_def)
  have si: "sint (of_nat n :: u32) = int n" using n8 by (intro sint_of_nat_small) simp
  define s2 where "s2 = s1\<lparr>phys := wr_bytes (phys s1) (a + of_nat n) (replicate (8 - n) 0x30)\<rparr>"
  have f: "fold (\<lambda>i s. kwrite8 (a + of_int i) 0x30 s) [int n..7] s1 = s2"
    unfolding s2_def using b by (intro fill_zeros c1 n8) simp_all
  have p2: "prints B s1 [] s2" unfolding s2_def by (intro work_write [OF c1 w8(3)]) simp
  then have c2: "ready s2" by (rule prints_ready)
  define xs where "xs = replicate (8 - n) (0x30 :: byte) @ d"
  have "cstring (vmem s2) (a + of_nat n) xs"
  proof -
    have z: "0 \<notin> set d" using num_str_props(1) [of 16 "unat v"] unat_lt32 [of v] by (simp add: d_def)
    have "disjoint_regions (a + of_nat n) (8 - n) (a + 8) (Suc n)"
      using w8 b n8 by (intro disjoint_regions_intervalI) simp_all
    then have "rd_bytes (phys s2) (a + 8) (Suc n) = rd_bytes (phys s1) (a + 8) (Suc n)"
      unfolding s2_def using n8 by (simp add: rd_wr_bytes_disjoint del: rd_bytes.simps)
    also have "\<dots> = d @ [0]" unfolding s1_def n_def using rd_wr_bytes_same [of "d @ [0]" "phys s" "a + 8"] n8 n_def
      by (simp del: rd_bytes.simps)
    finally have hi: "rd_bytes (phys s2) (a + of_nat n + of_nat (8 - n)) (Suc n) = d @ [0]"
      using n8 by (simp add: add.assoc flip: of_nat_add del: rd_bytes.simps)
    have lo: "rd_bytes (phys s2) (a + of_nat n) (8 - n) = replicate (8 - n) 0x30"
      unfolding s2_def using rd_wr_bytes_same [of "replicate (8 - n) 0x30" "phys s1" "a + of_nat n"] n8 by simp
    have "rd_bytes (vmem s2) (a + of_nat n) ((8 - n) + Suc n) = rd_bytes (phys s2) (a + of_nat n) ((8 - n) + Suc n)"
      using b w8 n8 by (intro kernel_run c2) simp_all
    then have "rd_bytes (vmem s2) (a + of_nat n) ((8 - n) + Suc n) = xs @ [0]" unfolding rd_bytes_add lo hi xs_def by simp
    moreover have "(8 - n) + Suc n = Suc (length xs)" by (simp add: xs_def n_def)
    moreover have "0 \<notin> set xs" using z by (simp add: xs_def)
    ultimately show ?thesis by (simp add: cstring_def del: rd_bytes.simps)
  qed
  then have "puts_at (a + of_nat n) (e + 4) s2 = Some (fold putc xs s2, e + 4)"
    using w8 b n8 by (intro puts_at_eq [OF c2] steady_kernel kernel_clean) (simp_all add: xs_def n_def)
  moreover have "prints B s xs (fold putc xs s2)"
    using prints_trans [OF prints_trans [OF p1 p2] prints_puts [OF c2]] by simp
  ultimately show ?thesis
    unfolding print_hex_def Let_def v [symmetric] using it(1) sl si f by (simp add: xs_def n_def flip: d_def)
qed

lemma print_signed_eq:
  assumes ok: "ready s" and w: "work_at B a 36" and v: "v = rd32 (vmem s) e"
  shows "\<exists>s'. print_signed a e s = Some (s', e + 4) \<and> prints B s (signed_str v) s'"
proof (cases "sint v < 0")
  case False
  then show ?thesis
    using print_digits [OF ok, of B a 10 "e + 4" v] work_at_sub(1) [OF w, of 0 33]
    by (simp add: print_signed_def signed_str_def flip: v)
next
  case True
  have b: "4194304 \<le> unat a" "unat a + 36 \<le> 8388608" using w by (simp_all add: work_at_def)
  have w1: "work_at B (a + 1) 33" "unat (a + 1) = unat a + 1" using work_at_sub [OF w, of 1 33] by simp_all
  define d where "d = num_str 10 (unat (- v))"
  define s1 where "s1 = s\<lparr>phys := wr_bytes (phys s) a [0x2D]\<rparr>"
  have p1: "prints B s [] s1" unfolding s1_def by (intro work_write [OF ok w]) simp
  then have c1: "ready s1" by (rule prints_ready)
  have k1: "kwrite8 a 0x2D s = s1" using kernel_store8 [OF ok, of a] b by (simp add: s1_def)
  define s2 where "s2 = s1\<lparr>phys := wr_bytes (phys s1) (a + 1) (d @ [0])\<rparr>"
  note it = itoa_at_eq [OF c1, of "a + 1" 10 d "- v", folded s2_def]
  have it: "itoa_at (- v) (a + 1) 10 s1 = Some s2" "cstring (vmem s2) (a + 1) d" "length d \<le> 32" using it w1(2) b by (simp_all add: d_def)
  have p2: "prints B s1 [] s2" unfolding s2_def using it(3) by (intro work_write [OF c1 w1(1)]) simp
  then have c2: "ready s2" by (rule prints_ready)
  have "a \<notin> region (a + 1) (length (d @ [0]))"
  proof -
    have "region (a + 1) (length (d @ [0])) = {b. unat (a + 1) \<le> unat b \<and> unat b < unat (a + 1) + length (d @ [0])}"
      using w1(2) b it(3) by (intro region_interval) simp
    then show ?thesis using w1(2) by simp
  qed
  then have "wr_bytes (phys s1) (a + 1) (d @ [0]) a = phys s1 a" using it(3) by (intro wr_bytes_outside) simp_all
  then have "phys s2 a = 0x2D" by (simp add: s2_def s1_def)
  then have "vmem s2 a = 0x2D" using kernel_view [OF c2, of a] b by simp
  then have cs: "cstring (vmem s2) a (0x2D # d)" using it(2) by (simp add: cstring_Cons)
  have "puts_at a (e + 4) s2 = Some (fold putc (0x2D # d) s2, e + 4)"
    using b it(3) by (intro puts_at_eq [OF c2 cs] steady_kernel kernel_clean) simp_all
  moreover have "prints B s (0x2D # d) (fold putc (0x2D # d) s2)"
    using prints_trans [OF prints_trans [OF p1 p2] prints_puts [OF c2, of B "0x2D # d"]] by (simp only: append_Nil)
  ultimately show ?thesis
    using True by (simp add: print_signed_def signed_str_def k1 it(1) flip: v d_def)
qed

lemma prints_args:
  assumes "ready s" and "prints B s xs s'" and "steady (B \<union> dirty) e (4 * length vs)"
  shows "arg_words (vmem s') e vs = arg_words (vmem s) e vs"
  using assms(3)
proof (induction vs arbitrary: e)
  case (Cons v vs)
  have st: "steady (B \<union> dirty) e 4" "steady (B \<union> dirty) (e + 4) (4 * length vs)"
    using steady_add [of "B \<union> dirty" e 4 "4 * length vs"] Cons.prems by simp_all
  show ?case using Cons.IH [OF st(2)] prints_rd [OF assms(1,2) st(1)] by (simp add: rd32_def del: rd_bytes_numeral)
qed simp

lemma conversion_eq:
  assumes ok: "ready s" and cb: "conv_bufs B cb"
    and p: "piece_ok (B \<union> dirty) (vmem s) p" and a: "arg_words (vmem s) e (piece_args p)" and c: "piece_format p = [0x25, c] \<and> alt = False \<or> piece_format p = [0x25, 0x23, c] \<and> alt"
  shows "\<exists>s'. conversion cb alt c e s = Some (s', e + of_nat (4 * length (piece_args p))) \<and> prints B s (piece_text p) s'"
proof -
  have w: "work_at B (cb 0x78) 64" "work_at B (cb 0x78) 33" "work_at B (cb 0x75) 33" "work_at B (cb 0x64) 36"
    using cb work_at_sub(1) [of B "cb 0x78" 64 0 33] work_at_sub(1) [of B "cb 0x75" 36 0 33] by (simp_all add: conv_bufs_def)
  show ?thesis
  proof (cases p)
    case (Hex v)
    then show ?thesis using c a print_digits [OF ok w(2), of 16 "e + 4" v] by (simp add: conversion_def print_hex_def)
  next
    case (Hex8 v)
    then show ?thesis using c a print_hex_padded [OF ok w(1), of v e] by (simp add: conversion_def)
  next
    case (Unsigned v)
    then show ?thesis using c a print_digits [OF ok w(3), of 10 "e + 4" v] by (simp add: conversion_def print_unsigned_def)
  next
    case (Signed v)
    then show ?thesis using c a print_signed_eq [OF ok w(4), of v e] by (simp add: conversion_def)
  next
    case (Str b xs)
    then have "steady dirty b (Suc (length xs))" using p by (auto simp: steady_def)
    then show ?thesis using Str c a p puts_at_eq [OF ok, of b xs "e + 4"] prints_puts [OF ok] by (simp add: conversion_def)
  qed (use c a prints_putc [OF ok] in \<open>auto simp: conversion_def\<close>)
qed

lemma printf_piece:
  assumes ok: "ready s" and cb: "conv_bufs B cb"
    and p: "piece_ok (B \<union> dirty) (vmem s) p" and a: "arg_words (vmem s) e (piece_args p)" and f: "cstring (vmem s) buf (piece_format p @ r)"
  shows "\<exists>s'. printf_loop cb buf e s = printf_loop cb (buf + of_nat (length (piece_format p))) (e + of_nat (4 * length (piece_args p))) s' \<and>
    prints B s (piece_text p) s'"
proof -
  consider c where "p = Lit c" | c where "piece_format p = [0x25, c]" "c \<noteq> 0x23" | c where "piece_format p = [0x25, 0x23, c]" "c \<noteq> 0x23"
    by (cases p) auto
  then show ?thesis
  proof cases
    case (1 c)
    then have "printf_loop cb buf e s = printf_loop cb (buf + 1) e (putc c s)"
      using f p by (subst printf_loop.simps) (simp add: cstring_Cons vmem_def)
    then show ?thesis using 1 prints_putc [OF ok] by auto
  next
    case (2 c)
    then have m: "vmem s buf = 0x25" "vmem s (buf + 1) = c" using f by (simp_all add: cstring_Cons)
    then have "format_char (vmem s) (buf + 1) False = Some (buf + 1, False)" using 2(2) by (subst format_char.simps) simp
    then show ?thesis
      using m conversion_eq [OF ok cb p a, of c False] 2(1) by (subst printf_loop.simps) (auto simp: vmem_def add.assoc)
  next
    case (3 c)
    then have m: "vmem s buf = 0x25" "vmem s (buf + 1) = 0x23" "vmem s (buf + 2) = c" using f by (simp_all add: cstring_Cons add.assoc)
    then have "format_char (vmem s) (buf + 1) False = Some (buf + 2, True)"
      using 3(2) by (subst format_char.simps, subst format_char.simps) (simp add: add.assoc)
    then show ?thesis
      using m conversion_eq [OF ok cb p a, of c True] 3(1) by (subst printf_loop.simps) (auto simp: vmem_def add.assoc)
  qed
qed

lemma cstring_drop: "cstring m a (xs @ ys) \<Longrightarrow> cstring m (a + of_nat (length xs)) ys"
  by (induction xs arbitrary: a) (simp_all add: cstring_Cons add.assoc [symmetric])

lemma printf_run:
  assumes "ready s" and cb: "conv_bufs B cb" and "list_all (piece_ok (B \<union> dirty) (vmem s)) ps"
    and "cstring (vmem s) buf (concat (map piece_format ps))" "steady (B \<union> dirty) buf (Suc (length (concat (map piece_format ps))))"
    and "arg_words (vmem s) e (concat (map piece_args ps))" "steady (B \<union> dirty) e (4 * length (concat (map piece_args ps)))"
  shows "\<exists>s'. printf_loop cb buf e s = Some (s', buf + of_nat (length (concat (map piece_format ps)))) \<and>
    prints B s (concat (map piece_text ps)) s'"
  using assms
proof (induction ps arbitrary: s buf e)
  case Nil
  then have "printf_loop cb buf e s = Some (s, buf)" by (subst printf_loop.simps) (simp add: cstring_Nil vmem_def)
  then show ?case using Nil.prems(1) by (simp add: prints_nil)
next
  case (Cons p ps)
  define f as r where "f = concat (map piece_format ps)" and "as = concat (map piece_args ps)" and "r = (of_nat (length (piece_format p)) :: u32)"
  have st: "steady (B \<union> dirty) (buf + r) (Suc (length f))" "steady (B \<union> dirty) e (4 * length (piece_args p))" "steady (B \<union> dirty) (e + of_nat (4 * length (piece_args p))) (4 * length as)"
    using steady_add [of "B \<union> dirty" buf "length (piece_format p)" "Suc (length f)"] Cons.prems(5,7)
      steady_add [of "B \<union> dirty" e "4 * length (piece_args p)" "4 * length as"] by (simp_all add: f_def as_def r_def)
  have ar: "arg_words (vmem s) e (piece_args p)" "arg_words (vmem s) (e + of_nat (4 * length (piece_args p))) as"
    using Cons.prems(6) by (simp_all add: arg_words_append as_def)
  have fm: "cstring (vmem s) buf (piece_format p @ f)" using Cons.prems(4) by (simp add: f_def)
  obtain s1 where s1: "printf_loop cb buf e s = printf_loop cb (buf + r) (e + of_nat (4 * length (piece_args p))) s1"
    "prints B s (piece_text p) s1"
    using printf_piece [OF Cons.prems(1-2) _ ar(1) fm] Cons.prems(3) unfolding r_def by auto
  have c1: "ready s1" using s1(2) by (rule prints_ready)
  have "cstring (vmem s) (buf + r) f" unfolding r_def using fm by (rule cstring_drop)
  then have "cstring (vmem s1) (buf + r) f" using prints_cstring [OF Cons.prems(1) s1(2) st(1)] by simp
  moreover have "list_all (piece_ok (B \<union> dirty) (vmem s1)) ps"
    unfolding list_all_iff
  proof
    fix q assume q: "q \<in> set ps"
    then have "piece_ok (B \<union> dirty) (vmem s) q" using Cons.prems(3) by (simp add: list_all_iff)
    then show "piece_ok (B \<union> dirty) (vmem s1) q" using prints_cstring [OF Cons.prems(1) s1(2)] by (cases q) auto
  qed
  moreover have "arg_words (vmem s1) (e + of_nat (4 * length (piece_args p))) as"
    using prints_args [OF Cons.prems(1) s1(2) st(3)] ar(2) by simp
  ultimately obtain s2 where "printf_loop cb (buf + r) (e + of_nat (4 * length (piece_args p))) s1 = Some (s2, buf + r + of_nat (length f))"
    "prints B s1 (concat (map piece_text ps)) s2"
    using Cons.IH [OF c1 cb, of "buf + r"] st(1,3) unfolding f_def as_def by blast
  then show ?case using s1 prints_trans [OF s1(2)] by (auto simp: f_def r_def add.assoc)
qed

lemma printf_eq:
  assumes "ready s" and "conv_bufs B cb" and "list_all (piece_ok (B \<union> dirty) (vmem s)) ps"
    and "cstring (vmem s) fmt (concat (map piece_format ps))" "steady (B \<union> dirty) fmt (Suc (length (concat (map piece_format ps))))"
    and "arg_words (vmem s) e (concat (map piece_args ps))" "steady (B \<union> dirty) e (4 * length (concat (map piece_args ps)))"
  shows "\<exists>s'. printf cb fmt e s = Some (s', int (length (concat (map piece_format ps)))) \<and> prints B s (concat (map piece_text ps)) s'"
proof -
  define n where "n = length (concat (map piece_format ps))"
  obtain s' where s': "printf_loop cb fmt e s = Some (s', fmt + of_nat n)" "prints B s (concat (map piece_text ps)) s'"
    using printf_run [OF assms] unfolding n_def by blast
  have "sint (fmt + of_nat n - fmt) = int n" using assms(5) sint_of_nat_small [of n] by (simp add: steady_def n_def)
  then show ?thesis using s' by (auto simp: printf_def simp flip: n_def)
qed

lemma store_args_eq:
  assumes ok: "ready s" and a: "4194304 \<le> unat a" "unat a + 4 * length args \<le> 8388608" and s1: "s1 = store_args a args s"
  shows "prints (region a (4 * length args)) s [] s1" and "arg_words (vmem s1) a args"
proof -
  define xs where "xs = concat (map bytes32 args)"
  have l: "length xs = 4 * length args" unfolding xs_def by (induction args) simp_all
  have e: "s1 = s\<lparr>phys := wr_bytes (phys s) a xs\<rparr>"
    using kernel_store [OF ok a(1), of xs] a(2) l unfolding s1 store_args_def xs_def by simp
  have w: "work_at (region a (4 * length args)) a (4 * length args)" using a by (simp add: work_at_def)
  show p: "prints (region a (4 * length args)) s [] s1" unfolding e using l by (intro work_write [OF ok w]) simp
  have "rd_bytes (vmem s1) a (4 * length args) = xs"
    using kernel_run [OF prints_ready [OF p] a] rd_wr_bytes_same [of xs "phys s" a] a(2) l by (simp add: e)
  then show "arg_words (vmem s1) a args" unfolding xs_def by (rule arg_words_bytes)
qed

lemma printf_call_eq:
  assumes ok: "ready s" and fr: "print_frame_ok C fr" and f: "fmt = concat (map piece_format ps)" and as: "args = concat (map piece_args ps)"
    and n: "length args \<le> 6" and ps: "list_all (piece_ok (C \<union> dirty) (vmem s)) ps"
    and m: "cstring (vmem s) (lit fr fmt) fmt" "steady (C \<union> dirty) (lit fr fmt) (Suc (length fmt))"
  shows "\<exists>s'. printf_call fr fmt args s = Some (s', int (length fmt)) \<and> prints C s (concat (map piece_text ps)) s'"
proof -
  define a where "a = arg_at fr"
  obtain B where B: "C = B \<union> region a 24" "conv_bufs B (conv_at fr)" "steady B a 24" using fr by (auto simp: print_frame_ok_def a_def)
  have a: "4194304 \<le> unat a" "unat a + 24 \<le> 8388608" using fr by (simp_all add: print_frame_ok_def a_def)
  define s1 where "s1 = store_args a args s"
  have p: "prints (region a (4 * length args)) s [] s1" "arg_words (vmem s1) a args"
    using store_args_eq [OF ok a(1) _ s1_def] a(2) n by simp_all
  have r: "region a (4 * length args) \<subseteq> C" using region_mono [of "4 * length args" 24 a] n B(1) by auto
  note p' = prints_mono [OF p(1) r]
  have ps1: "list_all (piece_ok (B \<union> dirty) (vmem s1)) ps"
    unfolding list_all_iff
  proof
    fix q assume "q \<in> set ps"
    then have "piece_ok (C \<union> dirty) (vmem s) q" using ps by (simp add: list_all_iff)
    then show "piece_ok (B \<union> dirty) (vmem s1) q"
      using prints_cstring [OF ok p'] B(1) by (cases q) (auto elim: steady_mono)
  qed
  have m1: "cstring (vmem s1) (lit fr fmt) (concat (map piece_format ps))"
    "steady (B \<union> dirty) (lit fr fmt) (Suc (length (concat (map piece_format ps))))"
    using prints_cstring [OF ok p' m(2)] m B(1) unfolding f by (auto elim: steady_mono)
  have st: "steady (B \<union> dirty) a (4 * length args)"
  proof -
    have "steady B a (4 * length args + (24 - 4 * length args))" using B(3) n by simp
    from steady_add(1) [OF this] show ?thesis
      using steady_kernel [OF a(1) _ kernel_clean, of "4 * length args"] a(2) n by (simp add: steady_Un)
  qed
  obtain s' where s': "printf (conv_at fr) (lit fr fmt) a s1 = Some (s', int (length fmt))" "prints B s1 (concat (map piece_text ps)) s'"
    using printf_eq [OF prints_ready [OF p(1)] B(2) ps1 m1] p(2) st unfolding f as by blast
  moreover have "prints C s (concat (map piece_text ps)) s'"
    using prints_trans [OF p' prints_mono [OF s'(2)]] B(1) by simp
  ultimately show ?thesis by (simp add: printf_call_def a_def s1_def)
qed

end

section \<open>The displayed terminal\<close>

text \<open>
  \<open>printed t B s xs s'\<close>: from \<open>s\<close> to \<open>s'\<close> the text \<open>xs\<close> was printed on the displayed terminal \<open>t\<close>, the set
  \<open>B\<close> of addresses was used as work space, and nothing else changed.
\<close>

definition printed :: "nat \<Rightarrow> u32 set \<Rightarrow> 'a screen_scheme \<Rightarrow> byte list \<Rightarrow> 'a screen_scheme \<Rightarrow> bool" where
  "printed t B s xs s' \<longleftrightarrow> console_ok s' \<and> current_terminal s' = t \<and>
     text_view t s' = fold (aputc (attribs t)) xs (text_view t s) \<and>
     (\<forall>u < 3. u \<noteq> t \<longrightarrow> text_view u s' = text_view u s) \<and> fault s' = fault s \<and> rest s' = rest s \<and>
     (\<forall>a. a \<notin> B \<longrightarrow> a \<notin> video_frames \<longrightarrow> phys s' a = phys s a)"

lemma printed_trans: "printed t B s xs s' \<Longrightarrow> printed t B s' ys s'' \<Longrightarrow> printed t B s (xs @ ys) s''"
  by (simp add: printed_def)

lemma printed_putc:
  assumes "console_ok s" and "current_terminal s = t"
  shows "printed t B s [c] (putc c s)"
proof -
  have "phys (putc c s) a = phys s a" if "a \<notin> video_frames" for a
  proof -
    have "a \<notin> region (vid_frame 3) 4096" using that by (auto simp: video_frames_def)
    then show ?thesis
      using assms putc_cases(1) [OF assms(1) refl, of c] by (simp add: scroll_mem_outside place_outside)
  qed
  moreover have "current_terminal (putc c s) = t" "fault (putc c s) = fault s"
    using putc_cases(4,5) [OF assms(1) assms(2) [symmetric]] by simp_all
  ultimately show ?thesis
    using assms putc_ok [OF assms(1)] putc_view [OF assms(1) assms(2) [symmetric]] putc_other_view [OF assms(1)]
    by (simp add: printed_def)
qed

lemma vmem_kernel_frame: "paging_ok s \<Longrightarrow> a \<in> kernel_frame \<Longrightarrow> vmem s a = phys s a"
  by (simp add: kernel_vmem kernel_frame_interval)

lemma printed_vmem:
  assumes "console_ok s" and "printed t B s xs s'" and "a \<in> kernel_frame" and "a \<notin> B"
  shows "vmem s' a = vmem s a"
proof -
  have "a \<notin> video_frames" using assms(3) kernel_frame_video by auto
  then show ?thesis using assms vmem_kernel_frame [of s a] vmem_kernel_frame [of s' a] by (simp add: printed_def console_ok_def)
qed

text \<open>A write to the work space, which lies in kernel memory.\<close>

lemma printed_write:
  assumes ok: "console_ok s" "current_terminal s = t" and r: "region a (length xs) \<subseteq> B \<inter> kernel_frame" and len: "length xs \<le> 2 ^ 32"
  shows "printed t B s [] (s\<lparr>phys := wr_bytes (phys s) a xs\<rparr>)"
proof -
  let ?s = "s\<lparr>phys := wr_bytes (phys s) a xs\<rparr>"
  have out: "phys ?s b = phys s b" if "b \<notin> B \<or> b \<in> video_frames" for b
    using that r len kernel_frame_video by (auto intro!: wr_bytes_outside)
  have "console_ok ?s" using ok(1) by (simp add: console_ok_def cursor_ok_def)
  moreover have "text_view u ?s = text_view u s" if u: "u < 3" for u
  proof -
    obtain v where v: "v < 4" "screen_frame s u = vid_frame v" using screen_frame_vid [OF u, of s] by blast
    have "cells (phys ?s) (vid_frame v) = cells (phys s) (vid_frame v)"
      using v(1) out by (intro cells_cong) (auto simp: video_frames_def)
    then show ?thesis using v(2) by (simp add: text_view_def screen_frame_def)
  qed
  ultimately show ?thesis using ok out by (simp add: printed_def console_ok_def rest_def)
qed

lemma printed_work:
  assumes "console_ok s" "current_terminal s = t" and w: "work_at B a n" and "length xs \<le> n"
  shows "printed t B s [] (s\<lparr>phys := wr_bytes (phys s) a xs\<rparr>)"
proof (rule printed_write [OF assms(1,2)])
  have a: "4194304 \<le> unat a" "unat a + n \<le> 8388608" "region a n \<subseteq> B" using w by (simp_all add: work_at_def)
  show "region a (length xs) \<subseteq> B \<inter> kernel_frame"
    using region_kernel [OF a(1,2)] a(3) region_mono [OF assms(4), of a] by blast
  show "length xs \<le> 2 ^ 32" using a(2) assms(4) by simp
qed

lemma kwrite8_kernel:
  assumes "paging_ok s" and "4194304 \<le> unat a" and "unat a < 8388608"
  shows "kwrite8 a b s = s\<lparr>phys := (phys s)(a := b)\<rparr>"
  using translate_kernel [OF assms(1), of a True] assms(2,3) by (simp add: kwrite8_def word_le_nat_alt word_less_nat_alt)


interpretation on_screen: printer "\<lambda>s. console_ok s \<and> current_terminal s = t" "printed t" "- kernel_frame" for t
proof unfold_locales
  fix s s' s'' :: "'a screen_scheme" and B C xs ys a n b c
  show "printed t B s [] s" if "console_ok s \<and> current_terminal s = t" using that by (simp add: printed_def)
  show "console_ok s' \<and> current_terminal s' = t" if "printed t B s xs s'" using that by (simp add: printed_def)
  show "printed t B s (xs @ ys) s''" if "printed t B s xs s'" "printed t B s' ys s''" using that by (rule printed_trans)
  show "printed t C s xs s'" if "printed t B s xs s'" "B \<subseteq> C" using that by (auto simp: printed_def)
  show "printed t B s [c] (putc c s)" if "console_ok s \<and> current_terminal s = t" using that by (simp add: printed_putc)
  show "printed t B s [] (s\<lparr>phys := wr_bytes (phys s) a xs\<rparr>)" if "console_ok s \<and> current_terminal s = t" "work_at B a n" "length xs \<le> n"
    using that printed_work by blast
  show "vmem s' a = vmem s a" if "console_ok s \<and> current_terminal s = t" "printed t B s xs s'" "a \<notin> B \<union> - kernel_frame"
    using that printed_vmem by blast
  assume "console_ok s \<and> current_terminal s = t"
  then have p: "paging_ok s" by (simp add: console_ok_def)
  show "vmem s a = phys s a" if "4194304 \<le> unat a" "unat a < 8388608" using p that by (rule kernel_vmem)
  show "put_vmem (wr_bytes (vmem s) a xs) s = s\<lparr>phys := wr_bytes (phys s) a xs\<rparr>" if "4194304 \<le> unat a" "unat a + length xs \<le> 8388608"
    using p that by (rule put_kernel)
  show "kwrite8 a b s = s\<lparr>phys := (phys s)(a := b)\<rparr>" if "4194304 \<le> unat a" "unat a < 8388608" using p that by (rule kwrite8_kernel)
qed simp

text \<open>
  C22. \<open>printf\<close> returns for every format string made of literals and its conversions, and prints on the
  displayed terminal exactly the text of its pieces: hexadecimal digits, padded to eight with the
  modifier, decimal digits with a sign, characters and strings. It returns the length of the format;
  apart from its local arrays and the screen no byte of memory changes, and nothing faults.
\<close>

theorem printf_prints:
  assumes "console_ok s" and "t = current_terminal s" and "conv_bufs B cb" and "list_all (piece_ok (B \<union> - kernel_frame) (vmem s)) ps"
    and "cstring (vmem s) fmt (concat (map piece_format ps))" "steady (B \<union> - kernel_frame) fmt (Suc (length (concat (map piece_format ps))))"
    and "arg_words (vmem s) e (concat (map piece_args ps))" "steady (B \<union> - kernel_frame) e (4 * length (concat (map piece_args ps)))"
  shows "\<exists>s'. printf cb fmt e s = Some (s', int (length (concat (map piece_format ps)))) \<and>
    text_view t s' = fold (aputc (attribs t)) (concat (map piece_text ps)) (text_view t s) \<and>
    (\<forall>u < 3. u \<noteq> t \<longrightarrow> text_view u s' = text_view u s) \<and> fault s' = fault s \<and>
    (\<forall>a. a \<notin> B \<longrightarrow> a \<notin> video_frames \<longrightarrow> phys s' a = phys s a)"
  using on_screen.printf_eq [OF _ assms(3-8), of t] assms(1,2) unfolding printed_def by blast

text \<open>A percent sign at the end of the format: the loop steps over the zero byte and goes on behind it.\<close>

lemma printf_runs_past_end:
  assumes "kread8 s buf = 0x25" and "kread8 s (buf + 1) = 0"
  shows "printf_loop cb buf e s = printf_loop cb (buf + 2) e s"
proof -
  have "format_char (vmem s) (buf + 1) False = Some (buf + 1, False)" using assms(2) by (subst format_char.simps) (simp add: vmem_def)
  then show ?thesis using assms by (subst printf_loop.simps) (simp add: conversion_def add.assoc)
qed

definition demo_pieces :: "piece list" where
  "demo_pieces = [Lit 0x6E, Hex8 0x1F, Signed (- 5), Lit 10]"

definition demo_print :: screen where
  "demo_print = boot_screen\<lparr>phys := wr_bytes (wr_bytes (\<lambda>_. 0) 0x480000 [0x6E, 0x25, 0x23, 0x78, 0x25, 0x64, 10])
     0x490000 (bytes32 0x1F @ bytes32 (- 5))\<rparr>"

theorem printf_prints_witness:
  "\<exists>s'. printf (\<lambda>_. 0x7F0000) 0x480000 0x490000 demo_print = Some (s', 7) \<and>
     text_view 0 s' = fold (aputc (attribs 0)) (str ''n0000001F-5'' @ [10]) (text_view 0 demo_print)"
proof -
  have f: "concat (map piece_format demo_pieces) = [0x6E, 0x25, 0x23, 0x78, 0x25, 0x64, 10]"
    "concat (map piece_args demo_pieces) = [0x1F, - 5]" by (simp_all add: demo_pieces_def)
  have t: "concat (map piece_text demo_pieces) = str ''n0000001F-5'' @ [10]" by code_simp
  have ok: "console_ok demo_print" "0 = current_terminal demo_print" "paging_ok demo_print"
    using boot_screen_ok by (simp_all add: demo_print_def console_ok_def cursor_ok_def)
  have cb: "conv_bufs (region 0x7F0000 64) (\<lambda>_. 0x7F0000)"
    using region_mono [of 36 64 "0x7F0000"] by (simp add: conv_bufs_def work_at_def)
  have st: "steady (region 0x7F0000 64 \<union> - kernel_frame) a n" if "4194304 \<le> unat a" "unat a + n \<le> 0x7F0000" for a n
    using that steady_kernel [of a n "- kernel_frame"] steady_apart [of a n "0x7F0000" 64] by (simp add: steady_Un)
  have rd: "rd_bytes (vmem demo_print) a n = rd_bytes (phys demo_print) a n" if "4194304 \<le> unat a" "unat a + n \<le> 8388608" for a n
    by (rule kernel_rd [OF ok(3) that])
  have vm: "vmem demo_print a = phys demo_print a" if "4194304 \<le> unat a" "unat a < 8388608" for a
    by (rule kernel_vmem [OF ok(3) that])
  have fm: "cstring (vmem demo_print) 0x480000 (concat (map piece_format demo_pieces))"
    unfolding f by (simp add: cstring_Cons cstring_Nil vm) (simp add: demo_print_def bytes32_def)
  have "rd_bytes (phys demo_print) 0x490000 8 = bytes32 0x1F @ bytes32 (- 5)"
    unfolding demo_print_def using rd_wr_bytes_same [of "bytes32 0x1F @ bytes32 (- 5)" _ "0x490000"] by (simp del: rd_bytes_numeral)
  then have ar: "arg_words (vmem demo_print) 0x490000 (concat (map piece_args demo_pieces))"
    unfolding f by (intro arg_words_bytes) (simp add: rd del: rd_bytes_numeral)
  have l: "length [0x6E, 0x25, 0x23, 0x78, 0x25, 0x64, 10 :: byte] = 7" "length [0x1F, - 5 :: u32] = 2" by simp_all
  have s1: "steady (region 0x7F0000 64 \<union> - kernel_frame) 0x480000 (Suc (length (concat (map piece_format demo_pieces))))"
    and s2: "steady (region 0x7F0000 64 \<union> - kernel_frame) 0x490000 (4 * length (concat (map piece_args demo_pieces)))"
    unfolding f l by (rule st; simp)+
  have pk: "list_all (piece_ok (region 0x7F0000 64 \<union> - kernel_frame) (vmem demo_print)) demo_pieces" by (simp add: demo_pieces_def)
  show ?thesis
    using printf_prints [OF ok(1,2) cb pk fm s1 ar s2] unfolding f t l by auto
qed

end
