(* ===== verification/Idt.thy ===== *)
theory Idt
  imports Printf Sys_Exec
begin

unbundle bit_operations_syntax

text \<open>
  The interrupt descriptor table and the exceptions: \<open>populate_idt\<close> (\<^verbatim>\<open>kernel.c\<close>) with the descriptor of
  \<^verbatim>\<open>x86_desc.h\<close>, and the exception handlers of \<^verbatim>\<open>idt_funcs.c\<close>. The addresses of functions and of string
  literals, which the linker chooses, are arguments.
\<close>

section \<open>The interrupt descriptor table\<close>

record idt_desc_t =
  offset_15_00 :: u16
  seg_selector :: u16
  reserved4 :: byte
  reserved3 :: "1 word"
  reserved2 :: "1 word"
  reserved1 :: "1 word"
  size_bit :: "1 word"
  reserved0 :: "1 word"
  dpl :: "2 word"
  present_bit :: "1 word"
  offset_31_16 :: u16

definition KERNEL_CS :: u16 where "KERNEL_CS = 0x10"

definition NUM_VEC :: nat where "NUM_VEC = 256"

definition SET_IDT_ENTRY :: "u32 \<Rightarrow> idt_desc_t \<Rightarrow> idt_desc_t" where
  "SET_IDT_ENTRY handler d =
     d\<lparr>offset_31_16 := ucast (drop_bit 16 (handler AND 0xFFFF0000)), offset_15_00 := ucast (handler AND 0xFFFF)\<rparr>"

text \<open>The functions whose addresses go into the table.\<close>

datatype handler = Divide_by_zero | Reserved_1 | Non_maskable_interrupt | Breakpoint | Overflow | Bound_range_exceeded
  | Invalid_opcode | Device_not_available | Double_fault | Coprocessor_segment_overrun | Invalid_TSS | Segment_not_present
  | Stack_segment_fault | General_protection | Page_fault | Common_interrupt | Floating_point_error | Alignment_check
  | Machine_check | Simd_floating_point_exception | Asm_rtc | Asm_keyboard | Syscall | Next_task

definition exception_arr :: "handler list" where
  "exception_arr = [Divide_by_zero, Reserved_1, Non_maskable_interrupt, Breakpoint, Overflow, Bound_range_exceeded, Invalid_opcode,
     Device_not_available, Double_fault, Coprocessor_segment_overrun, Invalid_TSS, Segment_not_present, Stack_segment_fault,
     General_protection, Page_fault, Common_interrupt, Floating_point_error, Alignment_check, Machine_check,
     Simd_floating_point_exception]"

definition EXCEPTION_INDEX :: nat where "EXCEPTION_INDEX = 0x20"

definition KEYBOARD_INDEX :: nat where "KEYBOARD_INDEX = 0x21"

definition RTC_INDEX :: nat where "RTC_INDEX = 0x28"

definition SYS_CALLS_INDEX :: nat where "SYS_CALLS_INDEX = 0x80"

definition PIT_INDEX :: nat where "PIT_INDEX = 0x20"

definition idt_entry :: "(handler \<Rightarrow> u32) \<Rightarrow> nat \<Rightarrow> idt_desc_t \<Rightarrow> idt_desc_t" where
  "idt_entry at i d =
     (let d = d\<lparr>present_bit := 1, dpl := 0, reserved0 := 0, size_bit := 1, reserved1 := 1, reserved2 := 1, reserved3 := 0,
            reserved4 := 0, seg_selector := KERNEL_CS\<rparr> in
      if EXCEPTION_INDEX \<le> i then SET_IDT_ENTRY (at Common_interrupt) d
      else if i < 20 then (if i = 15 then d else SET_IDT_ENTRY (at (exception_arr ! i)) d)
      else d)"

definition set_idt :: "nat \<Rightarrow> (idt_desc_t \<Rightarrow> idt_desc_t) \<Rightarrow> (nat \<Rightarrow> idt_desc_t) \<Rightarrow> nat \<Rightarrow> idt_desc_t" where
  "set_idt i f idt = idt(i := f (idt i))"

definition populate_idt :: "(handler \<Rightarrow> u32) \<Rightarrow> (nat \<Rightarrow> idt_desc_t) \<Rightarrow> nat \<Rightarrow> idt_desc_t" where
  "populate_idt at idt =
     (let idt = fold (\<lambda>i. set_idt i (idt_entry at i)) [0..<NUM_VEC] idt;
          idt = set_idt RTC_INDEX (SET_IDT_ENTRY (at Asm_rtc)) idt;
          idt = set_idt KEYBOARD_INDEX (SET_IDT_ENTRY (at Asm_keyboard)) idt;
          idt = set_idt SYS_CALLS_INDEX (SET_IDT_ENTRY (at Syscall)) idt;
          idt = set_idt SYS_CALLS_INDEX (\<lambda>d. d\<lparr>dpl := 3\<rparr>) idt;
          idt = set_idt SYS_CALLS_INDEX (\<lambda>d. d\<lparr>reserved3 := 1\<rparr>) idt
      in set_idt PIT_INDEX (SET_IDT_ENTRY (at Next_task)) idt)"

subsection \<open>What the processor makes of an entry\<close>

definition gate_offset :: "idt_desc_t \<Rightarrow> u32" where
  "gate_offset d = push_bit 16 (ucast (offset_31_16 d)) OR ucast (offset_15_00 d)"

text \<open>The four type bits: 14 is an interrupt gate, which disables interrupts, 15 a trap gate.\<close>

definition gate_type :: "idt_desc_t \<Rightarrow> nat" where
  "gate_type d = 8 * unat (size_bit d) + 4 * unat (reserved1 d) + 2 * unat (reserved2 d) + unat (reserved3 d)"

definition vector_handler :: "nat \<Rightarrow> handler option" where
  "vector_handler i =
     (if i = 0x20 then Some Next_task else if i = 0x21 then Some Asm_keyboard else if i = 0x28 then Some Asm_rtc
      else if i = 0x80 then Some Syscall else if 0x20 \<le> i then Some Common_interrupt
      else if i < 20 \<and> i \<noteq> 15 then Some (exception_arr ! i) else None)"

lemma gate_offset_set [simp]: "gate_offset (SET_IDT_ENTRY a d) = a"
proof (rule bit_word_eqI)
  fix n assume n: "n < LENGTH(32)"
  have m: "(0xFFFF :: u32) = mask 16" "(0xFFFF0000 :: u32) = NOT (mask 16)" by (simp_all add: mask_eq_exp_minus_1)
  show "bit (gate_offset (SET_IDT_ENTRY a d)) n = bit a n"
    using n unfolding gate_offset_def SET_IDT_ENTRY_def m by (auto simp: bit_simps)
qed

lemma populate_fold:
  "fold (\<lambda>i. set_idt i (idt_entry at i)) [0..<n] idt = (\<lambda>i. if i < n then idt_entry at i (idt i) else idt i)"
  by (induction n) (auto simp: set_idt_def fun_eq_iff less_Suc_eq)

lemma populate_idt_entry:
  "populate_idt at idt i =
    (let d = (if i < 256 then idt_entry at i (idt i) else idt i) in
     if i = 0x20 then SET_IDT_ENTRY (at Next_task) d else if i = 0x21 then SET_IDT_ENTRY (at Asm_keyboard) d
     else if i = 0x28 then SET_IDT_ENTRY (at Asm_rtc) d
     else if i = 0x80 then (SET_IDT_ENTRY (at Syscall) d)\<lparr>dpl := 3, reserved3 := 1\<rparr> else d)"
  by (simp add: populate_idt_def populate_fold NUM_VEC_def RTC_INDEX_def KEYBOARD_INDEX_def SYS_CALLS_INDEX_def PIT_INDEX_def
      set_idt_def Let_def)

lemma gate_offset_upd [simp]: "gate_offset (d\<lparr>dpl := x, reserved3 := y\<rparr>) = gate_offset d"
  by (simp add: gate_offset_def)

lemma gate_offset_entry [simp]:
  "gate_offset (idt_entry at i x) =
    (if 0x20 \<le> i then at Common_interrupt else if i < 20 \<and> i \<noteq> 15 then at (exception_arr ! i) else gate_offset x)"
  by (simp add: idt_entry_def EXCEPTION_INDEX_def Let_def) (simp add: gate_offset_def)

lemma idt_entry_fields [simp]:
  "present_bit (idt_entry at i x) = 1" "seg_selector (idt_entry at i x) = KERNEL_CS" "dpl (idt_entry at i x) = 0"
  "gate_type (idt_entry at i x) = 14"
  by (simp_all add: idt_entry_def SET_IDT_ENTRY_def Let_def gate_type_def)

lemma SET_IDT_ENTRY_fields [simp]:
  "present_bit (SET_IDT_ENTRY a x) = present_bit x" "seg_selector (SET_IDT_ENTRY a x) = seg_selector x"
  "dpl (SET_IDT_ENTRY a x) = dpl x" "gate_type (SET_IDT_ENTRY a x) = gate_type x"
  by (simp_all add: SET_IDT_ENTRY_def gate_type_def)

lemma gate_type_trap [simp]:
  "gate_type ((SET_IDT_ENTRY a (idt_entry at i x))\<lparr>dpl := 3, reserved3 := 1\<rparr>) = 15"
  by (simp add: gate_type_def idt_entry_def SET_IDT_ENTRY_def Let_def)

text \<open>
  C27. The interrupt table: every vector is present, in the kernel code segment, with interrupts
  disabled on entry and not callable from user mode, except the system call vector, which user mode
  may call and which is a trap gate. Each vector leads to its handler; the vectors 15 and 20 to 31
  keep whatever address the table held before.
\<close>

theorem populate_idt_gates:
  assumes "i < NUM_VEC" and "d = populate_idt at idt i"
  shows "present_bit d = 1 \<and> seg_selector d = KERNEL_CS \<and> dpl d = (if i = 0x80 then 3 else 0) \<and>
    gate_type d = (if i = 0x80 then 15 else 14) \<and>
    gate_offset d = (case vector_handler i of Some h \<Rightarrow> at h | None \<Rightarrow> gate_offset (idt i))"
proof -
  have i: "i < 256" using assms(1) by (simp add: NUM_VEC_def)
  show ?thesis
    using i unfolding assms(2) populate_idt_entry by (simp add: Let_def vector_handler_def)
qed

definition blank_gate :: idt_desc_t where
  "blank_gate = \<lparr>offset_15_00 = 0, seg_selector = 0, reserved4 = 0, reserved3 = 0, reserved2 = 0, reserved1 = 0, size_bit = 0,
     reserved0 = 0, dpl = 0, present_bit = 0, offset_31_16 = 0\<rparr>"

theorem populate_idt_gates_witness:
  "dpl (populate_idt (case_handler 1 2 3 4 5 6 7 8 9 10 11 12 13 14 15 16 17 18 19 20 21 22 0x401234 24) (\<lambda>_. blank_gate) 0x80) = 3 \<and>
   gate_offset (populate_idt (case_handler 1 2 3 4 5 6 7 8 9 10 11 12 13 14 15 16 17 18 19 20 21 22 0x401234 24) (\<lambda>_. blank_gate) 0x80) = 0x401234"
  using populate_idt_gates[of "0x80" _ "case_handler 1 2 3 4 5 6 7 8 9 10 11 12 13 14 15 16 17 18 19 20 21 22 0x401234 24"
      "\<lambda>_. blank_gate", OF _ refl]
  by (simp add: NUM_VEC_def vector_handler_def)

section \<open>Exceptions\<close>

text \<open>A handler that does not halt the process never returns.\<close>

datatype outcome = Halts halt_result | Spins

definition line :: "string \<Rightarrow> byte list" where "line xs = str xs @ [10]"

definition USER_EXCEPT_CODE :: u32 where "USER_EXCEPT_CODE = 256"

definition ece391_halt :: "u32 \<Rightarrow> 'a kernel_scheme \<Rightarrow> 'a kernel_scheme \<times> halt_result" where
  "ece391_halt code s = halt code s"

definition report :: "print_frame \<Rightarrow> byte list \<Rightarrow> 'a kernel_scheme \<Rightarrow> ('a kernel_scheme \<times> outcome) option" where
  "report fr fmt s = map_option (\<lambda>(s, _). (s, Spins)) (printf_call fr fmt [] s)"

definition report_halt :: "print_frame \<Rightarrow> byte list \<Rightarrow> u32 list \<Rightarrow> 'a kernel_scheme \<Rightarrow> ('a kernel_scheme \<times> outcome) option" where
  "report_halt fr fmt args s =
     (case printf_call fr fmt args s of
        None \<Rightarrow> None
      | Some (s, _) \<Rightarrow> (let (s, r) = ece391_halt USER_EXCEPT_CODE s in Some (s, Halts r)))"

definition common_interrupt :: "print_frame \<Rightarrow> 'a kernel_scheme \<Rightarrow> ('a kernel_scheme \<times> outcome) option" where
  "common_interrupt fr = report fr (line ''common_interrupt'')"

definition divide_by_zero :: "print_frame \<Rightarrow> 'a kernel_scheme \<Rightarrow> ('a kernel_scheme \<times> outcome) option" where
  "divide_by_zero fr = report_halt fr (line ''divide_by_zero'') []"

definition reserved_1 :: "print_frame \<Rightarrow> 'a kernel_scheme \<Rightarrow> ('a kernel_scheme \<times> outcome) option" where
  "reserved_1 fr = report fr (line ''Intel use only'')"

definition non_maskable_interrupt :: "print_frame \<Rightarrow> 'a kernel_scheme \<Rightarrow> ('a kernel_scheme \<times> outcome) option" where
  "non_maskable_interrupt fr = report_halt fr (line ''non_maskable_interrupt'') []"

definition breakpoint :: "print_frame \<Rightarrow> 'a kernel_scheme \<Rightarrow> ('a kernel_scheme \<times> outcome) option" where
  "breakpoint fr = report_halt fr (line ''breakpoint'') []"

definition overflow :: "print_frame \<Rightarrow> 'a kernel_scheme \<Rightarrow> ('a kernel_scheme \<times> outcome) option" where
  "overflow fr = report_halt fr (line ''overflow'') []"

definition BOUND_range_exceeded :: "print_frame \<Rightarrow> 'a kernel_scheme \<Rightarrow> ('a kernel_scheme \<times> outcome) option" where
  "BOUND_range_exceeded fr = report_halt fr (line ''BOUND_range_exceeded'') []"

definition invalid_opcode :: "print_frame \<Rightarrow> 'a kernel_scheme \<Rightarrow> ('a kernel_scheme \<times> outcome) option" where
  "invalid_opcode fr = report_halt fr (line ''invalid_opcode'') []"

definition device_not_available :: "print_frame \<Rightarrow> 'a kernel_scheme \<Rightarrow> ('a kernel_scheme \<times> outcome) option" where
  "device_not_available fr = report_halt fr (line ''device_not_available'') []"

definition double_fault :: "print_frame \<Rightarrow> 'a kernel_scheme \<Rightarrow> ('a kernel_scheme \<times> outcome) option" where
  "double_fault fr = report_halt fr (line ''double_fault'') []"

definition coprocessor_segment_overrun :: "print_frame \<Rightarrow> 'a kernel_scheme \<Rightarrow> ('a kernel_scheme \<times> outcome) option" where
  "coprocessor_segment_overrun fr = report_halt fr (line ''coprocessor_segment_overrun'') []"

definition invalid_TSS :: "print_frame \<Rightarrow> 'a kernel_scheme \<Rightarrow> ('a kernel_scheme \<times> outcome) option" where
  "invalid_TSS fr = report fr (line ''invalid_TSS'')"

definition segment_not_present :: "print_frame \<Rightarrow> 'a kernel_scheme \<Rightarrow> ('a kernel_scheme \<times> outcome) option" where
  "segment_not_present fr = report_halt fr (line ''segment_not_present'') []"

definition stack_segment_fault :: "print_frame \<Rightarrow> 'a kernel_scheme \<Rightarrow> ('a kernel_scheme \<times> outcome) option" where
  "stack_segment_fault fr = report_halt fr (line ''stack_segment_fault'') []"

definition general_protection :: "print_frame \<Rightarrow> u32 \<Rightarrow> 'a kernel_scheme \<Rightarrow> ('a kernel_scheme \<times> outcome) option" where
  "general_protection fr x = report_halt fr (line ''general_protection: %x'') [x]"

definition page_fault :: "print_frame \<Rightarrow> u32 \<Rightarrow> 'a kernel_scheme \<Rightarrow> ('a kernel_scheme \<times> outcome) option" where
  "page_fault fr x = report_halt fr (line ''page_fault: %x'') [x]"

definition floating_point_error :: "print_frame \<Rightarrow> 'a kernel_scheme \<Rightarrow> ('a kernel_scheme \<times> outcome) option" where
  "floating_point_error fr = report_halt fr (line ''floating_point_error'') []"

definition alignment_check :: "print_frame \<Rightarrow> 'a kernel_scheme \<Rightarrow> ('a kernel_scheme \<times> outcome) option" where
  "alignment_check fr = report_halt fr (line ''alignment_check'') []"

definition machine_check :: "print_frame \<Rightarrow> 'a kernel_scheme \<Rightarrow> ('a kernel_scheme \<times> outcome) option" where
  "machine_check fr = report_halt fr (line ''machine_check'') []"

definition SIMD_floating_point_exception :: "print_frame \<Rightarrow> 'a kernel_scheme \<Rightarrow> ('a kernel_scheme \<times> outcome) option" where
  "SIMD_floating_point_exception fr = report_halt fr (line ''SIMD_floating_point_exception'') []"

definition something_went_wrong :: "print_frame \<Rightarrow> 'a kernel_scheme \<Rightarrow> ('a kernel_scheme \<times> outcome) option" where
  "something_went_wrong fr = report fr (line ''Ughhhh we did something wrong. . . Awks '')"

text \<open>The handlers in the order of \<open>exception_arr\<close>; \<open>x\<close> is the word that two of them take from the stack.\<close>

definition exception_routines :: "print_frame \<Rightarrow> u32 \<Rightarrow> ('a kernel_scheme \<Rightarrow> ('a kernel_scheme \<times> outcome) option) list" where
  "exception_routines fr x = [divide_by_zero fr, reserved_1 fr, non_maskable_interrupt fr, breakpoint fr, overflow fr,
     BOUND_range_exceeded fr, invalid_opcode fr, device_not_available fr, double_fault fr, coprocessor_segment_overrun fr,
     invalid_TSS fr, segment_not_present fr, stack_segment_fault fr, general_protection fr x, page_fault fr x,
     common_interrupt fr, floating_point_error fr, alignment_check fr, machine_check fr, SIMD_floating_point_exception fr]"

subsection \<open>What the handlers do\<close>

definition exception_name :: "nat \<Rightarrow> string" where
  "exception_name i = [''divide_by_zero'', ''Intel use only'', ''non_maskable_interrupt'', ''breakpoint'', ''overflow'',
     ''BOUND_range_exceeded'', ''invalid_opcode'', ''device_not_available'', ''double_fault'', ''coprocessor_segment_overrun'',
     ''invalid_TSS'', ''segment_not_present'', ''stack_segment_fault'', ''general_protection'', ''page_fault'',
     ''common_interrupt'', ''floating_point_error'', ''alignment_check'', ''machine_check'', ''SIMD_floating_point_exception''] ! i"

definition exception_pieces :: "nat \<Rightarrow> u32 \<Rightarrow> piece list" where
  "exception_pieces i x = map Lit (str (exception_name i)) @ (if i = 13 \<or> i = 14 then map Lit (str '': '') @ [Hex x] else []) @ [Lit 10]"

abbreviation exception_format :: "nat \<Rightarrow> byte list" where
  "exception_format i \<equiv> concat (map piece_format (exception_pieces i 0))"

definition exception_text :: "nat \<Rightarrow> u32 \<Rightarrow> byte list" where
  "exception_text i x = concat (map piece_text (exception_pieces i x))"

text \<open>The vectors whose handler only prints and then spins.\<close>

definition spins :: "nat \<Rightarrow> bool" where
  "spins i \<longleftrightarrow> i = 1 \<or> i = 10 \<or> i = 15"

lemma exception_formats:
  "i < 20 \<Longrightarrow> concat (map piece_format (exception_pieces i x)) = exception_format i"
  by (simp add: exception_pieces_def)

lemma Lit_pieces [simp]:
  "concat (map piece_format (map Lit xs)) = xs" "concat (map piece_text (map Lit xs)) = xs" "concat (map piece_args (map Lit xs)) = []"
  "concat (map (piece_format \<circ> Lit) xs) = xs" "concat (map (piece_text \<circ> Lit) xs) = xs" "concat (map (piece_args \<circ> Lit) xs) = []"
  "list_all (piece_ok B m) (map Lit xs) \<longleftrightarrow> (\<forall>c \<in> set xs. c \<noteq> 0 \<and> c \<noteq> 0x25)"
  by (induction xs) auto

lemma exception_pieces_ok: "i < 20 \<Longrightarrow> list_all (piece_ok B m) (exception_pieces i x)"
proof -
  assume "i < 20"
  then have "list_all (\<lambda>i. list_all (\<lambda>c. c \<noteq> 0 \<and> c \<noteq> 0x25) (str (exception_name i))) [0..<20] \<Longrightarrow> list_all (\<lambda>c. c \<noteq> 0 \<and> c \<noteq> 0x25) (str (exception_name i))"
    by (simp add: list_all_iff)
  moreover have "list_all (\<lambda>i. list_all (\<lambda>c. c \<noteq> 0 \<and> c \<noteq> 0x25) (str (exception_name i))) [0..<20]" by code_simp
  ultimately have "\<forall>c \<in> set (str (exception_name i)). c \<noteq> 0 \<and> c \<noteq> 0x25" by (simp add: list_all_iff)
  then show ?thesis by (simp add: exception_pieces_def) (simp add: str_def)
qed

lemma exception_args:
  "concat (map piece_args (exception_pieces i x)) = (if i = 13 \<or> i = 14 then [x] else [])"
  by (simp add: exception_pieces_def)

text \<open>How each entry of the table of routines is put together.\<close>

lemma exception_routine_halts:
  assumes "i < 20" and "\<not> spins i"
  shows "(exception_routines fr x ! i) s = report_halt fr (exception_format i) (if i = 13 \<or> i = 14 then [x] else []) s"
proof -
  have "i \<in> {0, 2, 3, 4, 5, 6, 7, 8, 9, 11, 12, 13, 14, 16, 17, 18, 19}" using assms by (simp add: spins_def) presburger
  moreover have "exception_format i = line (exception_name i @ (if i = 13 \<or> i = 14 then '': %x'' else ''''))"
    by (simp add: exception_pieces_def line_def) (simp add: str_def)
  ultimately show ?thesis
    by (elim insertE emptyE; simp add: exception_routines_def exception_name_def
      divide_by_zero_def non_maskable_interrupt_def breakpoint_def overflow_def BOUND_range_exceeded_def invalid_opcode_def
      device_not_available_def double_fault_def coprocessor_segment_overrun_def segment_not_present_def stack_segment_fault_def
      general_protection_def page_fault_def floating_point_error_def alignment_check_def machine_check_def
      SIMD_floating_point_exception_def)
qed

lemma exception_routine_spins:
  assumes "spins i"
  shows "exception_routines fr x ! i = report fr (exception_format i)"
  using assms
  by (auto simp: spins_def exception_routines_def reserved_1_def invalid_TSS_def common_interrupt_def exception_pieces_def
      exception_name_def line_def)

lemma printf_exception:
  assumes i: "i < 20" and ok: "console_ok s" "current_terminal s = t" and fr: "print_frame_ok C fr"
    and m: "cstring (vmem s) (lit fr (exception_format i)) (exception_format i)"
      "steady (C \<union> - kernel_frame) (lit fr (exception_format i)) (Suc (length (exception_format i)))"
  shows "\<exists>s' r. printf_call fr (exception_format i) (if i = 13 \<or> i = 14 then [x] else []) s = Some (s', r) \<and>
    printed t C s (exception_text i x) s'"
  using on_screen.printf_call_eq [OF _ fr exception_formats [OF i, of x, symmetric] exception_args [of i x, symmetric] _
      exception_pieces_ok [OF i] m, of t] ok
  unfolding exception_text_def by auto

lemma halt_text_view: "text_view t (fst (halt code s)) = text_view t s"
  by (simp add: halt_def free_current_pcb_eq Let_def)

text \<open>
  C14. An exception in a program: the handler of every vector but 1, 10 and 15 prints its name, and for
  the two that take it from the stack the error code, on the displayed terminal, and ends the process;
  its parent continues on its saved stack pointer and gets 256. Nothing else is printed, no other
  process changes, and of memory only the screen and the handler's stack.
\<close>

theorem exception_ends_process:
  assumes "tasks_wf s" and "p = current_process s" and "4 \<le> p" and "q = parent (pcbs s p)" and "q \<noteq> p" and "pd_ready s q"
    and "t = current_terminal s" and "i < 20" and "\<not> spins i" and "print_frame_ok C fr"
    and "cstring (vmem s) (lit fr (exception_format i)) (exception_format i)"
    and "steady (C \<union> - kernel_frame) (lit fr (exception_format i)) (Suc (length (exception_format i)))"
  shows "\<exists>s'. (exception_routines fr x ! i) s = Some (s', Halts (Return_to (esp (pcbs s q)) 256)) \<and>
    current_process s' = q \<and> cr3 s' = q \<and> tasks_wf s' \<and> \<not> present (pcbs s' p) \<and> (\<forall>r. r \<noteq> p \<longrightarrow> pcbs s' r = pcbs s r) \<and>
    text_view t s' = fold (aputc (attribs t)) (exception_text i x) (text_view t s) \<and>
    (\<forall>u < 3. u \<noteq> t \<longrightarrow> text_view u s' = text_view u s) \<and>
    (\<forall>a. a \<notin> C \<longrightarrow> a \<notin> video_frames \<longrightarrow> phys s' a = phys s a)"
proof -
  note ok = tasks_wfD(5) [OF assms(1)]
  obtain s1 r where s1: "printf_call fr (exception_format i) (if i = 13 \<or> i = 14 then [x] else []) s = Some (s1, r)"
    "printed t C s (exception_text i x) s1"
    using printf_exception [OF assms(8) ok assms(7) [symmetric] assms(10-12), of x] by blast
  have rs: "rest s1 = rest s" and ok1: "console_ok s1" using s1(2) by (simp_all add: printed_def)
  note tk = rest_tasking [OF rs]
  have "pd_ready s1 q = pd_ready s q" by (rule pd_ready_cong) (simp_all add: restD [OF rs])
  then obtain s' where s': "halt 256 s1 = (s', Return_to (esp (pcbs s1 q)) 256)" "current_process s' = q" "cr3 s' = q" "tasks_wf s'"
    "phys s' = phys s1" "\<not> present (pcbs s' p)" "\<forall>r. r \<noteq> p \<longrightarrow> pcbs s' r = pcbs s1 r"
    using halt_eq [OF console_tasks_wf [OF assms(1) rs ok1], of p q 256] assms(2-6) tk by auto
  have "text_view u s' = text_view u s1" for u using halt_text_view [of u 256 s1] s'(1) by simp
  then show ?thesis
    using s1 s' tk unfolding exception_routine_halts [OF assms(8,9)] report_halt_def
    by (simp add: ece391_halt_def USER_EXCEPT_CODE_def printed_def)
qed

definition demo_calls :: print_frame where
  "demo_calls = \<lparr>lit = \<lambda>_. 0x480000, arg_at = 0x490000, conv_at = \<lambda>_. 0x4A0000\<rparr>"

definition demo_exn_state :: kernel where
  "demo_exn_state = kernel_of 5 (wr_bytes (\<lambda>_. 0) 0x480000 (exception_format 14))"

definition demo_space :: "u32 set" where
  "demo_space = region 0x4A0000 64 \<union> region 0x490000 24"

lemma demo_calls_ok: "print_frame_ok demo_space (demo_calls\<lparr>lit := l\<rparr>)"
  using region_mono [of 36 64 "0x4A0000"] steady_apart [of "0x490000" 24 "0x4A0000" 64]
  unfolding print_frame_ok_def
  by (intro conjI exI [of _ "region 0x4A0000 64"]) (simp_all add: demo_calls_def demo_space_def conv_bufs_def work_at_def)

lemma demo_space_steady:
  assumes "4194304 \<le> unat a" and "unat a + n \<le> 0x490000"
  shows "steady (demo_space \<union> - kernel_frame) a n"
  unfolding demo_space_def steady_Un using assms by (simp add: steady_apart steady_kernel)

theorem exception_ends_process_witness:
  "\<exists>s'. (exception_routines demo_calls 7 ! 14) demo_exn_state = Some (s', Halts (Return_to 0 256)) \<and> current_process s' = 4 \<and>
     text_view 0 s' = fold (aputc (attribs 0)) (line ''page_fault: 7'') (text_view 0 demo_exn_state)"
proof -
  have f: "exception_format 14 = line ''page_fault: %x''" "exception_text 14 7 = line ''page_fault: 7''" by code_simp+
  have wf: "tasks_wf demo_exn_state" by (simp add: demo_exn_state_def kernel_of_wf MAX_PID_def)
  have t: "pcbs (tasks 5) = (pcbs (tasks 4))(5 := new_pcb 4)" "pcbs (tasks 4) = (pcbs (tasks 3))(4 := new_pcb 3)"
    using tasks_Suc [of 4] tasks_Suc [of 3] by (simp_all add: spawned_fields tasks_fields)
  have p: "5 = current_process demo_exn_state" "4 = parent (pcbs demo_exn_state 5)" "esp (pcbs demo_exn_state 4) = 0" "0 = current_terminal demo_exn_state"
    by (simp_all add: demo_exn_state_def kernel_of_fields t new_pcb_def tasks_fields)
  have "present (pcbs demo_exn_state 4)" by (simp add: demo_exn_state_def kernel_of_fields tasks_present)
  then have q: "pd_ready demo_exn_state 4" using wf by (auto simp: tasks_wf_def MAX_PID_def)
  have pg: "paging_ok demo_exn_state" using tasks_wfD(5) [OF wf] by (simp add: console_ok_def)
  have vm: "vmem demo_exn_state a = phys demo_exn_state a" if "4194304 \<le> unat a" "unat a < 8388608" for a
    by (rule kernel_vmem [OF pg that])
  have "cstring (vmem demo_exn_state) 0x480000 (exception_format 14)"
    unfolding f by (simp add: line_def str_def cstring_Cons cstring_Nil vm) (simp add: demo_exn_state_def kernel_of_fields f line_def str_def)
  moreover have "steady (demo_space \<union> - kernel_frame) 0x480000 (Suc (length (exception_format 14)))"
    unfolding f by (intro demo_space_steady) (simp_all add: line_def str_def)
  moreover have "print_frame_ok demo_space demo_calls" using demo_calls_ok [of "lit demo_calls"] by simp
  ultimately show ?thesis
    using exception_ends_process [OF wf p(1) _ p(2) _ q p(4), of 14 demo_space demo_calls 7] p(3) unfolding f
    by (auto simp: spins_def demo_calls_def)
qed

end
