(* ===== verification/Boot.thy ===== *)
theory Boot
  imports Idt Screen_Edit "HOL-Library.Monad_Syntax"
begin

unbundle bit_operations_syntax

text \<open>
  The boot sequence of \<^verbatim>\<open>kernel.c\<close>: \<open>entry\<close> prints the multiboot information, builds the descriptors of
  the LDT and the TSS (\<^verbatim>\<open>x86_desc.h\<close>), fills the interrupt table, programs the devices, enables paging
  and mounts the file system. Until paging is enabled the video window is plain memory. The addresses
  of the tables and handlers are in \<open>linked\<close>. No interrupt arrives in the model of this code.
\<close>

section \<open>Descriptors\<close>

record seg_desc_t =
  seg_lim_15_00 :: u16
  base_15_00 :: u16
  base_23_16 :: byte
  seg_type :: "4 word"
  seg_sys :: "1 word"
  seg_dpl :: "2 word"
  seg_present :: "1 word"
  seg_lim_19_16 :: "4 word"
  seg_avail :: "1 word"
  seg_reserved :: "1 word"
  seg_opsize :: "1 word"
  seg_granularity :: "1 word"
  base_31_24 :: byte

definition KERNEL_DS :: u16 where "KERNEL_DS = 0x18"

definition KERNEL_TSS :: u16 where "KERNEL_TSS = 0x30"

definition KERNEL_LDT :: u16 where "KERNEL_LDT = 0x38"

definition TSS_SIZE :: u32 where "TSS_SIZE = 104"

definition SET_LDT_PARAMS :: "u32 \<Rightarrow> u32 \<Rightarrow> seg_desc_t \<Rightarrow> seg_desc_t" where
  "SET_LDT_PARAMS addr lim d =
     d\<lparr>base_31_24 := ucast (drop_bit 24 (addr AND 0xFF000000)), base_23_16 := ucast (drop_bit 16 (addr AND 0x00FF0000)),
       base_15_00 := ucast (addr AND 0x0000FFFF), seg_lim_19_16 := ucast (drop_bit 16 (lim AND 0x000F0000)),
       seg_lim_15_00 := ucast (lim AND 0x0000FFFF)\<rparr>"

definition SET_TSS_PARAMS :: "u32 \<Rightarrow> u32 \<Rightarrow> seg_desc_t \<Rightarrow> seg_desc_t" where
  "SET_TSS_PARAMS addr lim d =
     d\<lparr>base_31_24 := ucast (drop_bit 24 (addr AND 0xFF000000)), base_23_16 := ucast (drop_bit 16 (addr AND 0x00FF0000)),
       base_15_00 := ucast (addr AND 0x0000FFFF), seg_lim_19_16 := ucast (drop_bit 16 (lim AND 0x000F0000)),
       seg_lim_15_00 := ucast (lim AND 0x0000FFFF)\<rparr>"

section \<open>State\<close>

text \<open>
  The tables and registers that only the boot code writes. Of the TSS, the fields set here; its \<open>esp0\<close>
  is part of the tasking state.
\<close>

record booting = kernel +
  idt :: "nat \<Rightarrow> idt_desc_t"
  ldt_desc_ptr :: seg_desc_t
  tss_desc_ptr :: seg_desc_t
  ldt_segment_selector :: u16
  ss0 :: u16
  ldtr :: u16
  tr :: u16
  idt_loaded :: bool

record linked =
  handler_at :: "handler \<Rightarrow> u32"
  ldt_at :: u32
  ldt_size :: u32
  tss_at :: u32
  tss_size :: u32

section \<open>Multiboot information\<close>

definition MULTIBOOT_BOOTLOADER_MAGIC :: u32 where "MULTIBOOT_BOOTLOADER_MAGIC = 0x2BADB002"

definition CHECK_FLAG :: "u32 \<Rightarrow> nat \<Rightarrow> bool" where
  "CHECK_FLAG fl b \<longleftrightarrow> fl AND push_bit b 1 \<noteq> 0"

definition mb_flags :: "memory \<Rightarrow> u32 \<Rightarrow> u32" where "mb_flags m mbi = rd32 m mbi"

definition mem_lower :: "memory \<Rightarrow> u32 \<Rightarrow> u32" where "mem_lower m mbi = rd32 m (mbi + 4)"

definition mem_upper :: "memory \<Rightarrow> u32 \<Rightarrow> u32" where "mem_upper m mbi = rd32 m (mbi + 8)"

definition boot_device :: "memory \<Rightarrow> u32 \<Rightarrow> u32" where "boot_device m mbi = rd32 m (mbi + 12)"

definition mb_cmdline :: "memory \<Rightarrow> u32 \<Rightarrow> u32" where "mb_cmdline m mbi = rd32 m (mbi + 16)"

definition mods_count :: "memory \<Rightarrow> u32 \<Rightarrow> u32" where "mods_count m mbi = rd32 m (mbi + 20)"

definition mods_addr :: "memory \<Rightarrow> u32 \<Rightarrow> u32" where "mods_addr m mbi = rd32 m (mbi + 24)"

definition elf_sec :: "memory \<Rightarrow> u32 \<Rightarrow> u32 list" where
  "elf_sec m mbi = [rd32 m (mbi + 28), rd32 m (mbi + 32), rd32 m (mbi + 36), rd32 m (mbi + 40)]"

definition mmap_length :: "memory \<Rightarrow> u32 \<Rightarrow> u32" where "mmap_length m mbi = rd32 m (mbi + 44)"

definition mmap_addr :: "memory \<Rightarrow> u32 \<Rightarrow> u32" where "mmap_addr m mbi = rd32 m (mbi + 48)"

definition mod_start :: "memory \<Rightarrow> u32 \<Rightarrow> u32" where "mod_start m md = rd32 m md"

definition mod_end :: "memory \<Rightarrow> u32 \<Rightarrow> u32" where "mod_end m md = rd32 m (md + 4)"

text \<open>The size of an entry of the memory map and its other fields in the order in which they are printed.\<close>

definition mmap_size :: "memory \<Rightarrow> u32 \<Rightarrow> u32" where "mmap_size m a = rd32 m a"

definition mmap_fields :: "memory \<Rightarrow> u32 \<Rightarrow> u32 list" where
  "mmap_fields m a = [rd32 m (a + 8), rd32 m (a + 4), rd32 m (a + 20), rd32 m (a + 16), rd32 m (a + 12)]"

section \<open>entry\<close>

definition say :: "print_frame \<Rightarrow> byte list \<Rightarrow> u32 list \<Rightarrow> 'a screen_scheme \<Rightarrow> 'a screen_scheme option" where
  "say fr fmt args s = map_option fst (printf_call fr fmt args s)"

definition boot_info :: "print_frame \<Rightarrow> u32 \<Rightarrow> 'a screen_scheme \<Rightarrow> 'a screen_scheme option" where
  "boot_info fr mbi s = do {
     s \<leftarrow> say fr (line ''flags = 0x%#x'') [mb_flags (vmem s) mbi] s;
     s \<leftarrow> (if CHECK_FLAG (mb_flags (vmem s) mbi) 0
          then say fr (line ''mem_lower = %uKB, mem_upper = %uKB'') [mem_lower (vmem s) mbi, mem_upper (vmem s) mbi] s else Some s);
     s \<leftarrow> (if CHECK_FLAG (mb_flags (vmem s) mbi) 1 then say fr (line ''boot_device = 0x%#x'') [boot_device (vmem s) mbi] s else Some s);
     if CHECK_FLAG (mb_flags (vmem s) mbi) 2 then say fr (line ''cmdline = %s'') [mb_cmdline (vmem s) mbi] s else Some s
   }"

fun print_bytes :: "print_frame \<Rightarrow> u32 \<Rightarrow> nat list \<Rightarrow> 'a screen_scheme \<Rightarrow> 'a screen_scheme option" where
  "print_bytes fr md [] s = Some s"
| "print_bytes fr md (i # is) s = do {
     s \<leftarrow> say fr (str ''0x%x '') [scast (vmem s (mod_start (vmem s) md + of_nat i))] s;
     print_bytes fr md is s
   }"

definition print_module :: "print_frame \<Rightarrow> u32 \<Rightarrow> u32 \<Rightarrow> 'a screen_scheme \<Rightarrow> 'a screen_scheme option" where
  "print_module fr md mod_count s = do {
     s \<leftarrow> say fr (line ''Module %d loaded at address: 0x%#x'') [mod_count, mod_start (vmem s) md] s;
     s \<leftarrow> say fr (line ''Module %d ends at address: 0x%#x'') [mod_count, mod_end (vmem s) md] s;
     s \<leftarrow> say fr (line ''First few bytes of module:'') [] s;
     s \<leftarrow> print_bytes fr md [0..<16] s;
     say fr [10] [] s
   }"

partial_function (option) modules_loop :: "print_frame \<Rightarrow> u32 \<Rightarrow> u32 \<Rightarrow> u32 \<Rightarrow> 'a screen_scheme \<Rightarrow> ('a screen_scheme \<times> u32) option" where
  "modules_loop fr mbi md mod_count s =
     (if mod_count < mods_count (vmem s) mbi
      then do {
        s \<leftarrow> print_module fr md mod_count s;
        modules_loop fr mbi (md + 16) (mod_count + 1) s
      }
      else Some (s, mod_count))"

definition boot_modules :: "print_frame \<Rightarrow> u32 \<Rightarrow> 'a screen_scheme \<Rightarrow> ('a screen_scheme \<times> u32) option" where
  "boot_modules fr mbi s =
     (if CHECK_FLAG (mb_flags (vmem s) mbi) 3
      then do {
        (s, mod_count) \<leftarrow> modules_loop fr mbi (mods_addr (vmem s) mbi) 0 s;
        if mod_count \<noteq> 0 then Some (s, mod_start (vmem s) (mods_addr (vmem s) mbi))
        else do { s \<leftarrow> say fr (str ''No module 0, zbigfs will FAIL!'') [] s; Some (s, 0) }
      }
      else Some (s, 0))"

definition boot_elf :: "print_frame \<Rightarrow> u32 \<Rightarrow> 'a screen_scheme \<Rightarrow> 'a screen_scheme option" where
  "boot_elf fr mbi s =
     (if CHECK_FLAG (mb_flags (vmem s) mbi) 5
      then say fr (line ''elf_sec: num = %u, size = 0x%#x, addr = 0x%#x, shndx = 0x%#x'') (elf_sec (vmem s) mbi) s
      else Some s)"

partial_function (option) mmap_loop :: "print_frame \<Rightarrow> u32 \<Rightarrow> u32 \<Rightarrow> 'a screen_scheme \<Rightarrow> 'a screen_scheme option" where
  "mmap_loop fr mbi mmap s =
     (if mmap < mmap_addr (vmem s) mbi + mmap_length (vmem s) mbi
      then do {
        s \<leftarrow> say fr (line '' size = 0x%x,     base_addr = 0x%#x%#x'' @ line ''     type = 0x%x,  length    = 0x%#x%#x'')
              (mmap_size (vmem s) mmap # mmap_fields (vmem s) mmap) s;
        mmap_loop fr mbi (mmap + mmap_size (vmem s) mmap + 4) s
      }
      else Some s)"

definition boot_mmap :: "print_frame \<Rightarrow> u32 \<Rightarrow> 'a screen_scheme \<Rightarrow> 'a screen_scheme option" where
  "boot_mmap fr mbi s =
     (if CHECK_FLAG (mb_flags (vmem s) mbi) 6
      then do {
        s \<leftarrow> say fr (line ''mmap_addr = 0x%#x, mmap_length = 0x%x'') [mmap_addr (vmem s) mbi, mmap_length (vmem s) mbi] s;
        mmap_loop fr mbi (mmap_addr (vmem s) mbi) s
      }
      else Some s)"

definition setup_ldt :: "linked \<Rightarrow> 'a booting_scheme \<Rightarrow> 'a booting_scheme" where
  "setup_ldt lk s =
     (let d = (ldt_desc_ptr s)\<lparr>seg_granularity := 0, seg_opsize := 1, seg_reserved := 0, seg_avail := 0, seg_present := 1,
            seg_dpl := 0, seg_sys := 0, seg_type := 2\<rparr>;
          d = SET_LDT_PARAMS (ldt_at lk) (ldt_size lk) d
      in s\<lparr>ldt_desc_ptr := d, ldtr := KERNEL_LDT\<rparr>)"

definition setup_tss :: "linked \<Rightarrow> 'a booting_scheme \<Rightarrow> 'a booting_scheme" where
  "setup_tss lk s =
     (let d = (tss_desc_ptr s)\<lparr>seg_granularity := 0, seg_opsize := 0, seg_reserved := 0, seg_avail := 0,
            seg_lim_19_16 := ucast (TSS_SIZE AND 0x000F0000), seg_present := 1, seg_dpl := 0, seg_sys := 0, seg_type := 9,
            seg_lim_15_00 := ucast (TSS_SIZE AND 0x0000FFFF)\<rparr>;
          d = SET_TSS_PARAMS (tss_at lk) (tss_size lk) d
      in s\<lparr>tss_desc_ptr := d, ldt_segment_selector := KERNEL_LDT, ss0 := KERNEL_DS, esp0 := 0x800000, tr := KERNEL_TSS\<rparr>)"

definition PIT_CTRL_ADDR :: u16 where "PIT_CTRL_ADDR = 0x43"

definition PIT_PORT0_CTRL_ADDR :: u16 where "PIT_PORT0_CTRL_ADDR = 0x40"

definition boot_devices :: "device \<Rightarrow> linked \<Rightarrow> 'a booting_scheme \<Rightarrow> 'a booting_scheme" where
  "boot_devices dv lk s =
     (let s = s\<lparr>idt := populate_idt (handler_at lk) (idt s), idt_loaded := True\<rparr>;
          s = i8259_init s;
          s = rtc_init dv s;
          s = outb (0x10 OR 0x20 OR 4) PIT_CTRL_ADDR s;
          s = outb 0 PIT_PORT0_CTRL_ADDR s;
          s = outb 0 PIT_PORT0_CTRL_ADDR s
      in disable_irq dv 0 s)"

definition boot_kernel :: "print_frame \<Rightarrow> u32 \<Rightarrow> 'a booting_scheme \<Rightarrow> 'a booting_scheme option" where
  "boot_kernel fr zbigfs_location s = do {
     s \<leftarrow> say fr (line ''Enabling Interrupts'') [] s;
     let s = init_paging (sti s);
     s \<leftarrow> say fr (line ''Mounting module 0 as read-only zbigfs filesystem'') [] s;
     Some (term_clear (init_pcbs (zbigfs_mount zbigfs_location s)))
   }"

datatype boot_result = Refused | Idle

definition entry :: "device \<Rightarrow> linked \<Rightarrow> print_frame \<Rightarrow> u32 \<Rightarrow> u32 \<Rightarrow> 'a booting_scheme \<Rightarrow> ('a booting_scheme \<times> boot_result) option" where
  "entry dv lk fr magic mbi s =
     (let s = clear s in
      if magic \<noteq> MULTIBOOT_BOOTLOADER_MAGIC
      then do { s \<leftarrow> say fr (line ''Invalid magic number: 0x%#x'') [magic] s; Some (s, Refused) }
      else do {
        s \<leftarrow> boot_info fr mbi s;
        (s, zbigfs_location) \<leftarrow> boot_modules fr mbi s;
        if CHECK_FLAG (mb_flags (vmem s) mbi) 4 \<and> CHECK_FLAG (mb_flags (vmem s) mbi) 5
        then do { s \<leftarrow> say fr (line ''Both bits 4 and 5 are set.'') [] s; Some (s, Refused) }
        else do {
          s \<leftarrow> boot_elf fr mbi s;
          s \<leftarrow> boot_mmap fr mbi s;
          let s = boot_devices dv lk (setup_tss lk (setup_ldt lk s));
          s \<leftarrow> boot_kernel fr zbigfs_location s;
          Some (s, Idle)
        }
      })"

section \<open>The console before paging\<close>

text \<open>The video window, which is plain memory as long as paging is off.\<close>

definition boot_window :: "u32 set" where "boot_window = region video_mem 4096"

definition flat_ok :: "'a screen_scheme \<Rightarrow> bool" where
  "flat_ok s \<longleftrightarrow> cr0 s AND 0x80000000 = 0 \<and> current_terminal s < 3 \<and> (\<forall>t < 3. cursor_ok s t)"

definition flat_printed :: "u32 set \<Rightarrow> 'a screen_scheme \<Rightarrow> byte list \<Rightarrow> 'a screen_scheme \<Rightarrow> bool" where
  "flat_printed B s xs s' \<longleftrightarrow> flat_ok s' \<and> rest s' = rest s \<and> fault s' = fault s \<and>
     (\<forall>a. a \<notin> B \<longrightarrow> a \<notin> boot_window \<longrightarrow> phys s' a = phys s a)"

lemma boot_window_interval: "boot_window = {b. 50343936 \<le> unat b \<and> unat b < 50348032}"
proof -
  have "region (0x3003000 :: u32) 4096 = {b. unat (0x3003000 :: u32) \<le> unat b \<and> unat b < unat (0x3003000 :: u32) + 4096}"
    by (rule region_interval) simp
  then show ?thesis by (simp add: boot_window_def video_mem_def paging_consts)
qed

lemma boot_window_kernel: "boot_window \<inter> kernel_frame = {}"
  unfolding boot_window_interval by (auto simp: kernel_frame_interval)

lemma maps_flat: "cr0 s AND 0x80000000 = 0 \<Longrightarrow> maps s base base"
  by (simp add: maps_def translate_def)

lemma flat_putc:
  assumes ok: "flat_ok s"
  shows "flat_printed B s [c] (putc c s)"
proof -
  define t where "t = current_terminal s"
  have t: "t < 3" "cursor_ok s t" "cr0 s AND 0x80000000 = 0" using ok by (simp_all add: flat_ok_def t_def)
  note p = putc_maps [OF maps_flat [OF t(3)] t_def t(2), of c]
  have "phys (putc c s) a = phys s a" if "a \<notin> boot_window" for a
    using that unfolding p(1) boot_window_def by (simp add: scroll_mem_outside place_outside)
  moreover have "cursor_ok (putc c s) u" if "u < 3" for u
    using ok that t(2) unfolding cursor_ok_def p(2,3) by (auto simp: flat_ok_def cursor_ok_def)
  moreover have "cr0 (putc c s) = cr0 s" using restD(6) [of "putc c s" s] by simp
  ultimately show ?thesis using p(4,5) t by (simp add: flat_printed_def flat_ok_def)
qed

lemma flat_write:
  assumes "flat_ok s" and "work_at B a n" and "length xs \<le> n"
  shows "flat_printed B s [] (s\<lparr>phys := wr_bytes (phys s) a xs\<rparr>)"
proof -
  have a: "unat a + n \<le> 8388608" "region a n \<subseteq> B" using assms(2) by (simp_all add: work_at_def)
  have "wr_bytes (phys s) a xs b = phys s b" if "b \<notin> B" for b
    using that a assms(3) region_mono [OF assms(3), of a] by (intro wr_bytes_outside) auto
  then show ?thesis using assms(1) by (simp add: flat_printed_def flat_ok_def cursor_ok_def rest_def)
qed

interpretation flat: printer flat_ok flat_printed boot_window
proof unfold_locales
  fix s s' s'' :: "'a screen_scheme" and B C xs ys a n b c
  show "flat_printed B s [] s" if "flat_ok s" using that by (simp add: flat_printed_def)
  show "flat_ok s'" if "flat_printed B s xs s'" using that by (simp add: flat_printed_def)
  show "flat_printed B s (xs @ ys) s''" if "flat_printed B s xs s'" "flat_printed B s' ys s''" using that by (simp add: flat_printed_def)
  show "flat_printed C s xs s'" if "flat_printed B s xs s'" "B \<subseteq> C" using that by (auto simp: flat_printed_def)
  show "flat_printed B s [c] (putc c s)" if "flat_ok s" using that by (rule flat_putc)
  show "flat_printed B s [] (s\<lparr>phys := wr_bytes (phys s) a xs\<rparr>)" if "flat_ok s" "work_at B a n" "length xs \<le> n"
    using that by (rule flat_write)
  show "vmem s' a = vmem s a" if "flat_ok s" "flat_printed B s xs s'" "a \<notin> B \<union> boot_window"
    using that vmem_flat [of s] vmem_flat [of s'] by (simp add: flat_printed_def flat_ok_def)
  assume "flat_ok s"
  then have p: "cr0 s AND 0x80000000 = 0" by (simp add: flat_ok_def)
  show "vmem s a = phys s a" using vmem_flat [OF p] by simp
  show "put_vmem (wr_bytes (vmem s) a xs) s = s\<lparr>phys := wr_bytes (phys s) a xs\<rparr>" using vmem_flat [OF p] put_vmem_flat [OF p] by simp
  show "kwrite8 a b s = s\<lparr>phys := (phys s)(a := b)\<rparr>" using p by (simp add: kwrite8_def translate_def)
qed (rule boot_window_kernel)

section \<open>Messages\<close>

text \<open>A format without strings that fits a number of arguments, and the pieces it stands for.\<close>

fun fits :: "byte list \<Rightarrow> nat \<Rightarrow> bool" where
  "fits [] n = (n = 0)"
| "fits (c # r) n =
     (if c = 0x25
      then (case r of
              [] \<Rightarrow> False
            | d # r' \<Rightarrow>
                (if d = 0x25 then fits r' n
                 else if d = 0x23 then (case r' of [] \<Rightarrow> False | x # r'' \<Rightarrow> x = 0x78 \<and> 0 < n \<and> fits r'' (n - 1))
                 else (d = 0x78 \<or> d = 0x75 \<or> d = 0x64) \<and> 0 < n \<and> fits r' (n - 1)))
      else c \<noteq> 0 \<and> fits r n)"

definition pieces_of :: "byte list \<Rightarrow> u32 list \<Rightarrow> piece list \<Rightarrow> bool" where
  "pieces_of fmt args ps \<longleftrightarrow> fmt = concat (map piece_format ps) \<and> args = concat (map piece_args ps) \<and> (\<forall>B m. list_all (piece_ok B m) ps)"

lemma pieces_of_Cons:
  "pieces_of r as ps \<Longrightarrow> (\<And>B m. piece_ok B m p) \<Longrightarrow> pieces_of (piece_format p @ r) (piece_args p @ as) (p # ps)"
  by (simp add: pieces_of_def)

lemma fits_pieces: "fits fmt (length args) \<Longrightarrow> \<exists>ps. pieces_of fmt args ps"
proof (induction "length fmt" arbitrary: fmt args rule: less_induct)
  case less
  show ?case
  proof (cases fmt)
    case Nil
    then show ?thesis using less.prems by (intro exI [of _ "[]"]) (simp add: pieces_of_def)
  next
    case (Cons c r)
    show ?thesis
    proof (cases "c = 0x25")
      case False
      then obtain ps where "pieces_of r args ps" using less.hyps [of r args] less.prems Cons by auto
      then show ?thesis using False less.prems Cons pieces_of_Cons [of r args ps "Lit c"] by auto
    next
      case True
      then obtain d r' where r: "r = d # r'" using less.prems Cons by (cases r) simp_all
      consider "d = 0x25" | x r'' where "d = 0x23" "r' = x # r''" "x = 0x78" | "d = 0x78 \<or> d = 0x75 \<or> d = 0x64"
        using less.prems Cons True r by (cases "d = 0x25"; cases "d = 0x23"; cases r') simp_all
      then show ?thesis
      proof cases
        case 1
        then obtain ps where "pieces_of r' args ps" using less.hyps [of r' args] less.prems Cons True r by auto
        then show ?thesis using 1 True Cons r pieces_of_Cons [of r' args ps Percent] by auto
      next
        case (2 x r'')
        then obtain v as where a: "args = v # as" "fits r'' (length as)" using less.prems Cons True r by (cases args) auto
        then obtain ps where "pieces_of r'' as ps" using less.hyps [of r'' as] Cons r 2 by auto
        then show ?thesis using 2 True Cons r a pieces_of_Cons [of r'' as ps "Hex8 v"] by auto
      next
        case 3
        then obtain v as where a: "args = v # as" "fits r' (length as)" using less.prems Cons True r by (cases args) auto
        then obtain ps where "pieces_of r' as ps" using less.hyps [of r' as] Cons r 3 by auto
        then show ?thesis
          using 3 True Cons r a pieces_of_Cons [of r' as ps "Hex v"] pieces_of_Cons [of r' as ps "Unsigned v"]
            pieces_of_Cons [of r' as ps "Signed v"] by auto
      qed
    qed
  qed
qed

text \<open>The literals of the boot code, with the number of arguments of each.\<close>

definition boot_literals :: "(byte list \<times> nat) list" where
  "boot_literals =
    [(line ''Invalid magic number: 0x%#x'', 1), (line ''flags = 0x%#x'', 1),
     (line ''mem_lower = %uKB, mem_upper = %uKB'', 2), (line ''boot_device = 0x%#x'', 1),
     (line ''Module %d loaded at address: 0x%#x'', 2), (line ''Module %d ends at address: 0x%#x'', 2),
     (line ''First few bytes of module:'', 0), (str ''0x%x '', 1), ([10], 0), (str ''No module 0, zbigfs will FAIL!'', 0),
     (line ''Both bits 4 and 5 are set.'', 0),
     (line ''elf_sec: num = %u, size = 0x%#x, addr = 0x%#x, shndx = 0x%#x'', 4),
     (line ''mmap_addr = 0x%#x, mmap_length = 0x%x'', 2),
     (line '' size = 0x%x,     base_addr = 0x%#x%#x'' @ line ''     type = 0x%x,  length    = 0x%#x%#x'', 6),
     (line ''Enabling Interrupts'', 0), (line ''Mounting module 0 as read-only zbigfs filesystem'', 0)]"

lemma boot_literals_fit: "(fmt, n) \<in> set boot_literals \<Longrightarrow> fits fmt n \<and> n \<le> 6"
proof -
  have "list_all (\<lambda>(fmt, n). fits fmt n \<and> n \<le> 6) boot_literals" by code_simp
  then show "(fmt, n) \<in> set boot_literals \<Longrightarrow> fits fmt n \<and> n \<le> 6" by (auto simp: list_all_iff)
qed

text \<open>
  The literals in kernel memory outside the work space \<open>C\<close> of the calls, and a state in which the boot
  code can print.
\<close>

definition literals_ok :: "u32 set \<Rightarrow> print_frame \<Rightarrow> memory \<Rightarrow> bool" where
  "literals_ok C fr m \<longleftrightarrow> (\<forall>fmt \<in> fst ` set boot_literals \<union> {line ''cmdline = %s''}.
     cstring m (lit fr fmt) fmt \<and> steady (C \<union> - kernel_frame) (lit fr fmt) (Suc (length fmt)))"

definition boot_ok :: "u32 set \<Rightarrow> print_frame \<Rightarrow> 'a screen_scheme \<Rightarrow> bool" where
  "boot_ok C fr s \<longleftrightarrow> flat_ok s \<and> print_frame_ok C fr \<and> literals_ok C fr (vmem s)"

definition quiet :: "u32 set \<Rightarrow> 'a screen_scheme \<Rightarrow> 'a screen_scheme \<Rightarrow> bool" where
  "quiet C s s' \<longleftrightarrow> (\<exists>xs. flat_printed C s xs s')"

lemma quiet_refl: "flat_ok s \<Longrightarrow> quiet C s s"
  using flat.prints_nil by (auto simp: quiet_def)

lemma quiet_trans: "quiet C s s' \<Longrightarrow> quiet C s' s'' \<Longrightarrow> quiet C s s''"
  unfolding quiet_def by (blast intro: flat.prints_trans)

lemma steady_flat: "steady (C \<union> - kernel_frame) a n \<Longrightarrow> steady (C \<union> boot_window) a n"
  using boot_window_kernel by (auto elim: steady_mono)

lemma literals_printed:
  assumes "literals_ok C fr m" and "\<And>a xs. steady (C \<union> - kernel_frame) a (Suc (length xs)) \<Longrightarrow> cstring m' a xs = cstring m a xs"
  shows "literals_ok C fr m'"
  using assms by (simp add: literals_ok_def)

lemma boot_ok_quiet:
  assumes "boot_ok C fr s" and "quiet C s s'"
  shows "boot_ok C fr s'"
proof -
  obtain xs where p: "flat_printed C s xs s'" using assms(2) by (auto simp: quiet_def)
  have s: "flat_ok s" "print_frame_ok C fr" "literals_ok C fr (vmem s)" using assms(1) by (simp_all add: boot_ok_def)
  have "literals_ok C fr (vmem s')"
    using s(3) by (rule literals_printed) (rule flat.prints_cstring [OF s(1) p steady_flat])
  then show ?thesis using s(2) flat.prints_ready [OF p] by (simp add: boot_ok_def)
qed

lemma quiet_rd:
  assumes "flat_ok s" and "quiet C s s'" and "steady (C \<union> boot_window) a n"
  shows "rd_bytes (vmem s') a n = rd_bytes (vmem s) a n"
proof -
  obtain xs where p: "flat_printed C s xs s'" using assms(2) by (auto simp: quiet_def)
  show ?thesis by (rule flat.prints_rd [OF assms(1) p assms(3)])
qed

lemma say_eq:
  assumes ok: "boot_ok C fr s" and f: "(fmt, length args) \<in> set boot_literals"
  shows "\<exists>s'. say fr fmt args s = Some s' \<and> quiet C s s' \<and> boot_ok C fr s'"
proof -
  have s: "flat_ok s" "print_frame_ok C fr" "literals_ok C fr (vmem s)" using ok by (simp_all add: boot_ok_def)
  have n: "fits fmt (length args)" "length args \<le> 6" using boot_literals_fit [OF f] by simp_all
  obtain ps where "pieces_of fmt args ps" using fits_pieces [OF n(1)] by blast
  then have ps: "fmt = concat (map piece_format ps)" "args = concat (map piece_args ps)" "list_all (piece_ok (C \<union> boot_window) (vmem s)) ps"
    by (simp_all add: pieces_of_def)
  have "fmt \<in> fst ` set boot_literals" using f by force
  then have m: "cstring (vmem s) (lit fr fmt) fmt" "steady (C \<union> boot_window) (lit fr fmt) (Suc (length fmt))"
    using s(3) steady_flat by (auto simp: literals_ok_def)
  obtain s' where "printf_call fr fmt args s = Some (s', int (length fmt))" "flat_printed C s (concat (map piece_text ps)) s'"
    using flat.printf_call_eq [OF s(1,2) ps(1,2) n(2) ps(3) m] by blast
  then show ?thesis using boot_ok_quiet [OF ok] by (auto simp: say_def quiet_def)
qed

section \<open>The multiboot information\<close>

text \<open>The chain of memory map entries reaches its end after \<open>n\<close> entries, all of them outside \<open>D\<close>.\<close>

fun mmap_ends :: "nat \<Rightarrow> u32 set \<Rightarrow> memory \<Rightarrow> u32 \<Rightarrow> u32 \<Rightarrow> bool" where
  "mmap_ends 0 D m a e = (\<not> a < e)"
| "mmap_ends (Suc n) D m a e = (a < e \<longrightarrow> steady D a 4 \<and> mmap_ends n D m (a + mmap_size m a + 4) e)"

text \<open>What the boot loader provides: the information, in memory that printing does not touch.\<close>

definition boot_data :: "u32 set \<Rightarrow> memory \<Rightarrow> u32 \<Rightarrow> bool" where
  "boot_data D m mbi \<longleftrightarrow> steady D mbi 52 \<and>
     (CHECK_FLAG (mb_flags m mbi) 2 \<longrightarrow> (\<exists>xs. cstring m (mb_cmdline m mbi) xs \<and> steady D (mb_cmdline m mbi) (Suc (length xs)))) \<and>
     (CHECK_FLAG (mb_flags m mbi) 3 \<longrightarrow> steady D (mods_addr m mbi) 4) \<and>
     (CHECK_FLAG (mb_flags m mbi) 6 \<longrightarrow> (\<exists>n. mmap_ends n D m (mmap_addr m mbi) (mmap_addr m mbi + mmap_length m mbi)))"

definition same_info :: "memory \<Rightarrow> memory \<Rightarrow> u32 \<Rightarrow> bool" where
  "same_info m' m mbi \<longleftrightarrow> mb_flags m' mbi = mb_flags m mbi \<and> mb_cmdline m' mbi = mb_cmdline m mbi \<and>
     mods_count m' mbi = mods_count m mbi \<and> mods_addr m' mbi = mods_addr m mbi \<and> mmap_length m' mbi = mmap_length m mbi \<and>
     mmap_addr m' mbi = mmap_addr m mbi"

lemma steady_part: "steady D a n \<Longrightarrow> i + k \<le> n \<Longrightarrow> steady D (a + of_nat i) k"
  using steady_add(2) [of D a i "n - i"] steady_add(1) [of D "a + of_nat i" k "n - i - k"] by simp

lemma quiet_rd32:
  assumes "flat_ok s" and "quiet C s s'" and "steady (C \<union> boot_window) a 4"
  shows "rd32 (vmem s') a = rd32 (vmem s) a"
  using quiet_rd [OF assms] by (simp add: rd32_def del: rd_bytes_numeral)

lemma quiet_info:
  assumes "flat_ok s" and "quiet C s s'" and "steady (C \<union> boot_window) mbi 52"
  shows "same_info (vmem s') (vmem s) mbi"
proof -
  have "rd32 (vmem s') (mbi + of_nat i) = rd32 (vmem s) (mbi + of_nat i)" if "i + 4 \<le> 52" for i
    using that by (intro quiet_rd32 [OF assms(1,2)] steady_part [OF assms(3)])
  from this [of 0] this [of 16] this [of 20] this [of 24] this [of 44] this [of 48] show ?thesis
    by (simp add: same_info_def mb_flags_def mb_cmdline_def mods_count_def mods_addr_def mmap_length_def mmap_addr_def)
qed

lemma quiet_mmap:
  assumes "flat_ok s" and "quiet C s s'"
  shows "mmap_ends n (C \<union> boot_window) (vmem s') a e = mmap_ends n (C \<union> boot_window) (vmem s) a e"
proof (induction n arbitrary: a)
  case (Suc n)
  have "steady (C \<union> boot_window) a 4 \<Longrightarrow> mmap_size (vmem s') a = mmap_size (vmem s) a"
    unfolding mmap_size_def using assms by (rule quiet_rd32)
  then show ?case by (simp add: Suc.IH cong: conj_cong)
qed simp

lemma quiet_data:
  assumes "flat_ok s" and "quiet C s s'" and d: "boot_data (C \<union> boot_window) (vmem s) mbi"
  shows "boot_data (C \<union> boot_window) (vmem s') mbi"
proof -
  have i: "same_info (vmem s') (vmem s) mbi" using quiet_info [OF assms(1,2)] d by (simp add: boot_data_def)
  have c: "cstring (vmem s') a xs = cstring (vmem s) a xs" if "steady (C \<union> boot_window) a (Suc (length xs))" for a xs
    using quiet_rd [OF assms(1,2) that] by (simp add: cstring_def)
  have ce: "(\<exists>xs. cstring (vmem s') a xs \<and> steady (C \<union> boot_window) a (Suc (length xs))) =
      (\<exists>xs. cstring (vmem s) a xs \<and> steady (C \<union> boot_window) a (Suc (length xs)))" for a
    using c by (intro ex_cong1) blast
  have e: "mb_flags (vmem s') mbi = mb_flags (vmem s) mbi" "mb_cmdline (vmem s') mbi = mb_cmdline (vmem s) mbi"
    "mods_addr (vmem s') mbi = mods_addr (vmem s) mbi" "mmap_length (vmem s') mbi = mmap_length (vmem s) mbi"
    "mmap_addr (vmem s') mbi = mmap_addr (vmem s) mbi"
    using i by (simp_all add: same_info_def)
  show ?thesis using d unfolding boot_data_def e ce quiet_mmap [OF assms(1,2)] .
qed

section \<open>Each part of the boot code returns and is quiet\<close>

definition booted :: "u32 set \<Rightarrow> print_frame \<Rightarrow> u32 \<Rightarrow> 'a screen_scheme \<Rightarrow> bool" where
  "booted C fr mbi s \<longleftrightarrow> boot_ok C fr s \<and> boot_data (C \<union> boot_window) (vmem s) mbi"

text \<open>A step of the boot code from \<open>s\<close> to \<open>s'\<close>.\<close>

definition boot_step :: "u32 set \<Rightarrow> print_frame \<Rightarrow> u32 \<Rightarrow> 'a screen_scheme \<Rightarrow> 'a screen_scheme \<Rightarrow> bool" where
  "boot_step C fr mbi s s' \<longleftrightarrow> quiet C s s' \<and> booted C fr mbi s' \<and> same_info (vmem s') (vmem s) mbi"

lemma booted_flat: "booted C fr mbi s \<Longrightarrow> flat_ok s"
  by (simp add: booted_def boot_ok_def)

lemma quiet_step: "booted C fr mbi s \<Longrightarrow> quiet C s s' \<Longrightarrow> boot_step C fr mbi s s'"
  using boot_ok_quiet [of C fr s s'] quiet_data [of s C s' mbi] quiet_info [of s C s' mbi] booted_flat [of C fr mbi s]
  by (auto simp: boot_step_def booted_def boot_data_def)

lemma boot_step_refl: "booted C fr mbi s \<Longrightarrow> boot_step C fr mbi s s"
  by (intro quiet_step quiet_refl booted_flat)

lemma boot_step_trans: "boot_step C fr mbi s s' \<Longrightarrow> boot_step C fr mbi s' s'' \<Longrightarrow> boot_step C fr mbi s s''"
  using quiet_trans by (auto simp: boot_step_def same_info_def)

lemma boot_stepD: "boot_step C fr mbi s s' \<Longrightarrow> booted C fr mbi s'"
  by (simp add: boot_step_def)

lemma say_step:
  assumes "booted C fr mbi s" and "(fmt, n) \<in> set boot_literals" and "length args = n"
  obtains s' where "say fr fmt args s = Some s'" "boot_step C fr mbi s s'"
  using say_eq [of C fr s fmt args] assms quiet_step [OF assms(1)] by (auto simp: booted_def)

text \<open>A message printed only under a condition.\<close>

lemma say_if_step:
  assumes "booted C fr mbi s" and "(fmt, n) \<in> set boot_literals" and "length args = n"
  obtains s' where "(if b then say fr fmt args s else Some s) = Some s'" "boot_step C fr mbi s s'"
proof (cases b)
  case True
  then show thesis using that say_step [OF assms] by auto
next
  case False
  then show thesis using that [of s] boot_step_refl [OF assms(1)] by simp
qed

lemma boot_literal:
  "(line ''Invalid magic number: 0x%#x'', 1) \<in> set boot_literals" "(line ''flags = 0x%#x'', 1) \<in> set boot_literals"
  "(line ''mem_lower = %uKB, mem_upper = %uKB'', 2) \<in> set boot_literals" "(line ''boot_device = 0x%#x'', 1) \<in> set boot_literals"
  "(line ''Module %d loaded at address: 0x%#x'', 2) \<in> set boot_literals"
  "(line ''Module %d ends at address: 0x%#x'', 2) \<in> set boot_literals"
  "(line ''First few bytes of module:'', 0) \<in> set boot_literals" "(str ''0x%x '', 1) \<in> set boot_literals" "([10], 0) \<in> set boot_literals"
  "(str ''No module 0, zbigfs will FAIL!'', 0) \<in> set boot_literals" "(line ''Both bits 4 and 5 are set.'', 0) \<in> set boot_literals"
  "(line ''elf_sec: num = %u, size = 0x%#x, addr = 0x%#x, shndx = 0x%#x'', 4) \<in> set boot_literals"
  "(line ''mmap_addr = 0x%#x, mmap_length = 0x%x'', 2) \<in> set boot_literals"
  "(line '' size = 0x%x,     base_addr = 0x%#x%#x'' @ line ''     type = 0x%x,  length    = 0x%#x%#x'', 6) \<in> set boot_literals"
  "(line ''Enabling Interrupts'', 0) \<in> set boot_literals"
  "(line ''Mounting module 0 as read-only zbigfs filesystem'', 0) \<in> set boot_literals"
  unfolding boot_literals_def by (rule list.set_intros)+

lemma say_cmdline:
  assumes b: "booted C fr mbi s" and f: "CHECK_FLAG (mb_flags (vmem s) mbi) 2"
  obtains s' where "say fr (line ''cmdline = %s'') [mb_cmdline (vmem s) mbi] s = Some s'" "boot_step C fr mbi s s'"
proof -
  let ?f = "line ''cmdline = %s''" and ?a = "mb_cmdline (vmem s) mbi"
  have s: "flat_ok s" "print_frame_ok C fr" "literals_ok C fr (vmem s)" using b by (simp_all add: booted_def boot_ok_def)
  obtain xs where xs: "cstring (vmem s) ?a xs" "steady (C \<union> boot_window) ?a (Suc (length xs))"
    using b f by (auto simp: booted_def boot_data_def)
  define ps where "ps = map Lit (str ''cmdline = '') @ [Str ?a xs, Lit 10]"
  have ps: "?f = concat (map piece_format ps)" "[?a] = concat (map piece_args ps)" by (simp_all add: ps_def line_def) (simp add: str_def)
  have pk: "list_all (piece_ok (C \<union> boot_window) (vmem s)) ps" using xs by (simp add: ps_def) (simp add: str_def)
  have m: "cstring (vmem s) (lit fr ?f) ?f" "steady (C \<union> boot_window) (lit fr ?f) (Suc (length ?f))"
    using s(3) steady_flat by (auto simp: literals_ok_def)
  obtain s' where "printf_call fr ?f [?a] s = Some (s', int (length ?f))" "flat_printed C s (concat (map piece_text ps)) s'"
    using flat.printf_call_eq [OF s(1,2) ps _ pk m] by auto
  then show thesis using that quiet_step [OF b] by (auto simp: say_def quiet_def)
qed

lemma boot_info_step:
  assumes b: "booted C fr mbi s"
  obtains s' where "boot_info fr mbi s = Some s'" "boot_step C fr mbi s s'"
proof -
  obtain s1 where s1: "say fr (line ''flags = 0x%#x'') [mb_flags (vmem s) mbi] s = Some s1" "boot_step C fr mbi s s1"
    by (rule say_step [OF b boot_literal(2)]) auto
  obtain s2 where s2: "(if CHECK_FLAG (mb_flags (vmem s1) mbi) 0
      then say fr (line ''mem_lower = %uKB, mem_upper = %uKB'') [mem_lower (vmem s1) mbi, mem_upper (vmem s1) mbi] s1 else Some s1) = Some s2"
    "boot_step C fr mbi s1 s2"
    by (rule say_if_step [OF boot_stepD [OF s1(2)] boot_literal(3)]) auto
  obtain s3 where s3: "(if CHECK_FLAG (mb_flags (vmem s2) mbi) 1 then say fr (line ''boot_device = 0x%#x'') [boot_device (vmem s2) mbi] s2 else Some s2) = Some s3"
    "boot_step C fr mbi s2 s3"
    by (rule say_if_step [OF boot_stepD [OF s2(2)] boot_literal(4)]) auto
  have b3: "booted C fr mbi s3" using s3(2) by (rule boot_stepD)
  obtain s4 where s4: "(if CHECK_FLAG (mb_flags (vmem s3) mbi) 2 then say fr (line ''cmdline = %s'') [mb_cmdline (vmem s3) mbi] s3 else Some s3) = Some s4"
    "boot_step C fr mbi s3 s4"
  proof (cases "CHECK_FLAG (mb_flags (vmem s3) mbi) 2")
    case True
    then show ?thesis using say_cmdline [OF b3 True] that by auto
  next
    case False
    then show ?thesis using boot_step_refl [OF b3] that [of s3] by simp
  qed
  have "boot_info fr mbi s = Some s4" unfolding boot_info_def by (simp only: s1(1) s2(1) s3(1) s4(1) Option.bind_lunit)
  then show thesis
    using that boot_step_trans [OF boot_step_trans [OF boot_step_trans [OF s1(2) s2(2)] s3(2)] s4(2)] by blast
qed

lemma print_bytes_step:
  assumes "booted C fr mbi s"
  shows "\<exists>s'. print_bytes fr md is s = Some s' \<and> boot_step C fr mbi s s'"
  using assms
proof (induction "is" arbitrary: s)
  case Nil
  then show ?case using boot_step_refl by simp
next
  case (Cons i "is")
  obtain s1 where s1: "say fr (str ''0x%x '') [scast (vmem s (mod_start (vmem s) md + of_nat i))] s = Some s1" "boot_step C fr mbi s s1"
    by (rule say_step [OF Cons.prems boot_literal(8)]) auto
  then show ?case using Cons.IH [OF boot_stepD [OF s1(2)]] boot_step_trans [OF s1(2)] by auto
qed

lemma print_module_step:
  assumes b: "booted C fr mbi s"
  obtains s' where "print_module fr md k s = Some s'" "boot_step C fr mbi s s'"
proof -
  obtain s1 where s1: "say fr (line ''Module %d loaded at address: 0x%#x'') [k, mod_start (vmem s) md] s = Some s1" "boot_step C fr mbi s s1"
    by (rule say_step [OF b boot_literal(5)]) auto
  obtain s2 where s2: "say fr (line ''Module %d ends at address: 0x%#x'') [k, mod_end (vmem s1) md] s1 = Some s2" "boot_step C fr mbi s1 s2"
    by (rule say_step [OF boot_stepD [OF s1(2)] boot_literal(6)]) auto
  obtain s3 where s3: "say fr (line ''First few bytes of module:'') [] s2 = Some s3" "boot_step C fr mbi s2 s3"
    by (rule say_step [OF boot_stepD [OF s2(2)] boot_literal(7)]) auto
  obtain s4 where s4: "print_bytes fr md [0..<16] s3 = Some s4" "boot_step C fr mbi s3 s4"
    using print_bytes_step [OF boot_stepD [OF s3(2)]] by blast
  obtain s5 where s5: "say fr [10] [] s4 = Some s5" "boot_step C fr mbi s4 s5"
    by (rule say_step [OF boot_stepD [OF s4(2)] boot_literal(9)]) auto
  have "boot_step C fr mbi s s5"
    by (rule boot_step_trans [OF boot_step_trans [OF boot_step_trans [OF boot_step_trans [OF s1(2) s2(2)] s3(2)] s4(2)] s5(2)])
  then show thesis using that by (simp add: print_module_def s1(1) s2(1) s3(1) s4(1) s5(1) del: upt.simps)
qed

lemma count_up:
  assumes "k < (c :: u32)"
  shows "unat (c - (k + 1)) = unat (c - k) - 1" "k + 1 \<le> c"
proof -
  have "unat (k + 1) = unat k + 1" using assms unat_lt32 [of c] by (simp add: unat_plus_if' word_less_nat_alt)
  then show "unat (c - (k + 1)) = unat (c - k) - 1" "k + 1 \<le> c"
    using assms by (simp_all add: unat_sub_if' word_less_nat_alt word_le_nat_alt)
qed

lemma modules_loop_step:
  assumes "booted C fr mbi s" and "k \<le> mods_count (vmem s) mbi"
  shows "\<exists>s'. modules_loop fr mbi md k s = Some (s', mods_count (vmem s) mbi) \<and> boot_step C fr mbi s s'"
  using assms
proof (induction "unat (mods_count (vmem s) mbi - k)" arbitrary: s md k)
  case 0
  then have "k = mods_count (vmem s) mbi" by (simp add: unat_eq_0)
  then show ?case using boot_step_refl [OF "0.prems"(1)] by (subst modules_loop.simps) auto
next
  case (Suc n)
  have lt: "k < mods_count (vmem s) mbi" using Suc.hyps(2) Suc.prems(2) by (cases "k = mods_count (vmem s) mbi") auto
  obtain s1 where s1: "print_module fr md k s = Some s1" "boot_step C fr mbi s s1" using print_module_step [OF Suc.prems(1)] by blast
  have c: "mods_count (vmem s1) mbi = mods_count (vmem s) mbi" using s1(2) by (simp add: boot_step_def same_info_def)
  have "unat (mods_count (vmem s) mbi - (k + 1)) = n" "k + 1 \<le> mods_count (vmem s) mbi"
    using count_up [OF lt] Suc.hyps(2) by simp_all
  then have "\<exists>s'. modules_loop fr mbi (md + 16) (k + 1) s1 = Some (s', mods_count (vmem s) mbi) \<and> boot_step C fr mbi s1 s'"
    using Suc.hyps(1) [of s1 "k + 1" "md + 16"] c boot_stepD [OF s1(2)] by simp
  then show ?case using lt s1 boot_step_trans [OF s1(2)] by (subst modules_loop.simps) auto
qed

text \<open>The start of module 0, or zero when there is no module.\<close>

definition module_0 :: "memory \<Rightarrow> u32 \<Rightarrow> u32" where
  "module_0 m mbi =
     (if CHECK_FLAG (mb_flags m mbi) 3 \<and> mods_count m mbi \<noteq> 0 then mod_start m (mods_addr m mbi) else 0)"

lemma step_module_0:
  assumes "booted C fr mbi s" and "boot_step C fr mbi s s'"
  shows "module_0 (vmem s') mbi = module_0 (vmem s) mbi"
proof -
  have i: "same_info (vmem s') (vmem s) mbi" "quiet C s s'" using assms(2) by (simp_all add: boot_step_def)
  have "mod_start (vmem s') (mods_addr (vmem s) mbi) = mod_start (vmem s) (mods_addr (vmem s) mbi)"
    if "CHECK_FLAG (mb_flags (vmem s) mbi) 3"
    unfolding mod_start_def using assms(1) that
    by (intro quiet_rd32 [OF booted_flat [OF assms(1)] i(2)]) (simp add: booted_def boot_data_def)
  then show ?thesis using i(1) by (simp add: module_0_def same_info_def)
qed

lemma boot_modules_step:
  assumes b: "booted C fr mbi s"
  obtains s' where "boot_modules fr mbi s = Some (s', module_0 (vmem s) mbi)" "boot_step C fr mbi s s'"
proof (cases "CHECK_FLAG (mb_flags (vmem s) mbi) 3")
  case False
  then show thesis using that [of s] boot_step_refl [OF b] by (simp add: boot_modules_def module_0_def)
next
  case True
  obtain s1 where s1: "modules_loop fr mbi (mods_addr (vmem s) mbi) 0 s = Some (s1, mods_count (vmem s) mbi)" "boot_step C fr mbi s s1"
    using modules_loop_step [OF b, of 0 "mods_addr (vmem s) mbi"] by auto
  show thesis
  proof (cases "mods_count (vmem s) mbi = 0")
    case False
    have "module_0 (vmem s1) mbi = mod_start (vmem s1) (mods_addr (vmem s1) mbi)"
      using True False s1(2) by (simp add: module_0_def boot_step_def same_info_def)
    then show thesis
      using that [of s1] True False s1 step_module_0 [OF b s1(2)] by (simp add: boot_modules_def)
  next
    case z: True
    obtain s2 where s2: "say fr (str ''No module 0, zbigfs will FAIL!'') [] s1 = Some s2" "boot_step C fr mbi s1 s2"
      by (rule say_step [OF boot_stepD [OF s1(2)] boot_literal(10)]) auto
    then show thesis
      using that [of s2] True z s1(1) boot_step_trans [OF s1(2)] by (simp add: boot_modules_def module_0_def)
  qed
qed

lemma boot_elf_step:
  assumes "booted C fr mbi s"
  obtains s' where "boot_elf fr mbi s = Some s'" "boot_step C fr mbi s s'"
  unfolding boot_elf_def by (rule say_if_step [OF assms boot_literal(12)]) (auto simp: elf_sec_def)

lemma mmap_loop_step:
  assumes "booted C fr mbi s" and "mmap_ends n (C \<union> boot_window) (vmem s) a (mmap_addr (vmem s) mbi + mmap_length (vmem s) mbi)"
  shows "\<exists>s'. mmap_loop fr mbi a s = Some s' \<and> boot_step C fr mbi s s'"
  using assms
proof (induction n arbitrary: a s)
  case 0
  then show ?case using boot_step_refl by (subst mmap_loop.simps) auto
next
  case (Suc n)
  let ?e = "mmap_addr (vmem s) mbi + mmap_length (vmem s) mbi"
  show ?case
  proof (cases "a < ?e")
    case False
    then show ?thesis using boot_step_refl [OF Suc.prems(1)] by (subst mmap_loop.simps) simp
  next
    case True
    have six: "length (mmap_size (vmem s) a # mmap_fields (vmem s) a) = 6" by (simp add: mmap_fields_def)
    obtain s1 where s1: "say fr (line '' size = 0x%x,     base_addr = 0x%#x%#x'' @ line ''     type = 0x%x,  length    = 0x%#x%#x'')
        (mmap_size (vmem s) a # mmap_fields (vmem s) a) s = Some s1" "boot_step C fr mbi s s1"
      by (rule say_step [OF Suc.prems(1) boot_literal(14) six])
    have st: "steady (C \<union> boot_window) a 4" "mmap_ends n (C \<union> boot_window) (vmem s) (a + mmap_size (vmem s) a + 4) ?e"
      using Suc.prems(2) True by simp_all
    have i: "same_info (vmem s1) (vmem s) mbi" "quiet C s s1" using s1(2) by (simp_all add: boot_step_def)
    have z: "mmap_size (vmem s1) a = mmap_size (vmem s) a"
      unfolding mmap_size_def using booted_flat [OF Suc.prems(1)] i(2) st(1) by (rule quiet_rd32)
    have e: "mmap_addr (vmem s1) mbi + mmap_length (vmem s1) mbi = ?e" using i(1) by (simp add: same_info_def)
    have "mmap_ends n (C \<union> boot_window) (vmem s1) (a + mmap_size (vmem s) a + 4) ?e"
      using st(2) quiet_mmap [OF booted_flat [OF Suc.prems(1)] i(2)] by blast
    from Suc.IH [OF boot_stepD [OF s1(2)] this [folded e]]
    obtain s2 where "mmap_loop fr mbi (a + mmap_size (vmem s1) a + 4) s1 = Some s2" "boot_step C fr mbi s1 s2" unfolding z by blast
    then show ?thesis using True s1(1) boot_step_trans [OF s1(2)] by (subst mmap_loop.simps) auto
  qed
qed

lemma boot_mmap_step:
  assumes b: "booted C fr mbi s"
  obtains s' where "boot_mmap fr mbi s = Some s'" "boot_step C fr mbi s s'"
proof (cases "CHECK_FLAG (mb_flags (vmem s) mbi) 6")
  case False
  then show thesis using that [of s] boot_step_refl [OF b] by (simp add: boot_mmap_def)
next
  case True
  obtain s1 where s1: "say fr (line ''mmap_addr = 0x%#x, mmap_length = 0x%x'') [mmap_addr (vmem s) mbi, mmap_length (vmem s) mbi] s = Some s1"
    "boot_step C fr mbi s s1"
    by (rule say_step [OF b boot_literal(13)]) auto
  have b1: "booted C fr mbi s1" "CHECK_FLAG (mb_flags (vmem s1) mbi) 6"
    using s1(2) True by (simp_all add: boot_step_def same_info_def)
  then obtain n where "mmap_ends n (C \<union> boot_window) (vmem s1) (mmap_addr (vmem s1) mbi) (mmap_addr (vmem s1) mbi + mmap_length (vmem s1) mbi)"
    by (auto simp: booted_def boot_data_def)
  from mmap_loop_step [OF b1(1) this]
  obtain s2 where "mmap_loop fr mbi (mmap_addr (vmem s1) mbi) s1 = Some s2" "boot_step C fr mbi s1 s2" by blast
  then show thesis using that [of s2] True s1(1) boot_step_trans [OF s1(2)] by (simp add: boot_mmap_def)
qed

section \<open>The kernel the boot code leaves behind\<close>

lemma more_fields:
  fixes s s' :: "'a booting_scheme"
  assumes "machine.more s' = machine.more s"
  shows "screen_x s' = screen_x s" "screen_y s' = screen_y s" "current_active_process s' = current_active_process s"
    "pcbs s' = pcbs s" "processes s' = processes s" "current_process s' = current_process s" "esp0 s' = esp0 s"
    "kernel.more s' = kernel.more s" "screen.more s' = screen.more s"
  using assms by (cases s; cases s'; simp)+

lemma rest_booting:
  fixes s s' :: "'a booting_scheme"
  assumes "rest s' = rest s"
  shows "kernel.more s' = kernel.more s"
  using restD(12) [OF assms] by (cases s; cases s'; simp)

lemma zbigfs_rest:
  fixes s s' :: "'a booting_scheme"
  assumes "rest s' = rest s"
  shows "zbigfs_start s' = zbigfs_start s"
  using restD(12) [OF assms] by (cases s; cases s'; simp)

lemma booting_fields:
  fixes s s' :: "'a booting_scheme"
  assumes "kernel.more s' = kernel.more s"
  shows "idt s' = idt s" "idt_loaded s' = idt_loaded s" "ldt_desc_ptr s' = ldt_desc_ptr s" "tss_desc_ptr s' = tss_desc_ptr s"
    "ldtr s' = ldtr s" "tr s' = tr s" "ss0 s' = ss0 s" "ldt_segment_selector s' = ldt_segment_selector s"
  using assms by (cases s; cases s'; simp)+

lemma clear_quiet:
  assumes ok: "flat_ok s"
  shows "quiet C s (clear s)"
proof -
  have c: "cr0 s AND 0x80000000 = 0" using ok by (simp add: flat_ok_def)
  note e = clear_maps [OF maps_flat [OF c] refl]
  have "phys (clear s) a = phys s a" if "a \<notin> boot_window" for a using that unfolding e by (simp add: clear_mem_outside boot_window_def)
  moreover have "flat_ok (clear s)" using ok unfolding e by (auto simp: flat_ok_def cursor_ok_def)
  moreover have "fault (clear s) = fault s" unfolding e by simp
  ultimately show ?thesis by (simp add: quiet_def flat_printed_def)
qed

lemma init_pcbs_eq:
  "init_pcbs s = s\<lparr>pcbs := (\<lambda>i. if i \<le> MAX_PID then (pcbs s i)\<lparr>present := False\<rparr> else pcbs s i)\<rparr>"
proof -
  have "fold (\<lambda>i s. set_pcb i ((pcbs s i)\<lparr>present := False\<rparr>) s) [0..<n] s =
      s\<lparr>pcbs := (\<lambda>i. if i < n then (pcbs s i)\<lparr>present := False\<rparr> else pcbs s i)\<rparr>" for n
  proof (induction n)
    case 0
    show ?case by simp
  next
    case (Suc n)
    then show ?case by (auto simp: set_pcb_def fun_eq_iff less_Suc_eq)
  qed
  from this [of "MAX_PID + 1"] show ?thesis by (simp add: init_pcbs_def less_Suc_eq_le del: upt_Suc)
qed

lemma boot_devices_eq:
  "\<exists>io. boot_devices dv lk s = s\<lparr>idt := populate_idt (handler_at lk) (idt s), idt_loaded := True, iolog := io\<rparr>"
  by (auto simp: boot_devices_def Let_def i8259_init_def rtc_init_def disable_irq_def enable_irq_def irq_port_def outb_def inb_def)

lemma boot_ok_cong:
  assumes "boot_ok C fr s" and "cr0 s' = cr0 s" "current_terminal s' = current_terminal s" "screen_x s' = screen_x s"
    "screen_y s' = screen_y s" "phys s' = phys s"
  shows "boot_ok C fr s'"
proof -
  have f: "flat_ok s" "flat_ok s'" using assms by (simp_all add: boot_ok_def flat_ok_def cursor_ok_def)
  then have "vmem s' = vmem s" using assms(6) vmem_flat [of s] vmem_flat [of s'] by (simp add: flat_ok_def)
  then show ?thesis using assms(1) f by (simp add: boot_ok_def)
qed

text \<open>The machine as the boot loader leaves it: paging off, no process, the static data zero.\<close>

definition fresh :: "'a booting_scheme \<Rightarrow> bool" where
  "fresh s \<longleftrightarrow> tables_linked s \<and> cr0 s AND 0x10000 = 0 \<and> (\<forall>i < 1024. 4 \<le> i \<longrightarrow> video_table s i AND 1 = 0) \<and>
     current_terminal s = 0 \<and> current_active_process s = 0 \<and> current_process s = 0 \<and> (\<forall>t < 3. processes s t = 0)"

lemma fresh_rest:
  assumes "rest s' = rest s"
  shows "fresh s' = fresh s"
  using restD [OF assms] rest_tasking [OF assms] by (simp add: fresh_def tables_linked_def)

lemma boot_kernel_paged:
  assumes ok: "boot_ok C fr s" and fr: "fresh s" and s1: "s1 = init_paging (sti s)"
  shows "console_ok s1" "literals_ok C fr (vmem s1)" "fault s1 = fault s" "machine.more s1 = machine.more (sti s)"
    "current_terminal s1 = 0" "cr3 s1 = 0" "a \<notin> video_frames \<Longrightarrow> phys s1 a = phys s a"
proof -
  have f: "flat_ok s" "literals_ok C fr (vmem s)" using ok by (simp_all add: boot_ok_def)
  have t: "tables_linked (sti s)" "cr0 (sti s) AND 0x10000 = 0" "\<forall>i < 1024. 4 \<le> i \<longrightarrow> video_table (sti s) i AND 1 = 0"
    "phys (sti s) = phys s" "fault (sti s) = fault s" "current_terminal (sti s) = 0"
    using fr by (simp_all add: fresh_def sti_def tables_linked_def)
  note i = init_paging_eq [OF t(1-3), folded s1]
  note m = init_paging_frame [of "sti s", folded s1]
  show mm: "machine.more s1 = machine.more (sti s)" "current_terminal s1 = 0" "cr3 s1 = 0" using m t(6) by simp_all
  have p: "paging_ok s1" using i by blast
  show "fault s1 = fault s" using i t(5) by simp
  show ph: "phys s1 a = phys s a" if "a \<notin> video_frames" for a using i that t(4) by simp
  have "cursor_ok s1 u = cursor_ok s u" for u using more_fields(1,2) [OF mm(1)] by (simp add: cursor_ok_def sti_def)
  then show "console_ok s1" using p f(1) mm(2) by (simp add: console_ok_def flat_ok_def)
  show "literals_ok C fr (vmem s1)"
    using f(2)
  proof (rule literals_printed)
    fix a and xs :: "byte list" assume st: "steady (C \<union> - kernel_frame) a (Suc (length xs))"
    have "vmem s1 b = vmem s b" if "b \<in> kernel_frame" for b
      using that ph [of b] kernel_frame_video vmem_kernel_frame [OF p that] vmem_flat [of s] f(1) by (auto simp: flat_ok_def)
    then have "rd_bytes (vmem s1) a (Suc (length xs)) = rd_bytes (vmem s) a (Suc (length xs))"
      using st by (intro rd_bytes_cong) (simp add: steady_def)
    then show "cstring (vmem s1) a xs = cstring (vmem s) a xs" by (simp add: cstring_def)
  qed
qed

lemma boot_kernel_eq:
  assumes ok: "boot_ok C fr s" and fr: "fresh s"
  shows "\<exists>s'. boot_kernel fr loc s = Some s' \<and> tasks_wf s' \<and> (\<forall>p \<le> MAX_PID. \<not> present (pcbs s' p)) \<and> zbigfs_start s' = loc \<and>
    current_terminal s' = 0 \<and> text_view 0 s' = (replicate 2000 (0x20, attribs 0), 0, 0) \<and> fault s' = fault s \<and> esp0 s' = esp0 s \<and>
    kernel.more s' = kernel.more s \<and> (\<forall>a. a \<notin> C \<longrightarrow> a \<notin> boot_window \<longrightarrow> a \<notin> video_frames \<longrightarrow> phys s' a = phys s a) \<and>
    current_process s' = 0 \<and> (\<forall>t < 3. processes s' t = 0) \<and> current_active_process s' = 0"
proof -
  obtain s1 where s1: "say fr (line ''Enabling Interrupts'') [] s = Some s1" "quiet C s s1" "boot_ok C fr s1"
    using say_eq [OF ok, of "line ''Enabling Interrupts''" "[]"] boot_literal(15) by auto
  have q: "rest s1 = rest s" "fault s1 = fault s" "\<And>a. a \<notin> C \<Longrightarrow> a \<notin> boot_window \<Longrightarrow> phys s1 a = phys s a"
    using s1(2) by (auto simp: quiet_def flat_printed_def)
  have f1: "fresh s1" using fr fresh_rest [OF q(1)] by simp
  define s2 where "s2 = init_paging (sti s1)"
  note p = boot_kernel_paged [OF s1(3) f1 s2_def]
  note p2 = more_fields [OF p(4)]
  let ?f = "line ''Mounting module 0 as read-only zbigfs filesystem''"
  have "?f \<in> fst ` set boot_literals" using boot_literal(16) by force
  then have m: "cstring (vmem s2) (lit fr ?f) ?f" "steady (C \<union> - kernel_frame) (lit fr ?f) (Suc (length ?f))"
    using p(2) by (auto simp: literals_ok_def)
  have l: "concat (map piece_args (map Lit xs)) = []" for xs by simp
  have pk: "list_all (piece_ok (C \<union> - kernel_frame) (vmem s2)) (map Lit ?f)" by (simp add: line_def str_def)
  obtain s3 where s3: "printf_call fr ?f [] s2 = Some (s3, int (length ?f))" "printed 0 C s2 ?f s3"
    using on_screen.printf_call_eq [of s2 0 C fr ?f "map Lit ?f" "[]"] p(1,5) pk m ok by (auto simp: boot_ok_def)
  have r3: "rest s3 = rest s2" "console_ok s3" "current_terminal s3 = 0" "fault s3 = fault s2"
    "\<And>a. a \<notin> C \<Longrightarrow> a \<notin> video_frames \<Longrightarrow> phys s3 a = phys s2 a"
    using s3(2) by (auto simp: printed_def)
  define s4 where "s4 = init_pcbs (zbigfs_mount loc s3)"
  have "say fr ?f [] s2 = Some s3" using s3(1) by (simp add: say_def)
  then have e: "boot_kernel fr loc s = Some (term_clear s4)" using s1(1) by (simp add: boot_kernel_def s4_def flip: s2_def)
  have s4: "s4 = s3\<lparr>zbigfs_start := loc, pcbs := (\<lambda>i. if i \<le> MAX_PID then (pcbs s3 i)\<lparr>present := False\<rparr> else pcbs s3 i)\<rparr>"
    by (simp add: s4_def init_pcbs_eq zbigfs_mount_def cong: if_cong)
  have ok4: "console_ok s4" "paging_ok s4" "current_terminal s4 = 0"
    using r3(2,3) unfolding s4 by (auto simp: console_ok_def cursor_ok_def cong: paging_ok_cong)
  have r4: "rest (term_clear s4) = rest s4" by (simp add: term_clear_def)
  note c = clear_eq [OF ok4(2) refl]
  have fin: "phys (term_clear s4) = phys (clear s4)" "text_view 0 (term_clear s4) = text_view 0 (clear s4)" "fault (term_clear s4) = fault s4"
    "console_ok (term_clear s4)"
    using ok4 unfolding term_clear_def set_pos_def Let_def c
    by (auto simp: console_upd text_view_def screen_frame_def console_ok_def cursor_ok_def cong: paging_ok_cong)
  note k3 = rest_tasking [OF r3(1)] and k1 = rest_tasking [OF q(1)] and kc = rest_tasking [OF r4]
  have st: "processes (sti s1) = processes s1" "current_process (sti s1) = current_process s1" "esp0 (sti s1) = esp0 s1"
    "current_active_process (sti s1) = current_active_process s1" "kernel.more (sti s1) = kernel.more s1"
    by (simp_all add: sti_def)
  have f4: "cr3 s4 = 0" "current_process s4 = 0" "current_active_process s4 = 0" "\<forall>t < 3. processes s4 t = 0"
    using f1 p(6) p2 st k3 restD(7,10) [OF r3(1)] unfolding s4 by (simp_all add: fresh_def)
  then have "tasks_wf s4" using ok4 unfolding tasks_wf_def by (auto simp: paging_ok_def s4)
  then have wf: "tasks_wf (term_clear s4)" by (rule console_tasks_wf [OF _ r4 fin(4)])
  have view: "text_view 0 (term_clear s4) = (replicate 2000 (0x20, attribs 0), 0, 0)"
    using fin(2) ok4(3) unfolding c by (simp add: text_view_def screen_frame_def cells_clear_mem)
  have mem: "phys (term_clear s4) a = phys s a" if a: "a \<notin> C" "a \<notin> boot_window" "a \<notin> video_frames" for a
  proof -
    have "a \<notin> region (vid_frame 3) 4096" using a(3) by (auto simp: video_frames_def)
    then have "phys (term_clear s4) a = phys s4 a" unfolding fin(1) c by (simp add: clear_mem_outside)
    then show ?thesis using a q(3) p(7) r3(5) by (simp add: s4)
  qed
  have zl: "zbigfs_start (term_clear s4) = loc" unfolding zbigfs_rest [OF r4] by (simp add: s4)
  have z: "current_terminal (term_clear s4) = 0" "kernel.more (term_clear s4) = kernel.more s"
    "esp0 (term_clear s4) = esp0 s" "fault (term_clear s4) = fault s" "\<forall>p \<le> MAX_PID. \<not> present (pcbs (term_clear s4) p)"
    using restD(9) [OF r4] ok4(3) rest_booting [OF r4] rest_booting [OF r3(1)] rest_booting [OF q(1)] p2 st k1 k3 kc fin(3) r3(4) p(3) q(2)
    unfolding s4 by simp_all
  have "current_process (term_clear s4) = 0" "\<forall>t < 3. processes (term_clear s4) t = 0" "current_active_process (term_clear s4) = 0"
    using kc f4 restD(10) [OF r4] by simp_all
  then show ?thesis using e wf view mem z zl by (intro exI [of _ "term_clear s4"]) simp
qed

text \<open>The segment a descriptor describes.\<close>

definition segment_base :: "seg_desc_t \<Rightarrow> u32" where
  "segment_base d = push_bit 24 (ucast (base_31_24 d)) OR push_bit 16 (ucast (base_23_16 d)) OR ucast (base_15_00 d)"

definition segment_limit :: "seg_desc_t \<Rightarrow> u32" where
  "segment_limit d = push_bit 16 (ucast (seg_lim_19_16 d)) OR ucast (seg_lim_15_00 d)"

lemma mask_consts:
  "(0xFFFF :: u32) = mask 16" "(0xFF0000 :: u32) = push_bit 16 (mask 8)" "(0xFF000000 :: u32) = push_bit 24 (mask 8)"
  "(0xF0000 :: u32) = push_bit 16 (mask 4)"
  by (simp_all add: mask_eq_exp_minus_1)

lemma SET_TSS_PARAMS_segment [simp]:
  "segment_base (SET_TSS_PARAMS a l d) = a" "segment_limit (SET_TSS_PARAMS a l d) = l AND mask 20"
proof -
  show "segment_base (SET_TSS_PARAMS a l d) = a"
  proof (rule bit_word_eqI)
    fix n assume n: "n < LENGTH(32)"
    then show "bit (segment_base (SET_TSS_PARAMS a l d)) n = bit a n"
      unfolding segment_base_def SET_TSS_PARAMS_def mask_consts by (cases "n < 24") (auto simp: bit_simps)
  qed
  show "segment_limit (SET_TSS_PARAMS a l d) = l AND mask 20"
  proof (rule bit_word_eqI)
    fix n assume n: "n < LENGTH(32)"
    then show "bit (segment_limit (SET_TSS_PARAMS a l d)) n = bit (l AND mask 20) n"
      unfolding segment_limit_def SET_TSS_PARAMS_def mask_consts by (auto simp: bit_simps)
  qed
qed

lemma SET_LDT_PARAMS_segment [simp]:
  "segment_base (SET_LDT_PARAMS a l d) = a" "segment_limit (SET_LDT_PARAMS a l d) = l AND mask 20"
  using SET_TSS_PARAMS_segment [of a l d] by (simp_all add: SET_LDT_PARAMS_def SET_TSS_PARAMS_def)

lemma flat_vmem: "flat_ok s \<Longrightarrow> vmem s = phys s"
  by (simp add: flat_ok_def vmem_flat)

text \<open>The tables between printing and paging.\<close>

lemma boot_tables:
  assumes "s' = boot_devices dv lk (setup_tss lk (setup_ldt lk s))"
  shows "boot_ok C fr s \<Longrightarrow> boot_ok C fr s'" "fresh s' = fresh s" "phys s' = phys s" "fault s' = fault s" "esp0 s' = 0x800000"
    "idt s' = populate_idt (handler_at lk) (idt s)" "idt_loaded s'" "tr s' = KERNEL_TSS" "ldtr s' = KERNEL_LDT" "ss0 s' = KERNEL_DS"
    "segment_base (tss_desc_ptr s') = tss_at lk" "segment_base (ldt_desc_ptr s') = ldt_at lk"
proof -
  obtain io where e: "s' = (setup_tss lk (setup_ldt lk s))\<lparr>idt := populate_idt (handler_at lk) (idt s), idt_loaded := True, iolog := io\<rparr>"
    using boot_devices_eq [of dv lk "setup_tss lk (setup_ldt lk s)"] unfolding assms
    by (auto simp: setup_tss_def setup_ldt_def Let_def)
  show "boot_ok C fr s'" if "boot_ok C fr s"
    using that by (rule boot_ok_cong) (simp_all add: e setup_tss_def setup_ldt_def Let_def)
  show "fresh s' = fresh s" "phys s' = phys s" "fault s' = fault s" "esp0 s' = 0x800000"
    "idt s' = populate_idt (handler_at lk) (idt s)" "idt_loaded s'" "tr s' = KERNEL_TSS" "ldtr s' = KERNEL_LDT" "ss0 s' = KERNEL_DS"
    "segment_base (tss_desc_ptr s') = tss_at lk" "segment_base (ldt_desc_ptr s') = ldt_at lk"
    by (simp_all add: e setup_tss_def setup_ldt_def Let_def fresh_def tables_linked_def)
qed

lemma entry_state:
  assumes "flat_ok s" and "fresh s" and "print_frame_ok C fr" and "literals_ok C fr (phys s)"
    and "boot_data (C \<union> boot_window) (phys s) mbi"
    and "\<not> (CHECK_FLAG (mb_flags (phys s) mbi) 4 \<and> CHECK_FLAG (mb_flags (phys s) mbi) 5)"
  shows "\<exists>s'. entry dv lk fr MULTIBOOT_BOOTLOADER_MAGIC mbi s = Some (s', Idle) \<and> tasks_wf s' \<and>
    (\<forall>p \<le> MAX_PID. \<not> present (pcbs s' p)) \<and> zbigfs_start s' = module_0 (phys s) mbi \<and> current_terminal s' = 0 \<and>
    text_view 0 s' = (replicate 2000 (0x20, attribs 0), 0, 0) \<and> fault s' = fault s \<and> esp0 s' = 0x800000 \<and>
    idt s' = populate_idt (handler_at lk) (idt s) \<and> idt_loaded s' \<and> tr s' = KERNEL_TSS \<and> ss0 s' = KERNEL_DS \<and>
    segment_base (tss_desc_ptr s') = tss_at lk \<and>
    (\<forall>a. a \<notin> C \<longrightarrow> a \<notin> boot_window \<longrightarrow> a \<notin> video_frames \<longrightarrow> phys s' a = phys s a) \<and>
    current_process s' = 0 \<and> (\<forall>t < 3. processes s' t = 0) \<and> current_active_process s' = 0"
proof -
  have vm: "vmem s = phys s" using assms(1) by (rule flat_vmem)
  have b: "booted C fr mbi s" using assms(1,3-5) by (simp add: booted_def boot_ok_def vm)
  have s0: "boot_step C fr mbi s (clear s)" using quiet_step [OF b clear_quiet [OF assms(1)]] .
  obtain s1 where s1: "boot_info fr mbi (clear s) = Some s1" "boot_step C fr mbi (clear s) s1"
    by (rule boot_info_step [OF boot_stepD [OF s0]])
  obtain s2 where s2: "boot_modules fr mbi s1 = Some (s2, module_0 (vmem s1) mbi)" "boot_step C fr mbi s1 s2"
    by (rule boot_modules_step [OF boot_stepD [OF s1(2)]])
  obtain s3 where s3: "boot_elf fr mbi s2 = Some s3" "boot_step C fr mbi s2 s3" by (rule boot_elf_step [OF boot_stepD [OF s2(2)]])
  obtain s4 where s4: "boot_mmap fr mbi s3 = Some s4" "boot_step C fr mbi s3 s4" by (rule boot_mmap_step [OF boot_stepD [OF s3(2)]])
  note st1 = boot_step_trans [OF s0 s1(2)]
  note st2 = boot_step_trans [OF st1 s2(2)]
  note st4 = boot_step_trans [OF boot_step_trans [OF st2 s3(2)] s4(2)]
  have loc: "module_0 (vmem s1) mbi = module_0 (phys s) mbi" using step_module_0 [OF b st1] vm by simp
  have fl: "mb_flags (vmem s2) mbi = mb_flags (phys s) mbi" using st2 vm by (simp add: boot_step_def same_info_def)
  have q: "rest s4 = rest s" "fault s4 = fault s" "\<And>a. a \<notin> C \<Longrightarrow> a \<notin> boot_window \<Longrightarrow> phys s4 a = phys s a" "boot_ok C fr s4"
    using st4 by (auto simp: boot_step_def quiet_def flat_printed_def booted_def)
  define s5 where "s5 = boot_devices dv lk (setup_tss lk (setup_ldt lk s4))"
  note t = boot_tables [OF s5_def]
  have f5: "fresh s5" using t(2) fresh_rest [OF q(1)] assms(2) by simp
  obtain s' where s': "boot_kernel fr (module_0 (phys s) mbi) s5 = Some s'" "tasks_wf s'" "\<forall>p \<le> MAX_PID. \<not> present (pcbs s' p)"
    "zbigfs_start s' = module_0 (phys s) mbi" "current_terminal s' = 0" "text_view 0 s' = (replicate 2000 (0x20, attribs 0), 0, 0)"
    "fault s' = fault s5" "esp0 s' = esp0 s5" "kernel.more s' = kernel.more s5"
    "\<forall>a. a \<notin> C \<longrightarrow> a \<notin> boot_window \<longrightarrow> a \<notin> video_frames \<longrightarrow> phys s' a = phys s5 a"
    "current_process s' = 0" "\<forall>t < 3. processes s' t = 0" "current_active_process s' = 0"
    using boot_kernel_eq [OF t(1) [OF q(4)] f5, of "module_0 (phys s) mbi"] by blast
  have e: "entry dv lk fr MULTIBOOT_BOOTLOADER_MAGIC mbi s = Some (s', Idle)"
    unfolding entry_def using assms(6) s1(1) s2(1) s3(1) s4(1) s'(1) loc by (auto simp: fl simp flip: s5_def)
  have "idt s4 = idt s" using booting_fields(1) [OF rest_booting [OF q(1)]] .
  then show ?thesis using e s' t(3-11) q(2,3) booting_fields [OF s'(9)] by (intro exI [of _ s']) simp
qed



section \<open>A concrete boot\<close>

text \<open>A pool of string literals in memory, one after the other.\<close>

fun offset_in :: "byte list list \<Rightarrow> byte list \<Rightarrow> nat" where
  "offset_in [] x = 0"
| "offset_in (f # fs) x = (if f = x then 0 else length f + 1 + offset_in fs x)"

definition pool :: "byte list list \<Rightarrow> byte list" where
  "pool fs = concat (map (\<lambda>f. f @ [0]) fs)"

lemma offset_in_pool:
  "x \<in> set fs \<Longrightarrow> offset_in fs x + Suc (length x) \<le> length (pool fs) \<and> take (Suc (length x)) (drop (offset_in fs x) (pool fs)) = x @ [0]"
  by (induction fs) (auto simp: pool_def)

definition demo_formats :: "byte list list" where
  "demo_formats = map fst boot_literals @ [line ''cmdline = %s'']"

definition demo_boot_frame :: print_frame where
  "demo_boot_frame = demo_calls\<lparr>lit := (\<lambda>x. 0x480000 + of_nat (offset_in demo_formats x))\<rparr>"

text \<open>
  Multiboot information at \<open>0x10000\<close> with one module, whose descriptor is at \<open>0x10100\<close>: the image with the
  program \<open>shell\<close>. The string at \<open>0x4F0000\<close> is its name.
\<close>

definition demo_loaded :: memory where
  "demo_loaded = demo_prog(0x10000 := 8, 0x10014 := 1, 0x10019 := 1, 0x1001A := 1, 0x10102 := 0x50,
     0x4F0000 := 0x73, 0x4F0001 := 0x68, 0x4F0002 := 0x65, 0x4F0003 := 0x6C, 0x4F0004 := 0x6C)"

definition demo_boot_mem :: memory where
  "demo_boot_mem = wr_bytes demo_loaded 0x480000 (pool demo_formats)"

definition blank_segment :: seg_desc_t where
  "blank_segment = \<lparr>seg_lim_15_00 = 0, base_15_00 = 0, base_23_16 = 0, seg_type = 0, seg_sys = 0, seg_dpl = 0, seg_present = 0,
     seg_lim_19_16 = 0, seg_avail = 0, seg_reserved = 0, seg_opsize = 0, seg_granularity = 0, base_31_24 = 0\<rparr>"

definition demo_boot :: booting where
  "demo_boot = kernel.extend ((kernel_of 0 demo_boot_mem)\<lparr>cr0 := 0x11\<rparr>)
     (booting.fields (\<lambda>_. blank_gate) blank_segment blank_segment 0 0 0 0 False)"

definition demo_linked :: linked where
  "demo_linked = \<lparr>handler_at = (\<lambda>_. 0x401000), ldt_at = 0x402000, ldt_size = 8, tss_at = 0x403000, tss_size = 104\<rparr>"

lemma demo_formats_fit:
  "length (pool demo_formats) \<le> 1024" "list_all (\<lambda>f. 0 \<notin> set f) demo_formats" "set demo_formats = fst ` set boot_literals \<union> {line ''cmdline = %s''}"
proof -
  have "length (pool demo_formats) \<le> 1024 \<and> list_all (\<lambda>f. list_all (\<lambda>c. c \<noteq> 0) f) demo_formats" by code_simp
  then show "length (pool demo_formats) \<le> 1024" "list_all (\<lambda>f. 0 \<notin> set f) demo_formats" by (auto simp: list_all_iff)
  show "set demo_formats = fst ` set boot_literals \<union> {line ''cmdline = %s''}" by (simp add: demo_formats_def)
qed

lemma demo_literals: "literals_ok demo_space demo_boot_frame demo_boot_mem"
  unfolding literals_ok_def demo_formats_fit(3) [symmetric]
proof
  fix fmt assume f: "fmt \<in> set demo_formats"
  define i where "i = offset_in demo_formats fmt"
  have i: "i + Suc (length fmt) \<le> length (pool demo_formats)" "take (Suc (length fmt)) (drop i (pool demo_formats)) = fmt @ [0]"
    using offset_in_pool [OF f] by (simp_all add: i_def)
  have l: "length (pool demo_formats) \<le> 1024" by (rule demo_formats_fit)
  have a: "lit demo_boot_frame fmt = 0x480000 + of_nat i" by (simp add: demo_boot_frame_def i_def)
  have "rd_bytes demo_boot_mem (0x480000 + of_nat i) (Suc (length fmt)) = fmt @ [0]"
    unfolding demo_boot_mem_def using i l by (subst rd_wr_inner) simp_all
  moreover have "0 \<notin> set fmt" using demo_formats_fit(2) f by (simp add: list_all_iff)
  ultimately have "cstring demo_boot_mem (lit demo_boot_frame fmt) fmt" unfolding a by (simp add: cstring_def del: rd_bytes.simps)
  moreover have "unat (0x480000 + of_nat i :: u32) = 0x480000 + i" using i(1) l by (simp add: unat_plus_if' unat_of_nat_less)
  then have "steady (demo_space \<union> - kernel_frame) (lit demo_boot_frame fmt) (Suc (length fmt))"
    unfolding a using i(1) l by (intro demo_space_steady) simp_all
  ultimately show "cstring demo_boot_mem (lit demo_boot_frame fmt) fmt \<and>
      steady (demo_space \<union> - kernel_frame) (lit demo_boot_frame fmt) (Suc (length fmt))" by blast
qed

lemma demo_boot_low:
  assumes "unat a < 0x480000 \<or> 0x490000 \<le> unat a"
  shows "demo_boot_mem a = demo_loaded a"
proof -
  have "a \<notin> region 0x480000 (length (pool demo_formats))"
    using assms demo_formats_fit(1) region_interval [of "0x480000" "length (pool demo_formats)"] by auto
  then show ?thesis unfolding demo_boot_mem_def using demo_formats_fit(1) by (intro wr_bytes_outside) simp_all
qed

lemma demo_boot_info:
  "mb_flags demo_boot_mem 0x10000 = 8" "mods_count demo_boot_mem 0x10000 = 1" "mods_addr demo_boot_mem 0x10000 = 0x10100"
  "mod_start demo_boot_mem 0x10100 = 0x500000"
  by (simp_all add: mb_flags_def mods_count_def mods_addr_def mod_start_def rd32_def demo_boot_low le32_def demo_loaded_def demo_prog_outside demo_named_def demo_fs_def)

lemma demo_boot_start:
  "flat_ok demo_boot" "fresh demo_boot" "phys demo_boot = demo_boot_mem" "fault demo_boot = fault (kernel_of 0 demo_boot_mem)"
proof -
  let ?k = "kernel_of 0 demo_boot_mem"
  have wf: "tasks_wf ?k" by (simp add: kernel_of_wf)
  have k: "tables_linked ?k" "\<forall>i < 1024. 4 \<le> i \<longrightarrow> video_table ?k i AND 1 = 0" "\<forall>t < 3. cursor_ok ?k t"
    using tasks_wfD(1,5) [OF wf] by (simp_all add: paging_ok_def console_ok_def)
  show "phys demo_boot = demo_boot_mem" "fault demo_boot = fault ?k" by (simp_all add: demo_boot_def kernel.defs kernel_of_fields)
  show "flat_ok demo_boot" "fresh demo_boot"
    using k by (simp_all add: demo_boot_def kernel.defs kernel_of_fields flat_ok_def fresh_def cursor_ok_def tables_linked_def)
qed

lemma demo_data: "boot_data (demo_space \<union> boot_window) demo_boot_mem 0x10000"
proof -
  have st: "steady (demo_space \<union> boot_window) a n" if "unat a + n \<le> 0x400000" for a n
    using that unfolding demo_space_def boot_window_def steady_Un
    by (simp add: steady_apart video_mem_def paging_consts)
  have f: "CHECK_FLAG 8 2 = False" "CHECK_FLAG 8 6 = False" by (simp_all add: CHECK_FLAG_def)
  show ?thesis unfolding boot_data_def demo_boot_info f by (simp add: st)
qed



end
