(* ===== verification/Sys_Tests.thy ===== *)
theory Sys_Tests
  imports Listing Boot
begin

text \<open>
  The test program \<^verbatim>\<open>ece391syserr.c\<close>, which calls the system calls with wrong arguments, running on the
  kernel, and that the kernel passes it. \<open>l\<close> gives the address of a string literal, \<open>buf\<close> is the local
  buffer, \<open>de\<close> the directory entry on the kernel stack during a call.
\<close>

section \<open>syscall.S, the number of a system call\<close>

definition SYSCALL_MAX_INDEX :: u32 where "SYSCALL_MAX_INDEX = 9"

text \<open>
  \<open>table\<close> stands for the routines of the jump table with the arguments the registers hold. The comparison
  with 0 that follows the first one never jumps, since an unsigned number is not below 0.
\<close>

definition syscall :: "(u32 \<Rightarrow> 'a kernel_scheme \<Rightarrow> 'a kernel_scheme \<times> int) \<Rightarrow> u32 \<Rightarrow> 'a kernel_scheme \<Rightarrow> 'a kernel_scheme \<times> int" where
  "syscall table eax s =
     (let eax = eax - 1 in
      if SYSCALL_MAX_INDEX < eax then (s, - 1) else table eax s)"

section \<open>ece391syserr.c\<close>

definition NEG_FD :: int where "NEG_FD = - 1073741823"

definition BIG_FD :: int where "BIG_FD = 1073741823"

definition BIG_NUM :: int where "BIG_NUM = 1073741823"

definition NEG_NUM :: int where "NEG_NUM = - 1073741823"

definition call_sys :: "(u32 \<Rightarrow> 'a kernel_scheme \<Rightarrow> 'a kernel_scheme \<times> int) \<Rightarrow> int \<Rightarrow> 'a kernel_scheme \<Rightarrow> 'a kernel_scheme \<times> int" where
  "call_sys table num s = syscall table (of_int num) s"

definition ln :: "string \<Rightarrow> byte list" where "ln x = str x @ [10]"

text \<open>The result \<open>r\<close> of a call that should fail, and the line at the end of a test.\<close>

definition unexpected ::
  "world \<Rightarrow> (byte list \<Rightarrow> u32) \<Rightarrow> byte list \<Rightarrow> int \<Rightarrow> 'a kernel_scheme \<times> int \<Rightarrow> ('a kernel_scheme \<times> int) option" where
  "unexpected w l msg r q = (case q of (s, fail) \<Rightarrow> if r \<noteq> - 1 then fail_with w l msg 2 s else Some (s, fail))"

definition verdict :: "world \<Rightarrow> (byte list \<Rightarrow> u32) \<Rightarrow> string \<Rightarrow> 'a kernel_scheme \<times> int \<Rightarrow> ('a kernel_scheme \<times> int) option" where
  "verdict w l name q = (case q of (s, fail) \<Rightarrow> fail_with w l (ln (name @ (if fail \<noteq> 0 then '': FAIL'' else '': PASS''))) fail s)"

definition bad_fd_test ::
  "world \<Rightarrow> u32 \<Rightarrow> (byte list \<Rightarrow> u32) \<Rightarrow> u32 \<Rightarrow> int \<Rightarrow> string \<Rightarrow> 'a kernel_scheme \<Rightarrow> ('a kernel_scheme \<times> int) option" where
  "bad_fd_test w de l buf fd name s = do {
     (s, r) \<leftarrow> sys_read w de fd buf 31 s;
     (s, fail) \<leftarrow> unexpected w l (ln ''read fail'') r (s, 0);
     let (s, r) = sys_write w fd buf 31 s;
     (s, fail) \<leftarrow> unexpected w l (ln ''write fail'') r (s, fail);
     let (s, r) = syscall_close fd s;
     q \<leftarrow> unexpected w l (ln ''close fail'') r (s, fail);
     verdict w l name q
   }"

definition err_neg_fd :: "world \<Rightarrow> u32 \<Rightarrow> (byte list \<Rightarrow> u32) \<Rightarrow> u32 \<Rightarrow> 'a kernel_scheme \<Rightarrow> ('a kernel_scheme \<times> int) option" where
  "err_neg_fd w de l buf = bad_fd_test w de l buf NEG_FD ''err_neg_fd''"

definition err_big_fd :: "world \<Rightarrow> u32 \<Rightarrow> (byte list \<Rightarrow> u32) \<Rightarrow> u32 \<Rightarrow> 'a kernel_scheme \<Rightarrow> ('a kernel_scheme \<times> int) option" where
  "err_big_fd w de l buf = bad_fd_test w de l buf BIG_FD ''err_big_fd''"

primrec open_lots :: "world \<Rightarrow> u32 \<Rightarrow> (byte list \<Rightarrow> u32) \<Rightarrow> nat \<Rightarrow> 'a kernel_scheme \<Rightarrow> nat \<Rightarrow> ('a kernel_scheme \<times> nat) option" where
  "open_lots w de l 0 s cnt = Some (s, cnt)"
| "open_lots w de l (Suc i) s cnt = do {
     (s, fd) \<leftarrow> ece391_open w de (l (str ''.'')) s;
     open_lots w de l i s (if fd = - 1 then cnt + 1 else cnt)
   }"

definition err_open_lots :: "world \<Rightarrow> u32 \<Rightarrow> (byte list \<Rightarrow> u32) \<Rightarrow> 'a kernel_scheme \<Rightarrow> ('a kernel_scheme \<times> int) option" where
  "err_open_lots w de l s = do {
     (s, cnt) \<leftarrow> open_lots w de l 7 s 0;
     let s = fold (\<lambda>i s. fst (syscall_close (int i) s)) [2..<8] s;
     verdict w l ''err_open_lots'' (s, if cnt = 1 then 0 else 2)
   }"

definition open_test ::
  "world \<Rightarrow> u32 \<Rightarrow> (byte list \<Rightarrow> u32) \<Rightarrow> byte list \<Rightarrow> byte list \<Rightarrow> 'a kernel_scheme \<times> int \<Rightarrow> ('a kernel_scheme \<times> int) option" where
  "open_test w de l name msg q = do {
     (s, r) \<leftarrow> ece391_open w de (l name) (fst q);
     unexpected w l msg r (s, snd q)
   }"

definition err_open :: "world \<Rightarrow> u32 \<Rightarrow> (byte list \<Rightarrow> u32) \<Rightarrow> 'a kernel_scheme \<Rightarrow> ('a kernel_scheme \<times> int) option" where
  "err_open w de l s = do {
     q \<leftarrow> open_test w de l (str ''helloo'') ([0x27] @ str ''helloo'' @ [0x27] @ ln '' fail'') (s, 0);
     q \<leftarrow> open_test w de l (str ''shel'') ([0x27] @ str ''shel'' @ [0x27] @ ln '' fail'') q;
     q \<leftarrow> open_test w de l [] (ln ''empty string fail'') q;
     verdict w l ''err_open'' q
   }"

primrec each_fails ::
  "world \<Rightarrow> (byte list \<Rightarrow> u32) \<Rightarrow> byte list \<Rightarrow> (int \<Rightarrow> 'a kernel_scheme \<Rightarrow> ('a kernel_scheme \<times> int) option) \<Rightarrow> int list \<Rightarrow>
   'a kernel_scheme \<times> int \<Rightarrow> ('a kernel_scheme \<times> int) option" where
  "each_fails w l msg f [] q = Some q"
| "each_fails w l msg f (i # is) q = do {
     (s, r) \<leftarrow> f i (fst q);
     q \<leftarrow> unexpected w l msg r (s, snd q);
     each_fails w l msg f is q
   }"

definition err_unopened :: "world \<Rightarrow> u32 \<Rightarrow> (byte list \<Rightarrow> u32) \<Rightarrow> u32 \<Rightarrow> 'a kernel_scheme \<Rightarrow> ('a kernel_scheme \<times> int) option" where
  "err_unopened w de l buf s = do {
     q \<leftarrow> each_fails w l (ln ''close unopened or invalid fd fail'') (\<lambda>i s. Some (syscall_close i s)) [0..7] (s, 0);
     q \<leftarrow> each_fails w l (ln ''read from unopened fd fail'') (\<lambda>i. sys_read w de i buf 31) [2..7] q;
     q \<leftarrow> each_fails w l (ln ''write to unopened fd fail'') (\<lambda>i s. Some (sys_write w i buf 31 s)) [2..7] q;
     verdict w l ''err_unopened'' q
   }"

definition err_vidmap :: "world \<Rightarrow> (byte list \<Rightarrow> u32) \<Rightarrow> 'a kernel_scheme \<Rightarrow> ('a kernel_scheme \<times> int) option" where
  "err_vidmap w l s = do {
     let (s, r) = syscall_vidmap 0 s;
     (s, fail) \<leftarrow> unexpected w l (ln ''Null pointer fail'') r (s, 0);
     let (s, r) = syscall_vidmap 0x400000 s;
     q \<leftarrow> unexpected w l (ln ''Kernel pointer fail fail'') r (s, fail);
     verdict w l ''err_vidmap'' q
   }"

definition err_stdin_out :: "world \<Rightarrow> u32 \<Rightarrow> (byte list \<Rightarrow> u32) \<Rightarrow> u32 \<Rightarrow> 'a kernel_scheme \<Rightarrow> ('a kernel_scheme \<times> int) option" where
  "err_stdin_out w de l buf s = do {
     let (s, r) = sys_write w 0 buf 31 s;
     (s, fail) \<leftarrow> unexpected w l (ln ''write to stdin fail'') r (s, 0);
     (s, r) \<leftarrow> sys_read w de 1 buf 31 s;
     q \<leftarrow> unexpected w l (ln ''read from stdout fail'') r (s, fail);
     verdict w l ''err_stdin_out'' q
   }"

definition err_syscall_num ::
  "(u32 \<Rightarrow> 'a kernel_scheme \<Rightarrow> 'a kernel_scheme \<times> int) \<Rightarrow> world \<Rightarrow> (byte list \<Rightarrow> u32) \<Rightarrow> 'a kernel_scheme \<Rightarrow> ('a kernel_scheme \<times> int) option" where
  "err_syscall_num table w l s = do {
     let (s, r) = call_sys table BIG_NUM s;
     (s, fail) \<leftarrow> unexpected w l (ln ''syscall 0 fail'') r (s, 0);
     let (s, r) = call_sys table NEG_NUM s;
     (s, fail) \<leftarrow> unexpected w l (ln ''big num syscall fail'') r (s, fail);
     let (s, r) = call_sys table 0 s;
     q \<leftarrow> unexpected w l (ln ''neg num syscall fail'') r (s, fail);
     verdict w l ''err_syscall_num'' q
   }"

definition syserr_tests ::
  "(u32 \<Rightarrow> 'a kernel_scheme \<Rightarrow> 'a kernel_scheme \<times> int) \<Rightarrow> world \<Rightarrow> u32 \<Rightarrow> (byte list \<Rightarrow> u32) \<Rightarrow> u32 \<Rightarrow>
   ('a kernel_scheme \<Rightarrow> ('a kernel_scheme \<times> int) option) list" where
  "syserr_tests table w de l buf =
     [err_neg_fd w de l buf, err_big_fd w de l buf, err_open_lots w de l, err_open w de l, err_unopened w de l buf,
      err_vidmap w l, err_stdin_out w de l buf, err_syscall_num table w l]"

primrec sum_tests :: "('s \<Rightarrow> ('s \<times> int) option) list \<Rightarrow> 's \<times> int \<Rightarrow> ('s \<times> int) option" where
  "sum_tests [] q = Some q"
| "sum_tests (t # ts) q = do {
     (s, r) \<leftarrow> t (fst q);
     sum_tests ts (s, snd q + r)
   }"

definition syserr_select ::
  "(u32 \<Rightarrow> 'a kernel_scheme \<Rightarrow> 'a kernel_scheme \<times> int) \<Rightarrow> world \<Rightarrow> u32 \<Rightarrow> (byte list \<Rightarrow> u32) \<Rightarrow> u32 \<Rightarrow> int \<Rightarrow>
   'a kernel_scheme \<Rightarrow> ('a kernel_scheme \<times> int) option" where
  "syserr_select table w de l buf select s =
     (if select = 0 then do {
        (s, fail) \<leftarrow> sum_tests (syserr_tests table w de l buf) (s, 0);
        fail_with w l (10 # ln (if fail \<noteq> 0 then ''Overall Tests: FAIL'' else ''Overall Tests: PASS'')) fail s
      }
      else if 1 \<le> select \<and> select \<le> 8 then (syserr_tests table w de l buf ! nat (select - 1)) s
      else fail_with w l (str ''Invalid test number. Choose from tests 1-8 or 0'') 0 s)"

definition syserr_main ::
  "(u32 \<Rightarrow> 'a kernel_scheme \<Rightarrow> 'a kernel_scheme \<times> int) \<Rightarrow> world \<Rightarrow> u32 \<Rightarrow> (byte list \<Rightarrow> u32) \<Rightarrow> u32 \<Rightarrow> u32 \<Rightarrow>
   'a kernel_scheme \<Rightarrow> ('a kernel_scheme \<times> int) option" where
  "syserr_main table w de l buf test_buf s = do {
     s \<leftarrow> ece391_fdputs w 1 (l (str ''Choose from tests 1-8. 0 to run all: '')) s;
     (s, cnt) \<leftarrow> sys_read w de 0 buf 127 s;
     if cnt = - 1 then fail_with w l (str ''Can'' @ [0x27] @ ln ''t read test #'') 2 s
     else syserr_select table w de l test_buf (uint (vmem s buf) - 0x30) s
   }"

section \<open>The state of the tests\<close>

text \<open>
  A program with the descriptors \<open>U\<close> open, its strings in its memory and room for \<open>n\<close> more characters on
  the screen. The directory has the entry \<open>.\<close> and none with the names that the tests expect to be missing.
\<close>

definition pass_lines :: "byte list list" where
  "pass_lines = map ln [''err_neg_fd: PASS'', ''err_big_fd: PASS'', ''err_open_lots: PASS'', ''err_open: PASS'', ''err_unopened: PASS'',
     ''err_vidmap: PASS'', ''err_stdin_out: PASS'', ''err_syscall_num: PASS'']"

definition syserr_strings :: "byte list list" where
  "syserr_strings = pass_lines @ [10 # ln ''Overall Tests: PASS'', str ''.'', str ''helloo'', str ''shel'', []]"

definition user_string :: "u32 \<Rightarrow> byte list \<Rightarrow> 'a kernel_scheme \<Rightarrow> bool" where
  "user_string a x s \<longleftrightarrow> cstring (vmem s) a x \<and> 0x8000000 \<le> unat a \<and> unat a + Suc (length x) \<le> 0x8400000"

definition names_ok :: "memory \<Rightarrow> u32 \<Rightarrow> bool" where
  "names_ok m zb \<longleftrightarrow>
     (case find (entry_called m zb (str ''.'')) [0..<unat (num_dentry m zb)] of
        None \<Rightarrow> False | Some e \<Rightarrow> entry_type m zb e = FTYPE_DIRECTORY) \<and>
     list_all (\<lambda>x. find (entry_called m zb x) [0..<unat (num_dentry m zb)] = None) [str ''helloo'', str ''shel'', []]"

definition tester :: "u32 \<Rightarrow> (byte list \<Rightarrow> u32) \<Rightarrow> nat set \<Rightarrow> nat \<Rightarrow> 'a kernel_scheme \<Rightarrow> bool" where
  "tester de l U n s \<longleftrightarrow> prog_ok n s \<and> klocal s de 40 \<and> (\<forall>x \<in> set syserr_strings. user_string (l x) x s) \<and>
     (\<forall>j < 8. in_use (cur_files s j) \<longleftrightarrow> j \<in> U) \<and> optable (cur_files s 0) = Ops_stdin \<and> names_ok (vmem s) (zbigfs_start s)"

lemma names_ok_same:
  assumes k: "same_fs zb m m'" "wf_fs m zb" and c: "names_ok m zb"
  shows "names_ok m' zb"
proof -
  note f = find_called_same [OF k]
  obtain e where e: "find (entry_called m zb (str ''.'')) [0..<unat (num_dentry m zb)] = Some e"
    using c by (auto simp: names_ok_def split: option.splits)
  then have "e < unat (num_dentry m zb)" by (auto simp: find_Some_iff)
  then show ?thesis using c same_fs_entry(1) [OF k] unfolding names_ok_def f e by auto
qed

lemma user_string_same:
  assumes "user_string a x s" and ok: "paging_ok s" "paging_ok s'" "cr3 s \<noteq> 0" "cr3 s' = cr3 s"
    and same: "\<And>b. b \<in> user_frame (cr3 s) \<Longrightarrow> phys s' b = phys s b"
  shows "user_string a x s'"
proof -
  have a: "0x8000000 \<le> unat a" "unat a + Suc (length x) \<le> 0x8400000" using assms(1) by (simp_all add: user_string_def)
  have u: "cr3 s' \<noteq> 0" "user_phys s' = user_phys s" using ok by (simp_all add: user_phys_def fun_eq_iff)
  have "rd_bytes (phys s') (user_phys s a) (Suc (length x)) = rd_bytes (phys s) (user_phys s a) (Suc (length x))"
    using a(2) by (intro rd_bytes_cong same subsetD [OF user_region(1) [OF ok(1,3) a]] add_in_region) simp_all
  then have "rd_bytes (vmem s') a (Suc (length x)) = rd_bytes (vmem s) a (Suc (length x))"
    using rd_vmem [OF ok(2) mapped_user [OF ok(2) u(1) a]] rd_vmem [OF ok(1) mapped_user [OF ok(1,3) a]] u(2) by simp
  then show ?thesis using assms(1) by (simp add: user_string_def cstring_def del: rd_bytes.simps)
qed

lemma tester_kept:
  assumes t: "tester de l U n s" and "prog_ok n' s'" and k: "fs_kept s s'" and c: "cr3 s' = cr3 s"
    and same: "\<And>b. b \<in> user_frame (cr3 s) \<Longrightarrow> phys s' b = phys s b"
    and "\<And>j. j < 8 \<Longrightarrow> in_use (cur_files s' j) \<longleftrightarrow> j \<in> U'" and "optable (cur_files s' 0) = Ops_stdin"
  shows "tester de l U' n' s'"
proof -
  have p: "paging_ok s" "paging_ok s'" "cr3 s \<noteq> 0" "same_fs (zbigfs_start s) (vmem s) (vmem s')" "wf_fs (vmem s) (zbigfs_start s)"
    "zbigfs_start s' = zbigfs_start s"
    using k t by (simp_all add: fs_kept_def fs_mounted_def tester_def prog_ok_def)
  have "names_ok (vmem s') (zbigfs_start s')" using names_ok_same [OF p(4,5)] t p(6) by (simp add: tester_def)
  moreover have "user_string (l x) x s'" if "x \<in> set syserr_strings" for x
    using that t p(1-3) c same by (intro user_string_same [of _ _ s s']) (auto simp: tester_def)
  ultimately show ?thesis using assms fs_keptD(3) [OF k] by (simp add: tester_def)
qed

section \<open>The steps of the tests\<close>

lemma say_string:
  assumes t: "tester de l U (length x + n) s" and x: "x \<in> set syserr_strings"
  obtains s' where "ece391_fdputs w 1 (l x) s = Some s'" "outputs s x s'" "tester de l U n s'"
proof -
  have u: "cstring (vmem s) (l x) x" "0x8000000 \<le> unat (l x)" "unat (l x) + length x \<le> 0x8400000" and ok: "prog_ok (length x + n) s"
    using t x by (auto simp: tester_def user_string_def)
  obtain s' where s': "sys_write w 1 (l x) (of_nat (length x)) s = (s', int (length x))" "outputs s (rd_bytes (vmem s) (l x) (length x)) s'"
    "prog_ok n s'" "fs_kept s s'" "rest (s'\<lparr>write_x := write_x s\<rparr>) = rest s" "\<forall>a. a \<notin> video_frames \<longrightarrow> phys s' a = phys s a"
    by (rule sys_write_stdout [OF ok u(2,3)])
  note f = output_frame [OF s'(5)]
  have "rd_bytes (vmem s) (l x) (Suc (length x)) = x @ [0]" using u(1) by (simp add: cstring_def)
  from rd_bytes_part [of "vmem s" "l x" "x @ [0]" 0 "length x"] this have r: "rd_bytes (vmem s) (l x) (length x) = x" by simp
  have p: "paging_ok s" "cr3 s \<le> 10"
    using ok by (simp_all add: prog_ok_def fs_mounted_def paging_ok_def pd_ready_def paging_consts)
  have "tester de l U n s'"
    using t f s'(6) user_frame_video [OF p(2)] by (intro tester_kept [OF t s'(3,4)]) (auto simp: tester_def)
  moreover have "ece391_fdputs w 1 (l x) s = Some s'" using ece391_strlen_cstring [OF u(1)] s'(1) by (simp add: ece391_fdputs_def)
  ultimately show thesis using that s'(2) r by simp
qed

lemma verdict_pass:
  assumes "tester de l U (length (ln (name @ '': PASS'')) + n) s" and "ln (name @ '': PASS'') \<in> set pass_lines"
  obtains s' where "verdict w l name (s, 0) = Some (s', 0)" "outputs s (ln (name @ '': PASS'')) s'" "tester de l U n s'"
proof -
  have "ln (name @ '': PASS'') \<in> set syserr_strings" using assms(2) by (simp add: syserr_strings_def)
  from say_string [OF assms(1) this, of w] obtain s' where
    "ece391_fdputs w 1 (l (ln (name @ '': PASS''))) s = Some s'" "outputs s (ln (name @ '': PASS'')) s'" "tester de l U n s'" .
  then show thesis using that by (simp add: verdict_def fail_with_def)
qed

lemma tester_file: "tester de l U n s \<Longrightarrow> get_file fd s = (if 0 \<le> fd \<and> fd < 8 \<and> nat fd \<in> U then Some (nat fd) else None)"
  by (auto simp: tester_def get_file_def MAX_FILES_def)

text \<open>Calls with a descriptor that is not open fail and change nothing.\<close>

lemma no_file:
  assumes "get_file fd s = None"
  shows "sys_read w de fd buf nb s = Some (s, - 1)" "sys_write w fd buf nb s = (s, - 1)" "syscall_close fd s = (s, - 1)"
  using assms by (simp_all add: sys_read_def sys_write_def syscall_close_def)

lemma close_std: "syscall_close 0 s = (s, - 1)" "syscall_close 1 s = (s, - 1)"
  by (simp_all add: syscall_close_def free_fd_def split: option.split)

lemma tester_frame: "tester de l U n s \<Longrightarrow> a \<in> user_frame (cr3 s) \<Longrightarrow> a \<notin> kernel_frame"
  using kernel_frame_user_frame [of "cr3 s"] by (auto simp: tester_def prog_ok_def fs_mounted_def paging_ok_def pd_ready_def paging_consts)

text \<open>Opening the directory takes the next descriptor, as long as there is one.\<close>

lemma find_string:
  assumes t: "tester de l U n s" and x: "x \<in> set syserr_strings"
  shows "strlen (vmem s) (l x) = Some (of_nat (length x))" and "usr_ptr_ok (l x) (of_nat (length x))"
    and "find (name_matches (vmem s) (zbigfs_start s) (l x)) [0..<unat (num_dentry (vmem s) (zbigfs_start s))] =
      find (entry_called (vmem s) (zbigfs_start s) x) [0..<unat (num_dentry (vmem s) (zbigfs_start s))]"
proof -
  have u: "cstring (vmem s) (l x) x" "0x8000000 \<le> unat (l x)" "unat (l x) + Suc (length x) \<le> 0x8400000" and o: "fs_mounted s"
    using t x by (auto simp: tester_def user_string_def prog_ok_def)
  show "strlen (vmem s) (l x) = Some (of_nat (length x))" using strlen_cstring [OF u(1)] .
  have "unat (of_nat (length x) :: u32) = length x" using u(3) by (intro unat_of_nat_less) simp
  then show "usr_ptr_ok (l x) (of_nat (length x))" unfolding usr_ptr_ok_unat using u(2,3) by simp
  have "rd_bytes (vmem s) (l x) (Suc (length x)) = x @ [0]" "0 \<notin> set x" using u(1) by (simp_all add: cstring_def)
  from find_named [OF fs_kept_refl [OF o] this]
  show "find (name_matches (vmem s) (zbigfs_start s) (l x)) [0..<unat (num_dentry (vmem s) (zbigfs_start s))] =
      find (entry_called (vmem s) (zbigfs_start s) x) [0..<unat (num_dentry (vmem s) (zbigfs_start s))]" .
qed

lemma open_dot:
  assumes t: "tester de l {..<k} n s" and k: "2 \<le> k" "k < 8"
  obtains s' where "ece391_open w de (l (str ''.'')) s = Some (s', int k)" "outputs s [] s'" "tester de l {..<Suc k} n s'"
proof -
  have "str ''.'' \<in> set syserr_strings" by (simp add: syserr_strings_def)
  then have nm: "cstring (vmem s) (l (str ''.'')) (str ''.'')" "0x8000000 \<le> unat (l (str ''.''))" "unat (l (str ''.'')) + length (str ''.'') \<le> 0x8400000"
    using t by (auto simp: tester_def user_string_def)
  obtain e where e: "find (entry_called (vmem s) (zbigfs_start s) (str ''.'')) [0..<unat (num_dentry (vmem s) (zbigfs_start s))] = Some e"
    "entry_type (vmem s) (zbigfs_start s) e = FTYPE_DIRECTORY"
    using t by (auto simp: tester_def names_ok_def split: option.splits)
  have o: "prog_ok n s" "klocal s de 40" using t by (auto simp: tester_def)
  have u: "k < MAX_FILES" "\<not> in_use (cur_files s k)" "\<forall>j < k. in_use (cur_files s j)" using t k by (auto simp: tester_def MAX_FILES_def)
  obtain s' h where s': "ece391_open w de (l (str ''.'')) s = Some (s', int k)" "prog_ok n s'" "outputs s [] s'" "fs_kept s s'" "cr3 s' = cr3 s"
    "\<forall>b. b \<notin> kernel_frame \<longrightarrow> phys s' b = phys s b" "cur_files s' = (cur_files s)(k := h)" "in_use h" "optable h = Ops_directory" "pos h = 0"
    by (rule open_directory [OF o nm k(1) u e])
  have "optable (cur_files s 0) = Ops_stdin" "\<forall>j < 8. in_use (cur_files s j) \<longleftrightarrow> j < k" using t by (simp_all add: tester_def)
  then have "tester de l {..<Suc k} n s'"
    using k s'(6-8) tester_frame [OF t] by (intro tester_kept [OF t s'(2,4,5)]) (auto simp: less_Suc_eq)
  then show thesis using that s'(1,3) by blast
qed

lemma open_full:
  assumes t: "tester de l {..<8} n s"
  shows "ece391_open w de (l (str ''.'')) s = Some (s, - 1)"
proof -
  have "str ''.'' \<in> set syserr_strings" by (simp add: syserr_strings_def)
  note f = find_string(1,2) [OF t this]
  have "find (\<lambda>i. \<not> in_use (cur_files s i)) [0..<MAX_FILES] = None" using t by (auto simp: find_None_iff tester_def MAX_FILES_def)
  then have "get_new_fd s = (s, - 1)" by (simp add: get_new_fd_def get_new_fd_loop_eq)
  then show ?thesis using f by (simp add: ece391_open_def syscall_open_def)
qed

lemma open_lots_more:
  assumes "tester de l {..<k} n s" and "2 \<le> k" and "k + i \<le> 8"
  shows "\<exists>s'. (\<forall>j. open_lots w de l (i + j) s cnt = open_lots w de l j s' cnt) \<and> outputs s [] s' \<and> tester de l {..<k + i} n s'"
  using assms
proof (induction i arbitrary: k s)
  case 0
  then show ?case by auto
next
  case (Suc i)
  have "k < 8" using Suc.prems by simp
  from open_dot [OF Suc.prems(1,2) this, of w] obtain s1 where
    s1: "ece391_open w de (l (str ''.'')) s = Some (s1, int k)" "outputs s [] s1" "tester de l {..<Suc k} n s1" .
  obtain s' where s': "\<forall>j. open_lots w de l (i + j) s1 cnt = open_lots w de l j s' cnt" "outputs s1 [] s'" "tester de l {..<Suc k + i} n s'"
    using Suc.IH [OF s1(3)] Suc.prems by auto
  show ?case using s1(1) s' outputs_trans [OF s1(2) s'(2)] by (intro exI [of _ s']) simp
qed

lemma open_missing:
  assumes t: "tester de l {..<2} n s" and x: "x \<in> {str ''helloo'', str ''shel'', []}"
  shows "ece391_open w de (l x) s = Some (s, - 1)"
proof -
  have "x \<in> set syserr_strings" using x by (auto simp: syserr_strings_def)
  note f = find_string [OF t this]
  have N: "find (entry_called (vmem s) (zbigfs_start s) x) [0..<unat (num_dentry (vmem s) (zbigfs_start s))] = None"
    using t x by (auto simp: tester_def names_ok_def)
  define g where "g = (cur_files s 2)\<lparr>flags := flags (cur_files s 2) OR FILE_FLAG_IN_USE\<rparr>"
  have o: "fs_mounted s" "klocal s de 40" "2 < MAX_FILES" "\<not> in_use (cur_files s 2)" "\<forall>j < 2. in_use (cur_files s j)"
    using t by (auto simp: tester_def prog_ok_def MAX_FILES_def)
  have "in_use g" unfolding g_def by (rule in_use_set)
  then have "fst (free_fd 2 (set_file 2 g s)) = set_file 2 (g\<lparr>flags := flags g AND NOT FILE_FLAG_IN_USE\<rparr>) s"
    by (simp add: free_fd_def MAX_FILES_def)
  also have "g\<lparr>flags := flags g AND NOT FILE_FLAG_IN_USE\<rparr> = cur_files s 2" using flags_reset [OF o(4)] by (simp add: g_def)
  finally have "fst (free_fd 2 (set_file 2 g s)) = s" by simp
  then show ?thesis using syscall_open_eq [OF o(1,2) f(1,2) _ o(3-5) g_def, of "dev w"] N unfolding f(3) by (simp add: ece391_open_def)
qed

lemma close_open:
  assumes t: "tester de l U n s" and i: "2 \<le> i" "i < 8" "i \<in> U"
  shows "outputs s [] (fst (syscall_close (int i) s))" and "tester de l (U - {i}) n (fst (syscall_close (int i) s))"
proof -
  define g where "g = (cur_files s i)\<lparr>flags := flags (cur_files s i) AND NOT FILE_FLAG_IN_USE\<rparr>"
  have u: "in_use (cur_files s i)" using t i by (auto simp: tester_def)
  then have e: "fst (syscall_close (int i) s) = set_file i g s"
    using i by (simp add: syscall_close_def get_file_def free_fd_def MAX_FILES_def g_def)
  show "outputs s [] (fst (syscall_close (int i) s))" unfolding e by (rule prog_set_file)
  have "prog_ok n (set_file i g s)" using t i prog_set_file(1) [of i n g s] by (simp add: tester_def)
  moreover have "fs_kept s (set_file i g s)" using t by (auto simp: tester_def prog_ok_def fs_kept_def)
  moreover have "\<not> in_use g" unfolding g_def by (rule in_use_clear)
  ultimately show "tester de l (U - {i}) n (fst (syscall_close (int i) s))"
    unfolding e using t i by (intro tester_kept [OF t]) (auto simp: tester_def)
qed

lemma close_run:
  assumes "tester de l U n s" and "distinct is" and "\<forall>i \<in> set is. 2 \<le> i \<and> i < 8 \<and> i \<in> U"
  shows "outputs s [] (fold (\<lambda>i s. fst (syscall_close (int i) s)) is s)"
    "tester de l (U - set is) n (fold (\<lambda>i s. fst (syscall_close (int i) s)) is s)"
  using assms
proof (induction "is" arbitrary: s U)
  case Nil
  { case 1 show ?case by (simp add: outputs_def) next case 2 then show ?case by simp }
next
  case (Cons i "is")
  { case 1
    then have "outputs s [] (fst (syscall_close (int i) s))" "tester de l (U - {i}) n (fst (syscall_close (int i) s))"
      by (auto intro!: close_open)
    then show ?case using 1 Cons.IH(1) [of "U - {i}"] outputs_trans by fastforce
  next
    case 2
    then have "tester de l (U - {i}) n (fst (syscall_close (int i) s))" by (auto intro!: close_open)
    then show ?case using 2 Cons.IH(2) [of "U - {i}"] by (auto simp: Diff_insert2 [symmetric] set_diff_eq) }
qed

section \<open>The tests pass\<close>

text \<open>A test that prints exactly \<open>x\<close>, returns 0 and leaves the descriptors as they were.\<close>

definition passes :: "u32 \<Rightarrow> (byte list \<Rightarrow> u32) \<Rightarrow> ('a kernel_scheme \<Rightarrow> ('a kernel_scheme \<times> int) option) \<Rightarrow> byte list \<Rightarrow> bool" where
  "passes de l t x \<longleftrightarrow> (\<forall>n s. tester de l {..<2} (length x + n) s \<longrightarrow>
     (\<exists>s'. t s = Some (s', 0) \<and> outputs s x s' \<and> tester de l {..<2} n s'))"

text \<open>A test without effect until its verdict.\<close>

lemma passesI:
  fixes t :: "'a kernel_scheme \<Rightarrow> ('a kernel_scheme \<times> int) option"
  assumes "\<And>n s. tester de l {..<2} n s \<Longrightarrow>
      \<exists>s'. t s = verdict w l name (s', 0) \<and> outputs s [] s' \<and> tester de l {..<2} n s'"
    and "ln (name @ '': PASS'') \<in> set pass_lines"
  shows "passes de l t (ln (name @ '': PASS''))"
  unfolding passes_def
proof (intro allI impI)
  fix n and s :: "'a kernel_scheme" assume "tester de l {..<2} (length (ln (name @ '': PASS'')) + n) s"
  from assms(1) [OF this] obtain s1 where s1: "t s = verdict w l name (s1, 0)" "outputs s [] s1"
    "tester de l {..<2} (length (ln (name @ '': PASS'')) + n) s1" by blast
  from verdict_pass [OF s1(3) assms(2), of w] obtain s' where
    s': "verdict w l name (s1, 0) = Some (s', 0)" "outputs s1 (ln (name @ '': PASS'')) s'" "tester de l {..<2} n s'" .
  then show "\<exists>s'. t s = Some (s', 0) \<and> outputs s (ln (name @ '': PASS'')) s' \<and> tester de l {..<2} n s'"
    using s1(1) outputs_trans [OF s1(2) s'(2)] by auto
qed

lemma unexpected_ok [simp]: "unexpected w l msg (- 1) q = Some q"
  by (cases q) (simp add: unexpected_def)

lemma each_fails_ok:
  assumes "\<And>i. i \<in> set is \<Longrightarrow> f i s = Some (s, - 1)"
  shows "each_fails w l msg f is (s, r) = Some (s, r)"
  using assms by (induction "is") simp_all

lemma bad_fd_passes:
  assumes "fd < 0 \<or> 8 \<le> fd" and "ln (name @ '': PASS'') \<in> set pass_lines"
  shows "passes de l (bad_fd_test w de l buf fd name) (ln (name @ '': PASS''))"
proof (rule passesI [OF _ assms(2), where w = w])
  fix n and s :: "'a kernel_scheme" assume t: "tester de l {..<2} n s"
  have "get_file fd s = None" using tester_file [OF t, of fd] assms(1) by auto
  then show "\<exists>s'. bad_fd_test w de l buf fd name s = verdict w l name (s', 0) \<and> outputs s [] s' \<and> tester de l {..<2} n s'"
    using t by (intro exI [of _ s]) (simp add: bad_fd_test_def no_file)
qed

lemma open_lots_passes: "passes de l (err_open_lots w de l) (ln (''err_open_lots'' @ '': PASS''))"
proof (rule passesI [where w = w])
  fix n and s :: "'a kernel_scheme" assume t: "tester de l {..<2} n s"
  obtain s1 where s1: "\<forall>j. open_lots w de l (6 + j) s 0 = open_lots w de l j s1 0" "outputs s [] s1" "tester de l {..<8} n s1"
    using open_lots_more [OF t, of 6 w 0] by auto
  define s' where "s' = fold (\<lambda>i s. fst (syscall_close (int i) s)) [2..<8] s1"
  have "{..<8} - set [2..<8] = {..<2 :: nat}" by auto
  then have s': "outputs s1 [] s'" "tester de l {..<2} n s'"
    using close_run [OF s1(3), of "[2..<8]"] by (simp_all add: s'_def)
  have "open_lots w de l 7 s 0 = Some (s1, 1)"
    using s1(1) [rule_format, of 1] open_full [OF s1(3), of w] by simp
  then have "err_open_lots w de l s = verdict w l ''err_open_lots'' (s', 0)" by (simp add: err_open_lots_def s'_def)
  then show "\<exists>s'. err_open_lots w de l s = verdict w l ''err_open_lots'' (s', 0) \<and> outputs s [] s' \<and> tester de l {..<2} n s'"
    using s' outputs_trans [OF s1(2) s'(1)] by auto
qed (simp add: pass_lines_def)

lemma open_passes: "passes de l (err_open w de l) (ln (''err_open'' @ '': PASS''))"
proof (rule passesI [where w = w])
  fix n and s :: "'a kernel_scheme" assume t: "tester de l {..<2} n s"
  note m = open_missing [OF t, of _ w]
  show "\<exists>s'. err_open w de l s = verdict w l ''err_open'' (s', 0) \<and> outputs s [] s' \<and> tester de l {..<2} n s'"
    using t by (intro exI [of _ s]) (simp add: err_open_def open_test_def m)
qed (simp add: pass_lines_def)

lemma unopened_passes: "passes de l (err_unopened w de l buf) (ln (''err_unopened'' @ '': PASS''))"
proof (rule passesI [where w = w])
  fix n and s :: "'a kernel_scheme" assume t: "tester de l {..<2} n s"
  have g: "get_file i s = None" if "2 \<le> i" for i using that tester_file [OF t, of i] by auto
  have c: "Some (syscall_close i s) = Some (s, - 1)" if "i \<in> set [0..7]" for i
  proof (cases "2 \<le> i")
    case True then show ?thesis using no_file(3) [OF g] by simp
  next
    case False
    then have "i = 0 \<or> i = 1" using that by auto
    then show ?thesis using close_std by auto
  qed
  have r: "sys_read w de i buf 31 s = Some (s, - 1)" "Some (sys_write w i buf 31 s) = Some (s, - 1)" if "i \<in> set [2..7]" for i
    using that no_file [OF g, of i] by auto
  note e = each_fails_ok [of "[0..7]" "\<lambda>i s. Some (syscall_close i s)" s, OF c] each_fails_ok [of "[2..7]" "\<lambda>i. sys_read w de i buf 31" s, OF r(1)]
    each_fails_ok [of "[2..7]" "\<lambda>i s. Some (sys_write w i buf 31 s)" s, OF r(2)]
  show "\<exists>s'. err_unopened w de l buf s = verdict w l ''err_unopened'' (s', 0) \<and> outputs s [] s' \<and> tester de l {..<2} n s'"
    using t by (intro exI [of _ s]) (simp add: err_unopened_def e [where w = w and l = l] del: upto.simps upto_rec_numeral set_upto)
qed (simp add: pass_lines_def)

lemma vidmap_passes: "passes de l (err_vidmap w l) (ln (''err_vidmap'' @ '': PASS''))"
proof (rule passesI [where w = w])
  fix n and s :: "'a kernel_scheme" assume t: "tester de l {..<2} n s"
  have "\<not> usr_ptr_ok 0 4" "\<not> usr_ptr_ok 0x400000 4" by (simp_all add: usr_ptr_ok_unat)
  then show "\<exists>s'. err_vidmap w l s = verdict w l ''err_vidmap'' (s', 0) \<and> outputs s [] s' \<and> tester de l {..<2} n s'"
    using t by (intro exI [of _ s]) (simp add: err_vidmap_def syscall_vidmap_def)
qed (simp add: pass_lines_def)

lemma stdin_out_passes: "passes de l (err_stdin_out w de l buf) (ln (''err_stdin_out'' @ '': PASS''))"
proof (rule passesI [where w = w])
  fix n and s :: "'a kernel_scheme" assume t: "tester de l {..<2} n s"
  have g: "get_file 0 s = Some 0" "get_file 1 s = Some 1" "optable (cur_files s 0) = Ops_stdin" "optable (cur_files s 1) = Ops_stdout"
    using tester_file [OF t, of 0] tester_file [OF t, of 1] t by (auto simp: tester_def prog_ok_def)
  then have "sys_write w 0 buf 31 s = (s, - 1)" "sys_read w de 1 buf 31 s = Some (s, - 1)"
    using set_file_same [of 1 s] by (simp_all add: sys_write_def sys_read_def kwrite_def kread_def noread_def nowrite_def)
  then show "\<exists>s'. err_stdin_out w de l buf s = verdict w l ''err_stdin_out'' (s', 0) \<and> outputs s [] s' \<and> tester de l {..<2} n s'"
    using t by (intro exI [of _ s]) (simp add: err_stdin_out_def)
qed (simp add: pass_lines_def)

lemma syscall_num_passes: "passes de l (err_syscall_num table w l) (ln (''err_syscall_num'' @ '': PASS''))"
proof (rule passesI [where w = w])
  fix n and s :: "'a kernel_scheme" assume t: "tester de l {..<2} n s"
  have "call_sys table BIG_NUM s = (s, - 1)" "call_sys table NEG_NUM s = (s, - 1)" "call_sys table 0 s = (s, - 1)"
    by (simp_all add: call_sys_def syscall_def BIG_NUM_def NEG_NUM_def SYSCALL_MAX_INDEX_def)
  then show "\<exists>s'. err_syscall_num table w l s = verdict w l ''err_syscall_num'' (s', 0) \<and> outputs s [] s' \<and> tester de l {..<2} n s'"
    using t by (intro exI [of _ s]) (simp add: err_syscall_num_def)
qed (simp add: pass_lines_def)

lemma all_pass: "list_all2 (passes de l) (syserr_tests table w de l buf) pass_lines"
proof -
  have "passes de l (err_neg_fd w de l buf) (ln (''err_neg_fd'' @ '': PASS''))" "passes de l (err_big_fd w de l buf) (ln (''err_big_fd'' @ '': PASS''))"
    unfolding err_neg_fd_def err_big_fd_def by (rule bad_fd_passes; simp add: NEG_FD_def BIG_FD_def pass_lines_def)+
  then show ?thesis
    by (simp add: syserr_tests_def pass_lines_def open_lots_passes [simplified] open_passes [simplified] unopened_passes [simplified]
        vidmap_passes [simplified] stdin_out_passes [simplified] syscall_num_passes [simplified])
qed

lemma sum_tests_pass:
  assumes "list_all2 (passes de l) ts xs" and "tester de l {..<2} (length (concat xs) + n) s"
  shows "\<exists>s'. sum_tests ts (s, r) = Some (s', r) \<and> outputs s (concat xs) s' \<and> tester de l {..<2} n s'"
  using assms
proof (induction arbitrary: s rule: list_all2_induct)
  case Nil
  then show ?case by simp
next
  case (Cons t ts x xs)
  from Cons.hyps(1) Cons.prems obtain s1 where s1: "t s = Some (s1, 0)" "outputs s x s1" "tester de l {..<2} (length (concat xs) + n) s1"
    unfolding passes_def by (auto simp: add.assoc)
  from Cons.IH [OF s1(3)] obtain s' where s': "sum_tests ts (s1, r) = Some (s', r)" "outputs s1 (concat xs) s'" "tester de l {..<2} n s'" by blast
  then show ?case using s1(1) outputs_trans [OF s1(2) s'(2)] by auto
qed

definition syserr_report :: "int \<Rightarrow> byte list" where
  "syserr_report i = (if i = 0 then concat pass_lines @ 10 # ln ''Overall Tests: PASS'' else pass_lines ! nat (i - 1))"

text \<open>
  C9. The kernel passes its error tests: in a process with only its standard files open, on an image with
  the directory entry \<open>.\<close> and no file called \<open>helloo\<close>, \<open>shel\<close> or with an empty name, each of the eight
  tests of \<open>syserr\<close>, and the run of all of them, prints exactly its \<open>PASS\<close> lines on its terminal, returns
  0 and leaves no descriptor open.
\<close>

theorem syserr_passes:
  assumes "tester de l {..<2} (length (syserr_report i)) s" and "0 \<le> i" and "i \<le> 8"
  shows "\<exists>s'. syserr_select table w de l buf i s = Some (s', 0) \<and> outputs s (syserr_report i) s' \<and>
    (\<forall>j < 8. in_use (cur_files s' j) \<longleftrightarrow> j < 2)"
proof (cases "i = 0")
  case True
  let ?o = "10 # ln ''Overall Tests: PASS''"
  have "tester de l {..<2} (length (concat pass_lines) + (length ?o + 0)) s" using assms(1) True by (simp add: syserr_report_def)
  from sum_tests_pass [OF all_pass this, of table w buf 0] obtain s1 where
    s1: "sum_tests (syserr_tests table w de l buf) (s, 0) = Some (s1, 0)" "outputs s (concat pass_lines) s1" "tester de l {..<2} (length ?o + 0) s1"
    by blast
  have "?o \<in> set syserr_strings" by (simp add: syserr_strings_def)
  from say_string [OF s1(3) this, of w] obtain s' where s': "ece391_fdputs w 1 (l ?o) s1 = Some s'" "outputs s1 ?o s'" "tester de l {..<2} 0 s'" .
  then show ?thesis
    using True s1(1) outputs_trans [OF s1(2) s'(2)] by (auto simp: syserr_select_def fail_with_def syserr_report_def tester_def)
next
  case False
  define k where "k = nat (i - 1)"
  have k: "k < length pass_lines" using False assms(2,3) by (simp add: k_def pass_lines_def)
  have t: "tester de l {..<2} (length (pass_lines ! k) + 0) s" using assms(1) False by (simp add: syserr_report_def k_def)
  have "passes de l (syserr_tests table w de l buf ! k) (pass_lines ! k)" by (rule list_all2_nthD2 [OF all_pass k])
  then obtain s' where "(syserr_tests table w de l buf ! k) s = Some (s', 0)" "outputs s (pass_lines ! k) s'" "tester de l {..<2} 0 s'"
    using t unfolding passes_def by blast
  then show ?thesis using False assms(2,3) by (auto simp: syserr_select_def syserr_report_def k_def tester_def)
qed

section \<open>A concrete run\<close>

text \<open>The process has the strings at the start of its memory.\<close>

definition demo_string :: "byte list \<Rightarrow> u32" where
  "demo_string x = 0x8000000 + of_nat (offset_in syserr_strings x)"

abbreviation demo_tester :: kernel where
  "demo_tester \<equiv> demo_user (pool syserr_strings)"

lemma demo_dir_names: "names_ok demo_dir 0x500000"
  by (simp add: names_ok_def demo_dir_fs str_def)

lemma syserr_strings_fit: "length (pool syserr_strings) \<le> 4096" "\<forall>x \<in> set syserr_strings. 0 \<notin> set x" "length (syserr_report 0) < 2 ^ 24"
proof -
  have "length (pool syserr_strings) \<le> 512 \<and> list_all (\<lambda>f. list_all (\<lambda>c. c \<noteq> 0) f) syserr_strings \<and> length (syserr_report 0) \<le> 512"
    by code_simp
  then show "length (pool syserr_strings) \<le> 4096" "\<forall>x \<in> set syserr_strings. 0 \<notin> set x" "length (syserr_report 0) < 2 ^ 24"
    by (auto simp: list_all_iff)
qed

lemma demo_tester_string:
  assumes x: "x \<in> set syserr_strings"
  shows "user_string (demo_string x) x demo_tester"
proof -
  define i where "i = offset_in syserr_strings x"
  have i: "i + Suc (length x) \<le> length (pool syserr_strings)" "take (Suc (length x)) (drop i (pool syserr_strings)) = x @ [0]"
    using offset_in_pool [OF x] by (simp_all add: i_def)
  have a: "demo_string x = 0x8000000 + of_nat i" by (simp add: demo_string_def i_def)
  have "unat (0x8000000 + of_nat i :: u32) = 0x8000000 + i" using i(1) syserr_strings_fit(1) by (simp add: unat_plus_if' unat_of_nat_less)
  then show ?thesis
    using x syserr_strings_fit(1,2) i demo_user_rd [OF i(1)] by (simp add: user_string_def cstring_def a del: rd_bytes.simps)
qed

lemma demo_tester_ok: "tester 0x7F0000 demo_string {..<2} (length (syserr_report 0)) demo_tester"
proof -
  note m = demo_user_mounted [OF syserr_strings_fit(1)]
  have "names_ok (vmem demo_tester) (zbigfs_start demo_tester)"
    using names_ok_same [OF m(1) demo_dir_fs(3) demo_dir_names] by (simp add: m(3))
  moreover have "in_use (std_files j) \<longleftrightarrow> j < 2" for j
    by (auto simp: std_files_def in_use_def FILE_FLAG_IN_USE_def null_FILE_def)
  ultimately show ?thesis
    using demo_tester_string demo_user_prog [OF syserr_strings_fit(1,3)] m(4) by (simp add: tester_def demo_user_state std_files_def)
qed

theorem syserr_passes_witness:
  "\<exists>s'. syserr_select (\<lambda>_ s. (s, 0)) idle_world 0x7F0000 demo_string 0x8003000 0 demo_tester = Some (s', 0) \<and>
     text_view 0 s' = fold (aputc (attribs 0)) (concat pass_lines @ 10 # ln ''Overall Tests: PASS'') (text_view 0 demo_tester)"
proof -
  show ?thesis
    using syserr_passes [OF demo_tester_ok, of "\<lambda>_ s. (s, 0)" idle_world "0x8003000"]
    by (auto simp: demo_user_state outputs_def printc_def syserr_report_def)
qed

end
