(* ===== verification/Start_Up.thy ===== *)
theory Start_Up
  imports Boot
begin

unbundle bit_operations_syntax

text \<open>
  From power-on to the first user programs: the timer interrupt together with the shell it starts in a
  terminal that has no process, and the boot followed by the first three ticks of the timer.
\<close>

section \<open>tasking_funcs.S, the timer interrupt\<close>

text \<open>The name of the default program; the pointer to it is an argument of what follows.\<close>

definition execstring :: "byte list" where
  "execstring = str ''shell''"

datatype tick = Resumed u32 | Started exec_result

definition timer_interrupt :: "world \<Rightarrow> load_frame \<Rightarrow> u32 \<Rightarrow> u32 \<Rightarrow> 'a kernel_scheme \<Rightarrow> ('a kernel_scheme \<times> tick) option" where
  "timer_interrupt w fr sp execstring_ptr s =
     (case next_task sp s of
        (s, Resume sp') \<Rightarrow> Some (s, Resumed sp')
      | (s, Launch_shell) \<Rightarrow> map_option (\<lambda>(s, r). (s, Started r)) (kexecute w fr sp execstring_ptr s))"

section \<open>An image with a shell\<close>

text \<open>
  What the start of a shell relies on: a file system in kernel memory with an executable file of that
  name, the string with the name, the local variables of the loader and the PCBs, all apart.
\<close>

definition shell_regions :: "load_frame \<Rightarrow> u32 \<Rightarrow> memory \<Rightarrow> u32 \<Rightarrow> (u32 \<times> nat) list" where
  "shell_regions fr nm m z =
     [(nm, 6), (z, fs_size m z), (exec_at fr, 128), (args_at fr, 128), (buf_at fr, 28), (d_at fr, 40), (dentry_at fr, 40),
      (pcb_cmdstring 1, 128), (pcb_cmdstring 2, 128), (pcb_cmdstring 3, 128)]"

definition shell_image :: "load_frame \<Rightarrow> u32 \<Rightarrow> byte list \<Rightarrow> memory \<Rightarrow> u32 \<Rightarrow> bool" where
  "shell_image fr nm c m z \<longleftrightarrow> wf_fs m z \<and> line_at m nm execstring \<and> program_at m z execstring c \<and>
     list_all (\<lambda>(a, n). 4194304 \<le> unat a \<and> unat a + n \<le> 8388608) (shell_regions fr nm m z) \<and> apart (shell_regions fr nm m z)"

lemma execstring_word: "length execstring = 5" "word_of execstring = execstring" "args_of execstring = []" "execstring \<noteq> []"
  by (simp_all add: execstring_def str_def word_of_def args_of_def)

lemma shell_image_same:
  assumes "shell_image fr nm c m z" and "\<And>a. a \<in> region nm 6 \<union> region z (fs_size m z) \<Longrightarrow> m' a = m a"
  shows "shell_image fr nm c m' z"
proof -
  have wf: "wf_fs m z" and l: "line_at m nm execstring" using assms(1) by (simp_all add: shell_image_def)
  have k: "same_fs z m m'" using assms(2) by (simp add: same_fs_def)
  have e: "m' (nm + of_nat i) = m (nm + of_nat i)" if "i \<le> 5" for i using that assms(2) add_in_region [of i 6 nm] by simp
  then have "line_at m' nm execstring" using l e [of 5] by (simp add: line_at_def execstring_word)
  then show ?thesis
    using assms(1) same_fs_wf [OF k wf] program_at_same [OF k wf] same_fs_size [OF k wf] by (simp add: shell_image_def shell_regions_def)
qed

lemma shell_image_ready:
  assumes "shell_image fr nm c (vmem s) (zbigfs_start s)" and "paging_ok s" and "p \<in> {1, 2, 3}"
  shows "fs_mounted s" and "frame_ok s fr p" and "line_at (vmem s) nm execstring" and "nm \<noteq> 0"
    and "disjoint_regions (exec_at fr) 128 nm (length execstring + 1)" and "disjoint_regions (args_at fr) 128 nm (length execstring + 1)"
    and "program_at (vmem s) (zbigfs_start s) (word_of execstring) c"
proof -
  note i = assms(1) [unfolded shell_image_def shell_regions_def, simplified]
  show "fs_mounted s" "line_at (vmem s) nm execstring" "program_at (vmem s) (zbigfs_start s) (word_of execstring) c"
    using i assms(2) by (simp_all add: fs_mounted_def execstring_word)
  show "nm \<noteq> 0" using i by auto
  show "disjoint_regions (exec_at fr) 128 nm (length execstring + 1)" "disjoint_regions (args_at fr) 128 nm (length execstring + 1)"
    using i disjoint_regions_sym [of nm] by (simp_all add: execstring_word)
  have "disjoint_regions a k (zbigfs_start s) (fs_size (vmem s) (zbigfs_start s))"
    if "disjoint_regions (zbigfs_start s) (fs_size (vmem s) (zbigfs_start s)) a k" for a k
    using that disjoint_regions_sym by blast
  then show "frame_ok s fr p" using i assms(3) by (auto simp: frame_ok_def klocal_def Let_def)
qed

section \<open>A shell is started\<close>

lemma suspended_memory: "phys (suspended sp s) = phys s" "zbigfs_start (suspended sp (s :: 'a kernel_scheme)) = zbigfs_start s"
  by (simp_all add: suspended_def incr_current_active_process_def save_queue_def set_pcb_def send_eoi_def outb_def cli_def Let_def)

lemma loaded_outside:
  assumes "tasks_wf s" and "0 < p" and "p \<le> MAX_PID" and "length c \<le> unat EXE_LOAD_SZ" and "length as \<le> 127"
    and "a \<notin> region (pcb_cmdstring p) 128" and "a \<notin> user_frame p"
  shows "phys (loaded p c as s) a = phys s a"
proof -
  define t where "t = spawned p s"
  have t: "paging_ok t" "cr3 t = p" "phys t = wr_bytes (phys s) (pcb_cmdstring p) (replicate 128 0)"
    using tasks_wfD(1) [OF spawned_wf(1) [OF assms(1-3)]] by (simp_all add: t_def spawned_fields BUF_SIZE_def)
  have "a \<notin> region (user_phys t LOAD_ADDR) (length c)"
    using user_region(1) [OF t(1), of LOAD_ADDR "length c"] assms(2,4,7) t(2) by (auto simp: load_consts)
  moreover have "length c \<le> 2 ^ 32" using assms(4) by (simp add: load_consts)
  ultimately show ?thesis
    using assms(5,6) t(3) by (simp add: loaded_def wr_bytes_outside flip: t_def)
qed

lemma loaded_zbigfs [simp]: "zbigfs_start (loaded p c as s) = zbigfs_start s"
  by (simp add: loaded_def spawned_kernel_fields Let_def)

lemma loaded_queue [simp]: "processes (loaded p c as s) = processes s" "current_active_process (loaded p c as s) = current_active_process s"
  "current_terminal (loaded p c as s) = current_terminal s"
  by (simp_all add: loaded_def spawned_fields Let_def)

text \<open>The file at the load address of process \<open>p\<close>.\<close>

definition image_of :: "nat \<Rightarrow> nat \<Rightarrow> memory \<Rightarrow> byte list" where
  "image_of p n m = rd_bytes m (of_nat (p + 1) * 0x400000 + 0x48000) n"

lemma image_of_same:
  assumes "p \<le> 10" and "n \<le> unat EXE_LOAD_SZ" and "\<And>a. a \<in> user_frame p \<Longrightarrow> m' a = m a"
  shows "image_of p n m' = image_of p n m"
  unfolding image_of_def
proof (intro rd_bytes_cong)
  fix i assume i: "i < n"
  have "0x48000 + i < 4194304" using i assms(2) by (simp add: load_consts)
  then have "(of_nat (p + 1) * 0x400000 :: u32) + of_nat (0x48000 + i) \<in> user_frame p"
    unfolding user_frame_def by (intro add_in_region) simp_all
  then show "m' (of_nat (p + 1) * 0x400000 + 0x48000 + of_nat i) = m (of_nat (p + 1) * 0x400000 + 0x48000 + of_nat i)"
    using assms(3) by (simp add: add.assoc)
qed

lemma image_of_vmem:
  assumes "paging_ok s" and "cr3 s = p" and "0 < p" and "n \<le> unat EXE_LOAD_SZ"
  shows "image_of p n (phys s) = rd_bytes (vmem s) LOAD_ADDR n"
proof -
  have "rd_bytes (vmem s) LOAD_ADDR n = rd_bytes (phys s) (user_phys s LOAD_ADDR) n"
    using assms by (intro rd_vmem mapped_user) (simp_all add: load_consts)
  then show ?thesis using assms(2) by (simp add: image_of_def user_phys_def LOAD_ADDR_def)
qed

text \<open>The next free process gets the shell's file and runs it; the shells that are there keep theirs.\<close>

lemma shell_outside:
  assumes img: "shell_image fr nm c (vmem x) (zbigfs_start x)" and ok: "paging_ok x" "paging_ok s'" and z: "zbigfs_start s' = zbigfs_start x"
    and p: "p \<in> {1, 2, 3}"
    and out: "\<And>a. a \<notin> frame_space fr \<Longrightarrow> a \<notin> region (pcb_cmdstring p) 128 \<Longrightarrow> a \<notin> user_frame p \<Longrightarrow> phys s' a = phys x a"
  shows "shell_image fr nm c (vmem s') (zbigfs_start s')"
    and "0 < q \<Longrightarrow> q < p \<Longrightarrow> image_of q (length c) (phys s') = image_of q (length c) (phys x)"
proof -
  note reg = img [unfolded shell_image_def shell_regions_def, simplified]
  have p10: "1 \<le> p" "p \<le> 10" using p by auto
  have kern: "region nm 6 \<union> region (zbigfs_start x) (fs_size (vmem x) (zbigfs_start x)) \<subseteq> kernel_frame" "region (pcb_cmdstring p) 128 \<subseteq> kernel_frame"
    using reg p by (auto intro!: region_kernel del: subsetI)
  show "shell_image fr nm c (vmem s') (zbigfs_start s')"
    unfolding z
  proof (rule shell_image_same [OF img])
    fix a assume a: "a \<in> region nm 6 \<union> region (zbigfs_start x) (fs_size (vmem x) (zbigfs_start x))"
    then have k: "a \<in> kernel_frame" using kern by blast
    then have "a \<notin> user_frame p" using kernel_frame_user_frame [OF p10] by auto
    moreover have "a \<notin> frame_space fr" "a \<notin> region (pcb_cmdstring p) 128"
      using a reg p by (auto simp: frame_space_def disjoint_regions_def)
    ultimately show "vmem s' a = vmem x a" using vmem_kernel_frame [OF ok(1) k] vmem_kernel_frame [OF ok(2) k] out by simp
  qed
  assume q: "0 < q" "q < p"
  then have d: "kernel_frame \<inter> user_frame q = {}" "user_frame p \<inter> user_frame q = {}"
    using p10 kernel_frame_user_frame [of q] user_frames_disjoint [of p q] by simp_all
  have "phys s' a = phys x a" if "a \<in> user_frame q" for a
    using that kern(2) d frame_space_kernel [OF shell_image_ready(2) [OF img ok(1) p]] by (intro out) blast+
  then show "image_of q (length c) (phys s') = image_of q (length c) (phys x)"
    using q p10 shell_image_ready(7) [OF img ok(1) p] by (intro image_of_same) (simp_all add: program_at_def)
qed

lemma shell_loaded:
  assumes xw: "tasks_wf x" and img: "shell_image fr nm c (vmem x) (zbigfs_start x)"
    and e: "e = le32 (take 4 (drop 24 c))" "e \<noteq> 1" "e \<noteq> - 1"
    and p: "p \<in> {1, 2, 3}" "current_process x = p - 1" "\<And>j. 0 < j \<Longrightarrow> j \<le> MAX_PID \<Longrightarrow> present (pcbs x j) \<longleftrightarrow> j < p"
  shows "\<exists>s'. kexecute w fr sp nm x = Some (s', Enter e) \<and> tasks_wf s' \<and>
    shell_image fr nm c (vmem s') (zbigfs_start s') \<and> current_process s' = p \<and>
    current_active_process s' = current_active_process x \<and> processes s' = processes x \<and> current_terminal s' = current_terminal x \<and>
    (\<forall>j. 0 < j \<and> j \<le> MAX_PID \<longrightarrow> (present (pcbs s' j) \<longleftrightarrow> j \<le> p)) \<and>
    image_of p (length c) (phys s') = c \<and> (\<forall>q. 0 < q \<and> q < p \<longrightarrow> image_of q (length c) (phys s') = image_of q (length c) (phys x))"
proof -
  have p': "0 < p" "p \<le> MAX_PID" using p(1) by (auto simp: MAX_PID_def)
  note ok = tasks_wfD(1) [OF xw]
  note r = shell_image_ready [OF img ok p(1)]
  have free: "\<not> present (pcbs x p)" "\<forall>j. 0 < j \<and> j < p \<longrightarrow> present (pcbs x j)" using p(3) p' by simp_all
  have l127: "length execstring \<le> 127" by (simp add: execstring_word)
  obtain P where P: "kload_exec_to_mem w fr nm x = Some (loaded p c (args_of execstring) (x\<lparr>phys := P\<rparr>), le32 (take 4 (drop 24 c)))"
    "tasks_wf (x\<lparr>phys := P\<rparr>)" "\<forall>a. a \<notin> frame_space fr \<longrightarrow> P a = phys x a"
    using kload_loads [OF r(1) xw r(2,3) l127 r(4-7) p' free, of w] by blast
  define t where "t = loaded p c [] (x\<lparr>phys := P\<rparr>)"
  have len: "length c \<le> unat EXE_LOAD_SZ" "length ([] :: byte list) \<le> 127" using r(7) by (simp_all add: program_at_def)
  note ld = loaded_props [OF P(2) p' len, folded t_def]
  define s' where "s' = set_pcb (p - 1) ((pcbs t (p - 1))\<lparr>esp := sp\<rparr>) t"
  have "kexecute w fr sp nm x = Some (s', Enter e)"
    using P(1) e p(2) by (simp add: kexecute_def enter_program_def execstring_word s'_def t_def)
  moreover have s'w: "tasks_wf s'" using ld(3,4) p' by (auto simp: tasks_wf_def s'_def)
  have out: "phys s' a = phys x a"
    if "a \<notin> frame_space fr" "a \<notin> region (pcb_cmdstring p) 128" "a \<notin> user_frame p" for a
    using loaded_outside [OF P(2) p' len that(2,3)] P(3) that(1) by (simp add: s'_def t_def)
  have "zbigfs_start s' = zbigfs_start x" by (simp add: s'_def t_def set_pcb_def)
  note keep = shell_outside [OF img ok tasks_wfD(1) [OF s'w] this p(1) out]
  moreover have "image_of p (length c) (phys s') = c"
    using image_of_vmem [OF tasks_wfD(1) [OF ld(3)] ld(2) p'(1) len(1)] ld(5) by (simp add: s'_def)
  moreover have "present (pcbs s' j) \<longleftrightarrow> j \<le> p" if "0 < j" "j \<le> MAX_PID" for j
    using p(3) [OF that] ld(4) p' by (auto simp: s'_def new_pcb_def)
  moreover have "current_process s' = p" "current_active_process s' = current_active_process x" "processes s' = processes x"
    "current_terminal s' = current_terminal x"
    using ld(1) by (simp_all add: s'_def) (simp_all add: t_def set_pcb_def)
  ultimately show ?thesis using s'w by (intro exI [of _ s']) simp
qed

text \<open>One tick in a terminal without a process.\<close>

lemma shell_started:
  assumes wf: "tasks_wf s" and img: "shell_image fr nm c (vmem s) (zbigfs_start s)"
    and u: "u = (current_active_process s + 1) mod 3" "processes s u = 0"
    and e: "e = le32 (take 4 (drop 24 c))" "e \<noteq> 1" "e \<noteq> - 1"
    and p: "p \<in> {1, 2, 3}" "current_process s = p - 1" "\<And>j. 0 < j \<Longrightarrow> j \<le> MAX_PID \<Longrightarrow> present (pcbs s j) \<longleftrightarrow> j < p"
  shows "\<exists>s'. timer_interrupt w fr sp nm s = Some (s', Started (Enter e)) \<and> tasks_wf s' \<and>
    shell_image fr nm c (vmem s') (zbigfs_start s') \<and> current_process s' = p \<and> current_active_process s' = u \<and>
    processes s' = (processes s)(current_active_process s := p - 1) \<and> current_terminal s' = current_terminal s \<and>
    (\<forall>j. 0 < j \<and> j \<le> MAX_PID \<longrightarrow> (present (pcbs s' j) \<longleftrightarrow> j \<le> p)) \<and>
    image_of p (length c) (phys s') = c \<and> (\<forall>q. 0 < q \<and> q < p \<longrightarrow> image_of q (length c) (phys s') = image_of q (length c) (phys s))"
proof -
  define x where "x = suspended sp s"
  have xw: "tasks_wf x" using suspended_wf [OF wf] by (simp add: x_def)
  have x: "phys x = phys s" "zbigfs_start x = zbigfs_start s" "current_process x = p - 1" "current_active_process x = u"
    "processes x = (processes s)(current_active_process s := p - 1)" "present (pcbs x j) = present (pcbs s j)"
    "current_terminal x = current_terminal s" for j
    by (simp_all add: x_def suspended_memory suspended_fields p(2) u(1))
  have "shell_image fr nm c (vmem x) (zbigfs_start x)"
    by (rule shell_outside(1) [OF img tasks_wfD(1) [OF wf] tasks_wfD(1) [OF xw] x(2) p(1)]) (simp add: x(1))
  note l = shell_loaded [OF xw this e p(1) x(3) p(3) [folded x(6)], of w sp, unfolded x(1,4,5,7)]
  have "next_task sp s = (x, Launch_shell)" using next_task_eq [OF tasks_wfD(4) [OF wf], of sp] u by (simp add: x_def)
  then show ?thesis using l by (auto simp: timer_interrupt_def)
qed

section \<open>Boot and the first three ticks\<close>

lemma boot_image:
  assumes "flat_ok s" and "fresh s" and "print_frame_ok C fr" and "literals_ok C fr (phys s)"
    and "boot_data (C \<union> boot_window) (phys s) mbi"
    and "\<not> (CHECK_FLAG (mb_flags (phys s) mbi) 4 \<and> CHECK_FLAG (mb_flags (phys s) mbi) 5)"
    and z: "z = module_0 (phys s) mbi" and img: "shell_image lf nm c (phys s) z"
    and C: "C \<inter> (region nm 6 \<union> region z (fs_size (phys s) z)) = {}"
  obtains s0 where "entry dv lk fr MULTIBOOT_BOOTLOADER_MAGIC mbi s = Some (s0, Idle)" and "tasks_wf s0"
    and "\<forall>p \<le> MAX_PID. \<not> present (pcbs s0 p)" and "current_terminal s0 = 0" and "current_process s0 = 0"
    and "\<forall>t < 3. processes s0 t = 0" and "current_active_process s0 = 0" and "shell_image lf nm c (vmem s0) (zbigfs_start s0)"
proof -
  obtain s0 where s0: "entry dv lk fr MULTIBOOT_BOOTLOADER_MAGIC mbi s = Some (s0, Idle)" "tasks_wf s0"
    "\<forall>p \<le> MAX_PID. \<not> present (pcbs s0 p)" "zbigfs_start s0 = z" "current_terminal s0 = 0" "current_process s0 = 0"
    "\<forall>t < 3. processes s0 t = 0" "current_active_process s0 = 0"
    and mem: "\<forall>a. a \<notin> C \<longrightarrow> a \<notin> boot_window \<longrightarrow> a \<notin> video_frames \<longrightarrow> phys s0 a = phys s a"
    using entry_state [OF assms(1-6), of dv lk] z by blast
  have "shell_image lf nm c (vmem s0) (zbigfs_start s0)"
    unfolding s0(4)
  proof (rule shell_image_same [OF img])
    fix a assume a: "a \<in> region nm 6 \<union> region z (fs_size (phys s) z)"
    moreover have "region nm 6 \<union> region z (fs_size (phys s) z) \<subseteq> kernel_frame"
      using img by (auto simp: shell_image_def shell_regions_def intro!: region_kernel del: subsetI)
    ultimately have k: "a \<in> kernel_frame" "a \<notin> C" using C by auto
    then have "a \<notin> boot_window" "a \<notin> video_frames" using video_framesD [of a] by (auto simp: boot_window_interval kernel_frame_interval)
    with mem k show "vmem s0 a = phys s a" using vmem_kernel_frame [OF tasks_wfD(1) [OF s0(2)]] by simp
  qed
  with s0 show thesis by (intro that)
qed

text \<open>
  C4. The system comes up: given an image with the file \<open>shell\<close> as its first module, \<open>entry\<close> reaches the idle
  loop, and each of the first three timer interrupts starts a shell in another terminal, in the order 1,
  2, 0. The interrupt enters the program at the entry point in the file's header. In the end the
  processes 1, 2 and 3 exist and no other, each with the file in its own memory at the load address,
  process 3 runs on the displayed terminal 0, the other two wait in the run queue, and the process and
  console invariants hold.
\<close>

theorem boot_starts_shells:
  assumes "flat_ok s" and "fresh s" and "print_frame_ok C fr" and "literals_ok C fr (phys s)"
    and "boot_data (C \<union> boot_window) (phys s) mbi"
    and "\<not> (CHECK_FLAG (mb_flags (phys s) mbi) 4 \<and> CHECK_FLAG (mb_flags (phys s) mbi) 5)"
    and z: "z = module_0 (phys s) mbi" and img: "shell_image lf nm c (phys s) z"
    and C: "C \<inter> (region nm 6 \<union> region z (fs_size (phys s) z)) = {}"
    and e: "e = le32 (take 4 (drop 24 c))" "e \<noteq> 1" "e \<noteq> - 1"
  shows "\<exists>s0 s1 s2 s3. entry dv lk fr MULTIBOOT_BOOTLOADER_MAGIC mbi s = Some (s0, Idle) \<and>
    timer_interrupt w lf sp1 nm s0 = Some (s1, Started (Enter e)) \<and> timer_interrupt w lf sp2 nm s1 = Some (s2, Started (Enter e)) \<and>
    timer_interrupt w lf sp3 nm s2 = Some (s3, Started (Enter e)) \<and>
    (current_process s1, current_active_process s1) = (1, 1) \<and> (current_process s2, current_active_process s2) = (2, 2) \<and>
    (current_process s3, current_active_process s3, current_terminal s3) = (3, 0, 0) \<and>
    processes s3 1 = 1 \<and> processes s3 2 = 2 \<and> tasks_wf s3 \<and>
    (\<forall>j. 0 < j \<and> j \<le> MAX_PID \<longrightarrow> (present (pcbs s3 j) \<longleftrightarrow> j \<le> 3)) \<and>
    (\<forall>p \<in> {1, 2, 3}. image_of p (length c) (phys s3) = c)"
proof -
  obtain s0 where s0: "entry dv lk fr MULTIBOOT_BOOTLOADER_MAGIC mbi s = Some (s0, Idle)" "tasks_wf s0"
    "\<forall>p \<le> MAX_PID. \<not> present (pcbs s0 p)" "current_terminal s0 = 0" "current_process s0 = 0"
    "\<forall>t < 3. processes s0 t = 0" "current_active_process s0 = 0" "shell_image lf nm c (vmem s0) (zbigfs_start s0)"
    by (rule boot_image [OF assms(1-9)])
  obtain s1 where s1: "timer_interrupt w lf sp1 nm s0 = Some (s1, Started (Enter e))" "tasks_wf s1"
    "shell_image lf nm c (vmem s1) (zbigfs_start s1)" "current_process s1 = 1" "current_active_process s1 = 1"
    "processes s1 = (processes s0)(0 := 0)" "\<forall>j. 0 < j \<and> j \<le> MAX_PID \<longrightarrow> (present (pcbs s1 j) \<longleftrightarrow> j \<le> 1)"
    "image_of 1 (length c) (phys s1) = c" "current_terminal s1 = 0"
    using shell_started [OF s0(2,8) refl _ e, of 1 w sp1] s0(3-7) by auto
  have a1: "2 = (current_active_process s1 + 1) mod 3" "processes s1 2 = 0" "(2 :: nat) \<in> {1, 2, 3}" "current_process s1 = 2 - 1"
    "\<And>j. 0 < j \<Longrightarrow> j \<le> MAX_PID \<Longrightarrow> present (pcbs s1 j) \<longleftrightarrow> j < 2"
    using s0(6) s1(4-7) by auto
  obtain s2 where s2: "timer_interrupt w lf sp2 nm s1 = Some (s2, Started (Enter e))" "tasks_wf s2"
    "shell_image lf nm c (vmem s2) (zbigfs_start s2)" "current_process s2 = 2" "current_active_process s2 = 2"
    "processes s2 = (processes s1)(1 := 1)" "\<forall>j. 0 < j \<and> j \<le> MAX_PID \<longrightarrow> (present (pcbs s2 j) \<longleftrightarrow> j \<le> 2)"
    "image_of 2 (length c) (phys s2) = c" "image_of 1 (length c) (phys s2) = c" "current_terminal s2 = 0"
    using shell_started [OF s1(2,3) a1(1,2) e a1(3-5), of w sp2] s1(5,8,9) by auto
  have a2: "0 = (current_active_process s2 + 1) mod 3" "processes s2 0 = 0" "(3 :: nat) \<in> {1, 2, 3}" "current_process s2 = 3 - 1"
    "\<And>j. 0 < j \<Longrightarrow> j \<le> MAX_PID \<Longrightarrow> present (pcbs s2 j) \<longleftrightarrow> j < 3"
    using s1(6) s2(4-7) by auto
  obtain s3 where s3: "timer_interrupt w lf sp3 nm s2 = Some (s3, Started (Enter e))" "tasks_wf s3"
    "current_process s3 = 3" "current_active_process s3 = 0"
    "processes s3 = (processes s2)(2 := 2)" "\<forall>j. 0 < j \<and> j \<le> MAX_PID \<longrightarrow> (present (pcbs s3 j) \<longleftrightarrow> j \<le> 3)"
    "image_of 3 (length c) (phys s3) = c" "image_of 2 (length c) (phys s3) = c" "image_of 1 (length c) (phys s3) = c" "current_terminal s3 = 0"
    using shell_started [OF s2(2,3) a2(1,2) e a2(3-5), of w sp3] s2(5,8-10) by auto
  have "\<forall>p \<in> {1, 2, 3}. image_of p (length c) (phys s3) = c" using s3(7-9) by simp
  then show ?thesis
    using s0(1) s1(1,4,5) s2(1,4,5,6) s3 by (intro exI [of _ s0] exI [of _ s1] exI [of _ s2] exI [of _ s3]) simp
qed

section \<open>A concrete start\<close>

lemma demo_boot_image: "shell_image demo_frame 0x4F0000 demo_exe demo_boot_mem 0x500000"
proof -
  have fs: "same_fs 0x500000 demo_prog demo_boot_mem"
    unfolding same_fs_def
  proof
    fix a assume "a \<in> region 0x500000 (fs_size demo_prog 0x500000)"
    then have a: "0x500000 \<le> unat a" using region_interval [of "0x500000" 12288] by (simp add: demo_prog_one)
    then have "a \<noteq> b" if "unat b < 0x500000" for b using that by auto
    then show "demo_boot_mem a = demo_prog a" using a by (simp add: demo_boot_low demo_loaded_def)
  qed
  note f = same_fs_wf [OF fs demo_prog_one(2)] program_at_same [OF fs demo_prog_one(2) demo_prog_program]
    same_fs_size [OF fs demo_prog_one(2)]
  have l: "line_at demo_boot_mem 0x4F0000 execstring"
    by (simp add: line_at_def execstring_def str_def less_Suc_eq all_conj_distrib demo_boot_low demo_loaded_def demo_prog_outside
        demo_named_def demo_fs_def)
  have cmd: "unat (pcb_cmdstring 1) = 0x7FC008" "unat (pcb_cmdstring 2) = 0x7FA008" "unat (pcb_cmdstring 3) = 0x7F8008"
    by (simp_all add: pcb_cmdstring_address MAX_PID_def)
  have "apart (shell_regions demo_frame 0x4F0000 demo_boot_mem 0x500000)"
    unfolding shell_regions_def f(3) demo_prog_one(1) demo_frame_def using cmd by (auto intro!: disjoint_regions_intervalI)
  then show ?thesis
    using f l cmd by (simp add: shell_image_def shell_regions_def execstring_def demo_prog_one demo_frame_def)
qed

lemma demo_boot_ready:
  "0x500000 = module_0 demo_boot_mem 0x10000"
  "\<not> (CHECK_FLAG (mb_flags demo_boot_mem 0x10000) 4 \<and> CHECK_FLAG (mb_flags demo_boot_mem 0x10000) 5)"
  "print_frame_ok demo_space demo_boot_frame"
  "demo_space \<inter> (region 0x4F0000 6 \<union> region 0x500000 (fs_size demo_boot_mem 0x500000)) = {}"
  "0x8048010 = le32 (take 4 (drop 24 demo_exe))" "length demo_exe = 28"
proof -
  show "0x500000 = module_0 demo_boot_mem 0x10000" unfolding module_0_def demo_boot_info by (simp add: CHECK_FLAG_def)
  show "\<not> (CHECK_FLAG (mb_flags demo_boot_mem 0x10000) 4 \<and> CHECK_FLAG (mb_flags demo_boot_mem 0x10000) 5)"
    unfolding demo_boot_info by (simp add: CHECK_FLAG_def)
  show "print_frame_ok demo_space demo_boot_frame" unfolding demo_boot_frame_def by (rule demo_calls_ok)
  have "disjoint_regions a n 0x4F0000 6 \<and> disjoint_regions a n 0x500000 (fs_size demo_boot_mem 0x500000)"
    if "unat a + n \<le> 0x4F0000" for a n
    using that demo_boot_image by (auto simp: shell_image_def shell_regions_def intro!: disjoint_regions_intervalI)
  from this [of "0x4A0000" 64] this [of "0x490000" 24]
  show "demo_space \<inter> (region 0x4F0000 6 \<union> region 0x500000 (fs_size demo_boot_mem 0x500000)) = {}"
    by (auto simp: demo_space_def disjoint_regions_def)
  show "0x8048010 = le32 (take 4 (drop 24 demo_exe))" "length demo_exe = 28" by (simp_all add: demo_exe_def le32_def)
qed

lemmas demo_boot_all = demo_boot_start(1,2) demo_boot_ready(3) demo_literals demo_data demo_boot_ready(2,1) demo_boot_image demo_boot_ready(4)

lemma demo_first_shell:
  "\<exists>s0 s1. entry (\<lambda>_ _. 0) demo_linked demo_boot_frame MULTIBOOT_BOOTLOADER_MAGIC 0x10000 demo_boot = Some (s0, Idle) \<and>
    timer_interrupt idle_world demo_frame 0x7FFF00 0x4F0000 s0 = Some (s1, Started (Enter 0x8048010)) \<and> tasks_wf s1 \<and> current_process s1 = 1"
proof -
  obtain s0 where s0: "entry (\<lambda>_ _. 0) demo_linked demo_boot_frame MULTIBOOT_BOOTLOADER_MAGIC 0x10000 demo_boot = Some (s0, Idle)" "tasks_wf s0"
    "\<forall>p \<le> MAX_PID. \<not> present (pcbs s0 p)" "current_process s0 = 0" "\<forall>t < 3. processes s0 t = 0" "current_active_process s0 = 0"
    "shell_image demo_frame 0x4F0000 demo_exe (vmem s0) (zbigfs_start s0)"
    by (rule boot_image [of demo_boot demo_space demo_boot_frame "0x10000", unfolded demo_boot_start(3), OF demo_boot_all])
  then show ?thesis using shell_started [OF s0(2,7) refl _ demo_boot_ready(5), of 1 idle_world "0x7FFF00"] by auto
qed

theorem boot_starts_shells_witness:
  "\<exists>s0 s1 s2 s3. entry (\<lambda>_ _. 0) demo_linked demo_boot_frame 0x2BADB002 0x10000 demo_boot = Some (s0, Idle) \<and>
    timer_interrupt idle_world demo_frame 0x7FFF00 0x4F0000 s0 = Some (s1, Started (Enter 0x8048010)) \<and>
    timer_interrupt idle_world demo_frame 0x7FDF00 0x4F0000 s1 = Some (s2, Started (Enter 0x8048010)) \<and>
    timer_interrupt idle_world demo_frame 0x7FBF00 0x4F0000 s2 = Some (s3, Started (Enter 0x8048010)) \<and>
    current_process s3 = 3 \<and> image_of 2 28 (phys s3) = demo_exe"
proof -
  note b = boot_starts_shells [of demo_boot demo_space demo_boot_frame "0x10000", unfolded demo_boot_start(3),
      OF demo_boot_all demo_boot_ready(5), unfolded demo_boot_ready(6)]
  show ?thesis
    using b [of "\<lambda>_ _. 0" demo_linked idle_world "0x7FFF00" "0x7FDF00" "0x7FBF00"] unfolding MULTIBOOT_BOOTLOADER_MAGIC_def by fastforce
qed

end
