(* ===== verification/Kernel_Run.thy ===== *)
theory Kernel_Run
  imports Start_Up
begin

unbundle bit_operations_syntax

text \<open>
  The kernel as a transition system: the interrupts, system calls and exceptions in any order, with any
  arguments, and the stores of user programs in between. An invariant of the page tables and the
  process table holds in every state after boot, and with it the isolation of user programs.
\<close>

section \<open>Steps\<close>

text \<open>
  \<open>shell\<close> is the start of a shell by the timer interrupt or after the halt of one of the first three
  processes. \<open>store\<close> is a store in user mode that the page tables allow.
\<close>

inductive kernel_step :: "'a kernel_scheme \<Rightarrow> 'a kernel_scheme \<Rightarrow> bool" where
  timer: "kernel_step s (fst (next_task sp s))"
| keyboard: "kernel_step s (key_handler dv s)"
| clock: "kernel_step s (rtc_handler dv s)"
| opened: "syscall_open dv de name s = Some (s', r) \<Longrightarrow> kernel_step s s'"
| read: "sys_read w de fd buf nb s = Some (s', r) \<Longrightarrow> kernel_step s s'"
| writing: "kernel_step s (fst (sys_write w fd buf nb s))"
| close: "kernel_step s (fst (syscall_close fd s))"
| getargs: "kernel_step s (fst (syscall_getargs buf n s))"
| vidmap: "kernel_step s (fst (syscall_vidmap ptr s))"
| executing: "execute w fr sp fname s = Some (s', r) \<Longrightarrow> kernel_step s s'"
| shell: "kexecute w fr sp fname s = Some (s', r) \<Longrightarrow> kernel_step s s'"
| halt: "kernel_step s (fst (halt code s))"
| exception: "i < 20 \<Longrightarrow> (exception_routines pf x ! i) s = Some (s', r) \<Longrightarrow> kernel_step s s'"
| store: "translate s True True v = Some a \<Longrightarrow> kernel_step s (s\<lparr>phys := (phys s)(a := b)\<rparr>)"

section \<open>The invariant\<close>

text \<open>
  \<open>D\<close> holds the process numbers that have been handed out, and 0 for the kernel itself. Their page directories
  are set up, the current process, the run queue and the parents to which a halt returns are among them,
  and the loaded directory is that of the current process.
\<close>

definition managed :: "nat set \<Rightarrow> 'a tasking_scheme \<Rightarrow> bool" where
  "managed D s \<longleftrightarrow> paging_ok s \<and> current_terminal s < 3 \<and> current_active_process s < 3 \<and> cr3 s = current_process s \<and>
     0 \<in> D \<and> (\<forall>p \<in> D. pd_ready s p) \<and> current_process s \<in> D \<and> (\<forall>t < 3. processes s t \<in> D) \<and>
     (\<forall>p \<in> D. 4 \<le> p \<longrightarrow> parent (pcbs s p) \<in> D)"

text \<open>What the invariant depends on.\<close>

definition core :: "'a tasking_scheme \<Rightarrow> ((nat \<Rightarrow> nat \<Rightarrow> u32) \<times> (nat \<Rightarrow> u32) \<times> (nat \<Rightarrow> u32) \<times> u32 \<times> u32) \<times>
    (u32 \<times> nat \<times> u32) \<times> (nat \<times> nat) \<times> nat \<times> (nat \<Rightarrow> nat) \<times> (nat \<Rightarrow> nat)" where
  "core s = ((page_directories s, low_memory_table s, video_table s, low_memory_at s, video_table_at s),
     (cr0 s, cr3 s, cr4 s), (current_terminal s, current_active_process s), current_process s, processes s,
     (\<lambda>p. parent (pcbs s p)))"

lemma core_managed:
  assumes "core s' = core s"
  shows "managed D s' = managed D s"
proof -
  have "(\<lambda>p. parent (pcbs s' p)) = (\<lambda>p. parent (pcbs s p))" using assms by (simp add: core_def)
  then have p: "parent (pcbs s' p) = parent (pcbs s p)" for p by metis
  have "paging_ok s' = paging_ok s" using assms by (intro paging_ok_cong) (simp_all add: core_def)
  moreover have "pd_ready s' q = pd_ready s q" for q using assms by (intro pd_ready_same) (simp_all add: core_def)
  ultimately show ?thesis using assms p by (simp add: managed_def core_def)
qed

lemma managed_core: "managed D s \<Longrightarrow> core s' = core s \<Longrightarrow> managed D s'"
  using core_managed [of s' s D] by simp

section \<open>Operations that do not touch it\<close>

lemma core_rest:
  assumes "rest s' = rest s"
  shows "core s' = core s"
  using restD [OF assms] rest_tasking [OF assms] by (simp add: core_def)

lemmas core_console [simp] =
  core_rest [OF rest_output(1)] core_rest [OF rest_output(2)] core_rest [OF rest_output(3)]
  core_rest [OF rest_console(3)] core_rest [OF rest_console(5)] core_rest [OF rest_console(6)]
  core_rest [OF rest_console(7)] core_rest [OF rest_console(8)] core_rest [OF rest_console(9)]
  core_rest [OF rest_basic(1)] core_rest [OF rest_basic(5)] core_rest [OF rest_basic(6)] core_rest [OF rest_basic(7)]
  core_rest [OF rest_phys]

lemma core_fold: "(\<And>x s. core (f x s) = core s) \<Longrightarrow> core (fold f xs s) = core s"
  by (induction xs arbitrary: s) simp_all

lemma core_set [simp]:
  "core (set_buffer t i c s) = core s" "core (set_cur_pos t v s) = core s" "core (set_cur_size t v s) = core s"
  "core (set_history t h i c s) = core s" "core (incr_hist_bottom t s) = core s"
  "core (prev_hist t s) = core s" "core (next_hist t s) = core s"
  by (simp_all add: core_def set_buffer_def set_cur_pos_def set_cur_size_def set_history_def incr_hist_bottom_def
      prev_hist_def next_hist_def Let_def)

lemma core_set_write [simp]: "core (set_write t x y s) = core s"
  by (simp add: core_def set_write_def)

lemma core_fields [simp]:
  "core (s\<lparr>prev_size := ps\<rparr>) = core s" "core (s\<lparr>wait_for_nl := nl\<rparr>) = core s" "core (s\<lparr>oob := b\<rparr>) = core s"
  "core (s\<lparr>hist_indeces := hi\<rparr>) = core s"
  by (simp_all add: core_def)

lemma core_clock [simp]: "core (s\<lparr>rtc_f := b\<rparr>) = core s" "core (s\<lparr>iolog := l\<rparr>) = core s" "core (s\<lparr>fault := b\<rparr>) = core s"
  by (simp_all add: core_def)

lemma core_put_vmem [simp]: "core (put_vmem m s) = core s"
  by (simp add: put_vmem_def)

lemma core_set_file [simp]: "core (set_file k f s) = core s"
  by (auto simp: core_def set_file_def set_pcb_def get_current_pcb_def)

lemma core_set_esp [simp]: "core (set_pcb i ((pcbs s i)\<lparr>esp := sp\<rparr>) s) = core s"
  by (auto simp: core_def set_pcb_def)

lemma core_eoi [simp]: "core (send_eoi n s) = core s"
  by (simp add: send_eoi_def Let_def)

lemma core_loops [simp]:
  "core (skip_empty prev_hist t n s) = core s" "core (skip_empty next_hist t n s) = core s" "core (erase_line t i s) = core s"
  "core (recall_line t i s) = core s" "core (save_hist_loop t buf i s) = core s"
proof -
  show "core (skip_empty prev_hist t n s) = core s" "core (skip_empty next_hist t n s) = core s"
    by (induction n arbitrary: s) simp_all
  show "core (erase_line t i s) = core s"
    by (induction t i s rule: erase_line.induct) (subst erase_line.simps, simp)
  show "core (recall_line t i s) = core s"
    by (induction t i s rule: recall_line.induct) (subst recall_line.simps, simp add: Let_def)
  show "core (save_hist_loop t buf i s) = core s"
    by (induction t buf i s rule: save_hist_loop.induct) (subst save_hist_loop.simps, simp add: Let_def)
qed

lemma core_terminal [simp]:
  "core (term_putc c s) = core s" "core (term_init s) = core s" "core (term_clear s) = core s" "core (term_switch s) = core s"
  "core (term_move_left s) = core s" "core (term_move_right s) = core s" "core (up_hist s) = core s"
  "core (down_hist s) = core s" "core (save_hist buf s) = core s" "core (fst (term_write buf cnt s)) = core s"
  by (simp_all add: term_putc_def term_enter_def term_backspace_def term_insert_def shift_line_def term_init_def term_clear_def
      term_switch_def term_move_left_def term_move_right_def up_hist_def down_hist_def save_hist_def term_write_def core_fold Let_def)

lemma core_flags [simp]:
  "core (s\<lparr>alt_flag := b\<rparr>) = core s" "core (s\<lparr>ctrl_flag := c\<rparr>) = core s" "core (s\<lparr>shift_l_flag := c\<rparr>) = core s"
  "core (s\<lparr>shift_r_flag := c\<rparr>) = core s" "core (s\<lparr>caps_lock_flag := b\<rparr>) = core s"
  by (simp_all add: core_def)

lemma core_rtc [simp]:
  "core (rtc_handler d s) = core s" "core (fst (rtc_open d s)) = core s" "core (fst (rtc_write d a n s)) = core s"
  by (simp_all add: rtc_handler_def rtc_open_def rtc_write_def change_rtc_freq_def inb_def Let_def split: option.split)

lemma core_rtc_wait: "rtc_wait d es s = Some (s', r) \<Longrightarrow> core s' = core s"
  by (induction es arbitrary: s) (auto split: if_splits)

lemma core_files [simp]:
  "core (fst (get_new_fd_loop i s)) = core s" "core (fst (get_new_fd s)) = core s" "core (fst (free_fd fd s)) = core s"
  "core (fst (syscall_close fd s)) = core s"
proof -
  show l: "core (fst (get_new_fd_loop i s)) = core s" for i s
    by (induction i s rule: get_new_fd_loop.induct) (subst get_new_fd_loop.simps, simp)
  show "core (fst (get_new_fd s)) = core s" unfolding get_new_fd_def by (rule l)
  show f: "core (fst (free_fd fd s)) = core s" by (simp add: free_fd_def)
  show "core (fst (syscall_close fd s)) = core s" by (simp add: syscall_close_def f split: option.split)
qed

lemma core_memory_calls [simp]:
  "core (fst (syscall_getargs buf n s)) = core s" "core (fst (syscall_vidmap ptr s)) = core s" "core (fst (sys_write w fd buf nb s)) = core s"
  by (simp_all add: syscall_getargs_def syscall_vidmap_def sys_write_def kwrite_def Let_def split: option.split optable.split)

lemma core_file_open [simp]: "core (fst (file_open d f s)) = core s"
  by (simp add: file_open_def split_beta stdin_open_def stdout_open_def split: optable.split)

lemma core_kopen [simp]: "core (fst (kopen d de f name s)) = core s"
  by (simp add: kopen_def split_beta Let_def)

lemma core_syscall_open: "syscall_open d de name s = Some (s', r) \<Longrightarrow> core s' = core s"
  by (auto simp: syscall_open_def split_beta Let_def split: option.splits if_splits)

section \<open>Printing\<close>

lemma rest_put_vmem [simp]: "rest (put_vmem m s) = rest s"
  by (simp add: put_vmem_def)

lemma rest_puts_loop:
  assumes "puts_loop a i s = Some q"
  shows "rest (fst q) = rest s"
proof (rule puts_loop.raw_induct [where P = "\<lambda>a i s q. rest (fst q) = rest s", OF _ assms])
  fix f a i q and s :: "'a screen_scheme"
  assume IH: "\<And>a i s q. f a i s = Some q \<Longrightarrow> rest (fst q) = rest (s :: 'a screen_scheme)"
    and q: "(if kread8 s (a + of_int i) \<noteq> 0 then f a (i + 1) (putc (kread8 s (a + of_int i)) s) else Some (s, i)) = Some q"
  show "rest (fst q) = rest s" using q IH [of a "i + 1" "putc (kread8 s (a + of_int i)) s" q] by (auto split: if_splits)
qed

lemma rest_conversion:
  assumes "conversion cb alt c e s = Some q"
  shows "rest (fst q) = rest s"
proof -
  have p: "puts_at a e s = Some q \<Longrightarrow> rest (fst q) = rest s" for a e q and s :: "'a screen_scheme"
    using rest_puts_loop [of a 0 s] by (auto simp: puts_at_def puts_def)
  have i: "itoa_at v a r s = Some s' \<Longrightarrow> rest s' = rest s" for v a r s' and s :: "'a screen_scheme"
    by (auto simp: itoa_at_def)
  show ?thesis
    using assms
    by (auto simp: conversion_def print_hex_def print_unsigned_def print_signed_def Let_def rest_fold
        dest!: p i split: if_splits option.splits)
qed

lemma rest_printf_loop:
  assumes "printf_loop cb buf e s = Some q"
  shows "rest (fst q) = rest s"
proof (rule printf_loop.raw_induct [where P = "\<lambda>cb buf e s q. rest (fst q) = rest s", OF _ assms])
  fix f cb buf e q and s :: "'a screen_scheme"
  assume IH: "\<And>cb buf e s q. f cb buf e s = Some q \<Longrightarrow> rest (fst q) = rest (s :: 'a screen_scheme)"
    and q: "(if kread8 s buf = 0 then Some (s, buf)
      else if kread8 s buf = 0x25
      then
        (case format_char (vmem s) (buf + 1) False of
           None \<Rightarrow> None
         | Some (buf, alternate) \<Rightarrow>
             (case conversion cb alternate (kread8 s buf) e s of
                None \<Rightarrow> None
              | Some (s, e) \<Rightarrow> f cb (buf + 1) e s))
      else f cb (buf + 1) e (putc (kread8 s buf) s)) = Some q"
  show "rest (fst q) = rest s" using q by (auto dest!: IH rest_conversion split: if_splits option.splits)
qed

lemma rest_printf_call: "printf_call fr fmt args s = Some (s', r) \<Longrightarrow> rest s' = rest s"
  using rest_printf_loop [of "conv_at fr" "lit fr fmt" "arg_at fr" "store_args (arg_at fr) args s"]
  by (auto simp: printf_call_def printf_def store_args_def split: if_splits)

section \<open>Operations that keep the invariant\<close>

lemma managed_upd:
  "managed D s \<Longrightarrow> n < 3 \<Longrightarrow> managed D (s\<lparr>current_terminal := n\<rparr>)"
  "managed D s \<Longrightarrow> n < 3 \<Longrightarrow> managed D (s\<lparr>current_active_process := n\<rparr>)"
  "managed D s \<Longrightarrow> q \<in> D \<Longrightarrow> managed D (s\<lparr>processes := (processes s)(t := q)\<rparr>)"
  "managed D s \<Longrightarrow> parent p = parent (pcbs s i) \<or> parent p \<in> D \<Longrightarrow> managed D (set_pcb i p s)"
proof -
  have c: "paging_ok (s\<lparr>current_terminal := n\<rparr>) = paging_ok s" "paging_ok (s\<lparr>current_active_process := n\<rparr>) = paging_ok s"
    "paging_ok (s\<lparr>processes := f\<rparr>) = paging_ok s" "paging_ok (set_pcb i p s) = paging_ok s" for f
    by (rule paging_ok_cong; simp add: set_pcb_def)+
  have d: "pd_ready (s\<lparr>current_terminal := n\<rparr>) q = pd_ready s q" "pd_ready (s\<lparr>current_active_process := n\<rparr>) q = pd_ready s q"
    "pd_ready (s\<lparr>processes := f\<rparr>) q = pd_ready s q" "pd_ready (set_pcb i p s) q = pd_ready s q" for f q
    by (rule pd_ready_same; simp add: set_pcb_def)+
  show "managed D s \<Longrightarrow> n < 3 \<Longrightarrow> managed D (s\<lparr>current_terminal := n\<rparr>)"
    "managed D s \<Longrightarrow> n < 3 \<Longrightarrow> managed D (s\<lparr>current_active_process := n\<rparr>)"
    "managed D s \<Longrightarrow> q \<in> D \<Longrightarrow> managed D (s\<lparr>processes := (processes s)(t := q)\<rparr>)"
    by (simp_all add: managed_def c d)
  show "managed D s \<Longrightarrow> parent p = parent (pcbs s i) \<or> parent p \<in> D \<Longrightarrow> managed D (set_pcb i p s)"
    unfolding managed_def c d by (auto simp: set_pcb_def)
qed

lemma managed_switch_context:
  assumes "managed D s" and "q \<in> D"
  shows "managed D (switch_context q s)"
proof -
  have c: "current_active_process s < 3" "paging_ok s" "pd_ready s q" using assms by (auto simp: managed_def)
  have "\<exists>u < 4. screen_frame s (current_active_process s) OR 7 = vid_frame u OR 7" using screen_frame_vid [OF c(1), of s] by auto
  then have "paging_ok (switch_context q s)" using c by (simp add: paging_ok_def tables_linked_def switch_context_low [OF c(1)])
  then show ?thesis using assms by (simp add: managed_def)
qed

lemma managed_switch_video:
  assumes "managed D s" and "n < 3"
  shows "managed D (switch_video n s)"
proof -
  define u where "u = put_vmem (memcpy (vmem (cli s)) (vid_window (current_terminal (cli s))) (vid_window 3) OFFSET_4K) (cli s)"
  define v where "v = put_vmem (memcpy (vmem (u\<lparr>current_terminal := n\<rparr>)) (vid_window 3) (vid_window n) OFFSET_4K) (u\<lparr>current_terminal := n\<rparr>)"
  have "managed D u" using assms(1) by (rule managed_core) (simp add: u_def)
  then have "managed D (u\<lparr>current_terminal := n\<rparr>)" using assms(2) by (rule managed_upd)
  then have v: "managed D v" by (rule managed_core) (simp add: v_def)
  then have "managed D (switch_context (current_process v) v)" by (intro managed_switch_context) (simp_all add: managed_def)
  then have "managed D (sti (switch_context (current_process v) v))" by (rule managed_core) simp
  moreover have "managed D (sti (cli s))" using assms(1) by (rule managed_core) simp
  moreover have "switch_video n s = (if current_terminal s = n then sti (cli s) else sti (switch_context (current_process v) v))"
    by (simp add: switch_video_def Let_def get_current_pid_def u_def v_def)
  ultimately show ?thesis by simp
qed

lemma managed_if: "(b \<Longrightarrow> managed D x) \<Longrightarrow> (\<not> b \<Longrightarrow> managed D y) \<Longrightarrow> managed D (if b then x else y)"
  by simp

lemma managed_key_action:
  assumes "managed D s"
  shows "managed D (key_action c s)"
proof -
  have sw: "managed D (switch_to n s)" if "n < 3" for n
    using managed_switch_video [OF assms that] by (rule managed_core) (simp add: switch_to_def)
  show ?thesis
    unfolding key_action_def printable_key_def Let_def
    by (rule managed_if | rule sw, simp | rule managed_core [OF assms], simp)+
qed

lemma managed_key_handler:
  assumes "managed D s"
  shows "managed D (key_handler dv s)"
proof -
  define u where "u = (cli s)\<lparr>iolog := In KEY_PORT # iolog (cli s)\<rparr>"
  have "managed D u" using assms by (rule managed_core) (simp add: u_def)
  then have "managed D (key_action (dv (iolog (cli s)) KEY_PORT) u)" by (rule managed_key_action)
  then show ?thesis by (rule managed_core) (simp add: key_handler_def inb_def Let_def flip: u_def)
qed

lemma managed_term_read:
  assumes "managed D s" and "term_read buf n ks s = Some (s', r)"
  shows "managed D s'"
proof -
  have wait: "term_wait t ks u = Some u' \<Longrightarrow> managed D u \<Longrightarrow> managed D u'" for t ks u' and u :: "'a keyboard_scheme"
    by (induction ks arbitrary: u) (auto simp: key_press_def managed_key_handler split: if_splits)
  have copy: "core (fst (term_copy buf n i u)) = core u" for i and u :: "'a keyboard_scheme"
    by (induction buf n i u rule: term_copy.induct) (subst term_copy.simps, simp add: Let_def)
  define u where "u = s\<lparr>wait_for_nl := (wait_for_nl s)(current_active_process s := 1)\<rparr>"
  obtain v where v: "term_wait (current_active_process s) ks u = Some v" "s' = fst (term_copy buf n 0 (putc 10 (set_x START_POS (cli v))))"
    using assms(2) by (auto simp: term_read_def Let_def u_def split: option.splits)
  have "managed D u" using assms(1) by (rule managed_core) (simp add: u_def)
  from wait [OF v(1) this] show ?thesis by (rule managed_core) (simp add: v(2) copy)
qed

lemma managed_kread:
  assumes "managed D s" and "kread w de f buf nb s = Some (s', q)"
  shows "managed D s'"
proof (cases "optable f = Ops_stdin")
  case True
  then obtain r where "term_read buf (sint nb) (keys w) s = Some (s', r)" using assms(2) by (auto simp: kread_def)
  then show ?thesis by (rule managed_term_read [OF assms(1)])
next
  case False
  have "rtc_read d es s = Some (u, r) \<Longrightarrow> core u = core s" for d es u r using core_rtc_wait by (fastforce simp: rtc_read_def)
  then have "core s' = core s" using False assms(2) by (auto simp: kread_def split_beta Let_def split: optable.splits)
  with assms(1) show ?thesis by (rule managed_core)
qed

lemma managed_sys_read:
  assumes "managed D s" and "sys_read w de fd buf nb s = Some (s', r)"
  shows "managed D s'"
proof -
  have f: "managed D (set_file k f u)" if "managed D u" for k f u using that by (rule managed_core) simp
  show ?thesis using assms by (auto simp: sys_read_def intro!: f intro: managed_kread [OF assms(1)] split: if_splits option.splits)
qed

lemma find_free_loop_ge: "i \<le> find_free_loop ps i"
  by (induction ps i rule: find_free_loop.induct) (subst find_free_loop.simps, auto)

lemma managed_init_pd:
  assumes "managed D s" and "0 < p" and "p \<le> MAX_PID" and "4 \<le> p \<Longrightarrow> parent (pcbs s p) \<in> insert p D"
  shows "managed (insert p D) (init_pd p s)"
proof -
  have t: "paging_ok s" "tables_linked s" using assms(1) by (simp_all add: managed_def paging_ok_def)
  note r = init_pd_ready [OF t(2) assms(2,3)]
  have "pcbs (init_pd p s) = pcbs s" "processes (init_pd p s) = processes s" "current_process (init_pd p s) = current_process s"
    "current_active_process (init_pd p s) = current_active_process s"
    by (simp_all add: init_pd_def)
  then show ?thesis using assms init_pd_ok [OF t(1) assms(2,3)] r by (auto simp: managed_def)
qed

lemma managed_setup_new_process:
  assumes "managed D s"
  shows "\<exists>D'. managed D' (fst (setup_new_process s))"
proof -
  define p where "p = find_free_loop (pcbs s) (Suc 0)"
  show ?thesis
  proof (cases "p \<le> MAX_PID")
    case False
    then have "core (fst (setup_new_process s)) = core s"
      by (simp add: setup_new_process_def find_free_pcb_def Let_def core_fold flip: p_def)
    then show ?thesis using managed_core [OF assms] by blast
  next
    case True
    have p0: "0 < p" using find_free_loop_ge [of "Suc 0" "pcbs s"] by (simp add: p_def)
    have cur: "current_process s \<in> D" using assms by (simp add: managed_def)
    define q where "q = \<lparr>esp = 0, parent = current_process s, pcb_files = (\<lambda>_. null_FILE), present = True\<rparr>"
    define u where "u = put_vmem (wr_bytes (vmem (set_pcb p q s)) (pcb_cmdstring p) (replicate BUF_SIZE 0)) (set_pcb p q s)"
    have "managed D (set_pcb p q s)" using cur by (intro managed_upd assms) (simp add: q_def)
    then have u: "managed D u" by (rule managed_core) (simp add: u_def)
    have "parent (pcbs u p) = current_process s" by (simp add: u_def set_pcb_def put_vmem_def q_def)
    then have "managed (insert p D) (switch_context p (init_pd p u))"
      using managed_init_pd [OF u p0 True] cur by (intro managed_switch_context) auto
    moreover have "core (fst (setup_new_process s)) = core (switch_context p (init_pd p u))"
      using True p0 by (simp add: setup_new_process_def find_free_pcb_def Let_def split_beta u_def flip: p_def q_def)
    ultimately show ?thesis using managed_core by blast
  qed
qed

text \<open>The state is managed for some set of process numbers; this is what the steps keep.\<close>

definition guarded :: "'a tasking_scheme \<Rightarrow> bool" where
  "guarded s \<longleftrightarrow> (\<exists>D. managed D s)"

lemma guarded_core: "guarded s \<Longrightarrow> core s' = core s \<Longrightarrow> guarded s'"
  unfolding guarded_def using managed_core by blast

lemma guarded_setup: "guarded s \<Longrightarrow> guarded (fst (setup_new_process s))"
  unfolding guarded_def using managed_setup_new_process by blast

lemma guarded_kread: "guarded s \<Longrightarrow> kread w de f buf nb s = Some (s', q) \<Longrightarrow> guarded s'"
  unfolding guarded_def using managed_kread by blast

lemma guarded_start_program:
  assumes "guarded s" and "start_program w fr f s = Some (s', r)"
  shows "guarded s'"
proof (cases "snd (setup_new_process s) = 0")
  case False
  then show ?thesis using assms guarded_setup [OF assms(1)] by (auto simp: start_program_def split_beta Let_def)
next
  case True
  define u where "u = put_vmem (memcpy (vmem (fst (setup_new_process s))) LOAD_ADDR (buf_at fr) EXE_HEADER_SZ) (fst (setup_new_process s))"
  have u: "guarded u" by (rule guarded_core [OF guarded_setup [OF assms(1)]]) (simp add: u_def)
  obtain v q where v: "kread w (dentry_at fr) f (LOAD_ADDR + EXE_HEADER_SZ) EXE_LOAD_SZ u = Some (v, q)"
    "s' = put_vmem (strncpy (vmem v) (pcb_cmdstring (current_process v)) (args_at fr) 128) v"
    using True assms(2) by (auto simp: start_program_def split_beta Let_def u_def split: option.splits)
  show ?thesis by (rule guarded_core [OF guarded_kread [OF u v(1)]]) (simp add: v(2))
qed

lemma guarded_kload:
  assumes "guarded s" and "kload_exec_to_mem w fr fname s = Some (s', r)"
  shows "guarded s'"
proof -
  obtain m where m: "parse_input (vmem s) fname (exec_at fr) (args_at fr) (int BUF_SIZE) = Some m"
    using assms(2) by (auto simp: kload_exec_to_mem_def split: option.splits)
  define u where "u = put_vmem (fst (read_dentry_by_name (vmem (put_vmem m s)) (zbigfs_start s) (exec_at fr) (d_at fr))) (put_vmem m s)"
  define v where "v = fst (kopen (dev w) (dentry_at fr) (file0 fr) (exec_at fr) u)"
  define f where "f = fst (snd (kopen (dev w) (dentry_at fr) (file0 fr) (exec_at fr) u))"
  have z: "zbigfs_start (put_vmem m s) = zbigfs_start s" by (simp add: put_vmem_def)
  have u: "guarded u" by (rule guarded_core [OF assms(1)]) (simp add: u_def)
  have v: "guarded v" by (rule guarded_core [OF u]) (simp add: v_def)
  consider "s' = u" | "s' = v" | t q where "kread w (dentry_at fr) f (buf_at fr) EXE_HEADER_SZ v = Some (t, q)" "s' = t"
    | t g q where "kread w (dentry_at fr) f (buf_at fr) EXE_HEADER_SZ v = Some (t, g, q)" "start_program w fr g t = Some (s', r)"
    using assms(2) z
    by (auto simp: kload_exec_to_mem_def m Let_def split_beta simp flip: u_def v_def f_def split: if_splits option.splits)
  then show ?thesis
  proof cases
    case 3
    then show ?thesis using guarded_kread [OF v] by blast
  next
    case 4
    then show ?thesis using guarded_kread [OF v 4(1)] guarded_start_program by blast
  qed (use u v in simp_all)
qed

lemma guarded_enter:
  assumes "\<And>s' r. l = Some (s', r) \<Longrightarrow> guarded s'" and "enter_program sp pp l = Some (s', q)"
  shows "guarded s'"
proof -
  obtain t r where t: "l = Some (t, r)" "s' = t \<or> s' = set_pcb pp ((pcbs t pp)\<lparr>esp := sp\<rparr>) t"
    using assms(2) by (auto simp: enter_program_def split: option.splits if_splits)
  then show ?thesis using assms(1) [OF t(1)] guarded_core [of t "set_pcb pp ((pcbs t pp)\<lparr>esp := sp\<rparr>) t"] by auto
qed

lemma guarded_kexecute: "guarded s \<Longrightarrow> kexecute w fr sp fname s = Some (s', r) \<Longrightarrow> guarded s'"
  unfolding kexecute_def using guarded_enter [of "kload_exec_to_mem w fr fname s"] guarded_kload by blast

lemma guarded_execute:
  assumes "guarded s" and "execute w fr sp fname s = Some (s', r)"
  shows "guarded s'"
proof -
  have h: "guarded (save_hist fname s)" by (rule guarded_core [OF assms(1)]) simp
  show ?thesis
    using assms guarded_enter [of "load_exec_to_mem w fr fname s" sp "current_process s" s' r] guarded_kload [OF h]
    by (auto simp: execute_def load_exec_to_mem_def split: option.splits if_splits)
qed

lemma guarded_halt:
  assumes "guarded s"
  shows "guarded (fst (halt code s))"
proof -
  define u where "u = free_current_pcb s"
  have "core (set_pcb i ((pcbs t i)\<lparr>present := False\<rparr>) t) = core t" for i and t :: "'a kernel_scheme"
    by (auto simp: core_def set_pcb_def)
  then have "core u = core s" by (simp add: u_def free_current_pcb_def Let_def core_fold)
  then obtain D where D: "managed D u" using assms managed_core unfolding guarded_def by blast
  have c: "current_process u \<in> D" "4 \<le> current_process u \<Longrightarrow> parent (pcbs u (current_process u)) \<in> D"
    using D by (simp_all add: managed_def)
  have "managed D (fst (halt code s))"
    using D managed_switch_context [OF D c(2)] by (simp add: halt_def Let_def get_current_pid_def get_current_pcb_def flip: u_def)
  then show ?thesis unfolding guarded_def by blast
qed

lemma guarded_next_task:
  assumes "guarded s"
  shows "guarded (fst (next_task sp s))"
proof -
  define u where "u = send_eoi 0 (cli s)"
  define v where "v = set_pcb (current_process u) ((get_current_pcb (save_queue u))\<lparr>esp := sp\<rparr>) (save_queue u)"
  define x where "x = incr_current_active_process v"
  obtain D where D: "managed D u" using assms managed_core [of _ s u] unfolding guarded_def u_def by auto
  then have "managed D (save_queue u)" unfolding save_queue_def by (intro managed_upd) (simp_all add: managed_def)
  then have "managed D v" unfolding v_def get_current_pcb_def by (intro managed_upd) (simp_all add: save_queue_def)
  then have x: "managed D x" unfolding x_def incr_current_active_process_def by (intro managed_upd) (simp_all add: NUM_PROCESSES_def)
  then have "managed D (switch_context (get_current_task_pid x) x)"
    by (intro managed_switch_context) (simp_all add: managed_def get_current_task_pid_def)
  moreover have "fst (next_task sp s) \<in> {x, switch_context (get_current_task_pid x) x}"
    by (simp add: next_task_def Let_def save_queue_def x_def v_def u_def)
  ultimately show ?thesis using x unfolding guarded_def by auto
qed

lemma guarded_exception:
  assumes "guarded s" and "i < 20" and "(exception_routines fr x ! i) s = Some (s', r)"
  shows "guarded s'"
proof -
  have p: "guarded u" if "printf_call fr fmt args s = Some (u, q)" for fmt args u q
    using core_rest [OF rest_printf_call [OF that]] by (rule guarded_core [OF assms(1)])
  show ?thesis
  proof (cases "spins i")
    case True
    show ?thesis using assms(3) p unfolding exception_routine_spins [OF True] by (auto simp: report_def)
  next
    case False
    have "report_halt fr fmt args s = Some (s', r) \<Longrightarrow> guarded s'" for fmt args
      by (auto simp: report_halt_def ece391_halt_def split_beta intro!: guarded_halt intro: p split: option.splits)
    then show ?thesis using assms(3) unfolding exception_routine_halts [OF assms(2) False] by blast
  qed
qed

lemma kernel_step_guarded:
  assumes "kernel_step s s'" and "guarded s"
  shows "guarded s'"
  using assms
proof cases
  case (timer sp)
  then show ?thesis using guarded_next_task [OF assms(2)] by simp
next
  case (keyboard dv)
  then show ?thesis using assms(2) managed_key_handler unfolding guarded_def by blast
next
  case (opened dv de name r)
  then show ?thesis using guarded_core [OF assms(2)] core_syscall_open by blast
next
  case (read w de fd buf nb r)
  then show ?thesis using assms(2) managed_sys_read unfolding guarded_def by blast
next
  case (executing w fr sp fname r)
  then show ?thesis using guarded_execute [OF assms(2)] by blast
next
  case (shell w fr sp fname r)
  then show ?thesis using guarded_kexecute [OF assms(2)] by blast
next
  case (halt code)
  then show ?thesis using guarded_halt [OF assms(2)] by simp
next
  case (exception i pf x r)
  then show ?thesis using guarded_exception [OF assms(2)] by blast
qed (rule guarded_core [OF assms(2)], simp)+

lemma run_guarded: "kernel_step\<^sup>*\<^sup>* s s' \<Longrightarrow> guarded s \<Longrightarrow> guarded s'"
  by (induction rule: rtranclp_induct) (auto intro: kernel_step_guarded)

section \<open>From boot on\<close>

lemma wf_guarded:
  assumes "tasks_wf s" and "current_process s = 0" and "\<forall>t < 3. processes s t = 0"
  shows "guarded s"
proof -
  note w = tasks_wfD [OF assms(1)]
  have "managed {0} s" using w assms(2,3) by (simp add: managed_def)
  then show ?thesis unfolding guarded_def by blast
qed


text \<open>The concrete boot, the first tick of the timer and the code page of the shell it starts.\<close>

lemma tick_steps: "timer_interrupt w fr sp nm s = Some (s', r) \<Longrightarrow> kernel_step\<^sup>*\<^sup>* s s'"
  using kernel_step.timer [of s sp] kernel_step.shell [of w fr sp nm "fst (next_task sp s)"]
  by (auto simp: timer_interrupt_def split: prod.splits next_action.splits intro: converse_rtranclp_into_rtranclp)


end
