(* ===== verification/Spec2Isabelle.thy ===== *)
theory Spec2Isabelle
  imports Programs Listing Grep Sys_Tests User_Lib Kernel_Run Boot Idt Printf Sys_Exec Syscalls Keyboard Terminal Term_History Term_Output Processes Lib_Mem Lib_String Zbigfs Screen_Edit Pic_Rtc
begin

text \<open>
  Verification of the zbiggie kernel, a 32-bit x86 operating system with three terminals
  (\<^verbatim>\<open>src/student-distrib\<close>) and of the programs that run on it (\<^verbatim>\<open>src/syscalls\<close>).

  \<^bold>\<open>The program.\<close> The boot loader enters \<open>entry\<close>, which sets up segments, the interrupt table, the
  interrupt controller, clock and timer, paging and the read-only file system, and idles. The timer
  interrupt runs \<open>next_task\<close>, which starts a shell on each terminal and then switches between the
  terminals' processes. A process uses the system calls \<open>open\<close>, \<open>read\<close>, \<open>write\<close>, \<open>close\<close>,
  \<open>getargs\<close>, \<open>vidmap\<close>, \<open>execute\<close> and \<open>halt\<close>. The keyboard interrupt feeds the line editor of the
  displayed terminal, from which \<open>read\<close> takes complete lines.

  \<^bold>\<open>The state.\<close> Physical memory is a function from 32-bit addresses to bytes; the page tables, the
  control registers and a flag that records an access to an unmapped address are a record
  (\<open>machine\<close>), which every component extends by its own variables: \<open>screen\<close>, \<open>clock\<close>,
  \<open>tasking\<close>, \<open>terminal\<close>, \<open>keyboard\<close>, \<open>kernel\<close>, \<open>booting\<close>. Every access by the kernel goes through
  the page tables in the state (\<open>translate\<close>, \<open>kread8\<close>, \<open>kwrite8\<close>, \<open>vmem\<close>, \<open>put_vmem\<close>), so that a
  missing mapping or aliasing would show. Accesses outside the arrays of \<^verbatim>\<open>terminal.c\<close> set a flag.
  Port traffic is logged; what a device answers is a function of the log and a parameter. Fields of
  machine integers are words; C's \<open>int\<close> counters whose range is bounded by an invariant are \<open>int\<close>.

  \<^bold>\<open>The theories.\<close>
  \<^item> \<open>Prelude\<close>: byte memory, regions, little-endian words, and the interfaces \<open>keeps_invariant\<close>,
    \<open>refinement\<close>, \<open>guarded_refinement\<close>, \<open>keeps_frame\<close>.
  \<^item> \<open>Lib_Mem\<close>, \<open>Lib_String\<close> (\<^verbatim>\<open>lib.c\<close>): the memory and string routines equal their byte-wise
    specifications; \<open>itoa\<close> can be read back.
  \<^item> \<open>Zbigfs\<close> (\<^verbatim>\<open>zbigfs.c\<close>): the image format; \<open>read_data\<close> refines slices of the abstract contents; the
    interface \<open>sequential_reader\<close> shows that reading until 0 delivers the whole file.
  \<^item> \<open>Paging\<close>, \<open>Vmem\<close> (\<^verbatim>\<open>page.c\<close>): the tables, the processor's walk over them, and where it can lead
    from user mode.
  \<^item> \<open>Screen\<close>, \<open>Screen_Edit\<close>, \<open>Printf\<close> (\<^verbatim>\<open>lib.c\<close>): output refines an abstract text screen, on the displayed
    terminal and in the background; \<open>printf\<close> prints the text its format and arguments denote. The
    interface \<open>printer\<close> is met by the console with and without paging.
  \<^item> \<open>Pic_Rtc\<close> (\<^verbatim>\<open>i8259.c\<close>, \<^verbatim>\<open>rtc.c\<close>): masks, frequencies, and the wait for the clock interrupt.
  \<^item> \<open>Tasking\<close>, \<open>Processes\<close> (\<^verbatim>\<open>tasking.c\<close>, \<^verbatim>\<open>tasking_funcs.S\<close>): descriptors and process numbers as slot
    allocators, process creation, the round robin of the timer, terminal switching.
  \<^item> \<open>Terminal\<close>, \<open>Term_History\<close>, \<open>Term_Output\<close>, \<open>Keyboard\<close> (\<^verbatim>\<open>terminal.c\<close>, \<^verbatim>\<open>idt_funcs.c\<close>): the line
    editor keeps buffer and screen in step; a \<open>read\<close> returns what the pressed keys type.
  \<^item> \<open>Syscalls\<close>, \<open>Sys_Files\<close>, \<open>Command_Line\<close>, \<open>Sys_Exec\<close> (\<^verbatim>\<open>syscall_funcs.c\<close>, \<^verbatim>\<open>syscall.S\<close>): the pointer
    check, files, parsing of a command line, loading and starting a program, \<open>getargs\<close> and \<open>halt\<close>.
  \<^item> \<open>Idt\<close>, \<open>Boot\<close> (\<^verbatim>\<open>idt_funcs.c\<close>, \<^verbatim>\<open>kernel.c\<close>, \<^verbatim>\<open>x86_desc.h\<close>, \<^verbatim>\<open>multiboot.h\<close>): the interrupt gates, the
    exception handlers and the boot sequence, which establishes the invariants of the other parts.
  \<^item> \<open>Start_Up\<close>: the boot followed by the first timer interrupts, which start a shell on each terminal.
  \<^item> \<open>Kernel_Run\<close>: the kernel as a transition system with a step for every interrupt, system call,
    exception and user store; in every state after the boot a process reaches only its own memory.
  \<^item> \<open>User_Lib\<close>, \<open>Programs\<close>, \<open>Listing\<close>, \<open>Grep\<close>, \<open>Sys_Tests\<close> (\<^verbatim>\<open>src/syscalls\<close>): the user library and the
    programs \<open>cat\<close>, \<open>ls\<close>, \<open>grep\<close>, \<open>hello\<close>, \<open>counter\<close>, \<open>testprint\<close>, \<open>syserr\<close> and the shell over the system calls;
    \<open>cat\<close> prints the file, \<open>ls\<close> the directory, \<open>grep\<close> the lines of all files that contain its argument, and
    the kernel passes the error tests of \<open>syserr\<close>.
  \<^item> \<open>User_Run\<close>: what a stretch of a program's run changes, so that the effects of its stores, prints and
    system calls compose.
  This theory adds what spans all of them: a command from its start to the return of the caller.

  \<^bold>\<open>Loops.\<close> A loop that always ends is a total function. One that may run forever, such as \<open>strlen\<close> on
  memory without a zero byte, \<open>printf\<close>, the loops of the boot code or of a program, is a partial function
  whose value \<open>None\<close> means that it does not return; theorems about them prove that they return. A wait for
  an interrupt consumes a list of events and is \<open>None\<close> when it is exhausted. There is no fuel in the model.

  \<^bold>\<open>Interrupts.\<close> Handlers and system calls are atomic, in the order the code runs them with interrupts
  disabled; a wait is the point where interrupts are taken. Preemption inside a system call that runs
  with interrupts enabled is not modelled.

  \<^bold>\<open>Parameters.\<close> The addresses the linker and the compiler choose (tables, handlers, string literals,
  local variables on the kernel stack) are arguments, with the hypotheses that they lie in kernel
  memory and apart from each other. What a started program does is a parameter of the shell.

  \<^bold>\<open>Not modelled.\<close> Register saving and the interrupt return in the assembly entry points
  (\<^verbatim>\<open>idt_linkage.S\<close>, \<^verbatim>\<open>boot.S\<close>, \<^verbatim>\<open>x86_desc.S\<close>), which have no state of their own; the system calls for
  signals, which the kernel leaves empty; the programs \<open>pingpong\<close>, \<open>sigtest\<close> and
  \<open>fish\<close> and the emulation of the system calls on Linux; segment limits and privilege levels beyond the
  user bit of a page; caches and the translation buffer, which every change of the tables flushes.
\<close>

section \<open>A command from start to end\<close>

lemma tasks_wf_phys [simp]: "tasks_wf (s\<lparr>phys := m\<rparr>) = tasks_wf s"
proof -
  have pd: "pd_ready (s\<lparr>phys := m\<rparr>) q = pd_ready s q" for q by (rule pd_ready_cong) simp_all
  show ?thesis unfolding tasks_wf_def console_ok_def cursor_ok_def pd by simp
qed

text \<open>
  C2. A command from start to end. A process executes a command line; the program asks for its
  arguments and halts. The program finds exactly the arguments of the line in its buffer, and after the
  halt the caller runs again in its own address space, on the stack pointer it had when it called, with
  the exit code; its memory and every other process are as before and the child's process number is
  free again.
\<close>

theorem command_round_trip:
  assumes fs: "fs_mounted s" "tasks_wf s" and fr: "frame_ok s fr p"
    and str: "strlen (vmem s) fname = Some n" "usr_ptr_ok fname n"
    and l: "line_at (vmem s) fname l" "length l \<le> 127" "l \<noteq> []"
    and d: "disjoint_regions (exec_at fr) 128 fname (length l + 1)" "disjoint_regions (args_at fr) 128 fname (length l + 1)"
    and c: "program_at (vmem s) (zbigfs_start s) (word_of l) c"
    and ep: "ep = le32 (take 4 (drop 24 c))" "ep \<noteq> 1" "ep \<noteq> - 1"
    and p: "4 \<le> p" "p \<le> MAX_PID" "\<not> present (pcbs s p)" "\<forall>j. 0 < j \<and> j < p \<longrightarrow> present (pcbs s j)"
    and q: "q = current_process s" "0 < q" "q \<le> MAX_PID" "present (pcbs s q)"
    and buf: "0x8000000 \<le> unat buf" "unat buf + 128 \<le> 0x8400000"
  shows "\<exists>s1 s2 s3. execute w fr sp fname s = Some (s1, Enter ep) \<and>
    syscall_getargs buf 128 s1 = (s2, 0) \<and> rd_bytes (vmem s2) buf 128 = pad_nul 128 (args_of l) \<and>
    halt code s2 = (s3, Return_to sp code) \<and> current_process s3 = q \<and> cr3 s3 = q \<and> tasks_wf s3 \<and>
    (\<forall>a \<in> user_frame q. phys s3 a = phys s a) \<and> \<not> present (pcbs s3 p) \<and>
    (\<forall>r. r \<noteq> p \<longrightarrow> r \<noteq> q \<longrightarrow> pcbs s3 r = pcbs s r)"
proof -
  have ne: "q \<noteq> p" using p(3) q(4) by auto
  have p0: "0 < p" using p(1) by simp
  obtain s1 where s1: "execute w fr sp fname s = Some (s1, Enter ep)" "current_process s1 = p" "cr3 s1 = p" "tasks_wf s1"
    "rd_bytes (vmem s1) (pcb_cmdstring p) 128 = pad_nul 128 (args_of l)"
    "pcbs s1 = (pcbs s)(p := \<lparr>esp = 0, parent = q, pcb_files = std_files, present = True\<rparr>, q := (pcbs s q)\<lparr>esp := sp\<rparr>)"
    "\<forall>a. a \<notin> kernel_frame \<longrightarrow> a \<notin> user_frame p \<longrightarrow> phys s1 a = phys s a"
    using execute_eq [OF fs fr str l d c ep p0 p(2-4) q(1) ne, of w sp] by blast
  define xs where "xs = pad_nul 128 (args_of l)"
  define s2 where "s2 = s1\<lparr>phys := wr_bytes (phys s1) (user_phys s1 buf) xs\<rparr>"
  have la: "length (args_of l) \<le> 127" "length xs = 128" using length_words(2) [of l] l(2) by (simp_all add: xs_def)
  have ok: "paging_ok s1" "cr3 s1 \<noteq> 0" using tasks_wfD(1) [OF s1(4)] s1(3) p(1) by simp_all
  have ga: "syscall_getargs buf 128 s1 = (s2, 0)"
    using getargs_eq [OF ok s1(2) [symmetric] p(2) s1(5) line_words(2) [OF l(1)] la(1) buf refl] la(1) by (simp add: s2_def xs_def)
  have s2: "tasks_wf s2" "p = current_process s2" "q = parent (pcbs s2 p)" "esp (pcbs s2 q) = sp" "pcbs s2 = pcbs s1"
    using s1 ne by (simp_all add: s2_def)
  have "present (pcbs s1 q)" using s1(6) q(4) by simp
  then have pd: "pd_ready s2 q" using s2(1,5) q(2,3) by (auto simp: tasks_wf_def)
  obtain s3 where s3: "halt code s2 = (s3, Return_to sp code)" "current_process s3 = q" "cr3 s3 = q" "tasks_wf s3" "phys s3 = phys s2"
    "\<not> present (pcbs s3 p)" "\<forall>r. r \<noteq> p \<longrightarrow> pcbs s3 r = pcbs s2 r"
    using halt_eq [OF s2(1,2) p(1) s2(3) ne pd, of code] s2(4) by auto
  have "phys s3 a = phys s a" if a: "a \<in> user_frame q" for a
  proof -
    have "a \<notin> kernel_frame" "a \<notin> user_frame p"
      using a kernel_frame_user_frame [of q] user_frames_disjoint [of q p] q(2,3) p(1,2) ne by (auto simp: MAX_PID_def)
    then show ?thesis using s1(7) getargs_view(2) [OF ok la(2) buf, of a] s1(3) s3(5) by (simp add: s2_def)
  qed
  then show ?thesis
    using s1(1,6) ga s3 s2(5) getargs_view(1) [OF ok la(2) buf]
    by (intro exI [of _ s1] exI [of _ s2] exI [of _ s3]) (simp add: s2_def xs_def del: rd_bytes_numeral)
qed

theorem command_round_trip_witness:
  "\<exists>s1 s2 s3. execute idle_world demo_frame 0x7F7F00 0x8000000 (demo_shell 3) = Some (s1, Enter 0x8048010) \<and>
     syscall_getargs 0x8000100 128 s1 = (s2, 0) \<and> rd_bytes (vmem s2) 0x8000100 128 = pad_nul 128 [0x78] \<and>
     halt 5 s2 = (s3, Return_to 0x7F7F00 5) \<and> current_process s3 = 3"
proof -
  have n: "0 < (3 :: nat)" "3 < (4 :: nat)" "(3 :: nat) + 1 = 4" by simp_all
  note r = demo_shell_ready [OF n(1,2), unfolded n(3)]
  have a: "args_of (str ''shell x'') = [0x78]" by (simp add: args_of_def str_def)
  have "present (pcbs (demo_shell 3) 3)" using r(14) by simp
  then show ?thesis
    using command_round_trip [OF r(1-12) _ _ _ _ r(13-15), of "0x8000100" idle_world "0x7F7F00" 5] a
    by (force simp: MAX_PID_def simp del: rd_bytes_numeral)
qed

end
